(* ===== verification/Prelude.thy ===== *)
theory Prelude
  imports Complex_Main "HOL-Library.Char_ord" "HOL-Library.List_Lexorder"
    "HOL-Library.Code_Target_Nat"
begin

text \<open>
  Shared vocabulary of the development: the result type that carries a thrown exception,
  the state-and-exception computations the interpreter is written with, the named
  collections the component theories add their rewrite rules to, and generic facts on
  lists, results and powers of two.
\<close>

section \<open>Results: a value or a thrown exception\<close>

text \<open>
  A TypeScript function that may throw returns \<open>'e + 'a\<close>: \<open>Inl\<close> is the exception,
  \<open>Inr\<close> the returned value. \<open>rbind\<close> is sequencing: what follows a throw is not run.
\<close>

type_synonym ('e, 'a) result = "'e + 'a"

definition rbind :: "('e, 'a) result \<Rightarrow> ('a \<Rightarrow> ('e, 'b) result) \<Rightarrow> ('e, 'b) result" where
  "rbind r f = (case r of Inl e \<Rightarrow> Inl e | Inr a \<Rightarrow> f a)"

definition isOk :: "('e, 'a) result \<Rightarrow> bool" where
  "isOk r = (case r of Inl _ \<Rightarrow> False | Inr _ \<Rightarrow> True)"

text \<open>A \<open>guard\<close> is the source's \<open>if (bad) throw e\<close>.\<close>

definition guard :: "bool \<Rightarrow> 'e \<Rightarrow> ('e, unit) result" where
  "guard ok e = (if ok then Inr () else Inl e)"

named_theorems result_simps \<open>rewrite rules for results and computations\<close>

lemma rbind_Inl [simp, result_simps]: "rbind (Inl e) f = Inl e"
  by (simp add: rbind_def)

lemma rbind_Inr [simp, result_simps]: "rbind (Inr a) f = f a"
  by (simp add: rbind_def)

lemma isOk_simps [simp, result_simps]: "isOk (Inl e) = False" "isOk (Inr a) = True"
  by (simp_all add: isOk_def)

lemma guard_simps [simp, result_simps]: "guard True e = Inr ()" "guard False e = Inl e"
  by (simp_all add: guard_def)

lemma guard_eq_Inr_iff [simp]: "guard ok e = Inr u \<longleftrightarrow> ok"
  by (simp add: guard_def)

lemma guard_eq_Inl_iff [simp]: "guard ok e = Inl e' \<longleftrightarrow> \<not> ok \<and> e' = e"
  by (auto simp: guard_def)

lemma rbind_eq_Inr_iff: "rbind r f = Inr b \<longleftrightarrow> (\<exists>a. r = Inr a \<and> f a = Inr b)"
  by (cases r) auto

lemma rbind_eq_Inl_iff:
  "rbind r f = Inl e \<longleftrightarrow> r = Inl e \<or> (\<exists>a. r = Inr a \<and> f a = Inl e)"
  by (cases r) auto

lemma rbind_InrE [elim]:
  assumes "rbind r f = Inr b"
  obtains a where "r = Inr a" "f a = Inr b"
  using assms by (auto simp: rbind_eq_Inr_iff)

lemma rbind_assoc: "rbind (rbind r f) g = rbind r (\<lambda>a. rbind (f a) g)"
  by (cases r) auto

text \<open>The function package evaluates the continuation only on the value returned.\<close>

lemma rbind_cong [fundef_cong]:
  assumes "r = r'" and "\<And>a. r' = Inr a \<Longrightarrow> f a = f' a"
  shows "rbind r f = rbind r' f'"
  using assms by (cases r') auto

section \<open>Computations: explicit state with exceptions\<close>

text \<open>
  A method that reads and writes the fields of its object and may throw is a function from
  the fields to a result and the new fields. The state of a computation that threw is
  dropped: the source discards the object on every path that catches the exception.
\<close>

type_synonym ('s, 'e, 'a) comp = "'s \<Rightarrow> ('e, 'a \<times> 's) result"

definition return :: "'a \<Rightarrow> ('s, 'e, 'a) comp" where
  "return a = (\<lambda>s. Inr (a, s))"

definition throw :: "'e \<Rightarrow> ('s, 'e, 'a) comp" where
  "throw e = (\<lambda>s. Inl e)"

definition cbind :: "('s, 'e, 'a) comp \<Rightarrow> ('a \<Rightarrow> ('s, 'e, 'b) comp) \<Rightarrow> ('s, 'e, 'b) comp" where
  "cbind m f = (\<lambda>s. rbind (m s) (\<lambda>(a, s'). f a s'))"

definition modify :: "('s \<Rightarrow> 's) \<Rightarrow> ('s, 'e, unit) comp" where
  "modify g = (\<lambda>s. Inr ((), g s))"

definition gets :: "('s \<Rightarrow> 'a) \<Rightarrow> ('s, 'e, 'a) comp" where
  "gets f = (\<lambda>s. Inr (f s, s))"

definition lift :: "('e, 'a) result \<Rightarrow> ('s, 'e, 'a) comp" where
  "lift r = (\<lambda>s. rbind r (\<lambda>a. Inr (a, s)))"

lemma comp_apply [simp, result_simps]:
  "return a s = Inr (a, s)" "throw e s = Inl e" "modify g s = Inr ((), g s)"
  "gets h s = Inr (h s, s)" "lift (Inr a) s = Inr (a, s)" "lift (Inl e) s = Inl e"
  by (simp_all add: return_def throw_def modify_def gets_def lift_def)

lemma cbind_apply: "cbind m f s = (case m s of Inl e \<Rightarrow> Inl e | Inr (a, s') \<Rightarrow> f a s')"
  by (auto simp: cbind_def split: sum.splits)

lemma cbind_simps [simp, result_simps]:
  "cbind (return a) f = f a" "cbind (throw e) f = throw e"
  by (auto simp: cbind_def fun_eq_iff)

lemma cbind_assoc: "cbind (cbind m f) g = cbind m (\<lambda>a. cbind (f a) g)"
  by (auto simp: cbind_def fun_eq_iff rbind_def split: sum.splits)

lemma cbind_eq_Inr_iff:
  "cbind m f s = Inr r \<longleftrightarrow> (\<exists>a s'. m s = Inr (a, s') \<and> f a s' = Inr r)"
  by (auto simp: cbind_def rbind_eq_Inr_iff)

lemma cbind_eq_Inl_iff:
  "cbind m f s = Inl e \<longleftrightarrow> m s = Inl e \<or> (\<exists>a s'. m s = Inr (a, s') \<and> f a s' = Inl e)"
  by (auto simp: cbind_def rbind_eq_Inl_iff)

lemma lift_eq_Inr_iff [simp]: "lift r s = Inr (a, s') \<longleftrightarrow> r = Inr a \<and> s' = s"
  by (cases r) auto

lemma lift_eq_Inl_iff [simp]: "lift r s = Inl e \<longleftrightarrow> r = Inl e"
  by (cases r) auto

lemma cbind_cong [fundef_cong]:
  assumes "m s = m' s'" and "\<And>a t. m' s' = Inr (a, t) \<Longrightarrow> f a t = f' a t"
  shows "cbind m f s = cbind m' f' s'"
  using assms by (auto simp: cbind_def intro!: rbind_cong)

text \<open>
  What a computation guarantees from states that satisfy a precondition: \<open>Q\<close> of the value and
  the new state when it returns, \<open>X\<close> of the exception when it throws.
\<close>

definition triple :: "('s \<Rightarrow> bool) \<Rightarrow> ('s, 'e, 'a) comp \<Rightarrow> ('a \<Rightarrow> 's \<Rightarrow> bool) \<Rightarrow> ('e \<Rightarrow> bool) \<Rightarrow> bool" where
  "triple P m Q X \<longleftrightarrow> (\<forall>s. P s \<longrightarrow> (case m s of Inl e \<Rightarrow> X e | Inr (a, s') \<Rightarrow> Q a s'))"

named_theorems triple_intros \<open>introduction rules for computations\<close>

lemma triple_return [triple_intros]: "(\<And>s. P s \<Longrightarrow> Q a s) \<Longrightarrow> triple P (return a) Q X"
  by (simp add: triple_def)

lemma triple_throw [triple_intros]: "X e \<Longrightarrow> triple P (throw e) Q X"
  by (simp add: triple_def)

lemma triple_lift [triple_intros]:
  "\<lbrakk>\<And>e. r = Inl e \<Longrightarrow> X e; \<And>a s. r = Inr a \<Longrightarrow> P s \<Longrightarrow> Q a s\<rbrakk> \<Longrightarrow> triple P (lift r) Q X"
  by (cases r) (auto simp: triple_def)

lemma triple_modify [triple_intros]: "(\<And>s. P s \<Longrightarrow> Q () (g s)) \<Longrightarrow> triple P (modify g) Q X"
  by (simp add: triple_def)

lemma triple_gets [triple_intros]: "(\<And>s. P s \<Longrightarrow> Q (f s) s) \<Longrightarrow> triple P (gets f) Q X"
  by (simp add: triple_def)

lemma triple_cbind:
  "\<lbrakk>triple P m R X; \<And>a. triple (R a) (f a) Q X\<rbrakk> \<Longrightarrow> triple P (cbind m f) Q X"
proof -
  assume m: "triple P m R X" and f: "\<And>a. triple (R a) (f a) Q X"
  have "case cbind m f s of Inl e \<Rightarrow> X e | Inr (a, s') \<Rightarrow> Q a s'" if "P s" for s
  proof (cases "m s")
    case (Inl e)
    with m that show ?thesis by (auto simp: triple_def cbind_apply)
  next
    case (Inr r)
    obtain a s' where r: "r = (a, s')" by (cases r)
    with Inr m that have "R a s'" by (auto simp: triple_def)
    with f Inr r show ?thesis by (auto simp: triple_def cbind_apply)
  qed
  then show ?thesis by (simp add: triple_def)
qed

text \<open>The case of an invariant: what precedes and what follows keep the same predicate.\<close>

lemma triple_seq [triple_intros]:
  "\<lbrakk>triple P m (\<lambda>_. P) X; \<And>a. triple P (f a) Q X\<rbrakk> \<Longrightarrow> triple P (cbind m f) Q X"
  by (rule triple_cbind)

lemma triple_Inr: "\<lbrakk>triple P m Q X; P s; m s = Inr (a, s')\<rbrakk> \<Longrightarrow> Q a s'"
  by (fastforce simp: triple_def)

lemma triple_Inl: "\<lbrakk>triple P m Q X; P s; m s = Inl e\<rbrakk> \<Longrightarrow> X e"
  by (fastforce simp: triple_def)

lemma tripleI:
  "\<lbrakk>\<And>s a s'. P s \<Longrightarrow> m s = Inr (a, s') \<Longrightarrow> Q a s'; \<And>s e. P s \<Longrightarrow> m s = Inl e \<Longrightarrow> X e\<rbrakk> \<Longrightarrow> triple P m Q X"
  by (auto simp: triple_def split: sum.splits)

text \<open>
  Two computations that run in step: from related states both throw the same exception, or
  both return the same value in related states.
\<close>

definition inStep :: "('s \<Rightarrow> 't \<Rightarrow> bool) \<Rightarrow> ('s, 'e, 'a) comp \<Rightarrow> ('t, 'e, 'a) comp \<Rightarrow> bool" where
  "inStep R m m' \<longleftrightarrow> (\<forall>s t. R s t \<longrightarrow>
     (case m s of
        Inl e \<Rightarrow> m' t = Inl e
      | Inr (a, s') \<Rightarrow> (\<exists>t'. m' t = Inr (a, t') \<and> R s' t')))"

named_theorems step_intros \<open>introduction rules for computations that run in step\<close>

lemma inStep_return [step_intros]: "inStep R (return a) (return a)"
  by (simp add: inStep_def)

lemma inStep_throw [step_intros]: "inStep R (throw e) (throw e)"
  by (simp add: inStep_def)

lemma inStep_lift [step_intros]: "r = r' \<Longrightarrow> inStep R (lift r) (lift r')"
  by (cases r) (auto simp: inStep_def)

lemma inStep_modify: "(\<And>s t. R s t \<Longrightarrow> R (g s) (g' t)) \<Longrightarrow> inStep R (modify g) (modify g')"
  by (simp add: inStep_def)

lemma inStep_gets: "(\<And>s t. R s t \<Longrightarrow> f s = f' t) \<Longrightarrow> inStep R (gets f) (gets f')"
  by (simp add: inStep_def)

lemma inStep_if [step_intros]:
  "\<lbrakk>P \<Longrightarrow> inStep R a a'; \<not> P \<Longrightarrow> inStep R b b'\<rbrakk> \<Longrightarrow> inStep R (if P then a else b) (if P then a' else b')"
  by simp

lemma inStep_cbind [step_intros]:
  assumes "inStep R m m'" "\<And>a. inStep R (f a) (f' a)"
  shows "inStep R (cbind m f) (cbind m' f')"
  unfolding inStep_def
proof (intro allI impI)
  fix s t
  assume R: "R s t"
  show "case cbind m f s of Inl e \<Rightarrow> cbind m' f' t = Inl e
    | Inr (a, s') \<Rightarrow> (\<exists>t'. cbind m' f' t = Inr (a, t') \<and> R s' t')"
  proof (cases "m s")
    case (Inl e)
    then have "m' t = Inl e" using assms(1) R by (fastforce simp: inStep_def)
    with Inl show ?thesis by (simp add: cbind_apply)
  next
    case (Inr r)
    obtain a s' where r: "r = (a, s')" by (cases r)
    with Inr assms(1) R obtain t' where "m' t = Inr (a, t')" "R s' t'"
      by (fastforce simp: inStep_def)
    then have eqs: "cbind m' f' t = f' a t'" "cbind m f s = f a s'" and "R s' t'"
      using Inr r by (simp_all add: cbind_apply)
    with assms(2) [of a] show ?thesis unfolding inStep_def eqs by blast
  qed
qed

lemma inStep_Inr: "\<lbrakk>inStep R m m'; R s t; m s = Inr (a, s')\<rbrakk> \<Longrightarrow> \<exists>t'. m' t = Inr (a, t') \<and> R s' t'"
  by (fastforce simp: inStep_def)

lemma inStep_Inl: "\<lbrakk>inStep R m m'; R s t; m s = Inl e\<rbrakk> \<Longrightarrow> m' t = Inl e"
  by (fastforce simp: inStep_def)

section \<open>Lists\<close>

text \<open>\<open>array.find\<close> and \<open>array.findIndex\<close>.\<close>

fun findIndex :: "('a \<Rightarrow> bool) \<Rightarrow> 'a list \<Rightarrow> nat option" where
  "findIndex P [] = None"
| "findIndex P (x # xs) = (if P x then Some 0 else map_option Suc (findIndex P xs))"

lemma findIndex_Some_iff:
  "findIndex P xs = Some i \<longleftrightarrow> i < length xs \<and> P (xs ! i) \<and> (\<forall>j<i. \<not> P (xs ! j))"
proof (induction xs arbitrary: i)
  case Nil
  show ?case by simp
next
  case (Cons x xs)
  show ?case
    by (cases i) (auto simp: Cons.IH nth_Cons split: nat.splits)
qed

lemma findIndex_None_iff: "findIndex P xs = None \<longleftrightarrow> (\<forall>x\<in>set xs. \<not> P x)"
  by (induction xs) auto

text \<open>\<open>array.join(sep)\<close> and \<open>source.slice(i, j)\<close> for \<open>0 \<le> i\<close>.\<close>

fun joinWith :: "'a list \<Rightarrow> 'a list list \<Rightarrow> 'a list" where
  "joinWith sep [] = []"
| "joinWith sep [x] = x"
| "joinWith sep (x # y # zs) = x @ sep @ joinWith sep (y # zs)"

text \<open>\<open>text.split(sep)\<close> for a separator of one character.\<close>

fun splitOn :: "'a \<Rightarrow> 'a list \<Rightarrow> 'a list list" where
  "splitOn sep [] = [[]]"
| "splitOn sep (c # s) =
     (if c = sep then [] # splitOn sep s
      else case splitOn sep s of p # ps \<Rightarrow> (c # p) # ps | [] \<Rightarrow> [[c]])"

lemma splitOn_nonempty [simp]: "splitOn sep s \<noteq> []"
  by (cases s) (auto split: list.splits)

lemma splitOn_segment: "sep \<notin> set p \<Longrightarrow> splitOn sep p = [p]"
  by (induction p) auto

lemma splitOn_cons: "sep \<notin> set p \<Longrightarrow> splitOn sep (p @ sep # s) = p # splitOn sep s"
  by (induction p) auto

lemma splitOn_joinWith:
  "\<lbrakk>ps \<noteq> []; \<forall>p\<in>set ps. sep \<notin> set p\<rbrakk> \<Longrightarrow> splitOn sep (joinWith [sep] ps) = ps"
  by (induction "[sep]" ps rule: joinWith.induct) (auto simp: splitOn_segment splitOn_cons)

lemma joinWith_nonempty: "\<lbrakk>ps \<noteq> []; hd ps \<noteq> []\<rbrakk> \<Longrightarrow> joinWith sep ps \<noteq> []"
  by (cases "(sep, ps)" rule: joinWith.cases) auto

lemma joinWith_splitOn: "joinWith [sep] (splitOn sep s) = s"
proof (induction s)
  case (Cons c s)
  then show ?case by (cases "splitOn sep s" rule: list.exhaust; cases "tl (splitOn sep s)") auto
qed simp

lemma splitOn_parts: "p \<in> set (splitOn sep s) \<Longrightarrow> sep \<notin> set p \<and> set p \<subseteq> set s"
  by (induction s arbitrary: p) (fastforce split: if_splits list.splits)+

definition slice :: "'a list \<Rightarrow> nat \<Rightarrow> nat \<Rightarrow> 'a list" where
  "slice xs i j = take (j - i) (drop i xs)"

lemma length_slice [simp]: "length (slice xs i j) = min (j - i) (length xs - i)"
  by (simp add: slice_def min.commute)

lemma slice_full [simp]: "slice xs 0 (length xs) = xs"
  by (simp add: slice_def)

section \<open>Powers of two with integer exponents\<close>

lemma powi2_pos [simp]: "0 < (2::rat) powi e"
  by (simp add: zero_less_power_int)

lemma powi2_not_neg [simp]: "\<not> (2::rat) powi e < 0"
  using powi2_pos [of e] by linarith

lemma powi2_nonzero [simp]: "(2::rat) powi e \<noteq> 0"
  by simp

lemma powi2_add: "(2::rat) powi (a + b) = 2 powi a * 2 powi b"
  by (simp add: power_int_add)

lemma powi2_diff: "(2::rat) powi (a - b) = 2 powi a / 2 powi b"
  by (simp add: power_int_diff)

lemma powi2_le_iff [simp]: "(2::rat) powi a \<le> 2 powi b \<longleftrightarrow> a \<le> b"
  by (meson linorder_not_le one_less_numeral_iff power_int_strict_increasing
      power_int_increasing one_le_numeral semiring_norm(76))

lemma powi2_less_iff [simp]: "(2::rat) powi a < 2 powi b \<longleftrightarrow> a < b"
  by (simp add: linorder_not_le [symmetric])

lemma powi2_nonneg_int: "0 \<le> e \<Longrightarrow> \<exists>k. (2::rat) powi e = of_int k"
  by (rule exI [of _ "2 ^ nat e"]) (simp add: power_int_def)

end
