(* ===== verification/JsNumber.thy ===== *)
theory JsNumber
  imports Prelude
begin

text \<open>
  JavaScript numbers: IEEE 754 binary64 values with round-to-nearest, ties-to-even. A finite
  value is kept as the rational it denotes; every operation computes the exact rational
  result and rounds it once, as the standard prescribes. The two zeros, the infinities and
  NaN are constructors. The lemmas show that rounding is exact on representable values,
  monotone and sign preserving, and that integer arithmetic is exact up to
  \<open>Number.MAX_SAFE_INTEGER\<close>.
\<close>

datatype jsnum = NaN | PInf | NInf | NegZero | Fin rat

section \<open>Rounding\<close>

fun bits :: "int \<Rightarrow> int" where
  "bits n = (if n \<le> 0 then 0 else 1 + bits (n div 2))"

declare bits.simps [simp del]

text \<open>The exponent of the binade of a positive rational.\<close>

definition ilog2 :: "rat \<Rightarrow> int" where
  "ilog2 a =
     (let (n, d) = quotient_of a; k = bits n - bits d
      in if 2 powi k \<le> a then k else k - 1)"

text \<open>The nearest integer, ties to even.\<close>

definition rhe :: "rat \<Rightarrow> int" where
  "rhe q =
     (let f = \<lfloor>q\<rfloor>; r = q - of_int f
      in if r < 1 / 2 then f else if 1 / 2 < r then f + 1 else if even f then f else f + 1)"

text \<open>The exponent of the unit in the last place of the result of rounding \<open>a > 0\<close>.\<close>

definition ulpExp :: "rat \<Rightarrow> int" where
  "ulpExp a = max (ilog2 a - 52) (- 1074)"

definition roundAbs :: "rat \<Rightarrow> rat" where
  "roundAbs a = of_int (rhe (a / 2 powi ulpExp a)) * 2 powi ulpExp a"

definition toDouble :: "rat \<Rightarrow> jsnum" where
  "toDouble x =
     (if x = 0 then Fin 0
      else let v = roundAbs \<bar>x\<bar>
           in if 2 ^ 1024 \<le> v then (if 0 < x then PInf else NInf)
              else if v = 0 then (if 0 < x then Fin 0 else NegZero)
              else Fin (if 0 < x then v else - v))"

section \<open>Operators and the Number and Math functions the source uses\<close>

definition isNegative :: "jsnum \<Rightarrow> bool" where
  "isNegative x = (case x of NInf \<Rightarrow> True | NegZero \<Rightarrow> True | Fin r \<Rightarrow> r < 0 | _ \<Rightarrow> False)"

fun isFinite :: "jsnum \<Rightarrow> bool" where
  "isFinite (Fin r) = True"
| "isFinite NegZero = True"
| "isFinite _ = False"

text \<open>The mathematical value of a finite number; both zeros denote 0.\<close>

fun valOf :: "jsnum \<Rightarrow> rat" where
  "valOf (Fin r) = r"
| "valOf _ = 0"

definition signedZero :: "bool \<Rightarrow> jsnum" where
  "signedZero neg = (if neg then NegZero else Fin 0)"

definition signedInf :: "bool \<Rightarrow> jsnum" where
  "signedInf neg = (if neg then NInf else PInf)"

fun js_neg :: "jsnum \<Rightarrow> jsnum" where
  "js_neg NaN = NaN"
| "js_neg PInf = NInf"
| "js_neg NInf = PInf"
| "js_neg NegZero = Fin 0"
| "js_neg (Fin r) = (if r = 0 then NegZero else Fin (- r))"

definition js_add :: "jsnum \<Rightarrow> jsnum \<Rightarrow> jsnum" where
  "js_add x y =
     (if x = NaN \<or> y = NaN then NaN
      else if \<not> isFinite x then (if isFinite y \<or> x = y then x else NaN)
      else if \<not> isFinite y then y
      else if x = NegZero \<and> y = NegZero then NegZero
      else toDouble (valOf x + valOf y))"

definition js_sub :: "jsnum \<Rightarrow> jsnum \<Rightarrow> jsnum" where
  "js_sub x y = js_add x (js_neg y)"

definition js_mul :: "jsnum \<Rightarrow> jsnum \<Rightarrow> jsnum" where
  "js_mul x y =
     (let neg = (isNegative x \<noteq> isNegative y)
      in if x = NaN \<or> y = NaN then NaN
         else if \<not> isFinite x \<or> \<not> isFinite y
           then (if isFinite x \<and> valOf x = 0 \<or> isFinite y \<and> valOf y = 0 then NaN
                 else signedInf neg)
         else if valOf x = 0 \<or> valOf y = 0 then signedZero neg
         else toDouble (valOf x * valOf y))"

definition js_div :: "jsnum \<Rightarrow> jsnum \<Rightarrow> jsnum" where
  "js_div x y =
     (let neg = (isNegative x \<noteq> isNegative y)
      in if x = NaN \<or> y = NaN then NaN
         else if \<not> isFinite x then (if isFinite y then signedInf neg else NaN)
         else if \<not> isFinite y then signedZero neg
         else if valOf y = 0 then (if valOf x = 0 then NaN else signedInf neg)
         else if valOf x = 0 then signedZero neg
         else toDouble (valOf x / valOf y))"

text \<open>The remainder \<open>%\<close> truncates: the result has the sign of the dividend.\<close>

definition truncRat :: "rat \<Rightarrow> int" where
  "truncRat q = (if 0 \<le> q then \<lfloor>q\<rfloor> else \<lceil>q\<rceil>)"

definition js_rem :: "jsnum \<Rightarrow> jsnum \<Rightarrow> jsnum" where
  "js_rem x y =
     (if x = NaN \<or> y = NaN \<or> \<not> isFinite x then NaN
      else if \<not> isFinite y then x
      else if valOf y = 0 then NaN
      else if valOf x = 0 then x
      else let r = valOf x - valOf y * of_int (truncRat (valOf x / valOf y))
           in if r = 0 then signedZero (isNegative x) else Fin r)"

text \<open>The order of the extended line; \<open>NaN\<close> compares false with everything.\<close>

fun js_lt :: "jsnum \<Rightarrow> jsnum \<Rightarrow> bool" where
  "js_lt NaN _ = False"
| "js_lt _ NaN = False"
| "js_lt PInf _ = False"
| "js_lt _ NInf = False"
| "js_lt NInf _ = True"
| "js_lt _ PInf = True"
| "js_lt x y = (valOf x < valOf y)"

text \<open>\<open>===\<close> on numbers: the zeros are equal, \<open>NaN\<close> is not equal to itself.\<close>

definition js_eq :: "jsnum \<Rightarrow> jsnum \<Rightarrow> bool" where
  "js_eq x y = (x \<noteq> NaN \<and> (x = y \<or> isFinite x \<and> isFinite y \<and> valOf x = valOf y))"

definition js_le :: "jsnum \<Rightarrow> jsnum \<Rightarrow> bool" where
  "js_le x y = (js_lt x y \<or> js_eq x y)"

definition js_min :: "jsnum \<Rightarrow> jsnum \<Rightarrow> jsnum" where
  "js_min x y =
     (if x = NaN \<or> y = NaN then NaN
      else if js_eq x y then (if isNegative x then x else y)
      else if js_lt x y then x else y)"

definition js_max :: "jsnum \<Rightarrow> jsnum \<Rightarrow> jsnum" where
  "js_max x y =
     (if x = NaN \<or> y = NaN then NaN
      else if js_eq x y then (if isNegative x then y else x)
      else if js_lt x y then y else x)"

fun js_abs :: "jsnum \<Rightarrow> jsnum" where
  "js_abs NaN = NaN"
| "js_abs PInf = PInf"
| "js_abs NInf = PInf"
| "js_abs NegZero = Fin 0"
| "js_abs (Fin r) = Fin \<bar>r\<bar>"

fun js_floor :: "jsnum \<Rightarrow> jsnum" where
  "js_floor (Fin r) = Fin (of_int \<lfloor>r\<rfloor>)"
| "js_floor x = x"

fun js_ceil :: "jsnum \<Rightarrow> jsnum" where
  "js_ceil (Fin r) = (if \<lceil>r\<rceil> = 0 then signedZero (r < 0) else Fin (of_int \<lceil>r\<rceil>))"
| "js_ceil x = x"

definition isInteger :: "jsnum \<Rightarrow> bool" where
  "isInteger x = (isFinite x \<and> of_int \<lfloor>valOf x\<rfloor> = valOf x)"

definition maxSafe :: int where
  "maxSafe = 9007199254740991"

definition isSafeInteger :: "jsnum \<Rightarrow> bool" where
  "isSafeInteger x = (isInteger x \<and> \<bar>valOf x\<bar> \<le> of_int maxSafe)"

definition ofInt :: "int \<Rightarrow> jsnum" where
  "ofInt n = Fin (of_int n)"

text \<open>The values a program can hold: a finite value is one of the doubles.\<close>

fun isDouble :: "jsnum \<Rightarrow> bool" where
  "isDouble (Fin r) = (toDouble r = Fin r)"
| "isDouble _ = True"


section \<open>Facts about rounding\<close>

lemma bits_bounds:
  "0 < n \<Longrightarrow> 1 \<le> bits n \<and> 2 powi (bits n - 1) \<le> (of_int n :: rat) \<and> (of_int n :: rat) < 2 powi bits n"
proof (induction n rule: bits.induct)
  case (1 n)
  show ?case
  proof (cases "n div 2 \<le> 0")
    case True
    with "1.prems" have "n = 1" by arith
    then show ?thesis by (simp add: bits.simps)
  next
    case False
    have b: "bits n = 1 + bits (n div 2)" using "1.prems" by (simp add: bits.simps [of n])
    have ih: "1 \<le> bits (n div 2)"
        "2 powi (bits (n div 2) - 1) \<le> (of_int (n div 2) :: rat)"
        "(of_int (n div 2) :: rat) < 2 powi bits (n div 2)"
      using False "1.prems" "1.IH" by auto
    obtain k where k: "(2::rat) powi bits (n div 2) = of_int k"
      using ih(1) powi2_nonneg_int [of "bits (n div 2)"] by auto
    obtain j where j: "(2::rat) powi (bits (n div 2) - 1) = of_int j"
      using ih(1) powi2_nonneg_int [of "bits (n div 2) - 1"] by auto
    have "n div 2 < k" and "j \<le> n div 2" using ih(2,3) k j by simp_all
    then have "n < 2 * k" and "2 * j \<le> n" by arith+
    then have "(of_int n :: rat) < of_int (2 * k)" and "(of_int (2 * j) :: rat) \<le> of_int n"
      by (simp_all only: of_int_less_iff of_int_le_iff)
    moreover have "(2::rat) powi bits n = of_int (2 * k)"
      by (simp add: b k powi2_add)
    moreover have "(2::rat) powi (bits n - 1) = of_int (2 * j)"
      using powi2_add [of 1 "bits (n div 2) - 1"] by (simp add: b j)
    ultimately show ?thesis using ih(1) b by simp
  qed
qed

lemma ilog2_bounds:
  assumes "0 < a"
  shows "2 powi ilog2 a \<le> a" and "a < 2 powi (ilog2 a + 1)"
proof -
  obtain n d where q: "quotient_of a = (n, d)" by (cases "quotient_of a")
  have d: "0 < d" using quotient_of_denom_pos [OF q] .
  have a: "a = of_int n / of_int d" using quotient_of_div [OF q] .
  have n: "0 < n" using assms d unfolding a by (simp add: zero_less_divide_iff)
  note bn = bits_bounds [OF n] and bd = bits_bounds [OF d]
  have up: "a < 2 powi (bits n - bits d + 1)"
  proof -
    have "a < 2 powi bits n / of_int d" using bn d unfolding a by (simp add: divide_strict_right_mono)
    also have "\<dots> \<le> 2 powi bits n / 2 powi (bits d - 1)"
      using bd by (intro divide_left_mono) (auto simp: d)
    also have "\<dots> = 2 powi (bits n - bits d + 1)"
      by (simp add: powi2_diff [symmetric] algebra_simps)
    finally show ?thesis .
  qed
  have low: "2 powi (bits n - bits d - 1) \<le> a"
  proof -
    have "(2::rat) powi (bits n - bits d - 1) = 2 powi (bits n - 1) / 2 powi bits d"
      by (simp add: powi2_diff [symmetric] algebra_simps)
    also have "\<dots> \<le> of_int n / 2 powi bits d" using bn by (simp add: divide_right_mono)
    also have "\<dots> \<le> of_int n / of_int d" using bd d n by (intro divide_left_mono) auto
    finally show ?thesis by (simp add: a)
  qed
  show "2 powi ilog2 a \<le> a" and "a < 2 powi (ilog2 a + 1)"
    using up low by (auto simp: ilog2_def q Let_def)
qed

lemma ilog2_unique:
  assumes "2 powi e \<le> a" "a < 2 powi (e + 1)"
  shows "ilog2 a = e"
proof -
  have "0 < a" using assms(1) powi2_pos [of e] by linarith
  note b = ilog2_bounds [OF this]
  have "(2::rat) powi e < 2 powi (ilog2 a + 1)" "(2::rat) powi ilog2 a < 2 powi (e + 1)"
    using assms b by linarith+
  then show ?thesis by simp
qed

lemma ilog2_less: "\<lbrakk>0 < a; a < 2 powi e\<rbrakk> \<Longrightarrow> ilog2 a < e"
  using ilog2_bounds(1) [of a] by (metis order_le_less_trans powi2_less_iff)

lemma ilog2_ge: "\<lbrakk>2 powi e \<le> a\<rbrakk> \<Longrightarrow> e \<le> ilog2 a"
  using ilog2_bounds(2) [of a] powi2_pos [of e]
  by (metis linorder_not_le order_le_less_trans order_less_le_trans powi2_less_iff zless_add1_eq
      less_le)

lemma rhe_of_int [simp]: "rhe (of_int n) = n"
  by (simp add: rhe_def)

lemma rhe_close: "\<bar>of_int (rhe q) - q\<bar> \<le> 1 / 2"
proof -
  have "0 \<le> q - of_int \<lfloor>q\<rfloor>" "q - of_int \<lfloor>q\<rfloor> < 1" by linarith+
  then show ?thesis by (auto simp: rhe_def Let_def)
qed

lemma rhe_floor_or: "rhe q = \<lfloor>q\<rfloor> \<or> rhe q = \<lfloor>q\<rfloor> + 1"
  by (simp add: rhe_def Let_def)

lemma rhe_mono: "p \<le> q \<Longrightarrow> rhe p \<le> rhe q"
proof (cases "\<lfloor>p\<rfloor> = \<lfloor>q\<rfloor>")
  case True
  assume "p \<le> q"
  with True show ?thesis by (auto simp: rhe_def Let_def)
next
  case False
  assume "p \<le> q"
  with False have "\<lfloor>p\<rfloor> + 1 \<le> \<lfloor>q\<rfloor>" using floor_mono [of p q] by simp
  then show ?thesis using rhe_floor_or [of p] rhe_floor_or [of q] by linarith
qed

lemma rhe_ge_of_int: "of_int n \<le> q \<Longrightarrow> n \<le> rhe q"
  using rhe_mono [of "of_int n" q] by simp

lemma rhe_le_of_int: "q \<le> of_int n \<Longrightarrow> rhe q \<le> n"
  using rhe_mono [of q "of_int n"] by simp

lemma roundAbs_nonneg: "0 < a \<Longrightarrow> 0 \<le> roundAbs a"
  unfolding roundAbs_def using rhe_ge_of_int [of 0 "a / 2 powi ulpExp a"]
  by (simp add: zero_le_mult_iff less_imp_le)

text \<open>Rounding is exact on every \<open>m * 2 ^ e\<close> with a 53-bit significand.\<close>

lemma roundAbs_exact:
  assumes "0 < m" "m \<le> 2 ^ 53" "- 1074 \<le> e"
  shows "roundAbs (of_int m * 2 powi e) = of_int m * 2 powi e"
proof -
  let ?r = "of_int m * (2::rat) powi e"
  have "\<exists>k. ?r / 2 powi ulpExp ?r = of_int k"
  proof (cases "ulpExp ?r \<le> e")
    case True
    then obtain j where "(2::rat) powi (e - ulpExp ?r) = of_int j"
      using powi2_nonneg_int [of "e - ulpExp ?r"] by auto
    then have "?r / 2 powi ulpExp ?r = of_int (m * j)"
      by (simp add: powi2_diff) (metis times_divide_eq_right)
    then show ?thesis ..
  next
    case False
    have "m = 2 ^ 53"
    proof (rule ccontr)
      assume "m \<noteq> 2 ^ 53"
      then have "(of_int m :: rat) < of_int (2 ^ 53)" using assms(2) by (simp only: of_int_less_iff)
      then have "?r < 2 powi (53 + e)" by (simp add: powi2_add)
      then have "ilog2 ?r < 53 + e" using assms(1) by (intro ilog2_less) simp_all
      then show False using False assms(3) by (simp add: ulpExp_def)
    qed
    then have r: "?r = 2 powi (53 + e)" by (simp add: powi2_add)
    have "ilog2 ?r = 53 + e" unfolding r by (rule ilog2_unique) simp_all
    then have "ulpExp ?r = 1 + e" using assms(3) by (simp add: ulpExp_def)
    then have "?r / 2 powi ulpExp ?r = of_int (2 ^ 52)"
      by (simp add: r powi2_add)
    then show ?thesis ..
  qed
  then obtain k where "?r / 2 powi ulpExp ?r = of_int k" ..
  then show ?thesis unfolding roundAbs_def by (metis rhe_of_int nonzero_divide_eq_eq powi2_nonzero)
qed

lemma roundAbs_upper: "\<lbrakk>0 < a; - 1074 \<le> e; a \<le> 2 powi e\<rbrakk> \<Longrightarrow> roundAbs a \<le> 2 powi e"
proof -
  assume a: "0 < a" "- 1074 \<le> e" "a \<le> 2 powi e"
  show ?thesis
  proof (cases "ulpExp a \<le> e")
    case True
    then obtain k where k: "(2::rat) powi (e - ulpExp a) = of_int k"
      using powi2_nonneg_int [of "e - ulpExp a"] by auto
    have "a / 2 powi ulpExp a \<le> 2 powi (e - ulpExp a)"
      using a(3) by (simp add: powi2_diff divide_right_mono)
    then have "rhe (a / 2 powi ulpExp a) \<le> k" unfolding k by (rule rhe_le_of_int)
    then have "roundAbs a \<le> of_int k * 2 powi ulpExp a"
      unfolding roundAbs_def by (simp add: mult_right_mono)
    also have "\<dots> = 2 powi e" by (simp add: k [symmetric] powi2_diff)
    finally show ?thesis .
  next
    case False
    with a(2) have "e + 52 < ilog2 a" by (simp add: ulpExp_def)
    then have "(2::rat) powi e < 2 powi ilog2 a" by simp
    with ilog2_bounds(1) [OF a(1)] a(3) show ?thesis by linarith
  qed
qed

lemma roundAbs_lower:
  assumes "2 powi e \<le> a" "- 1074 \<le> e"
  shows "2 powi e \<le> roundAbs a"
proof (cases "ulpExp a \<le> e")
  case True
  then obtain k where k: "(2::rat) powi (e - ulpExp a) = of_int k"
    using powi2_nonneg_int [of "e - ulpExp a"] by auto
  have "2 powi (e - ulpExp a) \<le> a / 2 powi ulpExp a"
    using assms(1) by (simp add: powi2_diff divide_right_mono)
  then have "k \<le> rhe (a / 2 powi ulpExp a)" unfolding k by (rule rhe_ge_of_int)
  then have "of_int k * 2 powi ulpExp a \<le> roundAbs a"
    unfolding roundAbs_def by (simp add: mult_right_mono)
  then show ?thesis by (simp add: k [symmetric] powi2_diff)
next
  case False
  have pos: "0 < a" using assms(1) powi2_pos [of e] by linarith
  from False assms(2) have u: "ulpExp a = ilog2 a - 52" by (simp add: ulpExp_def)
  have "2 powi 52 \<le> a / 2 powi ulpExp a"
    using ilog2_bounds(1) [OF pos] by (simp add: u powi2_diff field_simps)
  then have "2 ^ 52 \<le> rhe (a / 2 powi ulpExp a)" by (intro rhe_ge_of_int) simp
  then have "(of_int (2 ^ 52) :: rat) * 2 powi ulpExp a \<le> roundAbs a"
    unfolding roundAbs_def by (intro mult_right_mono) (simp_all only: of_int_le_iff, simp)
  moreover have "(of_int (2 ^ 52) :: rat) * 2 powi ulpExp a = 2 powi ilog2 a"
    by (simp add: u powi2_diff)
  moreover have "(2::rat) powi e \<le> 2 powi ilog2 a" using ilog2_ge [OF assms(1)] by simp
  ultimately show ?thesis by linarith
qed

lemma roundAbs_mono:
  assumes "0 < a" "a \<le> b"
  shows "roundAbs a \<le> roundAbs b"
proof (cases "ulpExp a = ulpExp b")
  case True
  have "rhe (a / 2 powi ulpExp b) \<le> rhe (b / 2 powi ulpExp b)"
    using assms(2) by (intro rhe_mono) (simp add: divide_right_mono)
  with True show ?thesis unfolding roundAbs_def by (simp add: mult_right_mono)
next
  case False
  have l: "ilog2 a \<le> ilog2 b" using ilog2_ge [of "ilog2 a" b] ilog2_bounds(1) [of a] assms by simp
  from l False have lt: "ilog2 a < ilog2 b" and b: "- 1074 < ilog2 b - 52"
    by (auto simp: ulpExp_def max_def split: if_splits)
  have "a \<le> 2 powi ilog2 b"
    using ilog2_bounds(2) [OF assms(1)] lt powi2_le_iff [of "ilog2 a + 1" "ilog2 b"] by linarith
  then have "roundAbs a \<le> 2 powi ilog2 b" using b assms(1) by (intro roundAbs_upper) simp_all
  also have "\<dots> \<le> roundAbs b"
    using ilog2_bounds(1) [of b] assms b by (intro roundAbs_lower) simp_all
  finally show ?thesis .
qed

lemma roundAbs_form:
  assumes "0 < a"
  obtains m where "roundAbs a = of_int m * 2 powi ulpExp a" "0 \<le> m" "m \<le> 2 ^ 53"
proof
  let ?q = "a / 2 powi ulpExp a"
  show "roundAbs a = of_int (rhe ?q) * 2 powi ulpExp a" by (simp add: roundAbs_def)
  show "0 \<le> rhe ?q" using assms by (intro rhe_ge_of_int) simp
  have "a \<le> 2 powi (53 + ulpExp a)"
  proof -
    have "(2::rat) powi (ilog2 a + 1) \<le> 2 powi (53 + ulpExp a)"
      by (simp add: ulpExp_def max_def)
    with ilog2_bounds(2) [OF assms] show ?thesis by linarith
  qed
  then have "?q \<le> of_int (2 ^ 53)" by (simp add: powi2_add divide_le_eq)
  then show "rhe ?q \<le> 2 ^ 53" by (rule rhe_le_of_int)
qed

lemma ulpExp_ge: "- 1074 \<le> ulpExp a"
  by (simp add: ulpExp_def)

text \<open>The doubles are exactly the 53-bit multiples of powers of two in range.\<close>

definition dyadic53 :: "rat \<Rightarrow> bool" where
  "dyadic53 r \<longleftrightarrow> (\<exists>m e. r = of_int m * 2 powi e \<and> \<bar>m\<bar> \<le> 2 ^ 53 \<and> - 1074 \<le> e)"

lemma dyadic53_minus [simp]: "dyadic53 (- r) \<longleftrightarrow> dyadic53 r"
proof -
  have "dyadic53 (- r)" if h: "dyadic53 r" for r
  proof -
    obtain m e where "r = of_int m * 2 powi e" "\<bar>m\<bar> \<le> 2 ^ 53" "- 1074 \<le> e"
      using h unfolding dyadic53_def by blast
    then show ?thesis unfolding dyadic53_def by (intro exI [of _ "- m"] exI [of _ e]) simp
  qed
  from this [of r] this [of "- r"] show ?thesis by auto
qed

lemma dyadic53_abs [simp]: "dyadic53 \<bar>r\<bar> \<longleftrightarrow> dyadic53 r"
  by (simp add: abs_if)

lemma dyadic53_of_int: "\<bar>n\<bar> \<le> 2 ^ 53 \<Longrightarrow> dyadic53 (of_int n)"
  unfolding dyadic53_def by (intro exI [of _ n] exI [of _ 0]) simp

lemma dyadic53_0 [simp]: "dyadic53 0"
  using dyadic53_of_int [of 0] by simp

lemma dyadic53_roundAbs: "0 < a \<Longrightarrow> dyadic53 (roundAbs a)"
  by (erule roundAbs_form) (auto simp: dyadic53_def intro!: exI ulpExp_ge)

lemma roundAbs_dyadic53: "\<lbrakk>dyadic53 r; 0 < r\<rbrakk> \<Longrightarrow> roundAbs r = r"
  by (auto simp: dyadic53_def zero_less_mult_iff intro!: roundAbs_exact)

lemma toDouble_minus: "x \<noteq> 0 \<Longrightarrow> toDouble (- x) = js_neg (toDouble x)"
  by (auto simp: toDouble_def Let_def)

lemma isDouble_Fin_iff: "isDouble (Fin r) \<longleftrightarrow> dyadic53 r \<and> \<bar>r\<bar> < 2 ^ 1024"
proof (cases "r = 0")
  case True
  then show ?thesis using dyadic53_of_int [of 0] by (simp add: toDouble_def)
next
  case False
  then have pos: "0 < \<bar>r\<bar>" by simp
  have *: "toDouble r = Fin r \<longleftrightarrow> roundAbs \<bar>r\<bar> = \<bar>r\<bar> \<and> \<bar>r\<bar> < 2 ^ 1024"
    using False by (auto simp: toDouble_def Let_def abs_if split: if_splits)
  show ?thesis
    using dyadic53_roundAbs [OF pos] roundAbs_dyadic53 [OF _ pos] by (auto simp: *)
qed

declare isDouble.simps(1) [simp del]

text \<open>Every rounded value is a double: arithmetic never leaves the type.\<close>

lemma isDouble_toDouble [simp]: "isDouble (toDouble x)"
proof (cases "x = 0")
  case True
  then show ?thesis by (simp add: toDouble_def isDouble.simps)
next
  case False
  then have "dyadic53 (roundAbs \<bar>x\<bar>)" "0 \<le> roundAbs \<bar>x\<bar>"
    by (simp_all add: dyadic53_roundAbs roundAbs_nonneg)
  with False show ?thesis by (auto simp: toDouble_def Let_def isDouble_Fin_iff)
qed

lemma isDouble_int: "\<bar>n\<bar> \<le> 2 ^ 53 \<Longrightarrow> isDouble (Fin (of_int n))"
proof -
  assume n: "\<bar>n\<bar> \<le> 2 ^ 53"
  have "\<bar>of_int n :: rat\<bar> \<le> 2 ^ 53" using n
    by (metis of_int_abs of_int_le_iff of_int_numeral of_int_power)
  also have "(2::rat) ^ 53 < 2 ^ 1024" by (rule power_strict_increasing) simp_all
  finally show ?thesis using dyadic53_of_int [OF n] by (simp add: isDouble_Fin_iff)
qed

lemma toDouble_of_int: "\<bar>n\<bar> \<le> 2 ^ 53 \<Longrightarrow> toDouble (of_int n) = Fin (of_int n)"
  using isDouble_int [of n] by (simp add: isDouble.simps)

text \<open>
  A result that \<open>Number.isSafeInteger\<close> accepts was not rounded: beyond \<open>2 ^ 53\<close> the rounded
  value stays at or above \<open>2 ^ 53\<close>, which is not safe.
\<close>

lemma safe_toDouble_exact:
  assumes "isSafeInteger (toDouble (of_int z))"
  shows "toDouble (of_int z) = Fin (of_int z)"
proof (cases "\<bar>z\<bar> \<le> 2 ^ 53")
  case True
  then show ?thesis by (rule toDouble_of_int)
next
  case False
  let ?a = "\<bar>of_int z :: rat\<bar>"
  have "(of_int (2 ^ 53) :: rat) \<le> of_int \<bar>z\<bar>" using False by (simp only: of_int_le_iff)
  then have "2 powi 53 \<le> ?a" by simp
  then have "2 powi 53 \<le> roundAbs ?a" by (rule roundAbs_lower) simp
  moreover have "z \<noteq> 0" using False by auto
  ultimately have False
    using assms
    by (auto simp: toDouble_def Let_def isSafeInteger_def isInteger_def maxSafe_def split: if_splits)
  then show ?thesis ..
qed

lemma isInteger_iff: "isInteger x \<longleftrightarrow> isFinite x \<and> (\<exists>n. valOf x = of_int n)"
  by (auto simp: isInteger_def)

lemma safe_int_iff:
  "isSafeInteger x \<longleftrightarrow> isFinite x \<and> (\<exists>n. valOf x = of_int n \<and> \<bar>n\<bar> \<le> maxSafe)"
  by (auto simp: isSafeInteger_def isInteger_iff simp del: of_int_abs simp flip: of_int_abs)

lemma finite_not_NaN: "isFinite x \<Longrightarrow> x \<noteq> NaN"
  by auto

lemma valOf_signedZero [simp]: "valOf (signedZero b) = 0"
  by (simp add: signedZero_def)

lemma valOf_js_neg [simp]: "valOf (js_neg x) = - valOf x"
  by (cases x) auto

lemma isFinite_js_neg [simp]: "isFinite (js_neg x) = isFinite x"
  by (cases x) auto

lemma isFinite_signedZero [simp]: "isFinite (signedZero b)"
  by (simp add: signedZero_def)

lemma safe_js_neg [simp]: "isSafeInteger (js_neg x) = isSafeInteger x"
proof -
  have "(\<exists>n. - valOf x = of_int n \<and> \<bar>n\<bar> \<le> maxSafe) = (\<exists>n. valOf x = of_int n \<and> \<bar>n\<bar> \<le> maxSafe)"
    by (metis abs_minus_cancel minus_minus of_int_minus)
  then show ?thesis by (simp add: safe_int_iff)
qed

text \<open>
  Integer arithmetic on doubles: as long as \<open>Number.isSafeInteger\<close> accepts the result, the
  operator computed the mathematical result.
\<close>

lemma js_add_safe:
  assumes "isSafeInteger x" "isSafeInteger y" "isSafeInteger (js_add x y)"
  shows "valOf (js_add x y) = valOf x + valOf y"
proof -
  obtain a b where "valOf x = of_int a" "valOf y = of_int b" "isFinite x" "isFinite y"
    using assms(1,2) by (auto simp: safe_int_iff)
  then have "js_add x y = toDouble (of_int (a + b)) \<or> x = NegZero \<and> y = NegZero"
    by (auto simp: js_add_def finite_not_NaN)
  then show ?thesis
  proof
    assume j: "js_add x y = toDouble (of_int (a + b))"
    then have "valOf (js_add x y) = of_int (a + b)"
      using assms(3) safe_toDouble_exact [of "a + b"] by (simp del: of_int_add)
    then show ?thesis using \<open>valOf x = of_int a\<close> \<open>valOf y = of_int b\<close> by simp
  qed (simp add: js_add_def)
qed

lemma js_sub_safe:
  assumes "isSafeInteger x" "isSafeInteger y" "isSafeInteger (js_sub x y)"
  shows "valOf (js_sub x y) = valOf x - valOf y"
  using js_add_safe [of x "js_neg y"] assms by (simp add: js_sub_def)

lemma js_mul_safe:
  assumes "isSafeInteger x" "isSafeInteger y" "isSafeInteger (js_mul x y)"
  shows "valOf (js_mul x y) = valOf x * valOf y"
proof -
  obtain a b where v: "valOf x = of_int a" "valOf y = of_int b" "isFinite x" "isFinite y"
    using assms(1,2) by (auto simp: safe_int_iff)
  then have "js_mul x y = toDouble (of_int (a * b)) \<or> valOf (js_mul x y) = 0 \<and> a * b = 0"
    by (auto simp: js_mul_def Let_def finite_not_NaN)
  then show ?thesis
  proof
    assume j: "js_mul x y = toDouble (of_int (a * b))"
    then have "valOf (js_mul x y) = of_int (a * b)"
      using assms(3) safe_toDouble_exact [of "a * b"] by (simp del: of_int_mult)
    then show ?thesis using v by simp
  next
    assume "valOf (js_mul x y) = 0 \<and> a * b = 0"
    then show ?thesis using v by (simp flip: of_int_mult)
  qed
qed

text \<open>\<open>%\<close> is exact: it is the truncated remainder.\<close>

definition truncMod :: "int \<Rightarrow> int \<Rightarrow> int" where
  "truncMod a b = a - b * (sgn a * sgn b * (\<bar>a\<bar> div \<bar>b\<bar>))"

lemma truncRat_div: "b \<noteq> 0 \<Longrightarrow> truncRat (of_int a / of_int b) = sgn a * sgn b * (\<bar>a\<bar> div \<bar>b\<bar>)"
proof -
  assume b: "b \<noteq> 0"
  show ?thesis
  proof (cases "0 \<le> (of_int a / of_int b :: rat)")
    case True
    then have s: "0 \<le> a \<and> 0 < b \<or> a \<le> 0 \<and> b < 0" using b by (auto simp: zero_le_divide_iff)
    have "\<lfloor>of_int a / (of_int b :: rat)\<rfloor> = a div b" by (rule floor_divide_of_int_eq)
    with True have "truncRat (of_int a / of_int b) = a div b" by (simp add: truncRat_def)
    moreover have "a div b = \<bar>a\<bar> div \<bar>b\<bar>" using s div_minus_minus [of a b] by auto
    moreover have "a = 0 \<or> sgn a * sgn b = 1" using s by (auto simp: sgn_if)
    ultimately show ?thesis by auto
  next
    case False
    then have s: "0 < a \<and> b < 0 \<or> a < 0 \<and> 0 < b" using b
      by (auto simp: not_le divide_less_0_iff)
    have "\<lceil>of_int a / (of_int b :: rat)\<rceil> = - \<lfloor>of_int (- a) / (of_int b :: rat)\<rfloor>"
      by (simp add: ceiling_def)
    also have "\<lfloor>of_int (- a) / (of_int b :: rat)\<rfloor> = - a div b" by (rule floor_divide_of_int_eq)
    finally have "truncRat (of_int a / of_int b) = - (- a div b)"
      using False by (simp add: truncRat_def)
    moreover have "- a div b = \<bar>a\<bar> div \<bar>b\<bar>"
      using s div_minus_minus [of a "- b"] by auto
    moreover have "sgn a * sgn b = - 1" using s by auto
    ultimately show ?thesis by simp
  qed
qed

lemma js_rem_int:
  assumes "isSafeInteger x" "isSafeInteger y" "valOf y \<noteq> 0"
  shows "valOf (js_rem x y) = of_int (truncMod \<lfloor>valOf x\<rfloor> \<lfloor>valOf y\<rfloor>)"
proof -
  obtain a b where v: "valOf x = of_int a" "valOf y = of_int b" "isFinite x" "isFinite y"
    using assms(1,2) by (auto simp: safe_int_iff)
  with assms(3) show ?thesis
    by (auto simp: js_rem_def Let_def finite_not_NaN truncRat_div truncMod_def)
qed

section \<open>Sign and order\<close>

lemma toDouble_nonneg:
  "0 \<le> x \<Longrightarrow> toDouble x = PInf \<or> (\<exists>r\<ge>0. toDouble x = Fin r)"
  using roundAbs_nonneg [of "\<bar>x\<bar>"] by (auto simp: toDouble_def Let_def)

lemma toDouble_mono:
  assumes "0 \<le> x" "x \<le> y" "toDouble x = Fin a" "toDouble y = Fin b"
  shows "a \<le> b"
proof -
  have "x \<noteq> 0 \<Longrightarrow> roundAbs x \<le> roundAbs y" using assms by (intro roundAbs_mono) auto
  moreover have "y \<noteq> 0 \<Longrightarrow> 0 \<le> roundAbs y" using assms by (intro roundAbs_nonneg) auto
  ultimately show ?thesis using assms
    by (auto simp: toDouble_def Let_def split: if_splits)
qed

text \<open>The non-negative numbers a price or a token count can be.\<close>

definition nonNeg :: "jsnum \<Rightarrow> bool" where
  "nonNeg x = js_le (Fin 0) x"

lemma nonNeg_iff: "nonNeg x \<longleftrightarrow> x = PInf \<or> x = NegZero \<or> (\<exists>r\<ge>0. x = Fin r)"
  by (cases x) (auto simp: nonNeg_def js_le_def js_eq_def)

lemma nonNeg_toDouble: "0 \<le> x \<Longrightarrow> nonNeg (toDouble x)"
  using toDouble_nonneg [of x] by (auto simp: nonNeg_iff)

lemma nonNeg_simps [simp]: "nonNeg PInf" "nonNeg NegZero" "nonNeg (Fin r) \<longleftrightarrow> 0 \<le> r"
  by (auto simp: nonNeg_iff)

lemma nonNeg_js_add: "\<lbrakk>nonNeg x; nonNeg y\<rbrakk> \<Longrightarrow> nonNeg (js_add x y)"
  by (auto simp: nonNeg_iff [of x] nonNeg_iff [of y] js_add_def nonNeg_toDouble nonNeg_simps)

lemma nonNeg_js_mul:
  assumes "nonNeg x" "nonNeg y" "isFinite x" "isFinite y"
  shows "nonNeg (js_mul x y)"
proof -
  have "0 \<le> valOf x" "0 \<le> valOf y" using assms by (auto simp: nonNeg_iff)
  with assms(3,4) show ?thesis
    by (auto simp: js_mul_def Let_def signedZero_def dest: finite_not_NaN
        intro!: nonNeg_toDouble mult_nonneg_nonneg)
qed

lemma js_lt_irrefl [simp]: "\<not> js_lt x x"
  by (cases x) auto

lemma js_lt_Fin [simp]: "js_lt (Fin a) (Fin b) = (a < b)"
  by simp

lemma js_le_Fin [simp]: "js_le (Fin a) (Fin b) = (a \<le> b)"
  by (auto simp: js_le_def js_eq_def)

lemma js_eq_Fin [simp]: "js_eq (Fin a) (Fin b) = (a = b)"
  by (auto simp: js_eq_def)

section \<open>The operators stay within the doubles\<close>

lemma isDouble_js_neg [simp]: "isDouble x \<Longrightarrow> isDouble (js_neg x)"
  by (cases x) (auto simp: isDouble_Fin_iff)

lemma isDouble_zero [simp]: "isDouble (Fin 0)"
  using isDouble_int [of 0] by simp

lemma isDouble_signed [simp]: "isDouble (signedZero b)" "isDouble (signedInf b)"
  by (simp_all add: signedZero_def signedInf_def)

lemma isDouble_js_add [simp]: "\<lbrakk>isDouble x; isDouble y\<rbrakk> \<Longrightarrow> isDouble (js_add x y)"
  by (simp add: js_add_def)

lemma isDouble_js_sub [simp]: "\<lbrakk>isDouble x; isDouble y\<rbrakk> \<Longrightarrow> isDouble (js_sub x y)"
  by (simp add: js_sub_def)

lemma isDouble_js_mul [simp]: "isDouble (js_mul x y)"
  by (simp add: js_mul_def Let_def)

lemma isDouble_js_div [simp]: "isDouble (js_div x y)"
  by (simp add: js_div_def Let_def)

lemma isDouble_js_abs [simp]: "isDouble x \<Longrightarrow> isDouble (js_abs x)"
  by (cases x) (auto simp: isDouble_Fin_iff)

lemma isDouble_js_min [simp]: "\<lbrakk>isDouble x; isDouble y\<rbrakk> \<Longrightarrow> isDouble (js_min x y)"
  by (simp add: js_min_def)

lemma isDouble_js_max [simp]: "\<lbrakk>isDouble x; isDouble y\<rbrakk> \<Longrightarrow> isDouble (js_max x y)"
  by (simp add: js_max_def)

section \<open>Code equations over the integers\<close>

text \<open>
  The definitions above are stated over the rationals; these equations compute them with
  integer numerators and denominators, so that closed terms evaluate quickly.
\<close>

definition pow2Int :: "int \<Rightarrow> int" where
  "pow2Int e = 2 ^ nat e"

definition rheDiv :: "int \<Rightarrow> int \<Rightarrow> int" where
  "rheDiv n d =
     (let f = n div d; r = 2 * (n mod d)
      in if r < d then f else if d < r then f + 1 else if even f then f else f + 1)"

lemma powi2_pow2Int:
  "0 \<le> e \<Longrightarrow> (2::rat) powi e = of_int (pow2Int e)"
  "e < 0 \<Longrightarrow> (2::rat) powi e = 1 / of_int (pow2Int (- e))"
  by (simp_all add: pow2Int_def power_int_def power_one_over inverse_eq_divide)

lemma pow2Int_pos [simp]: "0 < pow2Int e"
  by (simp add: pow2Int_def)

lemma ilog2_code [code]:
  "ilog2 a =
     (let (n, d) = quotient_of a; k = bits n - bits d
      in if (if 0 \<le> k then pow2Int k * d \<le> n else d \<le> n * pow2Int (- k)) then k else k - 1)"
proof -
  obtain n d where q: "quotient_of a = (n, d)" by (cases "quotient_of a")
  have d: "0 < d" using quotient_of_denom_pos [OF q] .
  have a: "a = of_int n / of_int d" using quotient_of_div [OF q] .
  have "(2 powi k \<le> a) = (if 0 \<le> k then pow2Int k * d \<le> n else d \<le> n * pow2Int (- k))" for k
  proof (cases "0 \<le> k")
    case True
    have "(2 powi k \<le> a) = (of_int (pow2Int k * d) \<le> (of_int n :: rat))"
      using True d by (simp add: powi2_pow2Int a pos_le_divide_eq)
    with True show ?thesis by (simp only: of_int_le_iff if_True)
  next
    case False
    have "(2 powi k \<le> a) = (of_int d \<le> (of_int (n * pow2Int (- k)) :: rat))"
      using False d by (simp add: powi2_pow2Int a pos_le_divide_eq pos_divide_le_eq)
    with False show ?thesis by (simp only: of_int_le_iff if_False)
  qed
  then show ?thesis by (simp add: ilog2_def q Let_def)
qed

lemma rhe_div: "0 < d \<Longrightarrow> rhe (of_int n / of_int d) = rheDiv n d"
proof -
  assume d: "0 < d"
  have f: "\<lfloor>of_int n / (of_int d :: rat)\<rfloor> = n div d" by (rule floor_divide_of_int_eq)
  have "of_int n = of_int d * of_int (n div d) + (of_int (n mod d) :: rat)"
    by (metis mult_div_mod_eq of_int_add of_int_mult)
  then have r: "of_int n / (of_int d :: rat) - of_int (n div d) = of_int (n mod d) / of_int d"
    using d by (simp add: field_simps)
  have lt: "(of_int (n mod d) / of_int d < (1 / 2 :: rat)) = (2 * (n mod d) < d)"
    using d by (simp add: pos_divide_less_eq) (metis of_int_less_iff of_int_mult of_int_numeral mult.commute)
  have gt: "((1 / 2 :: rat) < of_int (n mod d) / of_int d) = (d < 2 * (n mod d))"
    using d by (simp add: pos_less_divide_eq) (metis of_int_less_iff of_int_mult of_int_numeral mult.commute)
  show ?thesis unfolding rhe_def rheDiv_def Let_def f r lt gt ..
qed

lemma roundAbs_code [code]:
  "roundAbs a =
     (let (n, d) = quotient_of a; e = ulpExp a
      in if 0 \<le> e then of_int (rheDiv n (d * pow2Int e) * pow2Int e)
         else of_int (rheDiv (n * pow2Int (- e)) d) / of_int (pow2Int (- e)))"
proof -
  obtain n d where q: "quotient_of a = (n, d)" by (cases "quotient_of a")
  have d: "0 < d" using quotient_of_denom_pos [OF q] .
  have a: "a = of_int n / of_int d" using quotient_of_div [OF q] .
  show ?thesis
  proof (cases "0 \<le> ulpExp a")
    case True
    have "a / 2 powi ulpExp a = of_int n / of_int (d * pow2Int (ulpExp a))"
      unfolding powi2_pow2Int(1) [OF True] by (simp add: a)
    then have "rhe (a / 2 powi ulpExp a) = rheDiv n (d * pow2Int (ulpExp a))"
      using d by (simp only: rhe_div mult_pos_pos pow2Int_pos)
    with True show ?thesis by (simp add: roundAbs_def q Let_def powi2_pow2Int(1))
  next
    case False
    have "a / 2 powi ulpExp a = of_int (n * pow2Int (- ulpExp a)) / of_int d"
      using False by (simp add: powi2_pow2Int(2) a)
    then have "rhe (a / 2 powi ulpExp a) = rheDiv (n * pow2Int (- ulpExp a)) d"
      using d by (simp only: rhe_div)
    with False show ?thesis by (simp add: roundAbs_def q Let_def powi2_pow2Int(2))
  qed
qed

lemma toDouble_code [code]:
  "toDouble x =
     (if x = 0 then Fin 0
      else let v = roundAbs \<bar>x\<bar>
           in if v = 0 then (if 0 < x then Fin 0 else NegZero)
              else if 1024 \<le> ilog2 v then (if 0 < x then PInf else NInf)
              else Fin (if 0 < x then v else - v))"
proof -
  have "(2 ^ 1024 \<le> v) = (1024 \<le> ilog2 v)" if "0 < v" for v :: rat
    using ilog2_ge [of 1024 v] ilog2_bounds(1) [OF that] powi2_le_iff [of 1024 "ilog2 v"]
    by (simp add: power_int_numeral) linarith
  moreover have "0 < roundAbs \<bar>x\<bar>" if "x \<noteq> 0" "roundAbs \<bar>x\<bar> \<noteq> 0"
    using roundAbs_nonneg [of "\<bar>x\<bar>"] that by simp
  moreover have "\<not> (2::rat) ^ 1024 \<le> 0" by (simp add: not_le)
  ultimately show ?thesis by (simp add: toDouble_def Let_def)
qed

end
