(* ===== verification/JsString.thy ===== *)
theory JsString
  imports JsNumber
begin

text \<open>
  JavaScript strings and the string functions the source uses. A string is the list of its
  code units; the model covers the code units U+0000 to U+00FF, which is the type \<open>char\<close>.
  Character classes follow the regular expressions of the source, and the conversions
  between decimal text and numbers follow ECMA-262: \<open>Number(text)\<close> rounds the exact decimal
  value once, \<open>String(x)\<close> and \<open>x.toExponential()\<close> print the shortest digits that read back.
\<close>

abbreviation quoteDbl :: char where "quoteDbl \<equiv> CHR 0x22"
abbreviation quoteSgl :: char where "quoteSgl \<equiv> CHR 0x27"
abbreviation backslash :: char where "backslash \<equiv> CHR 0x5C"
abbreviation lineFeed :: char where "lineFeed \<equiv> CHR 0x0A"
abbreviation carriageReturn :: char where "carriageReturn \<equiv> CHR 0x0D"

abbreviation code :: "char \<Rightarrow> nat" where "code c \<equiv> of_char c"

section \<open>Character classes\<close>

text \<open>\<open>\d\<close>, \<open>[A-Za-z_]\<close>, \<open>\w\<close>, \<open>[\da-f]\<close> with the \<open>i\<close> flag, \<open>\s\<close>.\<close>

definition isDigit :: "char \<Rightarrow> bool" where
  "isDigit c \<longleftrightarrow> 48 \<le> code c \<and> code c \<le> 57"

definition isUpper :: "char \<Rightarrow> bool" where
  "isUpper c \<longleftrightarrow> 65 \<le> code c \<and> code c \<le> 90"

definition isNameStart :: "char \<Rightarrow> bool" where
  "isNameStart c \<longleftrightarrow> isUpper c \<or> 97 \<le> code c \<and> code c \<le> 122 \<or> c = CHR ''_''"

definition isWordChar :: "char \<Rightarrow> bool" where
  "isWordChar c \<longleftrightarrow> isNameStart c \<or> isDigit c"

definition isHex :: "char \<Rightarrow> bool" where
  "isHex c \<longleftrightarrow> isDigit c \<or> 97 \<le> code c \<and> code c \<le> 102 \<or> 65 \<le> code c \<and> code c \<le> 70"

definition isSpace :: "char \<Rightarrow> bool" where
  "isSpace c \<longleftrightarrow> 9 \<le> code c \<and> code c \<le> 13 \<or> code c = 32 \<or> code c = 160"

definition digitVal :: "char \<Rightarrow> nat" where
  "digitVal c = code c - 48"

definition hexVal :: "char \<Rightarrow> nat" where
  "hexVal c = (if isDigit c then code c - 48 else if 97 \<le> code c then code c - 87 else code c - 55)"

definition hexNumber :: "string \<Rightarrow> nat" where
  "hexNumber = foldl (\<lambda>n c. 16 * n + hexVal c) 0"

section \<open>String methods\<close>

definition trimStart :: "string \<Rightarrow> string" where
  "trimStart = dropWhile isSpace"

definition trimEnd :: "string \<Rightarrow> string" where
  "trimEnd s = rev (dropWhile isSpace (rev s))"

definition trim :: "string \<Rightarrow> string" where
  "trim s = trimEnd (trimStart s)"

definition toLowerChar :: "char \<Rightarrow> char" where
  "toLowerChar c =
     (if isUpper c \<or> 192 \<le> code c \<and> code c \<le> 222 \<and> code c \<noteq> 215
      then char_of (code c + 32) else c)"

definition toLowerCase :: "string \<Rightarrow> string" where
  "toLowerCase = map toLowerChar"

definition startsWith :: "string \<Rightarrow> string \<Rightarrow> bool" where
  "startsWith s p \<longleftrightarrow> take (length p) s = p"

fun strIncludes :: "string \<Rightarrow> string \<Rightarrow> bool" where
  "strIncludes [] p = (p = [])"
| "strIncludes (c # s) p = (startsWith (c # s) p \<or> strIncludes s p)"

text \<open>\<open>padStart(2, '0')\<close>.\<close>

definition padStart :: "nat \<Rightarrow> char \<Rightarrow> string \<Rightarrow> string" where
  "padStart n c s = replicate (n - length s) c @ s"

section \<open>Reading decimal numbers\<close>

text \<open>The optional exponent \<open>[eE][+-]?\d+\<close> at the head of a text.\<close>

definition scanExponent :: "string \<Rightarrow> string" where
  "scanExponent s =
     (case s of
        [] \<Rightarrow> []
      | c # t \<Rightarrow>
          if c = CHR ''e'' \<or> c = CHR ''E''
          then let sign = takeWhile (\<lambda>x. x = CHR ''+'' \<or> x = CHR ''-'') (take 1 t);
                   ds = takeWhile isDigit (drop (length sign) t)
               in if ds = [] then [] else c # sign @ ds
          else [])"

text \<open>The match of \<open>/^(?:\d+(?:\.\d*)?|\.\d+)(?:[eE][+-]?\d+)?/\<close>, empty when there is none.\<close>

definition scanMantissa :: "string \<Rightarrow> string" where
  "scanMantissa s =
     (let ds = takeWhile isDigit s; t = dropWhile isDigit s
      in if ds \<noteq> []
         then (case t of
                 c # u \<Rightarrow> if c = CHR ''.'' then ds @ c # takeWhile isDigit u else ds
               | [] \<Rightarrow> ds)
         else (case s of
                 c # u \<Rightarrow> if c = CHR ''.'' \<and> takeWhile isDigit u \<noteq> []
                          then c # takeWhile isDigit u else []
               | [] \<Rightarrow> []))"

definition scanNumber :: "string \<Rightarrow> string" where
  "scanNumber s =
     (let m = scanMantissa s
      in if m = [] then [] else m @ scanExponent (drop (length m) s))"

definition digitsVal :: "string \<Rightarrow> int" where
  "digitsVal = foldl (\<lambda>n c. 10 * n + int (digitVal c)) 0"

definition exponentVal :: "string \<Rightarrow> int" where
  "exponentVal s =
     (case s of
        [] \<Rightarrow> 0
      | _ # t \<Rightarrow>
          (case t of
             [] \<Rightarrow> 0
           | c # u \<Rightarrow>
               if c = CHR ''-'' then - digitsVal u
               else if c = CHR ''+'' then digitsVal u
               else digitsVal t))"

text \<open>The exact value of a text that \<open>scanNumber\<close> matches, and \<open>Number(text)\<close>.\<close>

definition decimalVal :: "string \<Rightarrow> rat" where
  "decimalVal s =
     (let ds = takeWhile isDigit s; t = dropWhile isDigit s;
          fs = (case t of c # u \<Rightarrow> if c = CHR ''.'' then takeWhile isDigit u else [] | [] \<Rightarrow> []);
          e = (case t of c # u \<Rightarrow> if c = CHR ''.'' then dropWhile isDigit u else t | [] \<Rightarrow> [])
      in of_int (digitsVal (ds @ fs)) * 10 powi (exponentVal e - int (length fs)))"

definition numberOf :: "string \<Rightarrow> jsnum" where
  "numberOf s = toDouble (decimalVal s)"

text \<open>
  \<open>Number(s)\<close> for any string: white space is trimmed, the empty text is 0, then a binary,
  octal or hexadecimal integer, or an optional sign and a decimal or \<open>Infinity\<close>; else NaN.
\<close>

definition radixVal :: "nat \<Rightarrow> string \<Rightarrow> jsnum" where
  "radixVal b ds =
     (if ds \<noteq> [] \<and> list_all (\<lambda>c. isHex c \<and> hexVal c < b) ds
      then toDouble (of_nat (foldl (\<lambda>n c. b * n + hexVal c) 0 ds)) else NaN)"

definition unsignedNumber :: "string \<Rightarrow> jsnum" where
  "unsignedNumber s =
     (if s = ''Infinity'' then PInf
      else if s \<noteq> [] \<and> scanNumber s = s then numberOf s else NaN)"

definition stringToNumber :: "string \<Rightarrow> jsnum" where
  "stringToNumber str =
     (let s = trim str; p = toLowerCase (take 2 s)
      in if s = [] then Fin 0
         else if p = ''0x'' then radixVal 16 (drop 2 s)
         else if p = ''0o'' then radixVal 8 (drop 2 s)
         else if p = ''0b'' then radixVal 2 (drop 2 s)
         else if hd s = CHR ''-'' then js_neg (unsignedNumber (tl s))
         else if hd s = CHR ''+'' then unsignedNumber (tl s)
         else unsignedNumber s)"

section \<open>Printing numbers\<close>

fun natString :: "int \<Rightarrow> string" where
  "natString n =
     (if n < 10 then [char_of (48 + nat n)]
      else natString (n div 10) @ [char_of (48 + nat (n mod 10))])"

declare natString.simps [simp del]

definition intString :: "int \<Rightarrow> string" where
  "intString n = (if n < 0 then CHR ''-'' # natString (- n) else natString n)"

text \<open>The \<open>n\<close> with \<open>10 ^ (n - 1) \<le> a < 10 ^ n\<close>.\<close>

definition decimalPoint :: "rat \<Rightarrow> int" where
  "decimalPoint a =
     (if 1 \<le> a then int (length (natString \<lfloor>a\<rfloor>))
      else 1 - int (length (natString (\<lceil>1 / a\<rceil> - 1))))"

text \<open>
  The shortest significand of a positive double: the least number \<open>k\<close> of digits for which
  one of the two neighbouring \<open>k\<close>-digit decimals reads back as the number, and of these the
  nearest.
\<close>

definition digitCandidates :: "rat \<Rightarrow> int \<Rightarrow> int list" where
  "digitCandidates a k =
     (let scale = 10 powi (k - decimalPoint a); lo = \<lfloor>a * scale\<rfloor>
      in filter (\<lambda>s. 0 < s \<and> toDouble (of_int s / scale) = Fin a) [lo, lo + 1])"

definition nearer :: "rat \<Rightarrow> int list \<Rightarrow> int" where
  "nearer x ss =
     (case ss of
        [s, t] \<Rightarrow>
          let ds = \<bar>of_int s - x\<bar>; dt = \<bar>of_int t - x\<bar>
          in if ds < dt then s else if dt < ds then t else if even s then s else t
      | s # _ \<Rightarrow> s
      | [] \<Rightarrow> rhe x)"

fun shortestFrom :: "rat \<Rightarrow> nat \<Rightarrow> nat \<Rightarrow> int \<times> int" where
  "shortestFrom a 0 k = (rhe (a * 10 powi (17 - decimalPoint a)), 17)"
| "shortestFrom a (Suc fuel) k =
     (case digitCandidates a (int k) of
        [] \<Rightarrow> shortestFrom a fuel (Suc k)
      | c # cs \<Rightarrow> (nearer (a * 10 powi (int k - decimalPoint a)) (c # cs), int k))"

text \<open>The digits and the position \<open>n\<close> of the decimal point, as in \<open>Number::toString\<close>.\<close>

definition shortestDigits :: "rat \<Rightarrow> string \<times> int" where
  "shortestDigits a =
     (let (s, k) = shortestFrom a 17 1;
          ds = natString s
      in if int (length ds) = k then (ds, decimalPoint a)
         else (take 1 ds, decimalPoint a + 1))"

definition exponentSuffix :: "int \<Rightarrow> string" where
  "exponentSuffix e = CHR ''e'' # (if e < 0 then CHR ''-'' else CHR ''+'') # natString \<bar>e\<bar>"

definition withPoint :: "string \<Rightarrow> string" where
  "withPoint ds = (case ds of [] \<Rightarrow> [] | [d] \<Rightarrow> [d] | d # e # r \<Rightarrow> d # CHR ''.'' # e # r)"

definition positiveString :: "rat \<Rightarrow> string" where
  "positiveString a =
     (let (ds, n) = shortestDigits a; k = int (length ds)
      in if k \<le> n \<and> n \<le> 21 then ds @ replicate (nat (n - k)) CHR ''0''
         else if 0 < n \<and> n \<le> 21 then take (nat n) ds @ CHR ''.'' # drop (nat n) ds
         else if - 6 < n \<and> n \<le> 0 then ''0.'' @ replicate (nat (- n)) CHR ''0'' @ ds
         else withPoint ds @ exponentSuffix (n - 1))"

fun numString :: "jsnum \<Rightarrow> string" where
  "numString NaN = ''NaN''"
| "numString PInf = ''Infinity''"
| "numString NInf = ''-Infinity''"
| "numString NegZero = ''0''"
| "numString (Fin r) =
     (if r = 0 then ''0''
      else if r < 0 then CHR ''-'' # positiveString (- r) else positiveString r)"

text \<open>The mantissa and exponent of \<open>x.toExponential()\<close> for a non-zero finite \<open>x\<close>.\<close>

definition toExponentialParts :: "rat \<Rightarrow> string \<times> int" where
  "toExponentialParts r =
     (if r = 0 then (''0'', 0)
      else let (ds, n) = shortestDigits \<bar>r\<bar>
           in ((if r < 0 then CHR ''-'' # withPoint ds else withPoint ds), n - 1))"

end
