(* ===== verification/BxTypes.thy ===== *)
theory BxTypes
  imports JsString
begin

text \<open>
  Model of \<open>billing-expression/types.ts\<close>: the vocabulary of the billing language, the
  syntax tree with source spans, the diagnostics, the classification of failures and the
  bounded post-order traversal \<open>visitExpression\<close>, with the proof that the explicit stack
  visits exactly the post-order of the tree.
\<close>

section \<open>Vocabulary\<close>

definition TOKEN_VARIABLES :: "string list" where
  "TOKEN_VARIABLES =
     [''p'', ''c'', ''len'', ''cr'', ''cc'', ''cc1h'', ''img'', ''img_cr'', ''img_o'', ''ai'', ''ao'']"

definition BILLING_VARIABLES :: "string list" where
  "BILLING_VARIABLES = TOKEN_VARIABLES @ [''image_count'']"

definition TIME_FUNCTIONS :: "string list" where
  "TIME_FUNCTIONS = [''hour'', ''minute'', ''weekday'', ''month'', ''day'']"

text \<open>The functions with their arities; \<open>Object.hasOwn\<close> is a successful lookup.\<close>

definition BILLING_FUNCTIONS :: "string \<Rightarrow> nat option" where
  "BILLING_FUNCTIONS = map_of
     [(''tier'', 2), (''fixed'', 1), (''param'', 1), (''header'', 1), (''has'', 2), (''u'', 1),
      (''hour'', 1), (''minute'', 1), (''weekday'', 1), (''month'', 1), (''day'', 1),
      (''min'', 2), (''max'', 2), (''abs'', 1), (''ceil'', 1), (''floor'', 1)]"

section \<open>Syntax trees\<close>

type_synonym span = "nat \<times> nat"

text \<open>The values a literal carries; a number remembers whether it was written as an integer.\<close>

datatype lit = LStr string | LNum jsnum bool | LBool bool | LNull

datatype node =
    Literal span lit
  | Variable span string
  | Call span string "node list"
  | Unary span string node
  | Binary span string node node
  | Conditional span node node node

fun spanOf :: "node \<Rightarrow> span" where
  "spanOf (Literal sp _) = sp"
| "spanOf (Variable sp _) = sp"
| "spanOf (Call sp _ _) = sp"
| "spanOf (Unary sp _ _) = sp"
| "spanOf (Binary sp _ _ _) = sp"
| "spanOf (Conditional sp _ _ _) = sp"

abbreviation nstart :: "node \<Rightarrow> nat" where "nstart n \<equiv> fst (spanOf n)"
abbreviation nend :: "node \<Rightarrow> nat" where "nend n \<equiv> snd (spanOf n)"

text \<open>\<open>{...expression, start, end}\<close>.\<close>

fun respan :: "span \<Rightarrow> node \<Rightarrow> node" where
  "respan sp (Literal _ v) = Literal sp v"
| "respan sp (Variable _ x) = Variable sp x"
| "respan sp (Call _ f as) = Call sp f as"
| "respan sp (Unary _ op a) = Unary sp op a"
| "respan sp (Binary _ op a b) = Binary sp op a b"
| "respan sp (Conditional _ c y n) = Conditional sp c y n"

text \<open>The children in the order the traversal pushes them.\<close>

fun children :: "node \<Rightarrow> node list" where
  "children (Call _ _ as) = as"
| "children (Unary _ _ a) = [a]"
| "children (Binary _ _ a b) = [a, b]"
| "children (Conditional _ c y n) = [c, y, n]"
| "children _ = []"

section \<open>Diagnostics\<close>

datatype diagnosticCode = CSyntax | CUnsupported | CMissingContext | CType | CNumber | CLimit

record diagnostic =
  dcode :: diagnosticCode
  detail :: string
  position :: "nat option"

text \<open>
  What can be thrown: the module's own exception, any other JavaScript error, or, in the
  model only, leaving the modelled range (a code unit above U+00FF in a string escape, or
  recursion fuel).
\<close>

datatype exn = BillingExpressionError diagnostic | JsError string | OutsideModel string

type_synonym 'a bx = "(exn, 'a) result"

definition diag :: "diagnosticCode \<Rightarrow> string \<Rightarrow> exn" where
  "diag c d = BillingExpressionError \<lparr>dcode = c, detail = d, position = None\<rparr>"

definition diagAt :: "diagnosticCode \<Rightarrow> string \<Rightarrow> nat \<Rightarrow> exn" where
  "diagAt c d i = BillingExpressionError \<lparr>dcode = c, detail = d, position = Some i\<rparr>"

datatype failureStatus = SUnsupported | SInvalid | SMissingContext

record expressionFailure_t =
  fstatus :: failureStatus
  fdiagnostic :: diagnostic

fun errorDiagnostic :: "exn \<Rightarrow> diagnostic" where
  "errorDiagnostic (BillingExpressionError d) = d"
| "errorDiagnostic (JsError m) = \<lparr>dcode = CSyntax, detail = m, position = None\<rparr>"
| "errorDiagnostic (OutsideModel m) = \<lparr>dcode = CSyntax, detail = m, position = None\<rparr>"

definition expressionFailure :: "exn \<Rightarrow> expressionFailure_t" where
  "expressionFailure e =
     (let d = errorDiagnostic e;
          st = (if dcode d = CMissingContext then SMissingContext else SInvalid);
          st = (if dcode d = CUnsupported \<or> dcode d = CLimit then SUnsupported else st)
      in \<lparr>fstatus = st, fdiagnostic = d\<rparr>)"

section \<open>The bounded traversal\<close>

record entry =
  enode :: node
  visited :: bool
  edepth :: nat

fun nodeCount :: "node \<Rightarrow> nat" where
  "nodeCount (Call _ _ as) = Suc (sum_list (map nodeCount as))"
| "nodeCount (Unary _ _ a) = Suc (nodeCount a)"
| "nodeCount (Binary _ _ a b) = Suc (nodeCount a + nodeCount b)"
| "nodeCount (Conditional _ c y n) = Suc (nodeCount c + nodeCount y + nodeCount n)"
| "nodeCount _ = 1"

lemma nodeCount_children: "nodeCount n = Suc (sum_list (map nodeCount (children n)))"
  by (cases n) auto

definition entryWeight :: "entry \<Rightarrow> nat" where
  "entryWeight e = (if visited e then 1 else 2 * nodeCount (enode e))"

definition childEntries :: "entry \<Rightarrow> entry list" where
  "childEntries e =
     map (\<lambda>c. \<lparr>enode = c, visited = False, edepth = Suc (edepth e)\<rparr>) (children (enode e))"

lemma weight_childEntries:
  "sum_list (map entryWeight (childEntries e)) = 2 * sum_list (map nodeCount (children (enode e)))"
  by (simp add: childEntries_def entryWeight_def comp_def sum_list_const_mult)

text \<open>The stack is a list with its top first; the visitor updates a state and may throw.\<close>

function visitLoop :: "(node \<Rightarrow> 's \<Rightarrow> 's bx) \<Rightarrow> entry list \<Rightarrow> 's \<Rightarrow> 's bx" where
  "visitLoop visitor [] s = Inr s"
| "visitLoop visitor (e # stack) s =
     (if 256 < edepth e then Inl (diag CLimit ''expression depth'')
      else if visited e then rbind (visitor (enode e) s) (visitLoop visitor stack)
      else visitLoop visitor (childEntries e @ e\<lparr>visited := True\<rparr> # stack) s)"
  by pat_completeness auto
termination
  by (relation "measure (\<lambda>(_, stack, _). sum_list (map entryWeight stack))")
     (auto simp: weight_childEntries entryWeight_def nodeCount_children [of "enode _"])

definition visitExpression :: "(node \<Rightarrow> 's \<Rightarrow> 's bx) \<Rightarrow> node \<Rightarrow> 's \<Rightarrow> 's bx" where
  "visitExpression visitor n s =
     visitLoop visitor [\<lparr>enode = n, visited = False, edepth = 0\<rparr>] s"

text \<open>\<open>Set.add\<close>: iteration order is insertion order.\<close>

definition addSet :: "'a \<Rightarrow> 'a list \<Rightarrow> 'a list" where
  "addSet x xs = (if x \<in> set xs then xs else xs @ [x])"

record dependencies =
  depVariables :: "string list"
  depFunctions :: "string list"

fun addDependency :: "node \<Rightarrow> dependencies \<Rightarrow> dependencies bx" where
  "addDependency (Variable _ x) d = Inr (d\<lparr>depVariables := addSet x (depVariables d)\<rparr>)"
| "addDependency (Call _ f _) d = Inr (d\<lparr>depFunctions := addSet f (depFunctions d)\<rparr>)"
| "addDependency _ d = Inr d"

definition expressionDependencies :: "node \<Rightarrow> dependencies bx" where
  "expressionDependencies n = visitExpression addDependency n \<lparr>depVariables = [], depFunctions = []\<rparr>"

section \<open>The traversal is the post-order fold\<close>

declare visitLoop.simps(2) [simp del]

fun foldBx :: "('a \<Rightarrow> 's \<Rightarrow> 's bx) \<Rightarrow> 'a list \<Rightarrow> 's \<Rightarrow> 's bx" where
  "foldBx f [] s = Inr s"
| "foldBx f (x # xs) s = rbind (f x s) (foldBx f xs)"

fun postorder :: "node \<Rightarrow> node list" where
  "postorder (Call sp f as) = concat (map postorder as) @ [Call sp f as]"
| "postorder (Unary sp op a) = postorder a @ [Unary sp op a]"
| "postorder (Binary sp op a b) = postorder a @ postorder b @ [Binary sp op a b]"
| "postorder (Conditional sp c y n) =
     postorder c @ postorder y @ postorder n @ [Conditional sp c y n]"
| "postorder n = [n]"

fun height :: "node \<Rightarrow> nat" where
  "height (Call _ _ as) = (if as = [] then 0 else Suc (Max (height ` set as)))"
| "height (Unary _ _ a) = Suc (height a)"
| "height (Binary _ _ a b) = Suc (max (height a) (height b))"
| "height (Conditional _ c y n) = Suc (max (height c) (max (height y) (height n)))"
| "height _ = 0"

lemma postorder_children: "postorder n = concat (map postorder (children n)) @ [n]"
  by (cases n) auto

lemma self_postorder: "n \<in> set (postorder n)"
  by (subst postorder_children) simp

lemma height_child: "c \<in> set (children n) \<Longrightarrow> height c < height n"
  by (cases n) (auto simp: less_Suc_eq_le)

lemma height_attained: "0 < height n \<Longrightarrow> \<exists>c\<in>set (children n). height n = Suc (height c)"
proof (cases n)
  case (Call sp f as)
  assume "0 < height n"
  with Call have "as \<noteq> []" by auto
  then have "Max (height ` set as) \<in> height ` set as" by (intro Max_in) auto
  then obtain c where "c \<in> set as" "Max (height ` set as) = height c" by blast
  with Call \<open>as \<noteq> []\<close> show ?thesis by auto
qed (auto simp: max_def)

lemma node_children_induct [case_names node]:
  assumes "\<And>n. (\<And>c. c \<in> set (children n) \<Longrightarrow> P c) \<Longrightarrow> P n"
  shows "P n"
  by (induction n rule: measure_induct_rule [of height]) (blast intro: assms height_child)

lemma foldBx_append: "foldBx f (xs @ ys) s = rbind (foldBx f xs s) (foldBx f ys)"
  by (induction xs arbitrary: s) (auto simp: rbind_assoc cong: rbind_cong)

text \<open>A visitor that never throws.\<close>

definition totalVisitor :: "(node \<Rightarrow> 's \<Rightarrow> 's bx) \<Rightarrow> bool" where
  "totalVisitor f \<longleftrightarrow> (\<forall>n s. isOk (f n s))"

lemma totalVisitorD: "totalVisitor f \<Longrightarrow> \<exists>s'. f n s = Inr s'"
  unfolding totalVisitor_def by (metis isOk_simps(1) obj_sumE)

lemma foldBx_total: "totalVisitor f \<Longrightarrow> \<exists>s'. foldBx f ns s = Inr s'"
proof (induction ns arbitrary: s)
  case (Cons n ns)
  then show ?case using totalVisitorD [of f n s] by auto
qed simp

definition openEntry :: "nat \<Rightarrow> node \<Rightarrow> entry" where
  "openEntry d n = \<lparr>enode = n, visited = False, edepth = d\<rparr>"

lemma childEntries_open: "childEntries (openEntry d n) = map (openEntry (Suc d)) (children n)"
  by (simp add: childEntries_def openEntry_def)

lemma visitLoop_open:
  "d \<le> 256 \<Longrightarrow> visitLoop f (openEntry d n # stack) s =
     visitLoop f (map (openEntry (Suc d)) (children n) @ (openEntry d n)\<lparr>visited := True\<rparr> # stack) s"
  using childEntries_open [of d n] by (simp add: visitLoop.simps(2) openEntry_def)

lemma visitLoop_closed:
  "d \<le> 256 \<Longrightarrow> visitLoop f ((openEntry d n)\<lparr>visited := True\<rparr> # stack) s =
     rbind (f n s) (visitLoop f stack)"
  by (simp add: visitLoop.simps(2) openEntry_def)

lemma visitLoop_children:
  assumes "\<And>c stack s. c \<in> set cs \<Longrightarrow>
    visitLoop f (openEntry d c # stack) s = rbind (foldBx f (postorder c) s) (visitLoop f stack)"
  shows "visitLoop f (map (openEntry d) cs @ stack) s =
    rbind (foldBx f (concat (map postorder cs)) s) (visitLoop f stack)"
  using assms
  by (induction cs arbitrary: s) (auto simp: foldBx_append rbind_assoc cong: rbind_cong)

lemma visitLoop_postorder:
  "height n + d \<le> 256 \<Longrightarrow>
   visitLoop f (openEntry d n # stack) s = rbind (foldBx f (postorder n) s) (visitLoop f stack)"
proof (induction n arbitrary: d stack s rule: node_children_induct)
  case (node n)
  have "visitLoop f (openEntry d n # stack) s =
      visitLoop f (map (openEntry (Suc d)) (children n) @ (openEntry d n)\<lparr>visited := True\<rparr> # stack) s"
    using node.prems by (intro visitLoop_open) simp
  also have "\<dots> = rbind (foldBx f (concat (map postorder (children n))) s)
      (visitLoop f ((openEntry d n)\<lparr>visited := True\<rparr> # stack))"
    using node.prems height_child [of _ n] by (intro visitLoop_children node.IH) fastforce+
  also have "\<dots> = rbind (foldBx f (postorder n) s) (visitLoop f stack)"
    using node.prems visitLoop_closed [of d f n stack]
    by (simp add: postorder_children [of n] foldBx_append rbind_assoc cong: rbind_cong)
  finally show ?case .
qed

lemma visitLoop_children_deep:
  assumes "totalVisitor f" "c \<in> set cs" "256 < height c + d"
    and "\<And>c stack s. c \<in> set cs \<Longrightarrow> 256 < height c + d \<Longrightarrow>
      visitLoop f (openEntry d c # stack) s = Inl (diag CLimit ''expression depth'')"
  shows "visitLoop f (map (openEntry d) cs @ stack) s = Inl (diag CLimit ''expression depth'')"
  using assms(2-)
proof (induction cs arbitrary: s)
  case (Cons x xs)
  show ?case
  proof (cases "256 < height x + d")
    case True
    then show ?thesis using Cons.prems(3) by simp
  next
    case False
    obtain s' where "foldBx f (postorder x) s = Inr s'" using foldBx_total [OF assms(1)] by blast
    with False have "visitLoop f (openEntry d x # map (openEntry d) xs @ stack) s =
        visitLoop f (map (openEntry d) xs @ stack) s'"
      by (simp add: visitLoop_postorder)
    also have "\<dots> = Inl (diag CLimit ''expression depth'')"
      using Cons.prems False by (intro Cons.IH) auto
    finally show ?thesis by simp
  qed
qed simp

lemma visitLoop_deep:
  assumes "totalVisitor f"
  shows "256 < height n + d \<Longrightarrow>
    visitLoop f (openEntry d n # stack) s = Inl (diag CLimit ''expression depth'')"
proof (induction n arbitrary: d stack s rule: node_children_induct)
  case (node n)
  show ?case
  proof (cases "256 < d")
    case True
    then show ?thesis by (simp add: visitLoop.simps(2) openEntry_def)
  next
    case False
    with node.prems obtain c where c: "c \<in> set (children n)" "height n = Suc (height c)"
      using height_attained [of n] by auto
    have "visitLoop f (map (openEntry (Suc d)) (children n) @
        (openEntry d n)\<lparr>visited := True\<rparr> # stack) s = Inl (diag CLimit ''expression depth'')"
      using c node.prems
      by (intro visitLoop_children_deep [OF assms c(1)] node.IH) auto
    with False show ?thesis by (simp add: visitLoop_open)
  qed
qed

lemma visitExpression_open: "visitExpression f n s = visitLoop f [openEntry 0 n] s"
  by (simp add: visitExpression_def openEntry_def)

lemma visitExpression_fold: "height n \<le> 256 \<Longrightarrow> visitExpression f n s = foldBx f (postorder n) s"
  by (simp add: visitExpression_open visitLoop_postorder rbind_def split: sum.splits)

lemma visitExpression_deep:
  "\<lbrakk>totalVisitor f; 256 < height n\<rbrakk> \<Longrightarrow>
   visitExpression f n s = Inl (diag CLimit ''expression depth'')"
  by (simp add: visitExpression_open visitLoop_deep)

text \<open>Whatever the visitor does, a traversal that returns has stayed within the bound.\<close>

lemma visitLoop_children_deep_fails:
  assumes "c \<in> set cs" "256 < height c + d"
    and "\<And>c stack s. c \<in> set cs \<Longrightarrow> 256 < height c + d \<Longrightarrow> \<not> isOk (visitLoop f (openEntry d c # stack) s)"
  shows "\<not> isOk (visitLoop f (map (openEntry d) cs @ stack) s)"
  using assms
proof (induction cs arbitrary: s)
  case (Cons x xs)
  show ?case
  proof (cases "256 < height x + d")
    case True
    then show ?thesis using Cons.prems(3) by simp
  next
    case False
    then have "\<not> isOk (visitLoop f (map (openEntry d) xs @ stack) s')" for s'
      using Cons.prems by (intro Cons.IH) auto
    with False show ?thesis
      by (simp add: visitLoop_postorder rbind_def split: sum.splits)
  qed
qed simp

lemma visitLoop_deep_fails:
  "256 < height n + d \<Longrightarrow> \<not> isOk (visitLoop f (openEntry d n # stack) s)"
proof (induction n arbitrary: d stack s rule: node_children_induct)
  case (node n)
  show ?case
  proof (cases "256 < d")
    case True
    then show ?thesis by (simp add: visitLoop.simps(2) openEntry_def)
  next
    case False
    with node.prems obtain c where c: "c \<in> set (children n)" "height n = Suc (height c)"
      using height_attained [of n] by auto
    have "\<not> isOk (visitLoop f (map (openEntry (Suc d)) (children n) @
        (openEntry d n)\<lparr>visited := True\<rparr> # stack) s)"
      using c node.prems by (intro visitLoop_children_deep_fails [OF c(1)] node.IH) auto
    with False show ?thesis by (simp add: visitLoop_open)
  qed
qed

lemma visitExpression_height: "visitExpression f n s = Inr s' \<Longrightarrow> height n \<le> 256"
  using visitLoop_deep_fails [of n 0 f "[]" s] by (fastforce simp: visitExpression_open not_le)

section \<open>Dependencies\<close>

text \<open>The variables and the functions that occur in a list of nodes and in a tree.\<close>

fun varsIn :: "node list \<Rightarrow> string set" where
  "varsIn [] = {}"
| "varsIn (Variable _ x # ns) = insert x (varsIn ns)"
| "varsIn (_ # ns) = varsIn ns"

fun callsIn :: "node list \<Rightarrow> string set" where
  "callsIn [] = {}"
| "callsIn (Call _ f _ # ns) = insert f (callsIn ns)"
| "callsIn (_ # ns) = callsIn ns"

definition varsOf :: "node \<Rightarrow> string set" where
  "varsOf n = varsIn (postorder n)"

definition callsOf :: "node \<Rightarrow> string set" where
  "callsOf n = callsIn (postorder n)"

lemma varsIn_append [simp]: "varsIn (xs @ ys) = varsIn xs \<union> varsIn ys"
  by (induction xs rule: varsIn.induct) auto

lemma callsIn_append [simp]: "callsIn (xs @ ys) = callsIn xs \<union> callsIn ys"
  by (induction xs rule: callsIn.induct) auto

lemma varsIn_concat: "varsIn (concat (map postorder ns)) = (\<Union>n\<in>set ns. varsOf n)"
  by (induction ns) (auto simp: varsOf_def)

lemma callsIn_concat: "callsIn (concat (map postorder ns)) = (\<Union>n\<in>set ns. callsOf n)"
  by (induction ns) (auto simp: callsOf_def)

lemma varsOf_simps [simp]:
  "varsOf (Literal sp v) = {}" "varsOf (Variable sp x) = {x}"
  "varsOf (Call sp f as) = (\<Union>n\<in>set as. varsOf n)"
  "varsOf (Unary sp op a) = varsOf a" "varsOf (Binary sp op a b) = varsOf a \<union> varsOf b"
  "varsOf (Conditional sp c y n) = varsOf c \<union> varsOf y \<union> varsOf n"
  by (auto simp: varsOf_def varsIn_concat)

lemma callsOf_simps [simp]:
  "callsOf (Literal sp v) = {}" "callsOf (Variable sp x) = {}"
  "callsOf (Call sp f as) = insert f (\<Union>n\<in>set as. callsOf n)"
  "callsOf (Unary sp op a) = callsOf a" "callsOf (Binary sp op a b) = callsOf a \<union> callsOf b"
  "callsOf (Conditional sp c y n) = callsOf c \<union> callsOf y \<union> callsOf n"
  by (auto simp: callsOf_def callsIn_concat)

lemma set_addSet [simp]: "set (addSet x xs) = insert x (set xs)"
  by (auto simp: addSet_def)

lemma distinct_addSet [simp]: "distinct (addSet x xs) = distinct xs"
  by (auto simp: addSet_def)

lemma totalVisitor_addDependency: "totalVisitor addDependency"
proof -
  have "isOk (addDependency n d)" for n d by (cases n) auto
  then show ?thesis by (simp add: totalVisitor_def)
qed

lemma foldBx_addDependency:
  "foldBx addDependency ns d = Inr d' \<Longrightarrow>
     set (depVariables d') = set (depVariables d) \<union> varsIn ns \<and>
     set (depFunctions d') = set (depFunctions d) \<union> callsIn ns \<and>
     distinct (depVariables d') = distinct (depVariables d) \<and>
     distinct (depFunctions d') = distinct (depFunctions d)"
proof (induction ns arbitrary: d)
  case (Cons n ns)
  then show ?case by (cases n) (simp_all add: Cons.IH)
qed simp

lemma expressionDependencies_ok:
  assumes "height n \<le> 256"
  shows "\<exists>d. expressionDependencies n = Inr d \<and>
    set (depVariables d) = varsOf n \<and> set (depFunctions d) = callsOf n \<and>
    distinct (depVariables d) \<and> distinct (depFunctions d)"
proof -
  obtain d where d: "foldBx addDependency (postorder n) \<lparr>depVariables = [], depFunctions = []\<rparr> = Inr d"
    using foldBx_total [OF totalVisitor_addDependency] by blast
  with assms have "expressionDependencies n = Inr d"
    by (simp add: expressionDependencies_def visitExpression_fold)
  with foldBx_addDependency [OF d] show ?thesis
    by (intro exI [of _ d]) (simp add: varsOf_def callsOf_def)
qed

lemma expressionDependencies_Inr:
  "expressionDependencies n = Inr d \<Longrightarrow>
   height n \<le> 256 \<and> set (depVariables d) = varsOf n \<and> set (depFunctions d) = callsOf n"
proof -
  assume d: "expressionDependencies n = Inr d"
  have h: "height n \<le> 256"
    using d visitExpression_deep [OF totalVisitor_addDependency, of n]
    by (fastforce simp: expressionDependencies_def not_le)
  with d expressionDependencies_ok [OF h] show ?thesis by auto
qed

lemma expressionDependencies_deep:
  "256 < height n \<Longrightarrow> expressionDependencies n = Inl (diag CLimit ''expression depth'')"
  by (simp add: expressionDependencies_def visitExpression_deep totalVisitor_addDependency)

end
