(* ===== verification/BxLexer.thy ===== *)
theory BxLexer
  imports BxTypes
begin

text \<open>
  Model of the lexer of \<open>billing-expression/parser.ts\<close> (the state of \<open>BillingParser\<close>, its
  constructor and its methods \<open>next\<close>, \<open>take\<close>, \<open>is\<close>, \<open>expect\<close>). Lexing is lazy, one lexeme
  ahead, as in the source, so an error of the grammar is reported before a lexical error
  further on. The lemmas show what the parser relies on: a lexeme other than the end is a
  non-empty span of the source, spans move strictly forward, and the source never changes.
\<close>

section \<open>State\<close>

datatype lexKind = KNumber | KString | KSymbol | KName | KEnd

datatype lexValue = NoValue | VString string | VNumber jsnum bool

record lexeme =
  lkind :: lexKind
  ltext :: string
  lstart :: nat
  lend :: nat
  lvalue :: lexValue

record parser =
  source :: string
  cursor :: nat
  count :: nat
  depth :: nat
  current :: lexeme

definition PRECEDENCE :: "string \<Rightarrow> nat option" where
  "PRECEDENCE = map_of
     [(''||'', 1), (''&&'', 2), (''=='', 3), (''!='', 3), (''<'', 4), (''<='', 4), (''>'', 4),
      (''>='', 4), (''+'', 5), (''-'', 5), (''*'', 6), (''/'', 6), (''%'', 6)]"

section \<open>Strings\<close>

text \<open>The table of single-character escapes.\<close>

definition escapes :: "char \<Rightarrow> char option" where
  "escapes = map_of
     [(CHR ''n'', CHR 0x0A), (CHR ''r'', CHR 0x0D), (CHR ''t'', CHR 0x09), (CHR ''b'', CHR 0x08),
      (CHR ''f'', CHR 0x0C), (CHR ''v'', CHR 0x0B), (backslash, backslash),
      (quoteDbl, quoteDbl), (quoteSgl, quoteSgl), (CHR ''/'', CHR ''/'')]"

definition unterminated :: "nat \<Rightarrow> exn" where
  "unterminated start = diagAt CSyntax ''unterminated string'' start"

text \<open>
  The loop over the characters after the opening quote: \<open>rest\<close> is the source from
  \<open>cursor\<close> on. The result is the decoded value and the cursor after the closing quote.
\<close>

function (sequential) lexString ::
    "nat \<Rightarrow> char \<Rightarrow> string \<Rightarrow> nat \<Rightarrow> string \<Rightarrow> (string \<times> nat) bx" where
  "lexString start quote [] cur value = Inl (unterminated start)"
| "lexString start quote (c # rest) cur value =
     (if c = quote then Inr (value, cur + 1)
      else if c = lineFeed \<or> c = carriageReturn then Inl (unterminated start)
      else if c \<noteq> backslash then lexString start quote rest (cur + 1) (value @ [c])
      else (case rest of
              [] \<Rightarrow> Inl (diagAt CUnsupported ''string escape'' (cur + 1))
            | escaped # rest' \<Rightarrow>
                (case escapes escaped of
                   Some x \<Rightarrow> lexString start quote rest' (cur + 2) (value @ [x])
                 | None \<Rightarrow>
                     if escaped = CHR ''u'' \<or> escaped = CHR ''x''
                     then let len = (if escaped = CHR ''u'' then 4 else 2); hex = take len rest'
                          in if length hex \<noteq> len \<or> \<not> list_all isHex hex
                             then Inl (unterminated start)
                             else if 255 < hexNumber hex
                             then Inl (OutsideModel ''code unit above U+00FF'')
                             else lexString start quote (drop len rest') (cur + 2 + len)
                                    (value @ [char_of (hexNumber hex)])
                     else Inl (diagAt CUnsupported ''string escape'' (cur + 1)))))"
  by pat_completeness auto
termination
  by (relation "measure (\<lambda>(_, _, rest, _, _). length rest)") auto

section \<open>Lexemes\<close>

text \<open>\<open>/^(?:&&|\|\||==|!=|<=|>=|[+\-*/%<>()!?:,])/\<close>.\<close>

definition scanOperator :: "string \<Rightarrow> string" where
  "scanOperator s =
     (if take 2 s \<in> set [''&&'', ''||'', ''=='', ''!='', ''<='', ''>=''] then take 2 s
      else if s \<noteq> [] \<and> hd s \<in> set ''+-*/%<>()!?:,'' then take 1 s
      else [])"

definition scanName :: "string \<Rightarrow> string" where
  "scanName s = (if s \<noteq> [] \<and> isNameStart (hd s) then takeWhile isWordChar s else [])"

definition mkLexeme :: "lexKind \<Rightarrow> string \<Rightarrow> nat \<Rightarrow> nat \<Rightarrow> lexValue \<Rightarrow> lexeme" where
  "mkLexeme k t i j v = \<lparr>lkind = k, ltext = t, lstart = i, lend = j, lvalue = v\<rparr>"

text \<open>A number lexeme: \<open>Number(text)\<close>, with the two range checks.\<close>

definition lexNumber :: "string \<Rightarrow> nat \<Rightarrow> lexeme bx" where
  "lexNumber text start =
     (let value = numberOf text;
          integer = (\<not> list_ex (\<lambda>c. c \<in> set ''.eE'') text)
      in if \<not> isFinite value then Inl (diagAt CNumber text start)
         else if integer \<and> \<not> isSafeInteger value
         then Inl (diagAt CUnsupported ''integer precision'' start)
         else Inr (mkLexeme KNumber text start (start + length text) (VNumber value integer)))"

text \<open>One lexeme from \<open>start\<close>, where \<open>rest\<close> is the source from there on.\<close>

definition lexAt :: "string \<Rightarrow> string \<Rightarrow> nat \<Rightarrow> lexeme bx" where
  "lexAt src rest start =
     (case rest of
        [] \<Rightarrow> Inr (mkLexeme KEnd [] start start NoValue)
      | c # tail \<Rightarrow>
          if scanNumber rest \<noteq> [] then lexNumber (scanNumber rest) start
          else if c = quoteDbl \<or> c = quoteSgl
          then rbind (lexString start c tail (start + 1) [])
                 (\<lambda>(value, cur). Inr (mkLexeme KString (slice src start cur) start cur (VString value)))
          else if scanName rest \<noteq> []
          then Inr (mkLexeme KName (scanName rest) start (start + length (scanName rest)) NoValue)
          else if scanOperator rest = [] then Inl (diagAt CUnsupported [c] start)
          else Inr (mkLexeme KSymbol (scanOperator rest) start
                      (start + length (scanOperator rest)) NoValue))"

definition skipSpace :: "string \<Rightarrow> nat \<Rightarrow> nat" where
  "skipSpace src i = i + length (takeWhile isSpace (drop i src))"

text \<open>The method \<open>next\<close>; it moves the cursor to the end of the lexeme it returns.\<close>

definition nextLexeme :: "(parser, exn, lexeme) comp" where
  "nextLexeme p =
     (let p1 = p\<lparr>count := count p + 1\<rparr>
      in if 10000 < count p1 then Inl (diag CLimit ''expression tokens'')
         else let start = skipSpace (source p1) (cursor p1)
              in rbind (lexAt (source p1) (drop start (source p1)) start)
                   (\<lambda>l. Inr (l, p1\<lparr>cursor := lend l\<rparr>)))"

definition takeLexeme :: "(parser, exn, lexeme) comp" where
  "takeLexeme p = rbind (nextLexeme p) (\<lambda>(l, p'). Inr (current p, p'\<lparr>current := l\<rparr>))"

definition isText :: "parser \<Rightarrow> string \<Rightarrow> bool" where
  "isText p text \<longleftrightarrow> ltext (current p) = text"

definition expectText :: "string \<Rightarrow> (parser, exn, lexeme) comp" where
  "expectText text p =
     (if ltext (current p) \<noteq> text
      then Inl (diagAt CSyntax (''expected '' @ text) (lstart (current p)))
      else takeLexeme p)"

text \<open>The match of \<open>/^\s*v(\d+):/\<close>: the whole match and the digits.\<close>

definition scanVersion :: "string \<Rightarrow> (string \<times> string) option" where
  "scanVersion src =
     (let sp = takeWhile isSpace src; t = dropWhile isSpace src
      in case t of
           [] \<Rightarrow> None
         | c # u \<Rightarrow>
             if c = CHR ''v''
             then let ds = takeWhile isDigit u
                  in if ds \<noteq> [] \<and> take 1 (dropWhile isDigit u) = '':''
                     then Some (sp @ c # ds @ '':'', ds) else None
             else None)"

text \<open>The constructor. \<open>current\<close> is unassigned before the first \<open>next\<close>; an end lexeme stands for it.\<close>

definition newParser :: "string \<Rightarrow> parser bx" where
  "newParser src =
     (if 65536 < length src then Inl (diag CLimit ''expression length'')
      else let p = \<lparr>source = src, cursor = 0, count = 0, depth = 0,
                    current = mkLexeme KEnd [] 0 0 NoValue\<rparr>
           in case scanVersion src of
                Some (m, ds) \<Rightarrow>
                  if ds \<noteq> ''1'' then Inl (diag CUnsupported m)
                  else rbind (nextLexeme (p\<lparr>cursor := length m\<rparr>))
                         (\<lambda>(l, p'). Inr (p'\<lparr>current := l\<rparr>))
              | None \<Rightarrow> rbind (nextLexeme p) (\<lambda>(l, p'). Inr (p'\<lparr>current := l\<rparr>)))"

section \<open>Scanners return a prefix\<close>

definition isPrefix :: "'a list \<Rightarrow> 'a list \<Rightarrow> bool" where
  "isPrefix p s \<longleftrightarrow> (\<exists>t. s = p @ t)"

lemma isPrefix_Nil [simp]: "isPrefix [] s"
  by (simp add: isPrefix_def)

lemma isPrefix_takeWhile [simp]: "isPrefix (takeWhile P s) s"
  unfolding isPrefix_def by (metis takeWhile_dropWhile_id)

lemma isPrefix_take [simp]: "isPrefix (take n s) s"
  unfolding isPrefix_def by (metis append_take_drop_id)

lemma isPrefix_drop_length: "isPrefix p s \<Longrightarrow> s = p @ drop (length p) s"
  by (auto simp: isPrefix_def)

lemma isPrefix_append:
  "\<lbrakk>isPrefix p s; isPrefix q (drop (length p) s)\<rbrakk> \<Longrightarrow> isPrefix (p @ q) s"
  by (auto simp: isPrefix_def)

lemma isPrefix_length: "isPrefix p s \<Longrightarrow> length p \<le> length s"
  by (auto simp: isPrefix_def)

lemma isPrefix_slice:
  assumes "isPrefix p (drop i src)"
  shows "slice src i (i + length p) = p"
  using isPrefix_drop_length [OF assms] by (simp add: slice_def)

lemma isPrefix_scanExponent: "isPrefix (scanExponent s) s"
proof (cases s)
  case (Cons c t)
  let ?sign = "takeWhile (\<lambda>x. x = CHR ''+'' \<or> x = CHR ''-'') (take 1 t)"
  have "isPrefix ?sign t"
    by (metis isPrefix_def append.assoc append_take_drop_id takeWhile_dropWhile_id)
  then have "isPrefix (?sign @ takeWhile isDigit (drop (length ?sign) t)) t"
    by (intro isPrefix_append) auto
  then have "isPrefix (c # ?sign @ takeWhile isDigit (drop (length ?sign) t)) s"
    using Cons by (auto simp: isPrefix_def)
  with Cons show ?thesis by (auto simp: scanExponent_def Let_def)
qed (simp add: scanExponent_def)

lemma isPrefix_scanMantissa: "isPrefix (scanMantissa s) s"
proof -
  have "isPrefix (takeWhile isDigit s @ c # takeWhile isDigit u) s" if "dropWhile isDigit s = c # u" for c u
    using that by (metis isPrefix_def append.assoc append_Cons takeWhile_dropWhile_id)
  moreover have "isPrefix (c # takeWhile isDigit u) (c # u)" for c u
    by (metis isPrefix_def append_Cons takeWhile_dropWhile_id)
  ultimately show ?thesis
    by (auto simp: scanMantissa_def Let_def split: list.splits)
qed

lemma isPrefix_scanNumber: "isPrefix (scanNumber s) s"
  by (auto simp: scanNumber_def Let_def intro: isPrefix_append isPrefix_scanMantissa isPrefix_scanExponent)

lemma isPrefix_scanName: "isPrefix (scanName s) s"
  by (simp add: scanName_def)

lemma isPrefix_scanOperator: "isPrefix (scanOperator s) s"
  unfolding scanOperator_def by (auto simp only: isPrefix_take isPrefix_Nil split: if_split)

lemma isPrefix_scanVersion: "scanVersion src = Some (m, ds) \<Longrightarrow> isPrefix m src"
proof -
  assume m: "scanVersion src = Some (m, ds)"
  then obtain c u where c: "dropWhile isSpace src = c # u"
    by (auto simp: scanVersion_def Let_def split: list.splits)
  with m have m': "m = takeWhile isSpace src @ c # takeWhile isDigit u @ '':''"
    and "take 1 (dropWhile isDigit u) = '':''"
    by (auto simp: scanVersion_def Let_def split: if_splits)
  from this(2) have "isPrefix '':'' (dropWhile isDigit u)" by (metis isPrefix_take)
  then obtain t where "dropWhile isDigit u = '':'' @ t" by (auto simp: isPrefix_def)
  then have "u = takeWhile isDigit u @ '':'' @ t" by (metis takeWhile_dropWhile_id)
  with c have "src = takeWhile isSpace src @ c # takeWhile isDigit u @ '':'' @ t"
    by (metis takeWhile_dropWhile_id)
  then have "src = m @ t" using m' by simp
  then show ?thesis by (auto simp: isPrefix_def)
qed

lemma lexString_cursor:
  "lexString start q rest cur acc = Inr (v, cur') \<Longrightarrow> cur < cur' \<and> cur' \<le> cur + length rest"
proof (induction rest arbitrary: cur acc rule: length_induct)
  case (1 rest)
  have IH: "\<And>r cur acc. \<lbrakk>length r < length rest; lexString start q r cur acc = Inr (v, cur')\<rbrakk> \<Longrightarrow>
      cur < cur' \<and> cur' \<le> cur + length r"
    using "1.IH" by blast
  from "1.prems" show ?case
    by (cases rest)
       (auto split: if_splits list.splits option.splits simp: Let_def dest!: IH [rotated])
qed

section \<open>The lexer's invariant\<close>

text \<open>
  A lexeme lies in the source; it is empty exactly at the end, where it stands after the
  last character; numbers and strings are the lexemes with a value.
\<close>

fun valueOk :: "lexValue \<Rightarrow> bool" where
  "valueOk (VNumber x i) = (isFinite x \<and> isDouble x \<and> nonNeg x \<and> (i \<longrightarrow> isSafeInteger x))"
| "valueOk _ = True"

lemma decimalVal_nonneg: "0 \<le> decimalVal s"
proof -
  have "0 \<le> foldl (\<lambda>n c. 10 * n + int (digitVal c)) k ds" if "0 \<le> k" for k ds
    using that by (induction ds arbitrary: k) auto
  then have "0 \<le> digitsVal ds" for ds by (simp add: digitsVal_def)
  then show ?thesis by (auto simp: decimalVal_def Let_def zero_le_power_int intro!: mult_nonneg_nonneg)
qed

lemma lexNumber_ok: "lexNumber text start = Inr l \<Longrightarrow> valueOk (lvalue l)"
  by (auto simp: lexNumber_def Let_def mkLexeme_def numberOf_def decimalVal_nonneg nonNeg_toDouble
      split: if_splits)

definition lexemeOk :: "string \<Rightarrow> lexeme \<Rightarrow> bool" where
  "lexemeOk src l \<longleftrightarrow>
     lend l \<le> length src \<and> ltext l = slice src (lstart l) (lend l) \<and>
     (if lkind l = KEnd then lstart l = length src \<and> lend l = length src else lstart l < lend l) \<and>
     (lvalue l = NoValue \<longleftrightarrow> lkind l \<noteq> KNumber \<and> lkind l \<noteq> KString) \<and> valueOk (lvalue l)"

lemma lexAt_ok:
  assumes "start \<le> length src" "rest = drop start src" "lexAt src rest start = Inr l"
  shows "lexemeOk src l \<and> lstart l = start"
proof (cases rest)
  case Nil
  with assms show ?thesis
    by (auto simp: lexAt_def mkLexeme_def lexemeOk_def slice_def)
next
  case (Cons c tail)
  have len: "length rest = length src - start" "start < length src"
    using assms(1,2) Cons by (auto, metis drop_eq_Nil list.distinct(1) not_le)
  have fits: "start + length p \<le> length src \<and> slice src start (start + length p) = p"
    if "isPrefix p rest" for p
    using isPrefix_length [OF that] isPrefix_slice [of p start src] that assms(2) len by simp
  have L: "lexAt src rest start =
      (if scanNumber rest \<noteq> [] then lexNumber (scanNumber rest) start
       else if c = quoteDbl \<or> c = quoteSgl
       then rbind (lexString start c tail (start + 1) [])
              (\<lambda>(v, cur). Inr (mkLexeme KString (slice src start cur) start cur (VString v)))
       else if scanName rest \<noteq> []
       then Inr (mkLexeme KName (scanName rest) start (start + length (scanName rest)) NoValue)
       else if scanOperator rest = [] then Inl (diagAt CUnsupported [c] start)
       else Inr (mkLexeme KSymbol (scanOperator rest) start
                   (start + length (scanOperator rest)) NoValue))"
    using Cons by (simp add: lexAt_def)
  consider (num) "scanNumber rest \<noteq> []"
    | (str) "scanNumber rest = []" "c = quoteDbl \<or> c = quoteSgl"
    | (nam) "scanNumber rest = []" "\<not> (c = quoteDbl \<or> c = quoteSgl)" "scanName rest \<noteq> []"
    | (op) "scanNumber rest = []" "\<not> (c = quoteDbl \<or> c = quoteSgl)" "scanName rest = []"
    by blast
  then show ?thesis
  proof cases
    case num
    then have "valueOk (lvalue l)" using assms(3) L lexNumber_ok by simp
    with num assms(3) L fits [OF isPrefix_scanNumber] show ?thesis
      by (auto simp: lexNumber_def Let_def mkLexeme_def lexemeOk_def split: if_splits)
  next
    case str
    then obtain v cur where v: "lexString start c tail (start + 1) [] = Inr (v, cur)"
      "l = mkLexeme KString (slice src start cur) start cur (VString v)"
      using assms(3) L by auto
    have "length rest = Suc (length tail)" using Cons by simp
    with lexString_cursor [OF v(1)] len v(2) show ?thesis
      by (auto simp: mkLexeme_def lexemeOk_def)
  next
    case nam
    with assms(3) L fits [OF isPrefix_scanName] show ?thesis
      by (auto simp: mkLexeme_def lexemeOk_def)
  next
    case op
    with assms(3) L fits [OF isPrefix_scanOperator] show ?thesis
      by (auto simp: mkLexeme_def lexemeOk_def split: if_splits)
  qed
qed

definition parserOk :: "parser \<Rightarrow> bool" where
  "parserOk p \<longleftrightarrow> lexemeOk (source p) (current p) \<and> cursor p = lend (current p)"

text \<open>How much of the source is left: from the current lexeme on.\<close>

definition remaining :: "parser \<Rightarrow> nat" where
  "remaining p = length (source p) - lstart (current p)"

lemma skipSpace_bounds:
  "i \<le> length src \<Longrightarrow> i \<le> skipSpace src i \<and> skipSpace src i \<le> length src"
  using length_takeWhile_le [of isSpace "drop i src"] by (simp add: skipSpace_def)

lemma nextLexeme_ok:
  assumes "cursor p \<le> length (source p)" "nextLexeme p = Inr (l, p')"
  shows "lexemeOk (source p) l \<and> cursor p \<le> lstart l \<and>
    p' = p\<lparr>count := count p + 1, cursor := lend l\<rparr>"
  using assms skipSpace_bounds [OF assms(1)] lexAt_ok [OF _ refl]
  by (auto simp: nextLexeme_def Let_def split: if_splits)

lemma takeLexeme_ok:
  assumes "parserOk p" "takeLexeme p = Inr (l, p')"
  shows "l = current p \<and> parserOk p' \<and> source p' = source p \<and> depth p' = depth p \<and>
    lend l \<le> lstart (current p') \<and> remaining p' \<le> remaining p \<and>
    (lkind l \<noteq> KEnd \<longrightarrow> remaining p' < remaining p)"
proof -
  obtain l' p1 where n: "nextLexeme p = Inr (l', p1)" and "l = current p" "p' = p1\<lparr>current := l'\<rparr>"
    using assms(2) by (auto simp: takeLexeme_def)
  moreover have "cursor p \<le> length (source p)"
    using assms(1) by (auto simp: parserOk_def lexemeOk_def)
  ultimately show ?thesis
    using nextLexeme_ok [OF _ n] assms(1)
    by (auto simp: parserOk_def lexemeOk_def remaining_def split: if_splits)
qed

lemma firstLexeme_ok:
  assumes "rbind (nextLexeme p0) (\<lambda>(l, p'). Inr (p'\<lparr>current := l\<rparr>)) = Inr p"
    and "cursor p0 \<le> length (source p0)"
  shows "parserOk p \<and> source p = source p0 \<and> depth p = depth p0"
  using assms(1) nextLexeme_ok [OF assms(2)] by (auto simp: parserOk_def)

lemma newParser_ok: "newParser src = Inr p \<Longrightarrow> parserOk p \<and> source p = src \<and> depth p = 0"
proof -
  assume n: "newParser src = Inr p"
  have len: "length m \<le> length src" if "scanVersion src = Some (m, ds)" for m ds
    using isPrefix_length [OF isPrefix_scanVersion [OF that]] .
  from n show ?thesis
    by (auto simp: newParser_def Let_def split: if_splits option.splits
        dest!: firstLexeme_ok len)
qed

end
