(* ===== verification/BxParser.thy ===== *)
theory BxParser
  imports BxLexer
begin

text \<open>
  Model of the recursive-descent and precedence-climbing methods of \<open>BillingParser\<close>
  (\<open>billing-expression/parser.ts\<close>): \<open>expression\<close> with its operator loop, \<open>primary\<close> with its
  argument loop, and \<open>parse\<close>. The methods call each other on a state that has consumed
  lexemes, so the recursion is bounded by fuel; \<open>parseFuel\<close> is linear in the length of the
  source, and the theory proves that it never runs out.
\<close>

definition outOfFuel :: exn where
  "outOfFuel = OutsideModel ''fuel''"

fun primary :: "nat \<Rightarrow> (parser, exn, node) comp"
and expression :: "nat \<Rightarrow> nat \<Rightarrow> (parser, exn, node) comp"
and binaryLoop :: "nat \<Rightarrow> nat \<Rightarrow> node \<Rightarrow> (parser, exn, node) comp"
and argsLoop :: "nat \<Rightarrow> node list \<Rightarrow> (parser, exn, node list) comp" where
  "primary 0 p = Inl outOfFuel"
| "primary (Suc fuel) p =
     rbind (takeLexeme p) (\<lambda>(token, p1).
       let span = (lstart token, lend token)
       in case lvalue token of
            VNumber x integer \<Rightarrow> Inr (Literal span (LNum x integer), p1)
          | VString s \<Rightarrow> Inr (Literal span (LStr s), p1)
          | NoValue \<Rightarrow>
     if ltext token = ''('' then
       rbind (expression fuel 0 p1) (\<lambda>(inner, p2).
       rbind (expectText '')'' p2) (\<lambda>(close, p3).
       Inr (respan (lstart token, lend close) inner, p3)))
     else if ltext token \<in> set [''!'', ''+'', ''-''] then
       rbind (expression fuel 7 p1) (\<lambda>(operand, p2).
       Inr (Unary (lstart token, nend operand) (ltext token) operand, p2))
     else if lkind token \<noteq> KName then
       Inl (diagAt CSyntax (ltext token) (lstart token))
     else if ltext token = ''nil'' then Inr (Literal span LNull, p1)
     else if ltext token = ''true'' \<or> ltext token = ''false'' then
       Inr (Literal span (LBool (ltext token = ''true'')), p1)
     else if \<not> isText p1 ''('' then
       (if ltext token \<notin> set BILLING_VARIABLES
        then Inl (diagAt CUnsupported (ltext token) (lstart token))
        else Inr (Variable span (ltext token), p1))
     else (case BILLING_FUNCTIONS (ltext token) of
             None \<Rightarrow> Inl (diagAt CUnsupported (ltext token) (lstart token))
           | Some arity \<Rightarrow>
               rbind (takeLexeme p1) (\<lambda>(_, p2).
               rbind (argsLoop fuel [] p2) (\<lambda>(args, p3).
               rbind (expectText '')'' p3) (\<lambda>(close, p4).
               if length args \<noteq> arity
               then Inl (diagAt CType (ltext token) (lstart token))
               else Inr (Call (lstart token, lend close) (ltext token) args, p4))))))"
| "expression 0 minimum p = Inl outOfFuel"
| "expression (Suc fuel) minimum p =
     (let p1 = p\<lparr>depth := depth p + 1\<rparr>
      in if 128 < depth p1 then Inl (diag CLimit ''expression depth'')
         else rbind (primary fuel p1) (\<lambda>(left, p2).
              rbind (binaryLoop fuel minimum left p2) (\<lambda>(left, p3).
              rbind (if minimum = 0 \<and> isText p3 ''?'' then
                       rbind (takeLexeme p3) (\<lambda>(_, p4).
                       rbind (expression fuel 0 p4) (\<lambda>(yes, p5).
                       rbind (expectText '':'' p5) (\<lambda>(_, p6).
                       rbind (expression fuel 0 p6) (\<lambda>(no, p7).
                       Inr (Conditional (nstart left, nend no) left yes no, p7)))))
                     else Inr (left, p3)) (\<lambda>(left, p8).
              Inr (left, p8\<lparr>depth := depth p8 - 1\<rparr>)))))"
| "binaryLoop 0 minimum left p = Inl outOfFuel"
| "binaryLoop (Suc fuel) minimum left p =
     (case PRECEDENCE (ltext (current p)) of
        Some prec \<Rightarrow>
          if minimum \<le> prec then
            rbind (takeLexeme p) (\<lambda>(operator, p1).
            rbind (expression fuel (prec + 1) p1) (\<lambda>(right, p2).
            binaryLoop fuel minimum
              (Binary (nstart left, nend right) (ltext operator) left right) p2))
          else Inr (left, p)
      | None \<Rightarrow> Inr (left, p))"
| "argsLoop 0 args p = Inl outOfFuel"
| "argsLoop (Suc fuel) args p =
     (if isText p '')'' then Inr (args, p)
      else rbind (expression fuel 0 p) (\<lambda>(arg, p1).
           if \<not> isText p1 '','' then Inr (args @ [arg], p1)
           else rbind (takeLexeme p1) (\<lambda>(_, p2). argsLoop fuel (args @ [arg]) p2)))"

definition parseFuel :: "string \<Rightarrow> nat" where
  "parseFuel src = 4 * length src + 4"

text \<open>\<open>new BillingParser(source).parse()\<close>.\<close>

definition parseExpression :: "string \<Rightarrow> node bx" where
  "parseExpression src =
     rbind (newParser src) (\<lambda>p.
     rbind (expression (parseFuel src) 0 p) (\<lambda>(n, p1).
     if lkind (current p1) \<noteq> KEnd
     then Inl (diagAt CUnsupported (ltext (current p1)) (lstart (current p1)))
     else Inr n))"

section \<open>Well-formed trees\<close>

text \<open>
  What the grammar guarantees of every node: known names with the right arity, operators of
  the table, number literals that are finite non-negative doubles, and spans that contain
  the spans of the children in order.
\<close>

fun seqIn :: "nat \<Rightarrow> nat \<Rightarrow> node list \<Rightarrow> bool" where
  "seqIn lo hi [] = (lo \<le> hi)"
| "seqIn lo hi (n # ns) = (lo \<le> nstart n \<and> nstart n < nend n \<and> seqIn (nend n) hi ns)"

definition spanLen :: "node \<Rightarrow> nat" where
  "spanLen n = nend n - nstart n"

definition spanOk :: "node \<Rightarrow> bool" where
  "spanOk n \<longleftrightarrow> nstart n < nend n \<and> seqIn (nstart n) (nend n) (children n) \<and>
     (\<forall>c\<in>set (children n). spanLen c < spanLen n)"

fun syntaxOk :: "node \<Rightarrow> bool" where
  "syntaxOk (Literal _ (LNum x i)) =
     (isFinite x \<and> isDouble x \<and> nonNeg x \<and> (i \<longrightarrow> isSafeInteger x))"
| "syntaxOk (Literal _ _) = True"
| "syntaxOk (Variable _ x) = (x \<in> set BILLING_VARIABLES)"
| "syntaxOk (Call _ f as) = (BILLING_FUNCTIONS f = Some (length as))"
| "syntaxOk (Unary _ op _) = (op \<in> set [''!'', ''+'', ''-''])"
| "syntaxOk (Binary _ op _ _) = (PRECEDENCE op \<noteq> None)"
| "syntaxOk (Conditional _ _ _ _) = True"

definition astOk :: "node \<Rightarrow> bool" where
  "astOk n \<longleftrightarrow> (\<forall>m\<in>set (postorder n). syntaxOk m \<and> spanOk m)"

lemma astOk_children:
  "astOk n \<longleftrightarrow> syntaxOk n \<and> spanOk n \<and> (\<forall>c\<in>set (children n). astOk c)"
  unfolding astOk_def by (subst postorder_children) auto

lemma astOk_simps [simp]:
  "astOk (Literal sp v) \<longleftrightarrow> syntaxOk (Literal sp v) \<and> fst sp < snd sp"
  "astOk (Variable sp x) \<longleftrightarrow> x \<in> set BILLING_VARIABLES \<and> fst sp < snd sp"
  "astOk (Unary sp op a) \<longleftrightarrow> op \<in> set [''!'', ''+'', ''-''] \<and> spanOk (Unary sp op a) \<and> astOk a"
  "astOk (Binary sp op a b) \<longleftrightarrow>
     PRECEDENCE op \<noteq> None \<and> spanOk (Binary sp op a b) \<and> astOk a \<and> astOk b"
  "astOk (Conditional sp c y n) \<longleftrightarrow>
     spanOk (Conditional sp c y n) \<and> astOk c \<and> astOk y \<and> astOk n"
  "astOk (Call sp f as) \<longleftrightarrow>
     BILLING_FUNCTIONS f = Some (length as) \<and> spanOk (Call sp f as) \<and> (\<forall>a\<in>set as. astOk a)"
  by (rule trans [OF astOk_children], force simp: spanOk_def)+

lemma astOk_span: "astOk n \<Longrightarrow> nstart n < nend n"
  using astOk_children [of n] by (simp add: spanOk_def)

lemma seqIn_mono: "\<lbrakk>seqIn lo hi ns; lo' \<le> lo; hi \<le> hi'\<rbrakk> \<Longrightarrow> seqIn lo' hi' ns"
  by (induction ns arbitrary: lo lo') auto

lemma seqIn_le: "seqIn lo hi ns \<Longrightarrow> lo \<le> hi"
  by (induction ns arbitrary: lo) fastforce+

lemma seqIn_bounds: "\<lbrakk>seqIn lo hi ns; n \<in> set ns\<rbrakk> \<Longrightarrow> lo \<le> nstart n \<and> nend n \<le> hi"
proof (induction ns arbitrary: lo)
  case (Cons m ns)
  then show ?case using seqIn_le [of "nend m" hi ns] by fastforce
qed simp

lemma spanOk_respan:
  assumes "spanOk n" "i \<le> nstart n" "nend n \<le> j"
  shows "spanOk (respan (i, j) n)"
proof -
  have [simp]: "children (respan (i, j) n) = children n" "spanOf (respan (i, j) n) = (i, j)"
    by (cases n; simp)+
  show ?thesis
    using assms seqIn_mono [of "nstart n" "nend n" "children n" i j]
    by (fastforce simp: spanOk_def spanLen_def)
qed

lemma astOk_respan:
  assumes "astOk n" "i \<le> nstart n" "nend n \<le> j"
  shows "astOk (respan (i, j) n)"
proof -
  have s: "syntaxOk (respan sp n) = syntaxOk n" for sp
    by (cases n rule: syntaxOk.cases) simp_all
  have c: "children (respan sp n) = children n" for sp
    by (cases n) simp_all
  from assms(1) have n: "syntaxOk n" "spanOk n" "\<forall>c\<in>set (children n). astOk c"
    using astOk_children [of n] by simp_all
  show ?thesis
    by (rule iffD2 [OF astOk_children]) (simp add: s c n spanOk_respan [OF n(2) assms(2,3)])
qed

lemma spanOf_respan [simp]: "spanOf (respan sp n) = sp"
  by (cases n) auto

section \<open>The parser builds well-formed trees\<close>

text \<open>What a method that parses one tree guarantees of its result and of the state it leaves.\<close>

definition parsed :: "parser \<Rightarrow> node \<Rightarrow> parser \<Rightarrow> bool" where
  "parsed p n p' \<longleftrightarrow>
     parserOk p' \<and> source p' = source p \<and> depth p' = depth p \<and> astOk n \<and>
     nstart n = lstart (current p) \<and> nend n \<le> lstart (current p') \<and> remaining p' < remaining p"

definition primSound :: "nat \<Rightarrow> bool" where
  "primSound f \<longleftrightarrow> (\<forall>p n p'. parserOk p \<longrightarrow> primary f p = Inr (n, p') \<longrightarrow> parsed p n p')"

definition exprSound :: "nat \<Rightarrow> bool" where
  "exprSound f \<longleftrightarrow>
     (\<forall>m p n p'. parserOk p \<longrightarrow> expression f m p = Inr (n, p') \<longrightarrow> parsed p n p')"

definition loopSound :: "nat \<Rightarrow> bool" where
  "loopSound f \<longleftrightarrow>
     (\<forall>m left p n p'. parserOk p \<longrightarrow> astOk left \<longrightarrow> nend left \<le> lstart (current p) \<longrightarrow>
        binaryLoop f m left p = Inr (n, p') \<longrightarrow>
        parserOk p' \<and> source p' = source p \<and> depth p' = depth p \<and> astOk n \<and>
        nstart n = nstart left \<and> nend n \<le> lstart (current p') \<and> remaining p' \<le> remaining p)"

definition argsSound :: "nat \<Rightarrow> bool" where
  "argsSound f \<longleftrightarrow>
     (\<forall>args p args' p'. parserOk p \<longrightarrow> argsLoop f args p = Inr (args', p') \<longrightarrow>
        parserOk p' \<and> source p' = source p \<and> depth p' = depth p \<and> remaining p' \<le> remaining p \<and>
        (\<exists>new. args' = args @ new \<and> (\<forall>a\<in>set new. astOk a) \<and>
           seqIn (lstart (current p)) (lstart (current p')) new))"

lemma parserOk_depth [simp]:
  "parserOk (p\<lparr>depth := d\<rparr>) = parserOk p" "remaining (p\<lparr>depth := d\<rparr>) = remaining p"
  by (simp_all add: parserOk_def remaining_def)

lemma expectText_ok: "expectText t p = Inr r \<Longrightarrow> takeLexeme p = Inr r \<and> ltext (current p) = t"
  by (auto simp: expectText_def split: if_splits)

lemma lexemeOk_nonempty: "\<lbrakk>lexemeOk src l; ltext l \<noteq> []\<rbrakk> \<Longrightarrow> lkind l \<noteq> KEnd"
  by (auto simp: lexemeOk_def slice_def)

lemma lexemeOk_value: "\<lbrakk>lexemeOk src l; lvalue l \<noteq> NoValue\<rbrakk> \<Longrightarrow> lkind l \<noteq> KEnd"
  by (auto simp: lexemeOk_def)

lemma lexemeOk_forward: "\<lbrakk>lexemeOk src l; lkind l \<noteq> KEnd\<rbrakk> \<Longrightarrow> lstart l < lend l"
  by (auto simp: lexemeOk_def)

lemma lexemeOk_valueOk: "lexemeOk src l \<Longrightarrow> valueOk (lvalue l)"
  by (simp add: lexemeOk_def)

lemma PRECEDENCE_Nil [simp]: "PRECEDENCE [] = None"
  by (simp add: PRECEDENCE_def)

lemma parserOk_current: "parserOk p \<Longrightarrow> lexemeOk (source p) (current p)"
  by (simp add: parserOk_def)

lemma parsed_leaf:
  assumes "parserOk p" "takeLexeme p = Inr (l, p1)" "lkind l \<noteq> KEnd" "astOk n"
    "spanOf n = (lstart l, lend l)"
  shows "parsed p n p1"
  using takeLexeme_ok [OF assms(1,2)] assms(3-5) by (auto simp: parsed_def)

lemma loopSound_Suc:
  assumes "exprSound f" "loopSound f"
  shows "loopSound (Suc f)"
  unfolding loopSound_def
proof (intro allI impI)
  fix m left p n p'
  assume p: "parserOk p" and l: "astOk left" "nend left \<le> lstart (current p)"
    and run: "binaryLoop (Suc f) m left p = Inr (n, p')"
  show "parserOk p' \<and> source p' = source p \<and> depth p' = depth p \<and> astOk n \<and>
        nstart n = nstart left \<and> nend n \<le> lstart (current p') \<and> remaining p' \<le> remaining p"
  proof (cases "\<exists>prec. PRECEDENCE (ltext (current p)) = Some prec \<and> m \<le> prec")
    case False
    with run p l show ?thesis by (auto split: option.splits if_splits)
  next
    case True
    then obtain prec tok p1 right p2 where
      prec: "PRECEDENCE (ltext (current p)) = Some prec" and
      t: "takeLexeme p = Inr (tok, p1)" and
      e: "expression f (prec + 1) p1 = Inr (right, p2)" and
      b: "binaryLoop f m (Binary (nstart left, nend right) (ltext tok) left right) p2 = Inr (n, p')"
      using run by (auto simp: rbind_eq_Inr_iff)
    note tk = takeLexeme_ok [OF p t]
    have pr: "parsed p1 right p2" using assms(1) e tk unfolding exprSound_def by blast
    have lt: "nend left < nstart right" if "lkind tok \<noteq> KEnd"
      using l(2) tk pr lexemeOk_forward [OF parserOk_current [OF p]] that by (auto simp: parsed_def)
    have ne: "lkind tok \<noteq> KEnd"
      using prec tk lexemeOk_nonempty [OF parserOk_current [OF p]]
      by (cases "ltext (current p) = []") auto
    have "astOk (Binary (nstart left, nend right) (ltext tok) left right)"
      using l pr prec tk lt [OF ne] astOk_span [of left] astOk_span [of right]
      by (auto simp: parsed_def spanOk_def spanLen_def)
    moreover have "nend right \<le> lstart (current p2)" "parserOk p2" using pr by (auto simp: parsed_def)
    ultimately show ?thesis
      using assms(2) b tk pr unfolding loopSound_def parsed_def
      by (metis (no_types, lifting) fst_conv le_trans less_imp_le_nat snd_conv spanOf.simps(5))
  qed
qed

lemma argsSound_Suc:
  assumes "exprSound f" "argsSound f"
  shows "argsSound (Suc f)"
  unfolding argsSound_def
proof (intro allI impI)
  fix args p args' p'
  assume p: "parserOk p" and run: "argsLoop (Suc f) args p = Inr (args', p')"
  let ?G = "\<lambda>p args. parserOk p' \<and> source p' = source p \<and> depth p' = depth p \<and>
      remaining p' \<le> remaining p \<and> (\<exists>new. args' = args @ new \<and> (\<forall>a\<in>set new. astOk a) \<and>
      seqIn (lstart (current p)) (lstart (current p')) new)"
  show "?G p args"
  proof (cases "isText p '')''")
    case True
    with run p show ?thesis by auto
  next
    case False
    then obtain arg p1 where e: "expression f 0 p = Inr (arg, p1)"
      using run by (auto simp: rbind_eq_Inr_iff)
    have a: "parsed p arg p1" using assms(1) e p unfolding exprSound_def by blast
    then have sp: "nstart arg < nend arg" using astOk_span [of arg] by (auto simp: parsed_def)
    show ?thesis
    proof (cases "isText p1 '',''")
      case False
      with run e \<open>\<not> isText p '')''\<close> a sp show ?thesis by (auto simp: parsed_def)
    next
      case True
      then obtain tok p2 where t: "takeLexeme p1 = Inr (tok, p2)"
        and r: "argsLoop f (args @ [arg]) p2 = Inr (args', p')"
        using run e \<open>\<not> isText p '')''\<close> by (auto simp: rbind_eq_Inr_iff)
      have tk: "parserOk p2" "source p2 = source p1" "depth p2 = depth p1"
          "lend (current p1) \<le> lstart (current p2)" "remaining p2 \<le> remaining p1"
        using takeLexeme_ok [of p1 tok p2] a t by (auto simp: parsed_def)
      have g: "?G p2 (args @ [arg])" using assms(2) r tk(1) unfolding argsSound_def by blast
      have "lstart (current p1) \<le> lend (current p1)"
        using a by (auto simp: parsed_def parserOk_def lexemeOk_def split: if_splits)
      then have "nend arg \<le> lstart (current p2)" using a tk by (simp add: parsed_def)
      moreover obtain new where new: "args' = args @ arg # new" "\<forall>a\<in>set new. astOk a"
          "seqIn (lstart (current p2)) (lstart (current p')) new"
        using g by auto
      ultimately have "seqIn (lstart (current p)) (lstart (current p')) (arg # new)"
        using a sp seqIn_mono [of "lstart (current p2)" _ new "nend arg"] by (auto simp: parsed_def)
      with new(1,2) g tk a show ?thesis
        by (intro conjI exI [of _ "arg # new"]) (auto simp: parsed_def)
    qed
  qed
qed

lemma primSound_Suc:
  assumes "exprSound f" "argsSound f"
  shows "primSound (Suc f)"
  unfolding primSound_def
proof (intro allI impI)
  fix p n p'
  assume p: "parserOk p" and run: "primary (Suc f) p = Inr (n, p')"
  obtain tok p1 where t: "takeLexeme p = Inr (tok, p1)"
    using run by (auto simp: rbind_eq_Inr_iff)
  note tk = takeLexeme_ok [OF p t]
  have l: "lexemeOk (source p) tok" using tk parserOk_current [OF p] by simp
  note leaf = parsed_leaf [OF p]
  note fw = lexemeOk_forward [OF l]
  show "parsed p n p'"
  proof (cases "lvalue tok")
    case (VNumber x i)
    with l have ne: "lkind tok \<noteq> KEnd" using lexemeOk_value by fastforce
    show ?thesis
      using run t VNumber lexemeOk_valueOk [OF l] fw [OF ne]
      by (auto intro!: leaf [OF _ ne])
  next
    case (VString s)
    with l have ne: "lkind tok \<noteq> KEnd" using lexemeOk_value by fastforce
    show ?thesis using run t VString fw [OF ne] by (auto intro!: leaf [OF _ ne])
  next
    case NoValue
    consider (paren) "ltext tok = ''(''"
      | (unary) "ltext tok \<noteq> ''(''" "ltext tok \<in> set [''!'', ''+'', ''-'']"
      | (name) "ltext tok \<noteq> ''(''" "ltext tok \<notin> set [''!'', ''+'', ''-'']"
      by blast
    then show ?thesis
    proof cases
      case paren
      then have ne: "lkind tok \<noteq> KEnd" using l lexemeOk_nonempty by fastforce
      obtain inner p2 close where e: "expression f 0 p1 = Inr (inner, p2)"
        and x: "expectText '')'' p2 = Inr (close, p')"
        and n: "n = respan (lstart tok, lend close) inner"
        using run t NoValue paren by (auto simp: rbind_eq_Inr_iff)
      have i: "parsed p1 inner p2" using assms(1) e tk unfolding exprSound_def by blast
      have c: "close = current p2 \<and> parserOk p' \<and> source p' = source p2 \<and> depth p' = depth p2 \<and>
          lend close \<le> lstart (current p') \<and> remaining p' \<le> remaining p2"
        using takeLexeme_ok [of p2 close p'] expectText_ok [OF x] i by (auto simp: parsed_def)
      have "lstart (current p2) \<le> lend (current p2)"
        using i by (auto simp: parsed_def parserOk_def lexemeOk_def split: if_splits)
      then have "astOk n"
        unfolding n using i c tk fw [OF ne] by (intro astOk_respan) (auto simp: parsed_def)
      with i c tk ne n show ?thesis by (auto simp: parsed_def)
    next
      case unary
      then have ne: "lkind tok \<noteq> KEnd" using l lexemeOk_nonempty by fastforce
      obtain operand where e: "expression f 7 p1 = Inr (operand, p')"
        and n: "n = Unary (lstart tok, nend operand) (ltext tok) operand"
        using run t NoValue unary(1) unary(2) by (auto simp: rbind_eq_Inr_iff)
      have i: "parsed p1 operand p'" using assms(1) e tk unfolding exprSound_def by blast
      have "lstart tok < nstart operand" using fw [OF ne] tk i by (auto simp: parsed_def)
      then have "astOk n"
        unfolding n using i unary(2) astOk_span [of operand]
        by (auto simp: parsed_def spanOk_def spanLen_def)
      with i tk n show ?thesis by (auto simp: parsed_def)
    next
      case name
      then have k: "lkind tok = KName" and ne: "lkind tok \<noteq> KEnd"
        using run t NoValue by (auto simp: Let_def split: if_splits)
      note fw' = fw [OF ne] and leaf' = leaf [OF _ ne]
      show ?thesis
      proof (cases "ltext tok \<in> set [''nil'', ''true'', ''false''] \<or> \<not> isText p1 ''(''")
        case True
        with run t NoValue name k fw' show ?thesis
          by (auto simp: Let_def split: if_splits intro!: leaf')
      next
        case False
        then obtain arity lp p2 args p3 close where
          ar: "BILLING_FUNCTIONS (ltext tok) = Some arity" and
          o: "takeLexeme p1 = Inr (lp, p2)" and
          a: "argsLoop f [] p2 = Inr (args, p3)" and
          x: "expectText '')'' p3 = Inr (close, p')" and
          len: "length args = arity" and
          n: "n = Call (lstart tok, lend close) (ltext tok) args"
          using run t NoValue name k
          by (auto simp: Let_def rbind_eq_Inr_iff split: option.splits if_splits)
        have tk2: "parserOk p2" "source p2 = source p1" "depth p2 = depth p1"
            "lstart (current p1) \<le> lstart (current p2)" "remaining p2 \<le> remaining p1"
          using takeLexeme_ok [of p1 lp p2] o tk
          by (auto simp: parserOk_def lexemeOk_def split: if_splits)
        have g: "parserOk p3 \<and> source p3 = source p2 \<and> depth p3 = depth p2 \<and>
            remaining p3 \<le> remaining p2 \<and> (\<forall>a\<in>set args. astOk a) \<and>
            seqIn (lstart (current p2)) (lstart (current p3)) args"
          using assms(2) a tk2(1) unfolding argsSound_def by fastforce
        have c: "close = current p3" "parserOk p'" "source p' = source p3" "depth p' = depth p3"
            "lend close \<le> lstart (current p')" "remaining p' \<le> remaining p3"
          using takeLexeme_ok [of p3 close p'] expectText_ok [OF x] g by auto
        have "lkind close \<noteq> KEnd"
          using lexemeOk_nonempty [OF parserOk_current [of p3]] g c(1) expectText_ok [OF x] by auto
        then have cl: "lstart (current p3) < lend close"
          using lexemeOk_forward [OF parserOk_current [of p3]] g c(1) by auto
        have bounds: "lstart tok < nstart b \<and> nend b \<le> lstart (current p3)" if "b \<in> set args" for b
          using seqIn_bounds [of _ _ args b] g that tk2(4) tk fw' by fastforce
        have "seqIn (lstart tok) (lend close) args"
          using g cl tk2(4) tk fw' by (auto elim!: seqIn_mono)
        moreover have "lstart tok < lend close"
          using cl fw' tk tk2(4) g seqIn_le [of _ _ args] by fastforce
        ultimately have "spanOk n"
          unfolding n spanOk_def spanLen_def using bounds cl by fastforce
        then have "astOk n" using n g ar len by simp
        then show ?thesis using n c g tk2 tk ne by (auto simp: parsed_def)
      qed
    qed
  qed
qed

lemma exprSound_Suc:
  assumes "primSound f" "loopSound f" "exprSound f"
  shows "exprSound (Suc f)"
  unfolding exprSound_def
proof (intro allI impI)
  fix m p n p'
  assume p: "parserOk p" and run: "expression (Suc f) m p = Inr (n, p')"
  let ?p1 = "p\<lparr>depth := depth p + 1\<rparr>"
  obtain a p2 b p3 p8 where
    a: "primary f ?p1 = Inr (a, p2)" and b: "binaryLoop f m a p2 = Inr (b, p3)" and
    c: "(if m = 0 \<and> isText p3 ''?'' then
           rbind (takeLexeme p3) (\<lambda>(_, p4).
           rbind (expression f 0 p4) (\<lambda>(yes, p5).
           rbind (expectText '':'' p5) (\<lambda>(_, p6).
           rbind (expression f 0 p6) (\<lambda>(no, p7).
           Inr (Conditional (nstart b, nend no) b yes no, p7)))))
         else Inr (b, p3)) = Inr (n, p8)" and p': "p' = p8\<lparr>depth := depth p8 - 1\<rparr>"
    using run by (auto simp: rbind_eq_Inr_iff Let_def split: if_splits)
  have pa: "parsed ?p1 a p2" using assms(1) a p unfolding primSound_def by simp
  have lb: "parserOk p3 \<and> source p3 = source p2 \<and> depth p3 = depth p2 \<and> astOk b \<and>
      nstart b = nstart a \<and> nend b \<le> lstart (current p3) \<and> remaining p3 \<le> remaining p2"
    using assms(2) b pa unfolding loopSound_def parsed_def by blast
  have "parserOk p8 \<and> source p8 = source p3 \<and> depth p8 = depth p3 \<and> astOk n \<and>
      nstart n = nstart b \<and> nend n \<le> lstart (current p8) \<and> remaining p8 \<le> remaining p3"
  proof (cases "m = 0 \<and> isText p3 ''?''")
    case False
    with c lb show ?thesis by (auto split: if_splits)
  next
    case True
    then obtain q p4 yes p5 colon p6 no where
      t: "takeLexeme p3 = Inr (q, p4)" and y: "expression f 0 p4 = Inr (yes, p5)" and
      x: "expectText '':'' p5 = Inr (colon, p6)" and e: "expression f 0 p6 = Inr (no, p8)" and
      n: "n = Conditional (nstart b, nend no) b yes no"
      using c by (auto simp: rbind_eq_Inr_iff)
    have t4: "q = current p3" "parserOk p4" "source p4 = source p3" "depth p4 = depth p3"
        "lend q \<le> lstart (current p4)" "remaining p4 \<le> remaining p3"
      using takeLexeme_ok [of p3 q p4] t lb by auto
    have py: "parsed p4 yes p5" using assms(3) y t4(2) unfolding exprSound_def by blast
    have t6: "colon = current p5" "parserOk p6" "source p6 = source p5" "depth p6 = depth p5"
        "lend colon \<le> lstart (current p6)" "remaining p6 \<le> remaining p5"
      using takeLexeme_ok [of p5 colon p6] expectText_ok [OF x] py by (auto simp: parsed_def)
    have pn: "parsed p6 no p8" using assms(3) e t6(2) unfolding exprSound_def by blast
    have "lstart q \<le> lend q" "lstart colon \<le> lend colon"
      using lb py t4(1) t6(1) by (auto simp: parsed_def parserOk_def lexemeOk_def split: if_splits)
    then have "nend b \<le> nstart yes" "nend yes \<le> nstart no"
      using lb t4 py t6 pn by (auto simp: parsed_def)
    then have "astOk n"
      unfolding n using lb py pn astOk_span [of b] astOk_span [of yes] astOk_span [of no]
      by (auto simp: parsed_def spanOk_def spanLen_def)
    with n lb t4 py t6 pn show ?thesis by (auto simp: parsed_def)
  qed
  with pa lb p' show "parsed p n p'" by (auto simp: parsed_def)
qed

lemma parser_sound: "primSound f \<and> exprSound f \<and> loopSound f \<and> argsSound f"
proof (induction f)
  case 0
  show ?case by (simp add: primSound_def exprSound_def loopSound_def argsSound_def)
next
  case (Suc f)
  then show ?case
    using primSound_Suc exprSound_Suc loopSound_Suc argsSound_Suc by simp
qed

lemma parsed_expression: "\<lbrakk>parserOk p; expression f m p = Inr (n, p')\<rbrakk> \<Longrightarrow> parsed p n p'"
  using parser_sound [of f] unfolding exprSound_def by blast

lemma parsed_primary: "\<lbrakk>parserOk p; primary f p = Inr (n, p')\<rbrakk> \<Longrightarrow> parsed p n p'"
  using parser_sound [of f] unfolding primSound_def by blast

lemma parseExpression_ok:
  assumes "parseExpression src = Inr n"
  shows "astOk n \<and> nend n \<le> length src"
proof -
  obtain p p1 where "newParser src = Inr p" "expression (parseFuel src) 0 p = Inr (n, p1)"
    using assms by (auto simp: parseExpression_def rbind_eq_Inr_iff split: if_splits)
  with newParser_ok have p: "source p = src" "parsed p n p1" by (auto dest: parsed_expression)
  then have "lstart (current p1) \<le> length src"
    by (auto simp: parsed_def parserOk_def lexemeOk_def split: if_splits)
  with p show ?thesis by (auto simp: parsed_def)
qed

section \<open>A span identifies its node\<close>

text \<open>
  The source compares nodes by object identity. In a parsed tree different nodes have
  different spans, so the structural equality of the model, which includes the span, is
  that identity.
\<close>

lemma astOk_child: "\<lbrakk>astOk n; c \<in> set (children n)\<rbrakk> \<Longrightarrow> astOk c"
  using astOk_children [of n] by blast

lemma subnode_span:
  "\<lbrakk>astOk n; m \<in> set (postorder n)\<rbrakk> \<Longrightarrow>
   nstart n \<le> nstart m \<and> nstart m < nend m \<and> nend m \<le> nend n \<and> (m = n \<or> spanLen m < spanLen n)"
proof (induction n rule: node_children_induct)
  case (node n)
  from node.prems(2) consider "m = n" | c where "c \<in> set (children n)" "m \<in> set (postorder c)"
    by (auto simp: postorder_children [of n])
  then show ?case
  proof cases
    case 1
    with astOk_span [OF node.prems(1)] show ?thesis by simp
  next
    case 2
    have s: "spanOk n" using node.prems(1) astOk_children [of n] by simp
    then have "nstart n \<le> nstart c" "nend c \<le> nend n" "spanLen c < spanLen n"
      using 2(1) seqIn_bounds [of _ _ "children n" c] by (auto simp: spanOk_def)
    with node.IH [OF 2(1) astOk_child [OF node.prems(1) 2(1)] 2(2)] show ?thesis by auto
  qed
qed

lemma distinct_spans_children:
  assumes "seqIn lo hi cs" "\<And>c. c \<in> set cs \<Longrightarrow> astOk c \<and> distinct (map spanOf (postorder c))"
  shows "distinct (map spanOf (concat (map postorder cs))) \<and>
    (\<forall>m\<in>set (concat (map postorder cs)). lo \<le> nstart m \<and> nstart m < nend m)"
  using assms
proof (induction cs arbitrary: lo)
  case (Cons c cs)
  have ih: "distinct (map spanOf (concat (map postorder cs)))"
      "\<forall>m\<in>set (concat (map postorder cs)). nend c \<le> nstart m \<and> nstart m < nend m"
    using Cons.IH [of "nend c"] Cons.prems by auto
  have c: "nstart m < nend m \<and> nend m \<le> nend c \<and> lo \<le> nstart m" if "m \<in> set (postorder c)" for m
    using subnode_span [OF _ that] Cons.prems by auto
  have "spanOf m \<noteq> spanOf m'" if "m \<in> set (postorder c)" "m' \<in> set (concat (map postorder cs))" for m m'
    using c [OF that(1)] ih(2) that(2) by force
  then show ?case using ih c Cons.prems(1,2) by (fastforce simp: image_iff)
qed simp

lemma distinct_spans: "astOk n \<Longrightarrow> distinct (map spanOf (postorder n))"
proof (induction n rule: node_children_induct)
  case (node n)
  have s: "spanOk n" using node.prems astOk_children [of n] by simp
  have d: "distinct (map spanOf (concat (map postorder (children n))))"
    using distinct_spans_children [of "nstart n" "nend n" "children n"] s node.IH
      astOk_child [OF node.prems] by (auto simp: spanOk_def)
  have "spanLen m < spanLen n" if "c \<in> set (children n)" "m \<in> set (postorder c)" for c m
    using subnode_span [OF astOk_child [OF node.prems that(1)] that(2)] s that(1)
    by (fastforce simp: spanOk_def)
  then have "spanOf n \<notin> set (map spanOf (concat (map postorder (children n))))"
    by (force simp: spanLen_def)
  with d show ?case by (subst postorder_children) simp
qed

lemma span_identity:
  "\<lbrakk>astOk n; a \<in> set (postorder n); b \<in> set (postorder n); spanOf a = spanOf b\<rbrakk> \<Longrightarrow> a = b"
  using distinct_spans [of n] by (auto simp: distinct_map inj_on_def)

section \<open>The fuel is enough\<close>

definition noFuelError :: "'a bx \<Rightarrow> bool" where
  "noFuelError r \<longleftrightarrow> r \<noteq> Inl outOfFuel"

lemma noFuelError_simps [simp]:
  "noFuelError (Inr a)" "noFuelError (Inl (diag c d))" "noFuelError (Inl (diagAt c d i))"
  "noFuelError (Inl (unterminated i))"
  by (simp_all add: noFuelError_def outOfFuel_def diag_def diagAt_def unterminated_def)

lemma noFuelError_rbind:
  "\<lbrakk>noFuelError r; \<And>a. r = Inr a \<Longrightarrow> noFuelError (f a)\<rbrakk> \<Longrightarrow> noFuelError (rbind r f)"
  by (cases r) (auto simp: noFuelError_def)

lemma noFuelError_rbind_pair:
  "\<lbrakk>noFuelError r; \<And>a s. r = Inr (a, s) \<Longrightarrow> noFuelError (f a s)\<rbrakk> \<Longrightarrow>
   noFuelError (rbind r (\<lambda>(a, s). f a s))"
  by (rule noFuelError_rbind) auto

lemma noFuelError_lexString: "noFuelError (lexString start q rest cur acc)"
proof (induction rest arbitrary: cur acc rule: length_induct)
  case (1 rest)
  then show ?case
    by (cases rest)
       (auto simp: Let_def noFuelError_def [of "Inl (OutsideModel _)"] outOfFuel_def
         split: list.splits option.splits)
qed

lemma noFuelError_takeLexeme [simp]: "noFuelError (takeLexeme p)"
  by (auto simp: takeLexeme_def nextLexeme_def lexAt_def lexNumber_def Let_def split: list.splits
      intro!: noFuelError_rbind noFuelError_lexString)

lemma noFuelError_expectText [simp]: "noFuelError (expectText t p)"
  by (simp add: expectText_def)

lemma noFuelError_newParser: "noFuelError (newParser src)"
proof -
  have "noFuelError (rbind (nextLexeme p) (\<lambda>(l, p'). Inr (p'\<lparr>current := l\<rparr>)))" for p
    using noFuelError_takeLexeme [of p]
    by (auto simp: takeLexeme_def noFuelError_def rbind_eq_Inl_iff)
  then show ?thesis by (auto simp: newParser_def Let_def split: option.splits)
qed

text \<open>Enough fuel for each method, from what is left of the source.\<close>

definition primFuel :: "nat \<Rightarrow> bool" where
  "primFuel f \<longleftrightarrow> (\<forall>p. parserOk p \<longrightarrow> 4 * remaining p + 1 \<le> f \<longrightarrow> noFuelError (primary f p))"

definition exprFuel :: "nat \<Rightarrow> bool" where
  "exprFuel f \<longleftrightarrow>
     (\<forall>m p. parserOk p \<longrightarrow> 4 * remaining p + 2 \<le> f \<longrightarrow> noFuelError (expression f m p))"

definition loopFuel :: "nat \<Rightarrow> bool" where
  "loopFuel f \<longleftrightarrow>
     (\<forall>m left p. parserOk p \<longrightarrow> 4 * remaining p + 1 \<le> f \<longrightarrow> noFuelError (binaryLoop f m left p))"

definition argsFuel :: "nat \<Rightarrow> bool" where
  "argsFuel f \<longleftrightarrow>
     (\<forall>args p. parserOk p \<longrightarrow> 4 * remaining p + 3 \<le> f \<longrightarrow> noFuelError (argsLoop f args p))"

lemma exprFuelD: "\<lbrakk>exprFuel f; parserOk p; 4 * remaining p + 2 \<le> f\<rbrakk> \<Longrightarrow> noFuelError (expression f m p)"
  by (simp add: exprFuel_def)

lemma take_progress:
  assumes "parserOk p" "takeLexeme p = Inr (l, p')"
  shows "parserOk p'" "remaining p' \<le> remaining p" "l = current p"
    "ltext l \<noteq> [] \<Longrightarrow> remaining p' < remaining p"
  using takeLexeme_ok [OF assms] lexemeOk_nonempty [OF parserOk_current [OF assms(1)]] by auto

lemma expr_progress:
  assumes "parserOk p" "expression f m p = Inr (n, p')"
  shows "parserOk p'" "remaining p' < remaining p"
  using parsed_expression [OF assms] by (simp_all add: parsed_def)

lemma loop_progress:
  assumes "parserOk p" "astOk left" "nend left \<le> lstart (current p)" "binaryLoop f m left p = Inr (n, p')"
  shows "parserOk p' \<and> remaining p' \<le> remaining p"
  using parser_sound [of f] assms unfolding loopSound_def by blast

lemma loopFuel_Suc:
  assumes "exprFuel f" "loopFuel f"
  shows "loopFuel (Suc f)"
  unfolding loopFuel_def
proof (intro allI impI)
  fix m left p
  assume p: "parserOk p" and fuel: "4 * remaining p + 1 \<le> Suc f"
  have E: "noFuelError (expression f k p1)"
    and B: "expression f k p1 = Inr (n, p2) \<Longrightarrow> noFuelError (binaryLoop f m n' p2)"
    if "takeLexeme p = Inr (l, p1)" "ltext (current p) \<noteq> []" for k l p1 n p2 n'
  proof -
    note t = take_progress [OF p that(1)]
    then have r: "remaining p1 < remaining p" using that(2) by simp
    then show "noFuelError (expression f k p1)"
      using assms(1) t(1) fuel by (simp add: exprFuel_def)
    show "noFuelError (binaryLoop f m n' p2)" if "expression f k p1 = Inr (n, p2)"
      using assms(2) expr_progress [OF t(1) that] r fuel by (simp add: loopFuel_def)
  qed
  show "noFuelError (binaryLoop (Suc f) m left p)"
  proof (cases "PRECEDENCE (ltext (current p))")
    case (Some prec)
    then have "ltext (current p) \<noteq> []" by auto
    with Some show ?thesis by (auto intro!: noFuelError_rbind_pair E B)
  qed simp
qed

lemma argsFuel_Suc:
  assumes "exprFuel f" "argsFuel f"
  shows "argsFuel (Suc f)"
  unfolding argsFuel_def
proof (intro allI impI)
  fix args p
  assume p: "parserOk p" and fuel: "4 * remaining p + 3 \<le> Suc f"
  have E: "noFuelError (expression f 0 p)" using assms(1) p fuel by (simp add: exprFuel_def)
  have A: "noFuelError (argsLoop f args' p2)"
    if "expression f 0 p = Inr (n, p1)" "takeLexeme p1 = Inr (l, p2)" for n p1 l p2 args'
    using assms(2) expr_progress [OF p that(1)] take_progress [OF _ that(2)] fuel
    by (simp add: argsFuel_def)
  show "noFuelError (argsLoop (Suc f) args p)"
    by (auto intro!: noFuelError_rbind_pair E A)
qed

lemma conditional_fuel:
  assumes "exprFuel f" "parserOk p3" "4 * remaining p3 + 2 \<le> f"
  shows "noFuelError (rbind (takeLexeme p3) (\<lambda>(_, p4). rbind (expression f 0 p4) (\<lambda>(yes, p5).
      rbind (expectText '':'' p5) (\<lambda>(_, p6). rbind (expression f 0 p6) (\<lambda>(no, p7).
      Inr (Conditional (nstart b, nend no) b yes no, p7))))))"
proof (intro noFuelError_rbind_pair noFuelError_takeLexeme noFuelError_expectText noFuelError_simps)
  fix l p4
  assume t: "takeLexeme p3 = Inr (l, p4)"
  note p4 = take_progress [OF assms(2) t]
  show "noFuelError (expression f 0 p4)"
    using assms p4 by (intro exprFuelD) simp_all
  fix yes p5 l' p6
  assume e: "expression f 0 p4 = Inr (yes, p5)" and x: "expectText '':'' p5 = Inr (l', p6)"
  note p5 = expr_progress [OF p4(1) e]
  note p6 = take_progress [OF p5(1) conjunct1 [OF expectText_ok [OF x]]]
  show "noFuelError (expression f 0 p6)"
    using assms p4(2) p5(2) p6(1,2) by (intro exprFuelD) simp_all
qed

lemma exprFuel_Suc:
  assumes "primFuel f" "loopFuel f" "exprFuel f"
  shows "exprFuel (Suc f)"
  unfolding exprFuel_def
proof (intro allI impI)
  fix m p
  assume p: "parserOk p" and fuel: "4 * remaining p + 2 \<le> Suc f"
  let ?p1 = "p\<lparr>depth := depth p + 1\<rparr>"
  have P: "noFuelError (primary f ?p1)" using assms(1) p fuel by (simp add: primFuel_def)
  have p2: "parserOk p2 \<and> remaining p2 < remaining p \<and> astOk n \<and> nend n \<le> lstart (current p2)"
    if "primary f ?p1 = Inr (n, p2)" for n p2
    using parsed_primary [OF _ that] p by (simp add: parsed_def)
  have B: "noFuelError (binaryLoop f m n p2)" if "primary f ?p1 = Inr (n, p2)" for n p2
    using assms(2) p2 [OF that] fuel by (simp add: loopFuel_def)
  have p3: "parserOk p3 \<and> remaining p3 < remaining p"
    if "primary f ?p1 = Inr (n, p2)" "binaryLoop f m n p2 = Inr (n', p3)" for n p2 n' p3
    using loop_progress [OF _ _ _ that(2)] p2 [OF that(1)] by fastforce
  have C: "noFuelError (rbind (takeLexeme p3) (\<lambda>(_, p4). rbind (expression f 0 p4) (\<lambda>(yes, p5).
      rbind (expectText '':'' p5) (\<lambda>(_, p6). rbind (expression f 0 p6) (\<lambda>(no, p7).
      Inr (Conditional (nstart b, nend no) b yes no, p7))))))"
    if "parserOk p3" "remaining p3 < remaining p" for p3 b
    using conditional_fuel [OF assms(3) that(1)] that(2) fuel by simp
  show "noFuelError (expression (Suc f) m p)"
    using p3 by (auto simp: Let_def intro!: noFuelError_rbind_pair P [simplified] B [simplified] C)
qed

lemma primFuel_Suc:
  assumes "exprFuel f" "argsFuel f"
  shows "primFuel (Suc f)"
  unfolding primFuel_def
proof (intro allI impI)
  fix p
  assume p: "parserOk p" and fuel: "4 * remaining p + 1 \<le> Suc f"
  have E: "noFuelError (expression f k p1)"
    if "takeLexeme p = Inr (l, p1)" "ltext l \<noteq> []" for k l p1
    using assms(1) take_progress [OF p that(1)] that(2) fuel by (simp add: exprFuel_def)
  have A: "noFuelError (argsLoop f args p2)"
    if "takeLexeme p = Inr (l, p1)" "lkind l = KName" "takeLexeme p1 = Inr (l', p2)"
    for l p1 l' p2 args
    using assms(2) take_progress [OF _ that(3)] takeLexeme_ok [OF p that(1)] that(2) fuel
    by (simp add: argsFuel_def)
  show "noFuelError (primary (Suc f) p)"
    by (auto simp: Let_def split: lexValue.splits option.splits
        intro!: noFuelError_rbind_pair E A)
qed

lemma parser_fuel: "primFuel f \<and> exprFuel f \<and> loopFuel f \<and> argsFuel f"
proof (induction f)
  case 0
  show ?case by (simp add: primFuel_def exprFuel_def loopFuel_def argsFuel_def)
next
  case (Suc f)
  then show ?case using primFuel_Suc exprFuel_Suc loopFuel_Suc argsFuel_Suc by simp
qed

lemma parseExpression_fuel: "noFuelError (parseExpression src)"
proof -
  have "noFuelError (expression (parseFuel src) 0 p)" if "newParser src = Inr p" for p
    using parser_fuel [of "parseFuel src"] newParser_ok [OF that]
    by (auto simp: exprFuel_def parseFuel_def remaining_def)
  then show ?thesis
    unfolding parseExpression_def
    by (auto intro!: noFuelError_rbind noFuelError_newParser)
qed

section \<open>Properties\<close>

text \<open>A source used to instantiate the properties: a tier priced by tokens and a request rule.\<close>

definition sampleSource :: string where
  "sampleSource = ''tier(\"base\", p * 2.5 + c * 10) * (param(\"fast\") == true ? 2 : 1)''"

lemma sample_parses: "isOk (parseExpression sampleSource)"
  by code_simp

lemma isOkE: "isOk r \<Longrightarrow> \<exists>a. r = Inr a"
  by (cases r) auto

text \<open>
  C4. Every tree the parser returns is well formed: known variables, functions of the table
  with exactly their arity, operators of the precedence table, number literals that are
  finite non-negative doubles (safe integers where they are flagged as integers); every span
  is non-empty, lies in the source, contains the spans of its children in order, and no two
  nodes of the tree share a span, so that comparing nodes by span is comparing them by
  identity.
\<close>

theorem parse_wellformed:
  assumes "parseExpression src = Inr n"
  shows "astOk n \<and> nend n \<le> length src \<and> distinct (map spanOf (postorder n))"
  using parseExpression_ok [OF assms] distinct_spans by blast

theorem parse_wellformed_witness:
  "\<exists>n. parseExpression sampleSource = Inr n \<and>
     astOk n \<and> nend n \<le> length sampleSource \<and> distinct (map spanOf (postorder n))"
  using isOkE [OF sample_parses] parse_wellformed by blast

text \<open>
  C19. Parsing terminates on every source: the recursion of \<open>expression\<close>, \<open>primary\<close> and their
  loops consumes at least one lexeme between two calls of the same method, so that the fuel
  \<open>4 * length src + 4\<close> is never exhausted and the result is a tree or a thrown diagnostic.
\<close>

theorem parse_terminates: "parseExpression src \<noteq> Inl outOfFuel"
  using parseExpression_fuel [of src] by (simp add: noFuelError_def)

end
