(* ===== verification/BxCheck.thy ===== *)
theory BxCheck
  imports BxParser
begin

text \<open>
  Model of \<open>checkExpressionTypes\<close> (\<open>billing-expression/parser.ts\<close>): one post-order pass that
  stores the type of every node in a map and throws on an operand of the wrong type. The
  declarative counterpart is the typing relation \<open>hasType\<close>; the theory proves that the pass
  accepts exactly the trees of bounded height that have a type, and computes that type.
\<close>

section \<open>The pass\<close>

datatype etype = TNumber | TString | TBoolean | TNil | TDynamic

fun etypeName :: "etype \<Rightarrow> string" where
  "etypeName TNumber = ''number''"
| "etypeName TString = ''string''"
| "etypeName TBoolean = ''boolean''"
| "etypeName TNil = ''nil''"
| "etypeName TDynamic = ''dynamic''"

type_synonym typeMap = "node \<Rightarrow> etype option"

definition requireType :: "typeMap \<Rightarrow> node \<Rightarrow> etype \<Rightarrow> unit bx" where
  "requireType types child expected =
     (if types child \<noteq> Some expected \<and> types child \<noteq> Some TDynamic
      then Inl (diagAt CType (etypeName expected @ '' operand'') (nstart child))
      else Inr ())"

text \<open>\<open>requireType(node.args[i], expected)\<close>; reading a field of a missing argument is a TypeError.\<close>

definition requireArg :: "typeMap \<Rightarrow> node list \<Rightarrow> nat \<Rightarrow> etype \<Rightarrow> unit bx" where
  "requireArg types args i expected =
     (if i < length args then requireType types (args ! i) expected
      else Inl (JsError ''TypeError''))"

definition MATH_FUNCTIONS :: "string list" where
  "MATH_FUNCTIONS = [''fixed'', ''min'', ''max'', ''abs'', ''ceil'', ''floor'']"

fun literalType :: "lit \<Rightarrow> etype" where
  "literalType LNull = TNil"
| "literalType (LNum _ _) = TNumber"
| "literalType (LStr _) = TString"
| "literalType (LBool _) = TBoolean"

definition callType :: "typeMap \<Rightarrow> string \<Rightarrow> node list \<Rightarrow> etype bx" where
  "callType types name args =
     rbind (if name \<in> set ([''param'', ''header'', ''u''] @ TIME_FUNCTIONS)
            then requireArg types args 0 TString else Inr ()) (\<lambda>_.
     if name = ''header'' then Inr TString
     else if name = ''has'' then rbind (requireArg types args 1 TString) (\<lambda>_. Inr TBoolean)
     else if name = ''tier'' then
       rbind (requireArg types args 0 TString) (\<lambda>_.
       rbind (requireArg types args 1 TNumber) (\<lambda>_. Inr TNumber))
     else if name \<in> set TIME_FUNCTIONS then Inr TNumber
     else if name \<in> set MATH_FUNCTIONS then
       rbind (foldBx (\<lambda>arg _. requireType types arg TNumber) args ()) (\<lambda>_. Inr TNumber)
     else Inr TDynamic)"

fun nodeType :: "typeMap \<Rightarrow> node \<Rightarrow> etype bx" where
  "nodeType types (Literal _ v) = Inr (literalType v)"
| "nodeType types (Variable _ _) = Inr TNumber"
| "nodeType types (Unary _ op a) =
     (let result = (if op = ''!'' then TBoolean else TNumber)
      in rbind (requireType types a result) (\<lambda>_. Inr result))"
| "nodeType types (Conditional _ c y n) =
     rbind (requireType types c TBoolean) (\<lambda>_.
     Inr (if types y = types n then (case types y of Some t \<Rightarrow> t | None \<Rightarrow> TDynamic)
          else TDynamic))"
| "nodeType types (Binary _ op a b) =
     (if op \<in> set [''&&'', ''||''] then
        rbind (requireType types a TBoolean) (\<lambda>_.
        rbind (requireType types b TBoolean) (\<lambda>_. Inr TBoolean))
      else if op \<in> set [''=='', ''!='', ''<'', ''<='', ''>'', ''>=''] then Inr TBoolean
      else if op = ''+'' \<and> types a = Some TString \<and> types b = Some TString then Inr TString
      else rbind (requireType types a TNumber) (\<lambda>_.
           rbind (requireType types b TNumber) (\<lambda>_. Inr TNumber)))"
| "nodeType types (Call _ f args) = callType types f args"

definition checkVisitor :: "node \<Rightarrow> typeMap \<Rightarrow> typeMap bx" where
  "checkVisitor n types = rbind (nodeType types n) (\<lambda>t. Inr (types(n \<mapsto> t)))"

definition checkExpressionTypes :: "node \<Rightarrow> typeMap bx" where
  "checkExpressionTypes ast = visitExpression checkVisitor ast Map.empty"

section \<open>The typing relation\<close>

definition fits :: "etype \<Rightarrow> etype \<Rightarrow> bool" where
  "fits actual expected \<longleftrightarrow> actual = expected \<or> actual = TDynamic"

inductive hasType :: "node \<Rightarrow> etype \<Rightarrow> bool" where
  T_Literal: "hasType (Literal sp v) (literalType v)"
| T_Variable: "hasType (Variable sp x) TNumber"
| T_Not: "\<lbrakk>hasType a t; fits t TBoolean\<rbrakk> \<Longrightarrow> hasType (Unary sp ''!'' a) TBoolean"
| T_Sign: "\<lbrakk>op \<noteq> ''!''; hasType a t; fits t TNumber\<rbrakk> \<Longrightarrow> hasType (Unary sp op a) TNumber"
| T_Cond: "\<lbrakk>hasType c t; fits t TBoolean; hasType y t1; hasType n t2\<rbrakk> \<Longrightarrow>
     hasType (Conditional sp c y n) (if t1 = t2 then t1 else TDynamic)"
| T_Logic: "\<lbrakk>op \<in> set [''&&'', ''||'']; hasType a t1; fits t1 TBoolean; hasType b t2;
     fits t2 TBoolean\<rbrakk> \<Longrightarrow> hasType (Binary sp op a b) TBoolean"
| T_Compare: "\<lbrakk>op \<in> set [''=='', ''!='', ''<'', ''<='', ''>'', ''>='']; hasType a t1; hasType b t2\<rbrakk> \<Longrightarrow>
     hasType (Binary sp op a b) TBoolean"
| T_Concat: "\<lbrakk>hasType a TString; hasType b TString\<rbrakk> \<Longrightarrow> hasType (Binary sp ''+'' a b) TString"
| T_Arith: "\<lbrakk>op \<notin> set [''&&'', ''||'', ''=='', ''!='', ''<'', ''<='', ''>'', ''>='']; hasType a t1;
     fits t1 TNumber; hasType b t2; fits t2 TNumber\<rbrakk> \<Longrightarrow> hasType (Binary sp op a b) TNumber"
| T_Header: "\<lbrakk>hasType a t; fits t TString; \<forall>b\<in>set as. \<exists>t. hasType b t\<rbrakk> \<Longrightarrow>
     hasType (Call sp ''header'' (a # as)) TString"
| T_Probe: "\<lbrakk>f \<in> set [''param'', ''u'']; hasType a t; fits t TString; \<forall>b\<in>set as. \<exists>t. hasType b t\<rbrakk> \<Longrightarrow>
     hasType (Call sp f (a # as)) TDynamic"
| T_Time: "\<lbrakk>f \<in> set TIME_FUNCTIONS; hasType a t; fits t TString; \<forall>b\<in>set as. \<exists>t. hasType b t\<rbrakk> \<Longrightarrow>
     hasType (Call sp f (a # as)) TNumber"
| T_Has: "\<lbrakk>hasType a t1; hasType b t2; fits t2 TString; \<forall>b\<in>set as. \<exists>t. hasType b t\<rbrakk> \<Longrightarrow>
     hasType (Call sp ''has'' (a # b # as)) TBoolean"
| T_Tier: "\<lbrakk>hasType a t1; fits t1 TString; hasType b t2; fits t2 TNumber; \<forall>b\<in>set as. \<exists>t. hasType b t\<rbrakk> \<Longrightarrow>
     hasType (Call sp ''tier'' (a # b # as)) TNumber"
| T_Math: "\<lbrakk>f \<in> set MATH_FUNCTIONS; \<forall>a\<in>set as. \<exists>t. hasType a t \<and> fits t TNumber\<rbrakk> \<Longrightarrow>
     hasType (Call sp f as) TNumber"
| T_Unknown: "\<lbrakk>f \<notin> set ([''param'', ''header'', ''u'', ''has'', ''tier''] @ TIME_FUNCTIONS @ MATH_FUNCTIONS);
     \<forall>a\<in>set as. \<exists>t. hasType a t\<rbrakk> \<Longrightarrow> hasType (Call sp f as) TDynamic"

inductive_cases hasType_LiteralE: "hasType (Literal sp v) t"
inductive_cases hasType_VariableE: "hasType (Variable sp x) t"
inductive_cases hasType_UnaryE: "hasType (Unary sp op a) t"
inductive_cases hasType_BinaryE: "hasType (Binary sp op a b) t"
inductive_cases hasType_ConditionalE: "hasType (Conditional sp c y n) t"
inductive_cases hasType_CallE: "hasType (Call sp f as) t"

lemmas hasType_elims = hasType_LiteralE hasType_VariableE hasType_UnaryE hasType_BinaryE
  hasType_ConditionalE hasType_CallE

lemmas call_names = TIME_FUNCTIONS_def MATH_FUNCTIONS_def

lemma requireType_Inr: "requireType types c e = Inr u \<longleftrightarrow> (\<exists>t. types c = Some t \<and> fits t e)"
  by (auto simp: requireType_def fits_def)

lemma requireArg_Inr:
  "requireArg types args i e = Inr u \<longleftrightarrow> i < length args \<and> (\<exists>t. types (args ! i) = Some t \<and> fits t e)"
  by (auto simp: requireArg_def requireType_Inr)

lemma foldBx_requireType:
  "foldBx (\<lambda>arg _. requireType types arg e) args () = Inr u \<longleftrightarrow>
   (\<forall>a\<in>set args. \<exists>t. types a = Some t \<and> fits t e)"
  by (induction args) (auto simp: rbind_eq_Inr_iff requireType_Inr)

section \<open>The pass computes the typing relation\<close>

text \<open>Every type the map holds is a type of its node.\<close>

definition mapSound :: "typeMap \<Rightarrow> bool" where
  "mapSound types \<longleftrightarrow> (\<forall>n t. types n = Some t \<longrightarrow> hasType n t)"

definition mapComplete :: "typeMap \<Rightarrow> node \<Rightarrow> bool" where
  "mapComplete types n \<longleftrightarrow> (\<forall>c\<in>set (children n). \<forall>t. hasType c t \<longrightarrow> types c = Some t)"

lemma mapSoundD: "\<lbrakk>mapSound types; types n = Some t\<rbrakk> \<Longrightarrow> hasType n t"
  by (simp add: mapSound_def)

lemma typed_arg: "\<lbrakk>mapSound types; set as \<subseteq> dom types; a \<in> set as\<rbrakk> \<Longrightarrow> \<exists>t. hasType a t"
  unfolding mapSound_def by blast

lemma callType_sound:
  assumes "mapSound types" "set args \<subseteq> dom types" "callType types f args = Inr t"
  shows "hasType (Call sp f args) t"
proof -
  note typed = typed_arg [OF assms(1,2)]
  have arg0: "\<exists>a as t. args = a # as \<and> hasType a t \<and> fits t e"
    if "requireArg types args 0 e = Inr u" for e u
    using that assms(1) by (cases args) (auto simp: requireArg_Inr dest: mapSoundD)
  consider "f = ''header''" | "f \<in> set [''param'', ''u'']" | "f = ''has''" | "f = ''tier''"
    | "f \<in> set TIME_FUNCTIONS" | "f \<in> set MATH_FUNCTIONS"
    | "f \<notin> set ([''param'', ''header'', ''u'', ''has'', ''tier''] @ TIME_FUNCTIONS @ MATH_FUNCTIONS)"
    by auto
  then show ?thesis
  proof cases
    case 1
    with assms(3) have "t = TString" and "requireArg types args 0 TString = Inr ()"
      by (auto simp: callType_def rbind_eq_Inr_iff)
    with arg0 typed 1 show ?thesis by (fastforce intro!: T_Header)
  next
    case 2
    with assms(3) have "t = TDynamic" and "requireArg types args 0 TString = Inr ()"
      by (auto simp: callType_def rbind_eq_Inr_iff call_names split: if_splits)
    with arg0 typed 2 show ?thesis by (fastforce intro!: T_Probe)
  next
    case 3
    with assms(3) have t: "t = TBoolean" and "requireArg types args 1 TString = Inr ()"
      by (auto simp: callType_def rbind_eq_Inr_iff call_names)
    then obtain a b as t2 where "args = a # b # as" "hasType b t2" "fits t2 TString"
      using assms(1) by (cases args rule: remdups_adj.cases) (auto simp: requireArg_Inr dest: mapSoundD)
    moreover obtain t1 where "hasType a t1" using typed [of a] calculation(1) by auto
    ultimately show ?thesis using typed 3 t by (auto intro: T_Has)
  next
    case 4
    with assms(3) have t: "t = TNumber" and "requireArg types args 0 TString = Inr ()"
      and "requireArg types args 1 TNumber = Inr ()"
      by (auto simp: callType_def rbind_eq_Inr_iff call_names)
    then obtain a b as t1 t2 where "args = a # b # as" "hasType a t1" "fits t1 TString"
      "hasType b t2" "fits t2 TNumber"
      using assms(1) by (cases args rule: remdups_adj.cases) (auto simp: requireArg_Inr dest: mapSoundD)
    with typed 4 t show ?thesis by (auto intro!: T_Tier)
  next
    case 5
    with assms(3) have "t = TNumber" and "requireArg types args 0 TString = Inr ()"
      by (auto simp: callType_def rbind_eq_Inr_iff call_names)
    with arg0 typed 5 show ?thesis by (fastforce intro!: T_Time)
  next
    case 6
    with assms(3) have "t = TNumber" and
      "foldBx (\<lambda>arg _. requireType types arg TNumber) args () = Inr ()"
      by (auto simp: callType_def rbind_eq_Inr_iff call_names split: if_splits)
    with 6 assms(1) show ?thesis by (fastforce simp: foldBx_requireType dest: mapSoundD intro: T_Math)
  next
    case 7
    with assms(3) have "t = TDynamic" by (auto simp: callType_def call_names)
    with 7 typed show ?thesis by (auto intro!: T_Unknown simp del: set_append set_simps)
  qed
qed

lemma nodeType_sound:
  assumes "mapSound types" "set (children n) \<subseteq> dom types" "nodeType types n = Inr t"
  shows "hasType n t"
proof (cases n)
  case (Unary sp op a)
  then show ?thesis
    using assms by (auto simp: Let_def rbind_eq_Inr_iff requireType_Inr split: if_splits
        dest!: mapSoundD intro: hasType.intros)
next
  case (Binary sp op a b)
  obtain ta tb where "hasType a ta" "hasType b tb" "types a = Some ta" "types b = Some tb"
    using assms(1,2) Binary by (auto dest: mapSoundD)
  with Binary assms(3) show ?thesis
    by (auto simp: rbind_eq_Inr_iff requireType_Inr split: if_splits intro: hasType.intros)
next
  case (Conditional sp c y m)
  obtain tc ty tn where "hasType c tc" "hasType y ty" "hasType m tn"
    "types c = Some tc" "types y = Some ty" "types m = Some tn"
    using assms(1,2) Conditional by (auto dest: mapSoundD)
  with Conditional assms(3) show ?thesis
    using T_Cond [of c tc y ty m tn sp]
    by (auto simp: rbind_eq_Inr_iff requireType_Inr split: if_splits)
next
  case (Call sp f args)
  then show ?thesis using assms callType_sound by simp
qed (use assms in \<open>auto intro: hasType.intros\<close>)

lemma mapCompleteD: "\<lbrakk>mapComplete types n; hasType c t; c \<in> set (children n)\<rbrakk> \<Longrightarrow> types c = Some t"
  by (simp add: mapComplete_def)

lemma nodeType_complete:
  assumes "hasType n t" "mapComplete types n"
  shows "nodeType types n = Inr t"
proof -
  note known = mapCompleteD [OF assms(2)]
  note ok = requireType_def requireArg_def fits_def callType_def
  from assms(1) show ?thesis
  proof (cases rule: hasType.cases)
    case (T_Not a ta sp)
    with known [of a ta] show ?thesis by (auto simp: ok)
  next
    case (T_Sign op a ta sp)
    with known [of a ta] show ?thesis by (auto simp: ok)
  next
    case (T_Cond c tc y t1 m t2 sp)
    with known [of c tc] known [of y t1] known [of m t2] show ?thesis by (auto simp: ok)
  next
    case (T_Logic op a t1 b t2 sp)
    with known [of a t1] known [of b t2] show ?thesis by (auto simp: ok)
  next
    case (T_Compare op a t1 b t2 sp)
    then show ?thesis by auto
  next
    case (T_Concat a b sp)
    with known [of a TString] known [of b TString] show ?thesis by simp
  next
    case (T_Arith op a t1 b t2 sp)
    with known [of a t1] known [of b t2] show ?thesis by (auto simp: ok)
  next
    case (T_Header a ta as sp)
    with known [of a ta] show ?thesis by (auto simp: ok)
  next
    case (T_Probe f a ta as sp)
    have "requireArg types (a # as) 0 TString = Inr ()"
      using T_Probe(1,4,5) known [of a ta] by (auto simp: ok)
    moreover have "f = ''param'' \<or> f = ''u''" using T_Probe(3) by simp
    ultimately show ?thesis
      unfolding T_Probe(1,2) by (elim disjE) (simp_all add: callType_def call_names)
  next
    case (T_Time f a ta as sp)
    have "requireArg types (a # as) 0 TString = Inr ()"
      using T_Time(1,4,5) known [of a ta] by (auto simp: ok)
    moreover have "f \<notin> set [''header'', ''has'', ''tier'']"
      using T_Time(3) by (auto simp: call_names)
    ultimately show ?thesis using T_Time(3) unfolding T_Time(1,2) by (simp add: callType_def)
  next
    case (T_Has a t1 b t2 as sp)
    with known [of b t2] show ?thesis by (auto simp: ok call_names)
  next
    case (T_Tier a t1 b t2 as sp)
    with known [of a t1] known [of b t2] show ?thesis by (auto simp: ok call_names)
  next
    case (T_Math f as sp)
    have "\<forall>a\<in>set as. \<exists>t. types a = Some t \<and> fits t TNumber"
      using T_Math known by fastforce
    then have "foldBx (\<lambda>arg _. requireType types arg TNumber) as () = Inr ()"
      by (simp add: foldBx_requireType)
    with T_Math show ?thesis by (auto simp: callType_def call_names)
  next
    case (T_Unknown f as sp)
    then show ?thesis by (auto simp: callType_def)
  qed auto
qed

lemma typed_children: "\<lbrakk>hasType n t; c \<in> set (children n)\<rbrakk> \<Longrightarrow> \<exists>t. hasType c t"
  by (erule hasType.cases; fastforce)

lemma hasType_unique: "\<lbrakk>hasType n t; hasType n t'\<rbrakk> \<Longrightarrow> t = t'"
proof (induction n arbitrary: t t' rule: node_children_induct)
  case (node n)
  define types where "types c = (if \<exists>t. hasType c t then Some (SOME t. hasType c t) else None)" for c
  have "mapComplete types n"
    unfolding mapComplete_def
  proof (intro ballI allI impI)
    fix c t
    assume c: "c \<in> set (children n)" and t: "hasType c t"
    from t have "hasType c (SOME t. hasType c t)" by (rule someI)
    with node.IH [OF c t] t show "types c = Some t" by (auto simp: types_def)
  qed
  then show ?case
    using nodeType_complete [OF node.prems(1)] nodeType_complete [OF node.prems(2)] by fastforce
qed

lemma mapSound_complete:
  "\<lbrakk>mapSound types; set (children n) \<subseteq> dom types\<rbrakk> \<Longrightarrow> mapComplete types n"
  unfolding mapComplete_def mapSound_def using hasType_unique by blast

text \<open>
  One traversal of a subtree: from a sound map it either stops with an exception, and then
  the subtree has no type, or ends with a sound map that covers the subtree.
\<close>

definition checks :: "typeMap \<Rightarrow> node list \<Rightarrow> bool \<Rightarrow> bool" where
  "checks types ns typed \<longleftrightarrow>
     (case foldBx checkVisitor ns types of
        Inl _ \<Rightarrow> \<not> typed
      | Inr types' \<Rightarrow> typed \<and> mapSound types' \<and> dom types' = dom types \<union> set ns)"

lemma checks_children:
  assumes "\<And>c types. \<lbrakk>c \<in> set cs; mapSound types\<rbrakk> \<Longrightarrow> checks types (postorder c) (\<exists>t. hasType c t)"
    and "mapSound types"
  shows "checks types (concat (map postorder cs)) (\<forall>c\<in>set cs. \<exists>t. hasType c t)"
  using assms
proof (induction cs arbitrary: types)
  case (Cons c cs)
  have c: "checks types (postorder c) (\<exists>t. hasType c t)" using Cons.prems by simp
  show ?case
  proof (cases "foldBx checkVisitor (postorder c) types")
    case (Inl e)
    with c show ?thesis by (simp add: checks_def foldBx_append)
  next
    case (Inr types')
    with c have "mapSound types'" "\<exists>t. hasType c t" "dom types' = dom types \<union> set (postorder c)"
      by (simp_all add: checks_def)
    moreover have "checks types' (concat (map postorder cs)) (\<forall>c\<in>set cs. \<exists>t. hasType c t)"
      using Cons.prems(1) \<open>mapSound types'\<close> by (intro Cons.IH) auto
    ultimately show ?thesis using Inr
      by (auto simp: checks_def foldBx_append split: sum.splits)
  qed
qed (simp add: checks_def)

lemma checks_node: "mapSound types \<Longrightarrow> checks types (postorder n) (\<exists>t. hasType n t)"
proof (induction n arbitrary: types rule: node_children_induct)
  case (node n)
  let ?cs = "concat (map postorder (children n))"
  have c: "checks types ?cs (\<forall>c\<in>set (children n). \<exists>t. hasType c t)"
    using node by (intro checks_children) auto
  show ?case
  proof (cases "foldBx checkVisitor ?cs types")
    case (Inl e)
    with c show ?thesis
      by (auto simp: checks_def postorder_children [of n] foldBx_append dest: typed_children)
  next
    case (Inr types')
    with c have t: "mapSound types'" "dom types' = dom types \<union> set ?cs"
      by (simp_all add: checks_def)
    have sub: "set (children n) \<subseteq> dom types'"
      using t(2) self_postorder by fastforce
    have run: "foldBx checkVisitor (postorder n) types = checkVisitor n types'"
      using Inr by (simp add: postorder_children [of n] foldBx_append rbind_def split: sum.splits)
    show ?thesis
    proof (cases "nodeType types' n")
      case (Inl e)
      with nodeType_complete [OF _ mapSound_complete [OF t(1) sub]] run show ?thesis
        by (auto simp: checks_def checkVisitor_def)
    next
      case (Inr ty)
      with nodeType_sound [OF t(1) sub] run t show ?thesis
        by (auto simp: checks_def checkVisitor_def postorder_children [of n] mapSound_def)
    qed
  qed
qed

lemma checkExpressionTypes_fold:
  "height n \<le> 256 \<Longrightarrow> checkExpressionTypes n = foldBx checkVisitor (postorder n) Map.empty"
  by (simp add: checkExpressionTypes_def visitExpression_fold)

lemma mapSound_empty [simp]: "mapSound Map.empty"
  by (simp add: mapSound_def)

lemma check_accepts_iff:
  assumes "height n \<le> 256"
  shows "isOk (checkExpressionTypes n) \<longleftrightarrow> (\<exists>t. hasType n t)"
  using checks_node [OF mapSound_empty, of n]
  by (auto simp: checkExpressionTypes_fold [OF assms] checks_def split: sum.splits)

lemma check_types:
  assumes "height n \<le> 256" "checkExpressionTypes n = Inr types" "m \<in> set (postorder n)"
  shows "\<exists>t. types m = Some t \<and> hasType m t"
proof -
  have "mapSound types" "dom types = set (postorder n)"
    using checks_node [OF mapSound_empty, of n] assms(2)
    by (simp_all add: checkExpressionTypes_fold [OF assms(1)] checks_def)
  with assms(3) show ?thesis by (metis domD mapSoundD)
qed

lemma check_height: "checkExpressionTypes n = Inr types \<Longrightarrow> height n \<le> 256"
  unfolding checkExpressionTypes_def by (rule visitExpression_height)

section \<open>Properties\<close>

text \<open>
  C5. The type pass decides the typing relation: on a tree within the depth bound it returns
  exactly when the tree has a type, the type it stores for every node of the tree is the
  type of that node, and this type is unique.
\<close>

theorem check_decides_typing:
  assumes "height n \<le> 256"
  shows "(isOk (checkExpressionTypes n) \<longleftrightarrow> (\<exists>t. hasType n t)) \<and>
    (\<forall>types m. checkExpressionTypes n = Inr types \<longrightarrow> m \<in> set (postorder n) \<longrightarrow>
       (\<exists>t. types m = Some t \<and> hasType m t \<and> (\<forall>t'. hasType m t' \<longrightarrow> t' = t)))"
  using check_accepts_iff [OF assms] check_types [OF assms] hasType_unique by blast

definition sampleTree :: node where
  "sampleTree = Binary (0, 5) ''*'' (Variable (0, 1) ''p'') (Literal (4, 5) (LNum (Fin 2) True))"

theorem check_decides_typing_witness:
  "\<exists>types t. checkExpressionTypes sampleTree = Inr types \<and> types sampleTree = Some t \<and> hasType sampleTree t"
proof -
  have "height sampleTree \<le> 256" by (simp add: sampleTree_def)
  note decides = check_decides_typing [OF this]
  have "isOk (checkExpressionTypes sampleTree)" by code_simp
  then obtain types where types: "checkExpressionTypes sampleTree = Inr types"
    by (cases "checkExpressionTypes sampleTree") auto
  with decides self_postorder [of sampleTree] obtain t where "types sampleTree = Some t" "hasType sampleTree t"
    by blast
  with types show ?thesis by blast
qed

end
