(* ===== verification/Memo.thy ===== *)
theory Memo
  imports Prelude
begin

text \<open>
  The contract of a memo table: a client that looks a key up, and on a miss computes the
  value and stores it, sees the function itself. The interface \<open>memo\<close> is what a table has to
  promise for this; \<open>bounded_memo\<close> adds a capacity. The compiler's cache of compiled
  expressions and the interpreter's cache of zone times are instances.
\<close>

section \<open>Memo tables\<close>

text \<open>
  \<open>invar\<close> is the representation invariant, \<open>compute\<close> the function behind the table, which may
  throw, and \<open>call\<close> the client: nothing is stored when the computation throws. A store may
  drop older entries, but must not invent any.
\<close>

locale memo =
  fixes invar :: "'c \<Rightarrow> bool"
    and get :: "'c \<Rightarrow> 'k \<Rightarrow> 'v option"
    and put :: "'k \<Rightarrow> 'v \<Rightarrow> 'c \<Rightarrow> 'c"
    and fresh :: "'c"
    and compute :: "'k \<Rightarrow> ('e, 'v) result"
    and call :: "'k \<Rightarrow> ('c, 'e, 'v) comp"
  assumes invar_fresh: "invar fresh"
    and get_fresh: "get fresh k = None"
    and invar_put: "\<lbrakk>invar c; get c k = None\<rbrakk> \<Longrightarrow> invar (put k v c)"
    and get_put_new: "\<lbrakk>invar c; get c k = None\<rbrakk> \<Longrightarrow> get (put k v c) k = Some v"
    and get_put_old: "\<lbrakk>invar c; get c k = None; get (put k v c) k' = Some v'; k' \<noteq> k\<rbrakk> \<Longrightarrow>
      get c k' = Some v'"
    and call_unfold: "call k c =
      (case get c k of
         Some v \<Rightarrow> Inr (v, c)
       | None \<Rightarrow> rbind (compute k) (\<lambda>v. Inr (v, put k v c)))"
begin

text \<open>Every entry is the value of its key.\<close>

definition valid :: "'c \<Rightarrow> bool" where
  "valid c \<longleftrightarrow> invar c \<and> (\<forall>k v. get c k = Some v \<longrightarrow> compute k = Inr v)"

lemma valid_fresh: "valid fresh"
  by (simp add: valid_def invar_fresh get_fresh)

lemma valid_put:
  assumes "valid c" "get c k = None" "compute k = Inr v"
  shows "valid (put k v c)"
proof -
  have i: "invar c" using assms(1) by (simp add: valid_def)
  have "compute k' = Inr v'" if "get (put k v c) k' = Some v'" for k' v'
    using assms that get_put_new [OF i assms(2)] get_put_old [OF i assms(2) that]
    by (cases "k' = k") (auto simp: valid_def)
  with i assms(2) show ?thesis by (simp add: valid_def invar_put)
qed

lemma call_throws: "valid c \<Longrightarrow> call k c = Inl e \<longleftrightarrow> compute k = Inl e"
  by (cases "get c k") (auto simp: call_unfold valid_def rbind_eq_Inl_iff)

lemma call_returns:
  "\<lbrakk>valid c; call k c = Inr (v, c')\<rbrakk> \<Longrightarrow> compute k = Inr v \<and> valid c' \<and> get c' k = Some v"
proof (cases "get c k")
  case None
  assume v: "valid c" and "call k c = Inr (v, c')"
  with None have c': "compute k = Inr v" "c' = put k v c"
    by (auto simp: call_unfold rbind_eq_Inr_iff)
  with v None show ?thesis using valid_put [OF v None] get_put_new [of c k v] by (simp add: valid_def)
qed (auto simp: call_unfold valid_def)

lemma call_ok: "\<lbrakk>valid c; compute k = Inr v\<rbrakk> \<Longrightarrow> \<exists>c'. call k c = Inr (v, c') \<and> valid c'"
proof -
  assume v: "valid c" and k: "compute k = Inr v"
  then obtain v' c' where c': "call k c = Inr (v', c')"
    using call_throws [OF v, of k] by (cases "call k c") fastforce+
  with call_returns [OF v c'] k show ?thesis by auto
qed

text \<open>The tables that calls can produce from the fresh one.\<close>

inductive reachable :: "'c \<Rightarrow> bool" where
  start: "reachable fresh"
| step: "\<lbrakk>reachable c; call k c = Inr (v, c')\<rbrakk> \<Longrightarrow> reachable c'"

lemma reachable_valid: "reachable c \<Longrightarrow> valid c"
  by (induction rule: reachable.induct) (auto simp: valid_fresh dest: call_returns)

end

section \<open>Bounded memo tables\<close>

locale bounded_memo = memo +
  fixes entries :: "'a \<Rightarrow> nat" and cap :: nat
  assumes entries_fresh: "entries fresh \<le> cap"
    and entries_put: "\<lbrakk>invar c; get c k = None; entries c \<le> cap\<rbrakk> \<Longrightarrow> entries (put k v c) \<le> cap"
begin

lemma reachable_bounded: "reachable c \<Longrightarrow> entries c \<le> cap"
proof (induction rule: reachable.induct)
  case start
  show ?case by (rule entries_fresh)
next
  case (step c k v c')
  then have "invar c" using reachable_valid by (auto simp: valid_def)
  with step show ?case
    by (cases "get c k") (auto simp: call_unfold rbind_eq_Inr_iff entries_put)
qed

end

end
