(* ===== verification/BxCompile.thy ===== *)
theory BxCompile
  imports BxCheck Memo
begin

text \<open>
  Model of the rest of \<open>billing-expression/parser.ts\<close>: the request rules of a tree, the shape
  check for fixed prices, \<open>compileBillingExpression\<close> and its module-level cache. The cache is
  an insertion-ordered map of at most 128 entries that drops the oldest; the interface
  \<open>bounded_memo\<close> states what a bounded cache must promise for memoisation to be invisible,
  and the compiler's cache is an instance.
\<close>

section \<open>Request rules\<close>

record requestRule =
  rnode :: node
  rcondition :: node
  rmultiplier :: jsnum
  rcond :: string

text \<open>A multiplier is a conditional between a number literal and the literal 1.\<close>

fun ruleMultiplier :: "node \<Rightarrow> jsnum option" where
  "ruleMultiplier (Conditional _ _ (Literal _ (LNum m _)) (Literal _ (LNum one _))) =
     (if js_eq one (Fin 1) then Some m else None)"
| "ruleMultiplier _ = None"

fun conditionOf :: "node \<Rightarrow> node" where
  "conditionOf (Conditional _ c _ _) = c"
| "conditionOf n = n"

definition collectRule :: "string \<Rightarrow> node \<Rightarrow> requestRule list \<Rightarrow> requestRule list bx" where
  "collectRule src n rules =
     (case ruleMultiplier n of
        None \<Rightarrow> Inr rules
      | Some m \<Rightarrow>
          rbind (expressionDependencies (conditionOf n)) (\<lambda>d.
          if list_ex (\<lambda>name. name \<in> set ([''param'', ''header''] @ TIME_FUNCTIONS)) (depFunctions d)
          then Inr (rules @ [\<lparr>rnode = n, rcondition = conditionOf n, rmultiplier = m,
                      rcond = slice src (nstart (conditionOf n)) (nend (conditionOf n))\<rparr>])
          else Inr rules))"

definition requestRulesOf :: "string \<Rightarrow> node \<Rightarrow> requestRule list bx" where
  "requestRulesOf src ast = visitExpression (collectRule src) ast []"

section \<open>Fixed prices\<close>

definition containsPricingMarker :: "node \<Rightarrow> bool bx" where
  "containsPricingMarker n =
     rbind (expressionDependencies n)
       (\<lambda>d. Inr (''tier'' \<in> set (depFunctions d) \<or> ''fixed'' \<in> set (depFunctions d)))"

definition fixedPricingError :: "node \<Rightarrow> exn" where
  "fixedPricingError n = diagAt CType
     ''Use tier(name, fixed(amount)) with a finite, non-negative numeric literal; combine pricing branches only with conditions and request multipliers.''
     (nstart n)"

text \<open>Whether one factor of a product is the image count or a request multiplier.\<close>

definition factorAccepted :: "requestRule list \<Rightarrow> node \<Rightarrow> bool bx" where
  "factorAccepted rules factor =
     (if (case factor of Variable _ x \<Rightarrow> x = ''image_count'' | _ \<Rightarrow> False) then Inr True
      else case find (\<lambda>r. rnode r = factor) rules of
             None \<Rightarrow> Inr False
           | Some r \<Rightarrow>
               if js_le (Fin 0) (rmultiplier r)
               then rbind (containsPricingMarker (rcondition r)) (\<lambda>m. Inr (\<not> m))
               else Inr False)"

definition million :: jsnum where
  "million = Fin 1000000"

text \<open>
  \<open>tier(name, price)\<close>: a fixed literal amount, or a price without a marker. Reading the kind
  of a missing argument is a TypeError.
\<close>

definition priceAccepted :: "node \<Rightarrow> bool bx" where
  "priceAccepted price =
     (case price of
        Call _ f args \<Rightarrow>
          if f = ''fixed'' then
            (case args of
               [] \<Rightarrow> Inl (JsError ''TypeError'')
             | amount # _ \<Rightarrow>
                 (case amount of
                    Literal _ (LNum x _) \<Rightarrow>
                      Inr (js_le (Fin 0) x \<and> isFinite (js_mul x million))
                  | _ \<Rightarrow> Inr False))
          else rbind (containsPricingMarker price) (\<lambda>m. Inr (\<not> m))
      | _ \<Rightarrow> rbind (containsPricingMarker price) (\<lambda>m. Inr (\<not> m)))"

definition fixedLeafAccepted :: "string \<Rightarrow> node list \<Rightarrow> bool bx" where
  "fixedLeafAccepted name args =
     (if name \<noteq> ''tier'' then Inr False
      else case args of
        [] \<Rightarrow> Inl (JsError ''TypeError'')
      | label # rest \<Rightarrow>
          rbind (containsPricingMarker label) (\<lambda>m.
          if m then Inr False
          else case rest of
                 [] \<Rightarrow> Inl (JsError ''TypeError'')
               | price # _ \<Rightarrow> priceAccepted price))"

fun validateFixedPricingTree :: "requestRule list \<Rightarrow> node \<Rightarrow> unit bx" where
  "validateFixedPricingTree rules (Conditional sp c y n) =
     rbind (containsPricingMarker c) (\<lambda>m.
     if m then Inl (fixedPricingError (Conditional sp c y n))
     else rbind (validateFixedPricingTree rules y) (\<lambda>_. validateFixedPricingTree rules n))"
| "validateFixedPricingTree rules (Binary sp op l r) =
     (if op = ''*'' then
        rbind (factorAccepted rules r) (\<lambda>ok.
        if ok then validateFixedPricingTree rules l
        else rbind (factorAccepted rules l) (\<lambda>ok.
             if ok then validateFixedPricingTree rules r
             else Inl (fixedPricingError (Binary sp op l r))))
      else Inl (fixedPricingError (Binary sp op l r)))"
| "validateFixedPricingTree rules (Call sp f args) =
     rbind (fixedLeafAccepted f args) (\<lambda>ok.
     if ok then Inr () else Inl (fixedPricingError (Call sp f args)))"
| "validateFixedPricingTree rules n = Inl (fixedPricingError n)"

section \<open>Compilation\<close>

record compiledBillingExpression =
  csource :: string
  cast :: node
  cvariables :: "string list"
  cfunctions :: "string list"
  crules :: "requestRule list"

datatype compilationResult =
    Ready compiledBillingExpression
  | CompileFailure expressionFailure_t

definition compileBody :: "string \<Rightarrow> compiledBillingExpression bx" where
  "compileBody src =
     rbind (parseExpression src) (\<lambda>ast.
     rbind (checkExpressionTypes ast) (\<lambda>_.
     rbind (expressionDependencies ast) (\<lambda>d.
     rbind (requestRulesOf src ast) (\<lambda>rules.
     rbind (if ''fixed'' \<in> set (depFunctions d) then validateFixedPricingTree rules ast
            else Inr ()) (\<lambda>_.
     Inr \<lparr>csource = src, cast = ast, cvariables = depVariables d,
          cfunctions = depFunctions d, crules = rules\<rparr>)))))"

text \<open>The \<open>try\<close>/\<open>catch\<close> of the function, without the cache.\<close>

definition compileFresh :: "string \<Rightarrow> compilationResult" where
  "compileFresh src =
     (case compileBody src of
        Inl e \<Rightarrow> CompileFailure (expressionFailure e)
      | Inr c \<Rightarrow> Ready c)"

text \<open>The module-level \<open>Map\<close>: entries in insertion order, the oldest first.\<close>

type_synonym compiledCache = "(string \<times> compilationResult) list"

definition cacheStore :: "string \<Rightarrow> compilationResult \<Rightarrow> compiledCache \<Rightarrow> compiledCache" where
  "cacheStore src r cache =
     (let cache' = (if 128 \<le> length cache \<and> cache \<noteq> [] then tl cache else cache)
      in cache' @ [(src, r)])"

definition compileBillingExpression ::
    "string \<Rightarrow> compiledCache \<Rightarrow> compilationResult \<times> compiledCache" where
  "compileBillingExpression src cache =
     (case map_of cache src of
        Some r \<Rightarrow> (r, cache)
      | None \<Rightarrow> (let r = compileFresh src in (r, cacheStore src r cache)))"

section \<open>The cache is a bounded memo table\<close>

text \<open>The compiler's cache: distinct keys, oldest entry first.\<close>

definition cacheInvar :: "compiledCache \<Rightarrow> bool" where
  "cacheInvar cache \<longleftrightarrow> distinct (map fst cache)"

lemma map_of_tl: "\<lbrakk>distinct (map fst c); map_of (tl c) k = Some v\<rbrakk> \<Longrightarrow> map_of c k = Some v"
  by (cases c) (auto dest: map_of_SomeD simp: image_iff)

lemma distinct_tl_keys: "distinct (map fst c) \<Longrightarrow> distinct (map fst (tl c))"
  by (cases c) auto

lemma tl_keys: "k \<notin> fst ` set c \<Longrightarrow> k \<notin> fst ` set (tl c)"
  by (cases c) auto

lemma map_of_None_iff: "map_of c k = None \<longleftrightarrow> k \<notin> fst ` set c"
  by (simp add: map_of_eq_None_iff)

interpretation compiler_cache: bounded_memo cacheInvar map_of cacheStore "[]"
  "\<lambda>src. Inr (compileFresh src) :: compilationResult bx"
  "\<lambda>src cache. Inr (compileBillingExpression src cache)" length 128
proof (unfold_locales, goal_cases)
  case (3 c k v)
  then show ?case
    by (auto simp: cacheInvar_def cacheStore_def Let_def map_of_None_iff distinct_tl_keys dest: tl_keys)
next
  case (4 c k v)
  then have "map_of (tl c) k = None" by (simp add: map_of_None_iff tl_keys)
  with 4 show ?case by (auto simp: cacheStore_def map_add_def Let_def)
next
  case (5 c k v k' v')
  then have "map_of c k' = Some v' \<or> map_of (tl c) k' = Some v'"
    by (auto simp: cacheStore_def Let_def map_add_def split: if_splits option.splits)
  with 5 map_of_tl [of c k' v'] show ?case unfolding cacheInvar_def by blast
qed (auto simp: cacheInvar_def cacheStore_def Let_def compileBillingExpression_def
    split: option.splits)

lemma cache_call:
  assumes "compiler_cache.reachable cache"
  shows "fst (compileBillingExpression src cache) = compileFresh src \<and>
    compileBillingExpression src (snd (compileBillingExpression src cache)) =
      (compileFresh src, snd (compileBillingExpression src cache))"
proof -
  obtain r cache' where c: "compileBillingExpression src cache = (r, cache')" by fastforce
  with compiler_cache.call_returns [OF compiler_cache.reachable_valid [OF assms], of src r cache']
  have "compileFresh src = r" "map_of cache' src = Some r" by auto
  with c show ?thesis by (simp add: compileBillingExpression_def)
qed

section \<open>What a compiled expression guarantees\<close>

text \<open>The conditionals that are request rules, in the order of the traversal.\<close>

definition isRule :: "node \<Rightarrow> bool" where
  "isRule n \<longleftrightarrow> ruleMultiplier n \<noteq> None \<and>
     callsOf (conditionOf n) \<inter> set ([''param'', ''header''] @ TIME_FUNCTIONS) \<noteq> {}"

definition ruleFor :: "string \<Rightarrow> node \<Rightarrow> requestRule" where
  "ruleFor src n = \<lparr>rnode = n, rcondition = conditionOf n, rmultiplier = the (ruleMultiplier n),
     rcond = slice src (nstart (conditionOf n)) (nend (conditionOf n))\<rparr>"

lemma conditionOf_height: "ruleMultiplier n = Some m \<Longrightarrow> height (conditionOf n) < height n"
  by (cases n) auto

lemma collectRule_ok:
  assumes "height n \<le> 256"
  shows "collectRule src n rules = Inr (rules @ (if isRule n then [ruleFor src n] else []))"
proof (cases "ruleMultiplier n")
  case (Some m)
  then have "height (conditionOf n) \<le> 256" using assms conditionOf_height [of n m] by simp
  then obtain d where "expressionDependencies (conditionOf n) = Inr d"
    "set (depFunctions d) = callsOf (conditionOf n)"
    using expressionDependencies_ok by blast
  then show ?thesis
    using Some by (auto simp: collectRule_def isRule_def ruleFor_def list_ex_iff)
qed (simp add: collectRule_def isRule_def)

lemma foldBx_collectRule:
  "\<forall>n\<in>set ns. height n \<le> 256 \<Longrightarrow>
   foldBx (collectRule src) ns rules = Inr (rules @ map (ruleFor src) (filter isRule ns))"
  by (induction ns arbitrary: rules) (simp_all add: collectRule_ok)

lemma height_postorder: "m \<in> set (postorder n) \<Longrightarrow> height m \<le> height n"
proof (induction n rule: node_children_induct)
  case (node n)
  from node.prems consider "m = n" | c where "c \<in> set (children n)" "m \<in> set (postorder c)"
    by (subst (asm) postorder_children) auto
  then show ?case
  proof cases
    case 2
    then show ?thesis using node.IH [of c] height_child [of c n] by simp
  qed simp
qed

lemma requestRulesOf_ok:
  assumes "height ast \<le> 256"
  shows "requestRulesOf src ast = Inr (map (ruleFor src) (filter isRule (postorder ast)))"
proof -
  have "\<forall>n\<in>set (postorder ast). height n \<le> 256"
    using assms height_postorder le_trans by blast
  then show ?thesis
    using assms by (simp add: requestRulesOf_def visitExpression_fold foldBx_collectRule)
qed

definition compiledOk :: "compiledBillingExpression \<Rightarrow> bool" where
  "compiledOk c \<longleftrightarrow>
     astOk (cast c) \<and> height (cast c) \<le> 256 \<and> (\<exists>t. hasType (cast c) t) \<and>
     set (cvariables c) = varsOf (cast c) \<and> set (cfunctions c) = callsOf (cast c) \<and>
     crules c = map (ruleFor (csource c)) (filter isRule (postorder (cast c))) \<and>
     (''fixed'' \<in> callsOf (cast c) \<longrightarrow> isOk (validateFixedPricingTree (crules c) (cast c)))"

lemma compileBody_ok: "compileBody src = Inr c \<Longrightarrow> compiledOk c \<and> csource c = src"
proof -
  assume "compileBody src = Inr c"
  then obtain ast types d rules where
    ast: "parseExpression src = Inr ast" and types: "checkExpressionTypes ast = Inr types" and
    d: "expressionDependencies ast = Inr d" and rules: "requestRulesOf src ast = Inr rules" and
    fixed: "''fixed'' \<in> set (depFunctions d) \<Longrightarrow> validateFixedPricingTree rules ast = Inr ()" and
    c: "c = \<lparr>csource = src, cast = ast, cvariables = depVariables d,
          cfunctions = depFunctions d, crules = rules\<rparr>"
    by (auto simp: compileBody_def rbind_eq_Inr_iff split: if_splits)
  note deps = expressionDependencies_Inr [OF d]
  have "\<exists>t. hasType ast t" using deps types check_accepts_iff [of ast] by simp
  with deps fixed c requestRulesOf_ok [of ast src] rules parseExpression_ok [OF ast]
  show ?thesis by (auto simp: compiledOk_def)
qed

lemma compileFresh_Ready: "compileFresh src = Ready c \<longleftrightarrow> compileBody src = Inr c"
  by (auto simp: compileFresh_def split: sum.splits)

section \<open>Properties\<close>

lemma sample_compiles: "isOk (compileBody sampleSource)"
  by code_simp

text \<open>
  C6. What compilation promises: a ready result is a well-formed, well-typed tree within the
  depth bound, its variable and function sets are those that occur in the tree, its request
  rules are exactly the conditionals of the tree that switch between a number and 1 on a
  condition that probes the request or the clock, in post-order, and an expression that uses
  fixed prices has passed the shape check.
\<close>

theorem compile_ready:
  assumes "compileFresh src = Ready c"
  shows "compiledOk c \<and> csource c = src"
  using assms compileBody_ok by (simp add: compileFresh_Ready)

theorem compile_ready_witness:
  "\<exists>c. compileFresh sampleSource = Ready c \<and> compiledOk c \<and> csource c = sampleSource"
proof -
  obtain c where "compileFresh sampleSource = Ready c"
    using isOkE [OF sample_compiles] by (auto simp: compileFresh_Ready)
  with compile_ready [OF this] show ?thesis by blast
qed

text \<open>
  C7. The module-level cache cannot be observed: whatever was compiled before, compiling a
  source returns what a fresh compilation returns, compiling it again at once returns the
  same and leaves the cache alone, and the cache never holds more than 128 entries.
\<close>

theorem compile_cache_transparent:
  assumes "compiler_cache.reachable cache"
  shows "fst (compileBillingExpression src cache) = compileFresh src \<and>
    compileBillingExpression src (snd (compileBillingExpression src cache)) =
      (compileFresh src, snd (compileBillingExpression src cache)) \<and>
    length cache \<le> 128"
  using cache_call [OF assms] compiler_cache.reachable_bounded [OF assms] by simp

theorem compile_cache_transparent_witness:
  "fst (compileBillingExpression ''p'' []) = compileFresh ''p'' \<and>
    compileBillingExpression ''p'' (snd (compileBillingExpression ''p'' [])) =
      (compileFresh ''p'', snd (compileBillingExpression ''p'' [])) \<and>
    length ([] :: compiledCache) \<le> 128"
  by (rule compile_cache_transparent) (rule compiler_cache.reachable.start)

end
