(* ===== verification/BxRequest.thy ===== *)
theory BxRequest
  imports BxTypes
begin

text \<open>
  Model of \<open>readRequestPath\<close> and \<open>billingString\<close> (\<open>billing-expression/runtime.ts\<close>): the
  subset of GJSON paths the simulator can follow in a request body, and the text that the
  backend's \<open>has\<close> sees for a JSON value. The values are JavaScript's JSON values and
  \<open>undefined\<close>; an object is the list of its own properties in enumeration order.
\<close>

section \<open>Values\<close>

datatype jsval =
    JUndef
  | JNull
  | JBool bool
  | JNum jsnum
  | JStr string
  | JArr "jsval list"
  | JObj "(string \<times> jsval) list"

text \<open>\<open>value == null\<close>.\<close>

definition isNullish :: "jsval \<Rightarrow> bool" where
  "isNullish v \<longleftrightarrow> v = JNull \<or> v = JUndef"

section \<open>Paths\<close>

definition pathSpecials :: string where
  "pathSpecials = ''*?[]()|@!''"

text \<open>
  The scanning loop: \<open>part\<close> is the part being read, \<open>parts\<close> the finished ones. A backslash
  takes the next character literally.
\<close>

fun splitPath :: "string \<Rightarrow> string \<Rightarrow> string \<Rightarrow> string list \<Rightarrow> string list bx" where
  "splitPath path [] part parts = Inr (parts @ [part])"
| "splitPath path (c # rest) part parts =
     (if c = backslash then
        (case rest of
           [] \<Rightarrow> Inl (diag CUnsupported path)
         | d # rest' \<Rightarrow> splitPath path rest' (part @ [d]) parts)
      else if c = CHR ''.'' then splitPath path rest [] (parts @ [part])
      else if c \<in> set pathSpecials then Inl (diag CUnsupported path)
      else splitPath path rest (part @ [c]) parts)"

text \<open>\<open>value[Number(key)]\<close> for a key of digits; an index out of range reads \<open>undefined\<close>.\<close>

definition arrayAt :: "jsval list \<Rightarrow> string \<Rightarrow> jsval" where
  "arrayAt xs key =
     (let index = numberOf key
      in if isSafeInteger index \<and> nat \<lfloor>valOf index\<rfloor> < length xs
         then xs ! nat \<lfloor>valOf index\<rfloor> else JUndef)"

definition isDigits :: "string \<Rightarrow> bool" where
  "isDigits key \<longleftrightarrow> key \<noteq> [] \<and> list_all isDigit key"

text \<open>\<open>value ?? null\<close> at the end of the walk.\<close>

definition orNull :: "jsval \<Rightarrow> jsval" where
  "orNull v = (if v = JUndef then JNull else v)"

fun walkPath :: "string \<Rightarrow> jsval \<Rightarrow> string list \<Rightarrow> jsval bx" where
  "walkPath path v [] = Inr (orNull v)"
| "walkPath path v (key # keys) =
     (case v of
        JArr xs \<Rightarrow>
          if key = ''#'' \<and> keys = [] then Inr (JNum (ofInt (int (length xs))))
          else if key = ''#'' then Inl (diag CUnsupported path)
          else if \<not> isDigits key then Inr JNull
          else walkPath path (arrayAt xs key) keys
      | JObj kvs \<Rightarrow>
          (case map_of kvs key of
             Some w \<Rightarrow> walkPath path w keys
           | None \<Rightarrow> Inr JNull)
      | _ \<Rightarrow> Inr JNull)"

definition readRequestPath :: "jsval \<Rightarrow> string \<Rightarrow> jsval bx" where
  "readRequestPath body rawPath =
     (let path = trim rawPath
      in if path = [] then Inr JNull
         else rbind (splitPath path path [] []) (walkPath path body))"

section \<open>The text of a value\<close>

text \<open>\<open>value.map(f)\<close> with a callback that may throw.\<close>

fun mapBx :: "('a \<Rightarrow> 'b bx) \<Rightarrow> 'a list \<Rightarrow> 'b list bx" where
  "mapBx f [] = Inr []"
| "mapBx f (x # xs) = rbind (f x) (\<lambda>y. rbind (mapBx f xs) (\<lambda>ys. Inr (y # ys)))"

lemma mapBx_cong [fundef_cong]:
  "\<lbrakk>xs = ys; \<And>x. x \<in> set ys \<Longrightarrow> f x = g x\<rbrakk> \<Longrightarrow> mapBx f xs = mapBx g ys"
  by (induction ys arbitrary: xs) auto

text \<open>\<open>Math.abs(Number(exponent)).toString().padStart(2, '0')\<close> behind mantissa and sign.\<close>

definition exponentForm :: "string \<Rightarrow> int \<Rightarrow> string" where
  "exponentForm mantissa e =
     mantissa @ ''e'' @ (if e < 0 then ''-'' else ''+'') @ padStart 2 CHR ''0'' (natString \<bar>e\<bar>)"

definition billingNumber :: "jsnum \<Rightarrow> string bx" where
  "billingNumber x =
     (if \<not> isFinite x then Inl (diag CNumber ''request number'')
      else if x = NegZero then Inr ''-0''
      else let (mantissa, e) = toExponentialParts (valOf x)
           in if 6 \<le> e \<or> e < - 4 then Inr (exponentForm mantissa e) else Inr (numString x))"

function billingString :: "nat \<Rightarrow> jsval \<Rightarrow> string bx" where
  "billingString d v =
     (if 128 < d then Inl (diag CLimit ''request value depth'')
      else case v of
        JUndef \<Rightarrow> Inr ''<nil>''
      | JNull \<Rightarrow> Inr ''<nil>''
      | JArr xs \<Rightarrow>
          rbind (mapBx (billingString (Suc d)) xs) (\<lambda>ss. Inr (''['' @ joinWith '' '' ss @ '']''))
      | JObj kvs \<Rightarrow>
          rbind (mapBx (\<lambda>(k, w). rbind (billingString (Suc d) w) (\<lambda>s. Inr (k @ '':'' @ s)))
            (sort_key fst kvs)) (\<lambda>ss. Inr (''map['' @ joinWith '' '' ss @ '']''))
      | JNum x \<Rightarrow> billingNumber x
      | JBool b \<Rightarrow> Inr (if b then ''true'' else ''false'')
      | JStr s \<Rightarrow> Inr s)"
  by pat_completeness auto
termination
  by (relation "measure (\<lambda>(d, _). 129 - d)") auto

declare billingString.simps [simp del]

section \<open>Paths: an encoding that reads back\<close>

text \<open>
  A key is written into a path by escaping the separator, the backslash and the characters
  of GJSON's query syntax.
\<close>

definition escapeChar :: "char \<Rightarrow> string" where
  "escapeChar c =
     (if c = backslash \<or> c = CHR ''.'' \<or> c \<in> set pathSpecials then [backslash, c] else [c])"

definition escapeKey :: "string \<Rightarrow> string" where
  "escapeKey key = concat (map escapeChar key)"

definition encodePath :: "string list \<Rightarrow> string" where
  "encodePath keys = joinWith ''.'' (map escapeKey keys)"

lemma splitPath_escapeChar:
  "splitPath path (escapeChar c @ rest) part parts = splitPath path rest (part @ [c]) parts"
  by (simp add: escapeChar_def)

lemma splitPath_escapeKey:
  "splitPath path (escapeKey key @ rest) part parts = splitPath path rest (part @ key) parts"
  by (induction key arbitrary: part) (simp_all add: escapeKey_def splitPath_escapeChar)

lemma splitPath_encodePath:
  "splitPath path (encodePath (key # keys)) part parts = Inr (parts @ (part @ key) # keys)"
proof (induction keys arbitrary: key part parts)
  case Nil
  show ?case using splitPath_escapeKey [of path key "[]"] by (simp add: encodePath_def)
next
  case (Cons k keys)
  have "encodePath (key # k # keys) = escapeKey key @ CHR ''.'' # encodePath (k # keys)"
    by (simp add: encodePath_def)
  then show ?case by (simp add: splitPath_escapeKey Cons.IH)
qed

lemma readRequestPath_encode:
  "\<lbrakk>keys \<noteq> []; encodePath keys \<noteq> []; trim (encodePath keys) = encodePath keys\<rbrakk> \<Longrightarrow>
   readRequestPath body (encodePath keys) = walkPath (encodePath keys) body keys"
  by (cases keys) (simp_all add: readRequestPath_def Let_def splitPath_encodePath)

text \<open>What a value contains.\<close>

inductive_set subvalues :: "jsval \<Rightarrow> jsval set" for v where
  self: "v \<in> subvalues v"
| item: "\<lbrakk>JArr xs \<in> subvalues v; x \<in> set xs\<rbrakk> \<Longrightarrow> x \<in> subvalues v"
| entry: "\<lbrakk>JObj kvs \<in> subvalues v; (k, x) \<in> set kvs\<rbrakk> \<Longrightarrow> x \<in> subvalues v"

lemma arrayAt_cases: "arrayAt xs key = JUndef \<or> arrayAt xs key \<in> set xs"
  by (auto simp: arrayAt_def Let_def)

definition isLength :: "jsval \<Rightarrow> jsval \<Rightarrow> bool" where
  "isLength v w \<longleftrightarrow> (\<exists>xs. JArr xs \<in> subvalues v \<and> w = JNum (ofInt (int (length xs))))"

definition foundIn :: "jsval \<Rightarrow> jsval \<Rightarrow> bool" where
  "foundIn v w \<longleftrightarrow> w \<noteq> JUndef \<and> (w = JNull \<or> w \<in> subvalues v \<or> isLength v w)"

lemma walkPath_found:
  "\<lbrakk>v \<in> subvalues body \<or> v = JUndef; walkPath path v keys = Inr w\<rbrakk> \<Longrightarrow> foundIn body w"
proof (induction keys arbitrary: v)
  case Nil
  then show ?case by (auto simp: orNull_def foundIn_def split: if_splits)
next
  case (Cons key keys)
  show ?case
  proof (cases v)
    case (JArr xs)
    have "arrayAt xs key \<in> subvalues body \<or> arrayAt xs key = JUndef"
      using arrayAt_cases [of xs key] Cons.prems(1) JArr by (auto intro: subvalues.item)
    with Cons JArr show ?thesis by (auto simp: foundIn_def isLength_def split: if_splits)
  next
    case (JObj kvs)
    have "w' \<in> subvalues body" if "map_of kvs key = Some w'" for w'
      using map_of_SomeD [OF that] Cons.prems(1) JObj by (auto intro: subvalues.entry)
    with Cons JObj show ?thesis by (auto simp: foundIn_def split: option.splits)
  qed (use Cons.prems in \<open>auto simp: foundIn_def\<close>)
qed

lemma walkPath_error: "walkPath path v keys = Inl e \<Longrightarrow> e = diag CUnsupported path"
proof (induction keys arbitrary: v)
  case (Cons key keys)
  then show ?case by (cases v) (auto split: if_splits option.splits)
qed simp

lemma splitPath_error: "splitPath path rest part parts = Inl e \<Longrightarrow> e = diag CUnsupported path"
  by (induction path rest part parts rule: splitPath.induct) (auto split: if_splits list.splits)

lemma readRequestPath_found: "readRequestPath body raw = Inr w \<Longrightarrow> foundIn body w"
  by (auto simp: readRequestPath_def Let_def rbind_eq_Inr_iff foundIn_def [of _ JNull]
      split: if_splits intro: walkPath_found subvalues.self)

lemma readRequestPath_error:
  "readRequestPath body raw = Inl e \<Longrightarrow> e = diag CUnsupported (trim raw)"
  by (auto simp: readRequestPath_def Let_def rbind_eq_Inl_iff
      split: if_splits dest: walkPath_error splitPath_error)

section \<open>When a value has a text\<close>

text \<open>
  The value has fewer than \<open>n\<close> levels (a scalar is one level, an array or object one more than
  its deepest item) and every number in it is finite.
\<close>

fun nestingFits :: "nat \<Rightarrow> jsval \<Rightarrow> bool" where
  "nestingFits n (JArr xs) = (0 < n \<and> (\<forall>x\<in>set xs. nestingFits (n - 1) x))"
| "nestingFits n (JObj kvs) = (0 < n \<and> (\<forall>e\<in>set kvs. nestingFits (n - 1) (snd e)))"
| "nestingFits n (JNum x) = (0 < n \<and> isFinite x)"
| "nestingFits n v = (0 < n)"

lemma isOk_mapBx: "isOk (mapBx f xs) \<longleftrightarrow> (\<forall>x\<in>set xs. isOk (f x))"
  by (induction xs) (auto simp: rbind_def isOk_def split: sum.splits)

lemma isOk_rbind_Inr: "isOk (rbind r (\<lambda>x. Inr (f x))) = isOk r"
  by (cases r) auto

lemma isOk_billingNumber: "isOk (billingNumber x) = isFinite x"
  by (simp add: billingNumber_def Let_def split: prod.splits)

lemma nestingFits_pos: "nestingFits n v \<Longrightarrow> 0 < n"
  by (cases v) auto

lemma billingString_iff: "isOk (billingString d v) \<longleftrightarrow> nestingFits (129 - d) v"
proof (induction d v rule: billingString.induct)
  case (1 d v)
  show ?case
  proof (cases "128 < d")
    case True
    then show ?thesis using nestingFits_pos [of 0 v] by (auto simp: billingString.simps)
  next
    case False
    have less: "1 < 129 - d" if "nestingFits (128 - d) x" for x
      using nestingFits_pos [OF that] by simp
    show ?thesis
    proof (cases v)
      case (JArr xs)
      with False 1(1) less show ?thesis
        by (subst billingString.simps) (auto simp: isOk_rbind_Inr isOk_mapBx)
    next
      case (JObj kvs)
      have "isOk (billingString (Suc d) (snd e)) \<longleftrightarrow> nestingFits (128 - d) (snd e)" if "e \<in> set kvs" for e
        using 1(2) [OF False JObj, of e "fst e" "snd e"] that by simp
      with False JObj less show ?thesis
        by (subst billingString.simps)
           (auto simp: isOk_rbind_Inr isOk_mapBx case_prod_beta)
    qed (use False in \<open>auto simp: billingString.simps isOk_billingNumber\<close>)
  qed
qed

section \<open>Properties\<close>

text \<open>
  C23. A path reads back: writing a list of keys into a path with the separator, the backslash and
  the query characters escaped, and reading a request body at that path, follows exactly
  those keys, unless the path is empty or begins or ends with white space, which
  \<open>readRequestPath\<close> trims.
\<close>

theorem path_roundtrip:
  assumes "keys \<noteq> []" "encodePath keys \<noteq> []" "trim (encodePath keys) = encodePath keys"
  shows "readRequestPath body (encodePath keys) = walkPath (encodePath keys) body keys"
  using assms by (rule readRequestPath_encode)

theorem path_roundtrip_witness:
  "readRequestPath (JObj [(''a.b'', JArr [JNull, JStr ''x''])]) (encodePath [''a.b'', ''1'']) =
     walkPath (encodePath [''a.b'', ''1'']) (JObj [(''a.b'', JArr [JNull, JStr ''x''])]) [''a.b'', ''1''] \<and>
   encodePath [''a.b'', ''1''] = ''a'' @ [backslash] @ ''.b.1''"
  using path_roundtrip [of "[''a.b'', ''1'']" "JObj [(''a.b'', JArr [JNull, JStr ''x''])]"]
  by code_simp

text \<open>
  C24. Reading a request path is confined to the body: a result is never \<open>undefined\<close>; it is
  null, a value contained in the body or the length of an array contained in it, and the
  only exception is the diagnostic for an unsupported path, which carries the trimmed path.
\<close>

theorem path_confined:
  "case readRequestPath body raw of
     Inl e \<Rightarrow> e = diag CUnsupported (trim raw)
   | Inr w \<Rightarrow> foundIn body w"
  using readRequestPath_found [of body raw] readRequestPath_error [of body raw]
  by (simp split: sum.splits)

text \<open>
  The text \<open>has\<close> searches exists exactly for values whose arrays and objects are nested at
  most 128 deep below the root and whose numbers are all finite.
\<close>

theorem text_exists_iff: "isOk (billingString 0 v) \<longleftrightarrow> nestingFits 129 v"
  using billingString_iff [of 0 v] by simp

end
