(* ===== verification/BxTime.thy ===== *)
theory BxTime
  imports BxTypes
begin

text \<open>
  Model of \<open>timeInBillingZone\<close> (\<open>billing-expression/runtime.ts\<close>). A \<open>Date\<close> is its time value,
  the integral number of milliseconds since 1970-01-01T00:00Z, or nothing for an invalid
  date. The UTC getters follow ECMA-262. The internationalisation API is outside the program:
  it is the parameter \<open>intl\<close>, with what \<open>resolvedOptions().timeZone\<close> reports for a zone
  name (nothing when the constructor throws) and the parts \<open>formatToParts\<close> returns.
\<close>

type_synonym date = "int option"

record intl =
  resolvedZone :: "string \<Rightarrow> string option"
  formatParts :: "string \<Rightarrow> int \<Rightarrow> (string \<times> string) list"

record timeRecord =
  thour :: jsnum
  tminute :: jsnum
  tweekday :: jsnum
  tmonth :: jsnum
  tday :: jsnum

section \<open>The UTC getters\<close>

definition msPerDay :: int where
  "msPerDay = 86400000"

definition dayOf :: "int \<Rightarrow> int" where
  "dayOf t = t div msPerDay"

definition utcHours :: "int \<Rightarrow> int" where
  "utcHours t = (t div 3600000) mod 24"

definition utcMinutes :: "int \<Rightarrow> int" where
  "utcMinutes t = (t div 60000) mod 60"

definition utcDay :: "int \<Rightarrow> int" where
  "utcDay t = (dayOf t + 4) mod 7"

text \<open>\<open>DayFromYear\<close>: the day number of the first of January.\<close>

definition dayFromYear :: "int \<Rightarrow> int" where
  "dayFromYear y =
     365 * (y - 1970) + (y - 1969) div 4 - (y - 1901) div 100 + (y - 1601) div 400"

definition leapYear :: "int \<Rightarrow> bool" where
  "leapYear y \<longleftrightarrow> y mod 4 = 0 \<and> (y mod 100 \<noteq> 0 \<or> y mod 400 = 0)"

text \<open>\<open>YearFromTime\<close>: an estimate by the mean year, corrected by at most one.\<close>

definition yearFromDay :: "int \<Rightarrow> int" where
  "yearFromDay d =
     (let y = 1970 + (400 * d) div 146097
      in if d < dayFromYear y then y - 1 else if dayFromYear (y + 1) \<le> d then y + 1 else y)"

definition monthLengths :: "int \<Rightarrow> int list" where
  "monthLengths y =
     [31, if leapYear y then 29 else 28, 31, 30, 31, 30, 31, 31, 30, 31, 30, 31]"

text \<open>The month (from 0) and the day of the month of a day of the year.\<close>

fun monthAndDate :: "int \<Rightarrow> int list \<Rightarrow> int \<Rightarrow> int \<times> int" where
  "monthAndDate m [] d = (m, d + 1)"
| "monthAndDate m (n # ns) d = (if d < n then (m, d + 1) else monthAndDate (m + 1) ns (d - n))"

definition civilOf :: "int \<Rightarrow> int \<times> int" where
  "civilOf d = (let y = yearFromDay d in monthAndDate 0 (monthLengths y) (d - dayFromYear y))"

definition utcMonth :: "int \<Rightarrow> int" where
  "utcMonth t = fst (civilOf (dayOf t))"

definition utcDate :: "int \<Rightarrow> int" where
  "utcDate t = snd (civilOf (dayOf t))"

section \<open>Times in a zone\<close>

definition zoneChar :: "char \<Rightarrow> bool" where
  "zoneChar c \<longleftrightarrow> isWordChar c \<or> c = CHR ''+'' \<or> c = CHR ''-''"

text \<open>\<open>/^[A-Z][A-Za-z0-9_+-]*(?:\/[A-Z][A-Za-z0-9_+-]*)*$/\<close>.\<close>

definition zoneSyntax :: "string \<Rightarrow> bool" where
  "zoneSyntax zone \<longleftrightarrow>
     list_all (\<lambda>seg. seg \<noteq> [] \<and> isUpper (hd seg) \<and> list_all zoneChar (tl seg)) (splitOn CHR ''/'' zone)"

definition utcRecord :: "int \<Rightarrow> timeRecord" where
  "utcRecord t =
     \<lparr>thour = ofInt (utcHours t), tminute = ofInt (utcMinutes t), tweekday = ofInt (utcDay t),
      tmonth = ofInt (utcMonth t + 1), tday = ofInt (utcDate t)\<rparr>"

text \<open>\<open>Object.fromEntries\<close>: the last part of a type wins; a missing one is \<open>undefined\<close>.\<close>

definition partValue :: "(string \<times> string) list \<Rightarrow> string \<Rightarrow> string option" where
  "partValue parts ty = map_of (rev parts) ty"

definition partNumber :: "(string \<times> string) list \<Rightarrow> string \<Rightarrow> jsnum" where
  "partNumber parts ty =
     (case partValue parts ty of Some s \<Rightarrow> stringToNumber s | None \<Rightarrow> NaN)"

definition WEEKDAYS :: "string list" where
  "WEEKDAYS = [''Sun'', ''Mon'', ''Tue'', ''Wed'', ''Thu'', ''Fri'', ''Sat'']"

definition weekdayIndex :: "string option \<Rightarrow> jsnum" where
  "weekdayIndex s =
     (case findIndex (\<lambda>w. Some w = s) WEEKDAYS of Some i \<Rightarrow> ofInt (int i) | None \<Rightarrow> ofInt (- 1))"

definition zonedRecord :: "(string \<times> string) list \<Rightarrow> timeRecord" where
  "zonedRecord parts =
     \<lparr>thour = partNumber parts ''hour'', tminute = partNumber parts ''minute'',
      tweekday = weekdayIndex (partValue parts ''weekday''),
      tmonth = partNumber parts ''month'', tday = partNumber parts ''day''\<rparr>"

text \<open>The zone the formatter is used with, or nothing when the \<open>try\<close> block throws.\<close>

definition usableZone :: "intl \<Rightarrow> string \<Rightarrow> bool" where
  "usableZone env timezone \<longleftrightarrow>
     zoneSyntax timezone \<and>
     (case resolvedZone env timezone of
        None \<Rightarrow> False
      | Some resolved \<Rightarrow>
          \<not> (toLowerCase resolved = toLowerCase timezone \<and> resolved \<noteq> timezone))"

definition zoneName :: "string \<Rightarrow> string" where
  "zoneName zone = (if trim zone = [] then ''UTC'' else trim zone)"

definition timeInBillingZone :: "intl \<Rightarrow> date \<Rightarrow> string \<Rightarrow> timeRecord bx" where
  "timeInBillingZone env now zone =
     (case now of
        None \<Rightarrow> Inl (diag CType ''simulation time'')
      | Some t \<Rightarrow>
          let timezone = zoneName zone
          in if timezone = ''Local'' then Inl (diag CUnsupported ''server Local timezone'')
             else if \<not> usableZone env timezone then Inr (utcRecord t)
             else Inr (zonedRecord (formatParts env timezone t)))"

fun timeField :: "timeRecord \<Rightarrow> string \<Rightarrow> jsnum option" where
  "timeField r f =
     (if f = ''hour'' then Some (thour r)
      else if f = ''minute'' then Some (tminute r)
      else if f = ''weekday'' then Some (tweekday r)
      else if f = ''month'' then Some (tmonth r)
      else if f = ''day'' then Some (tday r)
      else None)"

section \<open>The calendar\<close>

lemma div_bounds: "0 < (n :: int) \<Longrightarrow> n * (a div n) \<le> a \<and> a < n * (a div n) + n"
  using pos_mod_bound [of n a] pos_mod_sign [of n a] mult_div_mod_eq [of n a] by linarith

lemma div_step: "0 < (n :: int) \<Longrightarrow> (a + 1) div n = a div n + (if (a + 1) mod n = 0 then 1 else 0)"
proof -
  assume n: "0 < n"
  have a: "a = n * ((a + 1) div n) + ((a + 1) mod n - 1)" using mult_div_mod_eq [of n "a + 1"] by linarith
  have r: "0 \<le> (a + 1) mod n" "(a + 1) mod n < n" using n by simp_all
  show ?thesis
  proof (cases "(a + 1) mod n = 0")
    case True
    then have "a = n * ((a + 1) div n - 1) + (n - 1)" using a by (simp add: algebra_simps)
    with n have "a div n = (a + 1) div n - 1" by (intro int_div_pos_eq [of _ _ _ "n - 1"]) auto
    with True show ?thesis by simp
  next
    case False
    with r have "0 \<le> (a + 1) mod n - 1" "(a + 1) mod n - 1 < n" by linarith+
    with a have "a div n = (a + 1) div n" by (rule int_div_pos_eq)
    with False show ?thesis by simp
  qed
qed

lemma yearFromDay_bounds:
  "dayFromYear (yearFromDay d) \<le> d \<and> d < dayFromYear (yearFromDay d + 1)"
proof -
  define k where "k = (400 * d) div 146097"
  define y where "y = 1970 + k"
  have k: "146097 * k \<le> 400 * d" "400 * d < 146097 * k + 146097"
    using div_bounds [of 146097 "400 * d"] by (simp_all add: k_def)
  have "dayFromYear (y - 1) \<le> d"
    using k div_bounds [of 4 k] div_bounds [of 100 "k + 68"] div_bounds [of 400 "k + 368"]
    by (simp add: dayFromYear_def y_def algebra_simps)
  moreover have "d < dayFromYear (y + 1 + 1)"
    using k div_bounds [of 4 "k + 3"] div_bounds [of 100 "k + 71"] div_bounds [of 400 "k + 371"]
    by (simp add: dayFromYear_def y_def algebra_simps)
  ultimately show ?thesis
    by (auto simp: yearFromDay_def Let_def k_def [symmetric] y_def [symmetric])
qed

lemma div_step_shifted:
  assumes "0 < (n :: int)" "k mod n = 0"
  shows "(y - k) div n = (y - (k + 1)) div n + of_bool (y mod n = 0)"
proof -
  have "(y - k) mod n = y mod n" using mod_diff_eq [of y n k] assms(2) by simp
  then show ?thesis using div_step [OF assms(1), of "y - (k + 1)"] by (simp del: of_bool_eq)
qed

lemma year_length: "dayFromYear (y + 1) - dayFromYear y = sum_list (monthLengths y)"
proof -
  have "y mod 400 = 0 \<Longrightarrow> y mod 100 = 0" "y mod 100 = 0 \<Longrightarrow> y mod 4 = 0"
    using dvd_trans [of 100 400 y] dvd_trans [of 4 100 y] by (auto simp: mod_eq_0_iff_dvd)
  moreover have "dayFromYear (y + 1) - dayFromYear y =
      365 + of_bool (y mod 4 = 0) - of_bool (y mod 100 = 0) + of_bool (y mod 400 = 0)"
  proof -
    have e: "y + 1 - 1970 = y - 1970 + 1" "y + 1 - 1969 = y - 1968" "y + 1 - 1901 = y - 1900"
      "y + 1 - 1601 = y - 1600" by simp_all
    show ?thesis
      unfolding dayFromYear_def e div_step_shifted [of 4 1968 y, simplified]
        div_step_shifted [of 100 1900 y, simplified] div_step_shifted [of 400 1600 y, simplified]
      by (simp only: algebra_simps)
  qed
  ultimately have "dayFromYear (y + 1) - dayFromYear y = (if leapYear y then 366 else 365)"
    unfolding leapYear_def
    by (cases "y mod 4 = 0"; cases "y mod 100 = 0"; cases "y mod 400 = 0") simp_all
  then show ?thesis by (simp add: monthLengths_def)
qed

lemma monthAndDate_correct:
  assumes "0 \<le> d" "d < sum_list ns"
  shows "\<exists>i<length ns. monthAndDate m ns d = (m + int i, d - sum_list (take i ns) + 1) \<and>
    0 \<le> d - sum_list (take i ns) \<and> d - sum_list (take i ns) < ns ! i"
  using assms
proof (induction ns arbitrary: m d)
  case (Cons n ns)
  show ?case
  proof (cases "d < n")
    case True
    with Cons.prems show ?thesis by (intro exI [of _ 0]) simp
  next
    case False
    then obtain i where "i < length ns"
      "monthAndDate (m + 1) ns (d - n) = (m + 1 + int i, d - n - sum_list (take i ns) + 1)"
      "0 \<le> d - n - sum_list (take i ns)" "d - n - sum_list (take i ns) < ns ! i"
      using Cons.IH [of "d - n" "m + 1"] Cons.prems by auto
    with False show ?thesis by (intro exI [of _ "Suc i"]) (simp add: algebra_simps)
  qed
qed simp

text \<open>The day number of a civil date, month from 0.\<close>

definition dayFromCivil :: "int \<Rightarrow> int \<Rightarrow> int \<Rightarrow> int" where
  "dayFromCivil y m d = dayFromYear y + sum_list (take (nat m) (monthLengths y)) + d - 1"

lemma civilOf_correct:
  assumes "civilOf day = (m, d)"
  shows "dayFromCivil (yearFromDay day) m d = day \<and> 0 \<le> m \<and> m < 12 \<and>
    1 \<le> d \<and> d \<le> monthLengths (yearFromDay day) ! nat m"
proof -
  let ?y = "yearFromDay day"
  have "0 \<le> day - dayFromYear ?y" "day - dayFromYear ?y < sum_list (monthLengths ?y)"
    using yearFromDay_bounds [of day] year_length [of ?y] by auto
  then obtain i where i: "i < length (monthLengths ?y)"
    "m = int i" "d = day - dayFromYear ?y - sum_list (take i (monthLengths ?y)) + 1"
    "1 \<le> d" "d \<le> monthLengths ?y ! i"
    using monthAndDate_correct [of "day - dayFromYear ?y" "monthLengths ?y" 0] assms
    by (auto simp: civilOf_def Let_def)
  moreover have "length (monthLengths ?y) = 12" by (simp add: monthLengths_def)
  ultimately show ?thesis by (simp add: dayFromCivil_def)
qed

lemma monthLengths_bounds: "i < 12 \<Longrightarrow> monthLengths y ! i \<le> 31"
  by (auto simp: monthLengths_def less_Suc_eq numeral_eq_Suc)

lemma timeInBillingZone_errors:
  "timeInBillingZone env now zone = Inl e \<longleftrightarrow>
     now = None \<and> e = diag CType ''simulation time'' \<or>
     now \<noteq> None \<and> zoneName zone = ''Local'' \<and> e = diag CUnsupported ''server Local timezone''"
  by (auto simp: timeInBillingZone_def Let_def split: option.splits)

text \<open>Hour, minute and the civil date of a time value together give it back.\<close>

lemma utc_fields:
  "t = ((dayFromCivil (yearFromDay (dayOf t)) (utcMonth t) (utcDate t) * 24 + utcHours t) * 60
     + utcMinutes t) * 60000 + t mod 60000"
proof -
  have d: "dayFromCivil (yearFromDay (dayOf t)) (utcMonth t) (utcDate t) = dayOf t"
    using civilOf_correct [of "dayOf t" "utcMonth t" "utcDate t"] by (simp add: utcMonth_def utcDate_def)
  have m: "t = t div 60000 * 60000 + t mod 60000" by simp
  have h: "t div 60000 = (t div 60000 div 60) * 60 + utcMinutes t" by (simp add: utcMinutes_def)
  have e: "t div 60000 div 60 = t div 3600000" "t div 3600000 div 24 = dayOf t"
    by (simp_all add: dayOf_def msPerDay_def zdiv_zmult2_eq [symmetric])
  have "t div 3600000 = dayOf t * 24 + utcHours t"
    using div_mult_mod_eq [of "t div 3600000" 24] e(2) by (simp add: utcHours_def)
  with m h e(1) d show ?thesis by metis
qed

section \<open>Properties\<close>

text \<open>
  C25. The fallback clock is the UTC calendar: for a valid date and a zone that is neither the
  server's nor known to the internationalisation API, the five fields of the returned record
  are integers \<open>h\<close>, \<open>mi\<close>, \<open>w\<close>, \<open>m\<close> (from 1) and \<open>d\<close> in their ranges, the date \<open>y\<close>-\<open>m\<close>-\<open>d\<close> at
  \<open>h\<close>:\<open>mi\<close> is the minute of the time value, and \<open>w\<close> is the weekday of that date, 1970-01-01
  being a Thursday. The day numbers are those of the calendar: day 0 is 1970-01-01, and each
  year is as long as its months.
\<close>

theorem utc_fallback:
  assumes "\<not> usableZone env (zoneName zone)" "zoneName zone \<noteq> ''Local''"
  shows "(\<exists>r y m d h mi w. timeInBillingZone env (Some t) zone = Inr r \<and>
      thour r = Fin (of_int h) \<and> tminute r = Fin (of_int mi) \<and>
      tweekday r = Fin (of_int w) \<and> tmonth r = Fin (of_int m) \<and> tday r = Fin (of_int d) \<and>
      (0 \<le> h \<and> h < 24) \<and> (0 \<le> mi \<and> mi < 60) \<and> (1 \<le> m \<and> m \<le> 12) \<and>
      (1 \<le> d \<and> d \<le> monthLengths y ! nat (m - 1)) \<and>
      t = ((dayFromCivil y (m - 1) d * 24 + h) * 60 + mi) * 60000 + t mod 60000 \<and>
      w = (dayFromCivil y (m - 1) d + 4) mod 7) \<and>
    dayFromCivil 1970 0 1 = 0 \<and>
    (\<forall>y. dayFromCivil (y + 1) 0 1 = dayFromCivil y 0 1 + sum_list (monthLengths y))"
proof -
  let ?y = "yearFromDay (dayOf t)"
  have d: "dayFromCivil ?y (utcMonth t) (utcDate t) = dayOf t"
    "0 \<le> utcMonth t" "utcMonth t < 12" "1 \<le> utcDate t" "utcDate t \<le> monthLengths ?y ! nat (utcMonth t)"
    using civilOf_correct [of "dayOf t" "utcMonth t" "utcDate t"] by (simp_all add: utcMonth_def utcDate_def)
  have r: "timeInBillingZone env (Some t) zone = Inr (utcRecord t)"
    using assms by (simp add: timeInBillingZone_def Let_def)
  have "\<forall>y. dayFromCivil (y + 1) 0 1 = dayFromCivil y 0 1 + sum_list (monthLengths y)"
    by (simp add: dayFromCivil_def year_length [symmetric])
  moreover have "dayFromCivil 1970 0 1 = 0" by code_simp
  moreover have "thour (utcRecord t) = Fin (of_int (utcHours t))" "0 \<le> utcHours t" "utcHours t < 24"
    "tminute (utcRecord t) = Fin (of_int (utcMinutes t))" "0 \<le> utcMinutes t" "utcMinutes t < 60"
    "tweekday (utcRecord t) = Fin (of_int (utcDay t))"
    "tmonth (utcRecord t) = Fin (of_int (utcMonth t + 1))"
    "tday (utcRecord t) = Fin (of_int (utcDate t))"
    by (simp_all add: utcRecord_def ofInt_def utcHours_def utcMinutes_def)
  moreover have "utcDay t = (dayFromCivil ?y (utcMonth t + 1 - 1) (utcDate t) + 4) mod 7"
    using d(1) by (simp add: utcDay_def)
  moreover have "1 \<le> utcMonth t + 1" "utcMonth t + 1 \<le> 12" "utcMonth t + 1 - 1 = utcMonth t" using d(2,3) by simp_all
  ultimately show ?thesis using r d(4,5) utc_fields [of t] by metis
qed

definition noZones :: intl where
  "noZones = \<lparr>resolvedZone = (\<lambda>_. None), formatParts = (\<lambda>_ _. [])\<rparr>"

theorem utc_fallback_witness:
  "(\<exists>r y m d h mi w. timeInBillingZone noZones (Some 1700000000000) ''Mars/Base'' = Inr r \<and>
     tmonth r = Fin (of_int m) \<and> tday r = Fin (of_int d) \<and> thour r = Fin (of_int h) \<and>
     tminute r = Fin (of_int mi) \<and> tweekday r = Fin (of_int w) \<and>
     w = (dayFromCivil y (m - 1) d + 4) mod 7 \<and>
     (1700000000000 :: int) = ((dayFromCivil y (m - 1) d * 24 + h) * 60 + mi) * 60000 + 1700000000000 mod 60000) \<and>
   timeInBillingZone noZones (Some 1700000000000) ''Mars/Base'' =
     Inr \<lparr>thour = Fin 22, tminute = Fin 13, tweekday = Fin 2, tmonth = Fin 11, tday = Fin 14\<rparr>"
proof -
  have z: "\<not> usableZone noZones (zoneName ''Mars/Base'')" "zoneName ''Mars/Base'' \<noteq> ''Local''"
    by code_simp+
  have "timeInBillingZone noZones (Some 1700000000000) ''Mars/Base'' =
     Inr \<lparr>thour = Fin 22, tminute = Fin 13, tweekday = Fin 2, tmonth = Fin 11, tday = Fin 14\<rparr>"
    by code_simp
  with utc_fallback [OF z, of 1700000000000] show ?thesis by blast
qed

end
