(* ===== verification/BxRuntime.thy ===== *)
theory BxRuntime
  imports BxCompile BxRequest BxTime
begin

text \<open>
  Model of the interpreter of \<open>billing-expression/runtime.ts\<close>: the class \<open>BillingRuntime\<close> with
  its fields as a record, \<open>evaluate\<close> and \<open>evaluateNode\<close> with the methods they call, and the
  two entry points \<open>evaluateBillingCondition\<close> and \<open>evaluateBillingExpression\<close>. The host
  supplies the clock and the internationalisation API.
\<close>

section \<open>Context and state\<close>

record requestContext =
  rbody :: jsval
  rheaders :: "(string \<times> jsval) list option"

text \<open>
  \<open>BillingSimulationContext\<close>: an absent property is \<open>None\<close> (or \<open>JUndef\<close> for a value), a record
  the list of its own properties.
\<close>

record simulationContext =
  xImageCount :: jsval
  xTokens :: "(string \<times> jsval) list option"
  xRequest :: "requestContext option"
  xUsage :: "(string \<times> jsval) list option"
  xNow :: "date option"

definition emptyContext :: simulationContext where
  "emptyContext = \<lparr>xImageCount = JUndef, xTokens = None, xRequest = None, xUsage = None, xNow = None\<rparr>"

record host =
  hintl :: intl
  hclock :: date

datatype billingUnit = UToken | URequest

record billingRule =
  bcond :: string
  bmultiplier :: jsnum
  bmatched :: bool

type_synonym timeCache = "(string \<times> timeRecord) list"

record runtime =
  requestRules :: "billingRule list"
  matchedTier :: string
  billingUnit :: billingUnit
  fixedPrice :: "jsnum option"
  timeValues :: timeCache
  headers :: "string \<Rightarrow> string option"
  rdepth :: nat

text \<open>What the methods read besides the state: the host, the expression and the context.\<close>

record scope =
  shost :: host
  scompiled :: compiledBillingExpression
  scontext :: simulationContext

text \<open>\<open>{ value, integer }\<close>.\<close>

type_synonym runtimeValue = "jsval \<times> bool"
type_synonym 'a run = "(runtime, exn, 'a) comp"

definition nowOf :: "scope \<Rightarrow> date" where
  "nowOf E = (case xNow (scontext E) of Some d \<Rightarrow> d | None \<Rightarrow> hclock (shost E))"

text \<open>One round of the constructor's header loop.\<close>

fun storeHeader :: "string \<times> jsval \<Rightarrow> (string \<Rightarrow> string option) \<Rightarrow> (string \<Rightarrow> string option) bx" where
  "storeHeader (name, JStr raw) hs =
     (let key = toLowerCase (trim name); v = trim raw
      in if key \<noteq> [] \<and> v \<noteq> [] then Inr (hs(key \<mapsto> v)) else Inr hs)"
| "storeHeader (name, _) hs = Inl (diag CType ''request header'')"

definition contextHeaders :: "simulationContext \<Rightarrow> (string \<times> jsval) list" where
  "contextHeaders ctx =
     (case xRequest ctx of
        None \<Rightarrow> []
      | Some r \<Rightarrow> (case rheaders r of None \<Rightarrow> [] | Some hs \<Rightarrow> hs))"

definition newRuntime :: "compiledBillingExpression \<Rightarrow> simulationContext \<Rightarrow> runtime bx" where
  "newRuntime compiled ctx =
     rbind (foldBx storeHeader (contextHeaders ctx) Map.empty) (\<lambda>hs.
     Inr \<lparr>requestRules = map (\<lambda>r. \<lparr>bcond = rcond r, bmultiplier = rmultiplier r, bmatched = False\<rparr>)
            (crules compiled),
          matchedTier = [], billingUnit = UToken, fixedPrice = None, timeValues = [],
          headers = hs, rdepth = 0\<rparr>)"

section \<open>Reading values\<close>

text \<open>
  \<open>boolean(node)\<close>, \<open>numeric(node)\<close> and \<open>string(node)\<close>, given what evaluating the node does and
  where it starts.
\<close>

definition booleanOf :: "nat \<Rightarrow> runtimeValue run \<Rightarrow> bool run" where
  "booleanOf pos m = cbind m (\<lambda>(v, _).
     case v of JBool b \<Rightarrow> return b | _ \<Rightarrow> throw (diagAt CType ''boolean condition'' pos))"

definition numericOf :: "nat \<Rightarrow> runtimeValue run \<Rightarrow> (jsnum \<times> bool) run" where
  "numericOf pos m = cbind m (\<lambda>(v, i).
     case v of JNum x \<Rightarrow> return (x, i) | _ \<Rightarrow> throw (diagAt CType ''numeric operand'' pos))"

definition stringOf :: "nat \<Rightarrow> runtimeValue run \<Rightarrow> string run" where
  "stringOf pos m = cbind m (\<lambda>(v, _).
     case v of JStr s \<Rightarrow> return s | _ \<Rightarrow> throw (diagAt CType ''string argument'' pos))"

definition isObject :: "jsval \<Rightarrow> bool" where
  "isObject v \<longleftrightarrow> (case v of JArr _ \<Rightarrow> True | JObj _ \<Rightarrow> True | _ \<Rightarrow> False)"

text \<open>\<open>a === b\<close> where at most one side is an object.\<close>

fun strictEq :: "jsval \<Rightarrow> jsval \<Rightarrow> bool" where
  "strictEq (JNum x) (JNum y) = js_eq x y"
| "strictEq (JStr s) (JStr t) = (s = t)"
| "strictEq (JBool a) (JBool b) = (a = b)"
| "strictEq JNull JNull = True"
| "strictEq JUndef JUndef = True"
| "strictEq _ _ = False"

section \<open>Binary operators\<close>

definition equalityOp :: "nat \<Rightarrow> string \<Rightarrow> jsval \<Rightarrow> jsval \<Rightarrow> runtimeValue bx" where
  "equalityOp pos op a b =
     (if a \<noteq> JNull \<and> b \<noteq> JNull \<and> (isObject a \<or> isObject b)
      then Inl (diagAt CUnsupported ''object comparison'' pos)
      else Inr (JBool (if op = ''=='' then strictEq a b else \<not> strictEq a b), False))"

text \<open>The relational operators on two numbers or two strings.\<close>

definition relational :: "string \<Rightarrow> jsval \<Rightarrow> jsval \<Rightarrow> bool option" where
  "relational op a b =
     (case (a, b) of
        (JNum x, JNum y) \<Rightarrow>
          if op = ''<'' then Some (js_lt x y) else if op = ''<='' then Some (js_le x y)
          else if op = ''>'' then Some (js_lt y x) else if op = ''>='' then Some (js_le y x)
          else None
      | (JStr s, JStr t) \<Rightarrow>
          if op = ''<'' then Some (s < t) else if op = ''<='' then Some (s \<le> t)
          else if op = ''>'' then Some (t < s) else if op = ''>='' then Some (t \<le> s)
          else None
      | _ \<Rightarrow> None)"

definition arithmeticOp :: "nat \<Rightarrow> string \<Rightarrow> jsnum \<Rightarrow> jsnum \<Rightarrow> bool \<Rightarrow> runtimeValue bx" where
  "arithmeticOp pos op a b integer =
     (if op = ''+'' then Inr (JNum (js_add a b), integer)
      else if op = ''-'' then Inr (JNum (js_sub a b), integer)
      else if op = ''*'' then Inr (JNum (js_mul a b), integer)
      else if op = ''/'' then Inr (JNum (js_div a b), False)
      else if op = ''%'' then
        (if \<not> integer then Inl (diagAt CType ''integer modulo'' pos)
         else Inr (JNum (js_rem a b), True))
      else Inl (diagAt CUnsupported op pos))"

definition operateOp :: "nat \<Rightarrow> string \<Rightarrow> runtimeValue \<Rightarrow> runtimeValue \<Rightarrow> runtimeValue bx" where
  "operateOp pos op left right =
     (if op = ''=='' \<or> op = ''!='' then equalityOp pos op (fst left) (fst right)
      else case (fst left, fst right) of
        (JStr s, JStr t) \<Rightarrow>
          if op = ''+'' then Inr (JStr (s @ t), False)
          else (case relational op (JStr s) (JStr t) of
                  Some b \<Rightarrow> Inr (JBool b, False)
                | None \<Rightarrow> Inl (diagAt CType op pos))
      | (JNum x, JNum y) \<Rightarrow>
          (case relational op (JNum x) (JNum y) of
             Some b \<Rightarrow> Inr (JBool b, False)
           | None \<Rightarrow> arithmeticOp pos op x y (snd left \<and> snd right))
      | _ \<Rightarrow> Inl (diagAt CType op pos))"

definition binaryOp ::
    "nat \<Rightarrow> string \<Rightarrow> nat \<Rightarrow> runtimeValue run \<Rightarrow> nat \<Rightarrow> runtimeValue run \<Rightarrow> runtimeValue run" where
  "binaryOp pos op lat left rat right =
     (if op = ''&&'' then
        cbind (booleanOf lat left) (\<lambda>a.
        if a then cbind (booleanOf rat right) (\<lambda>b. return (JBool b, False))
        else return (JBool False, False))
      else if op = ''||'' then
        cbind (booleanOf lat left) (\<lambda>a.
        if a then return (JBool True, False)
        else cbind (booleanOf rat right) (\<lambda>b. return (JBool b, False)))
      else cbind left (\<lambda>a. cbind right (\<lambda>b. lift (operateOp pos op a b))))"

section \<open>Variables\<close>

definition orOne :: "jsval \<Rightarrow> jsval" where
  "orOne v = (if isNullish v then JNum (Fin 1) else v)"

definition imageCountOk :: "jsval \<Rightarrow> bool" where
  "imageCountOk v \<longleftrightarrow>
     (case v of
        JNum x \<Rightarrow> isInteger x \<and> \<not> js_lt x (Fin 1) \<and> \<not> js_lt (Fin 128) x
      | _ \<Rightarrow> False)"

definition tokenOf :: "simulationContext \<Rightarrow> string \<Rightarrow> jsval" where
  "tokenOf ctx x =
     (case xTokens ctx of
        None \<Rightarrow> JUndef
      | Some ts \<Rightarrow> (case map_of ts x of Some v \<Rightarrow> v | None \<Rightarrow> JUndef))"

definition variableValue :: "simulationContext \<Rightarrow> nat \<Rightarrow> string \<Rightarrow> runtimeValue bx" where
  "variableValue ctx pos x =
     (if x = ''image_count'' then
        let v = orOne (xImageCount ctx)
        in if imageCountOk v then Inr (v, False)
           else Inl (diagAt CNumber ''image_count must be between 1 and 128'' pos)
      else case tokenOf ctx x of
             JUndef \<Rightarrow> Inl (diagAt CMissingContext x pos)
           | JNum y \<Rightarrow>
               if js_lt y (Fin 0) then Inl (diagAt CNumber x pos) else Inr (JNum y, False)
           | _ \<Rightarrow> Inl (diagAt CNumber x pos))"

section \<open>The zone times\<close>

text \<open>The \<open>timeValues\<close> map in front of \<open>timeInBillingZone\<close>.\<close>

definition zoneTimes :: "scope \<Rightarrow> string \<Rightarrow> (timeCache, exn, timeRecord) comp" where
  "zoneTimes E zone cache =
     (case map_of cache zone of
        Some r \<Rightarrow> Inr (r, cache)
      | None \<Rightarrow>
          rbind (timeInBillingZone (hintl (shost E)) (nowOf E) zone)
            (\<lambda>r. Inr (r, cache @ [(zone, r)])))"

definition onTimes :: "(timeCache, exn, 'a) comp \<Rightarrow> 'a run" where
  "onTimes m s = rbind (m (timeValues s)) (\<lambda>(a, c). Inr (a, s\<lparr>timeValues := c\<rparr>))"

section \<open>Calls\<close>

text \<open>
  \<open>args[i]\<close> with what evaluating it does; evaluating a missing argument counts a level and
  then reads a field of \<open>undefined\<close>.
\<close>

definition enter :: "unit run" where
  "enter = cbind (modify (\<lambda>s. s\<lparr>rdepth := rdepth s + 1\<rparr>)) (\<lambda>_.
     cbind (gets rdepth) (\<lambda>d.
     if 256 < d then throw (diag CLimit ''evaluation depth'') else return ()))"

definition leave :: "unit run" where
  "leave = modify (\<lambda>s. s\<lparr>rdepth := rdepth s - 1\<rparr>)"

definition missingArg :: "nat \<times> runtimeValue run" where
  "missingArg = (0, cbind enter (\<lambda>_. throw (JsError ''TypeError'')))"

definition argAt :: "(nat \<times> runtimeValue run) list \<Rightarrow> nat \<Rightarrow> nat \<times> runtimeValue run" where
  "argAt args i = (if i < length args then args ! i else missingArg)"

definition numArg :: "(nat \<times> runtimeValue run) list \<Rightarrow> nat \<Rightarrow> jsnum run" where
  "numArg args i = cbind (numericOf (fst (argAt args i)) (snd (argAt args i))) (\<lambda>(x, _). return x)"

definition strArg :: "(nat \<times> runtimeValue run) list \<Rightarrow> nat \<Rightarrow> string run" where
  "strArg args i = stringOf (fst (argAt args i)) (snd (argAt args i))"

definition call_fixed :: "(nat \<times> runtimeValue run) list \<Rightarrow> runtimeValue run" where
  "call_fixed args =
     cbind (numArg args 0) (\<lambda>amount.
     cbind (modify (\<lambda>s. s\<lparr>billingUnit := URequest, fixedPrice := Some amount\<rparr>)) (\<lambda>_.
     return (JNum (js_mul amount million), False)))"

definition call_tier :: "(nat \<times> runtimeValue run) list \<Rightarrow> runtimeValue run" where
  "call_tier args =
     cbind (strArg args 0) (\<lambda>name.
     cbind (numArg args 1) (\<lambda>x.
     cbind (modify (\<lambda>s. s\<lparr>matchedTier := name\<rparr>)) (\<lambda>_. return (JNum x, False))))"

definition call_param :: "scope \<Rightarrow> nat \<Rightarrow> (nat \<times> runtimeValue run) list \<Rightarrow> runtimeValue run" where
  "call_param E pos args =
     cbind (strArg args 0) (\<lambda>path.
     case xRequest (scontext E) of
       None \<Rightarrow> throw (diagAt CMissingContext ''request body'' pos)
     | Some r \<Rightarrow> lift (rbind (readRequestPath (rbody r) path) (\<lambda>v. Inr (v, False))))"

definition call_header :: "scope \<Rightarrow> nat \<Rightarrow> (nat \<times> runtimeValue run) list \<Rightarrow> runtimeValue run" where
  "call_header E pos args =
     cbind (strArg args 0) (\<lambda>raw.
     case xRequest (scontext E) of
       None \<Rightarrow> throw (diagAt CMissingContext ''request headers'' pos)
     | Some _ \<Rightarrow> cbind (gets headers) (\<lambda>hs.
         return (JStr (case hs (toLowerCase (trim raw)) of Some v \<Rightarrow> v | None \<Rightarrow> []), False)))"

definition call_u :: "scope \<Rightarrow> nat \<Rightarrow> (nat \<times> runtimeValue run) list \<Rightarrow> runtimeValue run" where
  "call_u E pos args =
     cbind (strArg args 0) (\<lambda>name.
     case xUsage (scontext E) of
       None \<Rightarrow> throw (diagAt CMissingContext ''task usage'' pos)
     | Some us \<Rightarrow> return (case map_of us name of Some v \<Rightarrow> v | None \<Rightarrow> JNull, False))"

definition call_has :: "(nat \<times> runtimeValue run) list \<Rightarrow> runtimeValue run" where
  "call_has args =
     cbind (snd (argAt args 0)) (\<lambda>(source, _).
     cbind (strArg args 1) (\<lambda>substring.
     if isNullish source \<or> substring = [] then return (JBool False, False)
     else lift (rbind (billingString 0 source) (\<lambda>text. Inr (JBool (strIncludes text substring), False)))))"

definition call_math2 :: "(jsnum \<Rightarrow> jsnum \<Rightarrow> jsnum) \<Rightarrow> (nat \<times> runtimeValue run) list \<Rightarrow> runtimeValue run" where
  "call_math2 f args =
     cbind (numArg args 0) (\<lambda>a. cbind (numArg args 1) (\<lambda>b. return (JNum (f a b), False)))"

definition call_math1 :: "(jsnum \<Rightarrow> jsnum) \<Rightarrow> (nat \<times> runtimeValue run) list \<Rightarrow> runtimeValue run" where
  "call_math1 f args = cbind (numArg args 0) (\<lambda>a. return (JNum (f a), False))"

definition call_time :: "scope \<Rightarrow> string \<Rightarrow> (nat \<times> runtimeValue run) list \<Rightarrow> runtimeValue run" where
  "call_time E f args =
     cbind (strArg args 0) (\<lambda>raw.
     cbind (onTimes (zoneTimes E (trim raw))) (\<lambda>r.
     return (case timeField r f of Some x \<Rightarrow> JNum x | None \<Rightarrow> JUndef, True)))"

definition callOp :: "scope \<Rightarrow> nat \<Rightarrow> string \<Rightarrow> (nat \<times> runtimeValue run) list \<Rightarrow> runtimeValue run" where
  "callOp E pos f args =
     (if f = ''fixed'' then call_fixed args
      else if f = ''tier'' then call_tier args
      else if f = ''param'' then call_param E pos args
      else if f = ''header'' then call_header E pos args
      else if f = ''u'' then call_u E pos args
      else if f = ''has'' then call_has args
      else if f = ''min'' then call_math2 js_min args
      else if f = ''max'' then call_math2 js_max args
      else if f = ''abs'' then call_math1 js_abs args
      else if f = ''floor'' then call_math1 js_floor args
      else if f = ''ceil'' then call_math1 js_ceil args
      else if f \<notin> set TIME_FUNCTIONS then throw (diag CUnsupported f)
      else call_time E f args)"

section \<open>Evaluation\<close>

fun literalValue :: "lit \<Rightarrow> runtimeValue" where
  "literalValue (LNum x i) = (JNum x, i)"
| "literalValue (LStr s) = (JStr s, False)"
| "literalValue (LBool b) = (JBool b, False)"
| "literalValue LNull = (JNull, False)"

definition unaryOp :: "string \<Rightarrow> nat \<Rightarrow> runtimeValue run \<Rightarrow> runtimeValue run" where
  "unaryOp op pos operand =
     (if op = ''!'' then cbind (booleanOf pos operand) (\<lambda>b. return (JBool (\<not> b), False))
      else cbind (numericOf pos operand) (\<lambda>(x, i).
           return (JNum (if op = ''-'' then js_neg x else x), i)))"

definition markRule :: "compiledBillingExpression \<Rightarrow> node \<Rightarrow> bool \<Rightarrow> runtime \<Rightarrow> runtime" where
  "markRule c n condition s =
     (case findIndex (\<lambda>r. rnode r = n) (crules c) of
        Some i \<Rightarrow>
          if condition
          then s\<lparr>requestRules := (requestRules s)[i := (requestRules s ! i)\<lparr>bmatched := True\<rparr>]\<rparr>
          else s
      | None \<Rightarrow> s)"

definition conditionalOp ::
    "scope \<Rightarrow> node \<Rightarrow> nat \<Rightarrow> runtimeValue run \<Rightarrow> runtimeValue run \<Rightarrow> runtimeValue run \<Rightarrow> runtimeValue run" where
  "conditionalOp E n pos condition yes no =
     cbind (booleanOf pos condition) (\<lambda>b.
     cbind (modify (markRule (scompiled E) n b)) (\<lambda>_. if b then yes else no))"

text \<open>The checks of \<open>evaluate\<close> on a result.\<close>

definition checkResult :: "nat \<Rightarrow> runtimeValue \<Rightarrow> runtimeValue bx" where
  "checkResult pos r =
     (case r of
        (JNum x, i) \<Rightarrow>
          if \<not> isFinite x then Inl (diagAt CNumber ''non-finite result'' pos)
          else if i \<and> \<not> isSafeInteger x then Inl (diagAt CUnsupported ''integer precision'' pos)
          else Inr r
      | _ \<Rightarrow> Inr r)"

function (sequential) evaluate :: "scope \<Rightarrow> node \<Rightarrow> runtimeValue run"
and evaluateNode :: "scope \<Rightarrow> node \<Rightarrow> runtimeValue run" where
  "evaluate E n =
     cbind enter (\<lambda>_.
     cbind (evaluateNode E n) (\<lambda>r.
     cbind (lift (checkResult (nstart n) r)) (\<lambda>r.
     cbind leave (\<lambda>_. return r))))"
| "evaluateNode E (Literal sp v) = return (literalValue v)"
| "evaluateNode E (Variable sp x) = lift (variableValue (scontext E) (fst sp) x)"
| "evaluateNode E (Conditional sp c y n) =
     conditionalOp E (Conditional sp c y n) (nstart c) (evaluate E c) (evaluate E y) (evaluate E n)"
| "evaluateNode E (Unary sp op a) = unaryOp op (nstart a) (evaluate E a)"
| "evaluateNode E (Binary sp op a b) =
     binaryOp (fst sp) op (nstart a) (evaluate E a) (nstart b) (evaluate E b)"
| "evaluateNode E (Call sp f args) = callOp E (fst sp) f (map (\<lambda>a. (nstart a, evaluate E a)) args)"
  by pat_completeness auto
termination
  by (relation "measure (\<lambda>x. case x of Inl (_, n) \<Rightarrow> 2 * size n + 1 | Inr (_, n) \<Rightarrow> 2 * size n)")
     (auto simp: termination_simp le_imp_less_Suc)

declare evaluate.simps [simp del]

section \<open>Entry points\<close>

definition evaluateBillingCondition :: "host \<Rightarrow> compiledBillingExpression \<Rightarrow> node \<Rightarrow> date \<Rightarrow> bool option" where
  "evaluateBillingCondition h compiled n now =
     (let ctx = emptyContext\<lparr>xNow := Some now\<rparr>;
          E = \<lparr>shost = h, scompiled = compiled, scontext = ctx\<rparr>
      in case rbind (newRuntime compiled ctx) (evaluate E n) of
           Inr ((JBool b, _), _) \<Rightarrow> Some b
         | _ \<Rightarrow> None)"

record evaluation =
  cost :: jsnum
  eunit :: billingUnit
  eImageCount :: "jsval option"
  eFixedPrice :: "jsnum option"
  eTier :: string
  eRules :: "billingRule list"

datatype evaluationResult = Success evaluation | EvaluationFailure expressionFailure_t

definition checkToken :: "string \<times> jsval \<Rightarrow> unit \<Rightarrow> unit bx" where
  "checkToken entry u =
     (case snd entry of
        JNum x \<Rightarrow>
          if \<not> isFinite x \<or> js_lt x (Fin 0) then Inl (diag CNumber (fst entry)) else Inr ()
      | _ \<Rightarrow> Inl (diag CNumber (fst entry)))"

definition resultCost :: "jsval \<Rightarrow> jsnum bx" where
  "resultCost v =
     (case v of
        JNum x \<Rightarrow>
          if \<not> isFinite x \<or> js_lt x (Fin 0) then Inl (diag CNumber ''billing result'') else Inr x
      | _ \<Rightarrow> Inl (diag CNumber ''billing result''))"

text \<open>The body of the \<open>try\<close> block.\<close>

definition evaluationBody ::
    "host \<Rightarrow> compiledBillingExpression \<Rightarrow> simulationContext \<Rightarrow> evaluation bx" where
  "evaluationBody h compiled ctx =
     rbind (foldBx checkToken (case xTokens ctx of None \<Rightarrow> [] | Some ts \<Rightarrow> ts) ()) (\<lambda>_.
     rbind (newRuntime compiled ctx) (\<lambda>s.
     rbind (evaluate \<lparr>shost = h, scompiled = compiled, scontext = ctx\<rparr> (cast compiled) s) (\<lambda>((v, _), s').
     rbind (resultCost v) (\<lambda>x.
     Inr \<lparr>cost = x, eunit = billingUnit s',
          eImageCount = (if ''image_count'' \<in> set (cvariables compiled)
                         then Some (orOne (xImageCount ctx)) else None),
          eFixedPrice = fixedPrice s', eTier = matchedTier s', eRules = requestRules s'\<rparr>))))"

definition evaluateCompiled :: "host \<Rightarrow> compilationResult \<Rightarrow> simulationContext \<Rightarrow> evaluationResult" where
  "evaluateCompiled h compiled ctx =
     (case compiled of
        CompileFailure f \<Rightarrow> EvaluationFailure f
      | Ready c \<Rightarrow>
          (case evaluationBody h c ctx of
             Inl e \<Rightarrow> EvaluationFailure (expressionFailure e)
           | Inr r \<Rightarrow> Success r))"

definition evaluateBillingExpression ::
    "host \<Rightarrow> string \<Rightarrow> simulationContext \<Rightarrow> compiledCache \<Rightarrow> evaluationResult \<times> compiledCache" where
  "evaluateBillingExpression h src ctx cache =
     (let (compiled, cache') = compileBillingExpression src cache
      in (evaluateCompiled h compiled ctx, cache'))"

section \<open>A sample run\<close>

text \<open>A host without zone data and a context for the sample source.\<close>

definition sampleHost :: host where
  "sampleHost = \<lparr>hintl = \<lparr>resolvedZone = (\<lambda>_. None), formatParts = (\<lambda>_ _. [])\<rparr>, hclock = Some 1700000000000\<rparr>"

definition sampleContext :: simulationContext where
  "sampleContext = emptyContext\<lparr>xTokens := Some [(''p'', JNum (Fin 1000)), (''c'', JNum (Fin 100))],
    xRequest := Some \<lparr>rbody = JObj [(''fast'', JBool True)], rheaders = None\<rparr>\<rparr>"

definition sampleResult :: evaluation where
  "sampleResult = \<lparr>cost = Fin 7000, eunit = UToken, eImageCount = None, eFixedPrice = None,
     eTier = ''base'',
     eRules = [\<lparr>bcond = ''param(\"fast\") == true'', bmultiplier = Fin 2, bmatched = True\<rparr>]\<rparr>"

lemma sample_evaluates:
  "fst (evaluateBillingExpression sampleHost sampleSource sampleContext []) = Success sampleResult"
  by code_simp

text \<open>A scope and a start state for single nodes.\<close>

definition sampleCompiled :: compiledBillingExpression where
  "sampleCompiled = \<lparr>csource = [], cast = Literal (0, 1) (LNum (Fin 1) True), cvariables = [],
     cfunctions = [], crules = []\<rparr>"

definition sampleScope :: scope where
  "sampleScope = \<lparr>shost = sampleHost, scompiled = sampleCompiled, scontext = sampleContext\<rparr>"

definition sampleState :: runtime where
  "sampleState = \<lparr>requestRules = [], matchedTier = [], billingUnit = UToken, fixedPrice = None,
     timeValues = [], headers = Map.empty, rdepth = 0\<rparr>"

end
