(* ===== verification/BxContract.thy ===== *)
theory BxContract
  imports BxRuntime
begin

text \<open>
  What every evaluation keeps. The interface \<open>eval_contract\<close> names the few primitive changes
  the interpreter makes to its state (a level entered or left, a fixed price, a matched tier,
  a matched rule, a zone time) and derives once, by induction on the tree, that a predicate
  they all keep is kept by \<open>evaluate\<close>, and that only allowed exceptions are thrown. Its
  instances give the facts the properties rest on.
\<close>

section \<open>Exceptions of the helpers\<close>

text \<open>A diagnostic other than the interpreter's own depth limit.\<close>

definition isDiag :: "exn \<Rightarrow> bool" where
  "isDiag e \<longleftrightarrow> (\<exists>d. e = BillingExpressionError d \<and>
     \<not> (dcode d = CLimit \<and> detail d = ''evaluation depth''))"

lemma isDiag_diag [simp]:
  "isDiag (diag c d) \<longleftrightarrow> \<not> (c = CLimit \<and> d = ''evaluation depth'')"
  "isDiag (diagAt c d i) \<longleftrightarrow> \<not> (c = CLimit \<and> d = ''evaluation depth'')"
  by (simp_all add: isDiag_def diag_def diagAt_def)

lemma isDiag_variable: "variableValue ctx pos x = Inl e \<Longrightarrow> isDiag e"
  by (auto simp: variableValue_def Let_def split: if_splits jsval.splits)

lemma isDiag_operate: "operateOp pos op a b = Inl e \<Longrightarrow> isDiag e"
  by (auto simp: operateOp_def equalityOp_def arithmeticOp_def
      split: if_splits jsval.splits option.splits)

lemma isDiag_check: "checkResult pos r = Inl e \<Longrightarrow> isDiag e"
  by (auto simp: checkResult_def split: if_splits jsval.splits prod.splits)

lemma isDiag_path: "readRequestPath body path = Inl e \<Longrightarrow> isDiag e"
  by (auto dest: readRequestPath_error)

lemma mapBx_Inl: "mapBx f xs = Inl e \<Longrightarrow> \<exists>x\<in>set xs. f x = Inl e"
  by (induction xs) (auto simp: rbind_eq_Inl_iff)

lemma isDiag_text: "billingString d v = Inl e \<Longrightarrow> isDiag e"
proof (induction d v rule: billingString.induct)
  case (1 d v)
  show ?case
  proof (cases "128 < d")
    case True
    with 1(3) show ?thesis by (auto simp: billingString.simps)
  next
    case False
    show ?thesis
    proof (cases v)
      case (JArr xs)
      with False 1(3) have "mapBx (billingString (Suc d)) xs = Inl e"
        by (auto simp: billingString.simps [of d] rbind_eq_Inl_iff)
      then show ?thesis using mapBx_Inl 1(1) [OF False JArr] by blast
    next
      case (JObj kvs)
      with False 1(3) obtain p where "p \<in> set (sort_key fst kvs)" "billingString (Suc d) (snd p) = Inl e"
        by (fastforce simp: billingString.simps [of d] rbind_eq_Inl_iff dest!: mapBx_Inl)
      then show ?thesis using 1(2) [OF False JObj, of p "fst p" "snd p"] by simp
    qed (use False 1(3) in \<open>auto simp: billingString.simps billingNumber_def Let_def
          split: if_splits prod.splits\<close>)
  qed
qed

lemma isDiag_time: "timeInBillingZone env now zone = Inl e \<Longrightarrow> isDiag e"
  by (auto simp: timeInBillingZone_errors)

lemmas isDiag_helpers = isDiag_variable isDiag_operate isDiag_check isDiag_path isDiag_text isDiag_time

section \<open>The contract\<close>

text \<open>Every call has as many arguments as the function table says.\<close>

definition arityOk :: "node \<Rightarrow> bool" where
  "arityOk n \<longleftrightarrow> (\<forall>m\<in>set (postorder n). case m of
     Call _ f args \<Rightarrow> BILLING_FUNCTIONS f = Some (length args) | _ \<Rightarrow> True)"

lemma arityOk_children:
  "arityOk n \<longleftrightarrow> (case n of Call _ f args \<Rightarrow> BILLING_FUNCTIONS f = Some (length args) | _ \<Rightarrow> True) \<and>
     (\<forall>c\<in>set (children n). arityOk c)"
  unfolding arityOk_def by (subst postorder_children) auto

lemma astOk_arityOk: "astOk n \<Longrightarrow> arityOk n"
  unfolding astOk_def arityOk_def by (fastforce split: node.splits)

text \<open>Evaluation of a node, taken apart.\<close>

lemma evaluate_Inr_iff:
  "evaluate E n s = Inr (r, s') \<longleftrightarrow> rdepth s < 256 \<and>
     (\<exists>s1. evaluateNode E n (s\<lparr>rdepth := rdepth s + 1\<rparr>) = Inr (r, s1) \<and>
       checkResult (nstart n) r = Inr r \<and> s' = s1\<lparr>rdepth := rdepth s1 - 1\<rparr>)"
proof -
  have check: "checkResult pos r = Inr r' \<Longrightarrow> r' = r" for pos r r'
    by (auto simp: checkResult_def split: if_splits jsval.splits prod.splits)
  show ?thesis
    unfolding evaluate.simps [of E n] enter_def leave_def
    by (cases r) (auto simp: cbind_eq_Inr_iff not_less_eq dest: check)
qed

lemma evaluate_Inl_iff:
  "evaluate E n s = Inl e \<longleftrightarrow>
     256 \<le> rdepth s \<and> e = diag CLimit ''evaluation depth'' \<or>
     rdepth s < 256 \<and>
      (evaluateNode E n (s\<lparr>rdepth := rdepth s + 1\<rparr>) = Inl e \<or>
       (\<exists>r s1. evaluateNode E n (s\<lparr>rdepth := rdepth s + 1\<rparr>) = Inr (r, s1) \<and>
         checkResult (nstart n) r = Inl e))"
  unfolding evaluate.simps [of E n] enter_def leave_def
  by (auto simp: cbind_eq_Inl_iff cbind_eq_Inr_iff not_less_eq)

lemma evaluate_finite: "evaluate E n s = Inr ((JNum x, i), s') \<Longrightarrow> isFinite x"
  by (auto simp: evaluate_Inr_iff checkResult_def split: if_splits)

lemma evaluate_literal:
  "evaluate E (Literal sp v) s = Inr (r, s') \<Longrightarrow> r = literalValue v \<and> s' = s"
  by (auto simp: evaluate_Inr_iff)

text \<open>The readers return when their node evaluates to a value of the kind they want.\<close>

lemma booleanOf_Inr:
  "booleanOf pos m s = Inr (b, s') \<longleftrightarrow> (\<exists>i. m s = Inr ((JBool b, i), s'))"
proof
  assume "booleanOf pos m s = Inr (b, s')"
  then obtain v i t where "m s = Inr ((v, i), t)"
    "(case v of JBool b \<Rightarrow> return b | _ \<Rightarrow> throw (diagAt CType ''boolean condition'' pos)) t = Inr (b, s')"
    by (auto simp: booleanOf_def cbind_eq_Inr_iff)
  then show "\<exists>i. m s = Inr ((JBool b, i), s')" by (cases v) auto
qed (auto simp: booleanOf_def cbind_eq_Inr_iff)

lemma numericOf_Inr:
  "numericOf pos m s = Inr ((x, i), s') \<longleftrightarrow> m s = Inr ((JNum x, i), s')"
proof
  assume "numericOf pos m s = Inr ((x, i), s')"
  then obtain v j t where "m s = Inr ((v, j), t)"
    "(case v of JNum x \<Rightarrow> return (x, j) | _ \<Rightarrow> throw (diagAt CType ''numeric operand'' pos)) t = Inr ((x, i), s')"
    by (auto simp: numericOf_def cbind_eq_Inr_iff)
  then show "m s = Inr ((JNum x, i), s')" by (cases v) auto
qed (auto simp: numericOf_def cbind_eq_Inr_iff)

lemma stringOf_Inr:
  "stringOf pos m s = Inr (x, s') \<longleftrightarrow> (\<exists>i. m s = Inr ((JStr x, i), s'))"
proof
  assume "stringOf pos m s = Inr (x, s')"
  then obtain v j t where "m s = Inr ((v, j), t)"
    "(case v of JStr x \<Rightarrow> return x | _ \<Rightarrow> throw (diagAt CType ''string argument'' pos)) t = Inr (x, s')"
    by (auto simp: stringOf_def cbind_eq_Inr_iff)
  then show "\<exists>i. m s = Inr ((JStr x, i), s')" by (cases v) auto
qed (auto simp: stringOf_def cbind_eq_Inr_iff)

lemma numArg_Inr:
  "numArg args k s = Inr (x, s') \<longleftrightarrow> (\<exists>i. snd (argAt args k) s = Inr ((JNum x, i), s'))"
  by (auto simp: numArg_def cbind_eq_Inr_iff numericOf_Inr)

lemma strArg_Inr:
  "strArg args k s = Inr (x, s') \<longleftrightarrow> (\<exists>i. snd (argAt args k) s = Inr ((JStr x, i), s'))"
  by (auto simp: strArg_def stringOf_Inr)

lemmas reader_iffs = booleanOf_Inr numericOf_Inr stringOf_Inr numArg_Inr strArg_Inr cbind_eq_Inr_iff

text \<open>
  \<open>I d\<close> is the predicate at nesting level \<open>d\<close>, \<open>Err\<close> the exceptions allowed, \<open>F\<close> the functions
  the tree may call and \<open>lim\<close> a bound on the level: the depth exception has to be allowed
  only if a level below \<open>lim\<close> can exceed the interpreter's bound.
\<close>

locale eval_contract =
  fixes E :: scope
    and I :: "nat \<Rightarrow> runtime \<Rightarrow> bool"
    and Err :: "exn \<Rightarrow> bool"
    and F :: "string set"
    and lim :: nat
  assumes enter_keeps: "\<lbrakk>I d s; rdepth s < 256\<rbrakk> \<Longrightarrow> I (Suc d) (s\<lparr>rdepth := rdepth s + 1\<rparr>)"
    and leave_keeps: "I (Suc d) s \<Longrightarrow> I d (s\<lparr>rdepth := rdepth s - 1\<rparr>)"
    and limit_allowed: "\<lbrakk>I d s; d < lim; 256 \<le> rdepth s\<rbrakk> \<Longrightarrow> Err (diag CLimit ''evaluation depth'')"
    and diag_allowed: "isDiag e \<Longrightarrow> Err e"
    and fixed_keeps: "\<lbrakk>''fixed'' \<in> F; I d s\<rbrakk> \<Longrightarrow> I d (s\<lparr>billingUnit := URequest, fixedPrice := Some a\<rparr>)"
    and tier_keeps: "\<lbrakk>''tier'' \<in> F; I d s\<rbrakk> \<Longrightarrow> I d (s\<lparr>matchedTier := name\<rparr>)"
    and mark_keeps: "I d s \<Longrightarrow> I d (markRule (scompiled E) n b s)"
    and times_keeps: "\<lbrakk>I d s; zoneTimes E z (timeValues s) = Inr (r, c)\<rbrakk> \<Longrightarrow> I d (s\<lparr>timeValues := c\<rparr>)"
begin

definition keeps :: "nat \<Rightarrow> 'a run \<Rightarrow> bool" where
  "keeps d m \<longleftrightarrow> triple (I d) m (\<lambda>_. I d) Err"

lemma keeps_return [intro]: "keeps d (return a)"
  by (simp add: keeps_def triple_return)

lemma keeps_throw: "isDiag e \<Longrightarrow> keeps d (throw e)"
  by (simp add: keeps_def triple_throw diag_allowed)

lemma keeps_lift: "(\<And>e. r = Inl e \<Longrightarrow> isDiag e) \<Longrightarrow> keeps d (lift r)"
  by (auto simp: keeps_def intro!: triple_lift diag_allowed)

lemma keeps_cbind [intro]: "\<lbrakk>keeps d m; \<And>a. keeps d (f a)\<rbrakk> \<Longrightarrow> keeps d (cbind m f)"
  unfolding keeps_def by (rule triple_seq)

lemma keeps_if: "\<lbrakk>P \<Longrightarrow> keeps d a; \<not> P \<Longrightarrow> keeps d b\<rbrakk> \<Longrightarrow> keeps d (if P then a else b)"
  by simp

lemma keeps_gets: "keeps d (gets f)"
  by (simp add: keeps_def triple_gets)

lemma keeps_modify: "(\<And>s. I d s \<Longrightarrow> I d (g s)) \<Longrightarrow> keeps d (modify g)"
  by (simp add: keeps_def triple_modify)

lemma keeps_onTimes: "keeps d (onTimes (zoneTimes E z))"
  unfolding keeps_def
proof (rule tripleI)
  fix s e
  assume "onTimes (zoneTimes E z) s = Inl e"
  then show "Err e"
    by (auto simp: onTimes_def zoneTimes_def rbind_eq_Inl_iff split: option.splits
        intro!: diag_allowed dest: isDiag_time)
next
  fix s r s'
  assume "I d s" "onTimes (zoneTimes E z) s = Inr (r, s')"
  then show "I d s'" by (auto simp: onTimes_def rbind_eq_Inr_iff intro: times_keeps)
qed

text \<open>The readers.\<close>

lemma keeps_boolean: "keeps d m \<Longrightarrow> keeps d (booleanOf pos m)"
  by (auto simp: booleanOf_def split: jsval.splits intro!: keeps_cbind keeps_throw)

lemma keeps_numeric: "keeps d m \<Longrightarrow> keeps d (numericOf pos m)"
  by (auto simp: numericOf_def split: jsval.splits intro!: keeps_cbind keeps_throw)

lemma keeps_string: "keeps d m \<Longrightarrow> keeps d (stringOf pos m)"
  by (auto simp: stringOf_def split: jsval.splits intro!: keeps_cbind keeps_throw)

definition keepsArgs :: "nat \<Rightarrow> (nat \<times> runtimeValue run) list \<Rightarrow> bool" where
  "keepsArgs d args \<longleftrightarrow> (\<forall>a\<in>set args. keeps d (snd a))"

lemma keeps_argAt: "\<lbrakk>keepsArgs d args; i < length args\<rbrakk> \<Longrightarrow> keeps d (snd (argAt args i))"
  by (simp add: keepsArgs_def argAt_def)

lemma keeps_numArg: "\<lbrakk>keepsArgs d args; i < length args\<rbrakk> \<Longrightarrow> keeps d (numArg args i)"
  by (auto simp: numArg_def intro!: keeps_cbind keeps_numeric keeps_argAt)

lemma keeps_strArg: "\<lbrakk>keepsArgs d args; i < length args\<rbrakk> \<Longrightarrow> keeps d (strArg args i)"
  by (auto simp: strArg_def intro!: keeps_string keeps_argAt)

lemmas keeps_rules = keeps_if keeps_cbind keeps_return keeps_throw keeps_lift keeps_gets keeps_modify
  keeps_onTimes keeps_boolean keeps_numeric keeps_string keeps_argAt keeps_numArg keeps_strArg

text \<open>The operators and calls.\<close>

lemma keeps_unary: "keeps d m \<Longrightarrow> keeps d (unaryOp op pos m)"
  by (auto simp: unaryOp_def intro!: keeps_rules)

lemma keeps_binary: "\<lbrakk>keeps d l; keeps d r\<rbrakk> \<Longrightarrow> keeps d (binaryOp pos op lp l rp r)"
  by (auto simp: binaryOp_def intro!: keeps_rules intro: isDiag_operate)

lemma keeps_conditional:
  "\<lbrakk>keeps d c; keeps d y; keeps d n\<rbrakk> \<Longrightarrow> keeps d (conditionalOp E nd pos c y n)"
  by (auto simp: conditionalOp_def intro!: keeps_rules mark_keeps)

lemma keeps_fixed: "\<lbrakk>''fixed'' \<in> F; keepsArgs d args; length args = 1\<rbrakk> \<Longrightarrow> keeps d (call_fixed args)"
  by (auto simp: call_fixed_def intro!: keeps_rules fixed_keeps)

lemma keeps_tier: "\<lbrakk>''tier'' \<in> F; keepsArgs d args; length args = 2\<rbrakk> \<Longrightarrow> keeps d (call_tier args)"
  by (auto simp: call_tier_def intro!: keeps_rules tier_keeps)

lemma keeps_param: "\<lbrakk>keepsArgs d args; length args = 1\<rbrakk> \<Longrightarrow> keeps d (call_param E pos args)"
  by (auto simp: call_param_def rbind_eq_Inl_iff split: option.splits intro!: keeps_rules)
     (erule isDiag_path)

lemma keeps_header: "\<lbrakk>keepsArgs d args; length args = 1\<rbrakk> \<Longrightarrow> keeps d (call_header E pos args)"
  by (auto simp: call_header_def split: option.splits intro!: keeps_rules)

lemma keeps_u: "\<lbrakk>keepsArgs d args; length args = 1\<rbrakk> \<Longrightarrow> keeps d (call_u E pos args)"
  by (auto simp: call_u_def split: option.splits intro!: keeps_rules)

lemma keeps_has: "\<lbrakk>keepsArgs d args; length args = 2\<rbrakk> \<Longrightarrow> keeps d (call_has args)"
  by (auto simp: call_has_def rbind_eq_Inl_iff intro!: keeps_rules intro: isDiag_text)

lemma keeps_math1: "\<lbrakk>keepsArgs d args; length args = 1\<rbrakk> \<Longrightarrow> keeps d (call_math1 f args)"
  by (auto simp: call_math1_def intro!: keeps_rules)

lemma keeps_math2: "\<lbrakk>keepsArgs d args; length args = 2\<rbrakk> \<Longrightarrow> keeps d (call_math2 f args)"
  by (auto simp: call_math2_def intro!: keeps_rules)

lemma keeps_time: "\<lbrakk>keepsArgs d args; length args = 1\<rbrakk> \<Longrightarrow> keeps d (call_time E f args)"
  by (auto simp: call_time_def intro!: keeps_rules)

lemma keeps_call:
  assumes "f \<in> F" "BILLING_FUNCTIONS f = Some (length args)" "keepsArgs d args"
  shows "keeps d (callOp E pos f args)"
  using assms
  by (auto simp: callOp_def BILLING_FUNCTIONS_def TIME_FUNCTIONS_def split: if_splits
      intro!: keeps_fixed keeps_tier keeps_param keeps_header keeps_u keeps_has keeps_math1
        keeps_math2 keeps_time keeps_throw)

lemma keeps_evaluate_level:
  assumes d: "d < lim" and node: "keeps (Suc d) (evaluateNode E n)"
  shows "keeps d (evaluate E n)"
  unfolding keeps_def
proof (rule tripleI)
  fix s e
  assume s: "I d s" and "evaluate E n s = Inl e"
  then consider "256 \<le> rdepth s" "e = diag CLimit ''evaluation depth''"
    | "rdepth s < 256" "evaluateNode E n (s\<lparr>rdepth := rdepth s + 1\<rparr>) = Inl e"
    | "isDiag e"
    using isDiag_check unfolding evaluate_Inl_iff by blast
  then show "Err e"
  proof cases
    case 1
    then show ?thesis using limit_allowed [OF s d] by simp
  next
    case 2
    then show ?thesis
      using triple_Inl [OF node [unfolded keeps_def] enter_keeps [OF s]] by blast
  qed (rule diag_allowed)
next
  fix s r s'
  assume s: "I d s" and "evaluate E n s = Inr (r, s')"
  then obtain s1 where "rdepth s < 256" "s' = s1\<lparr>rdepth := rdepth s1 - 1\<rparr>"
    "evaluateNode E n (s\<lparr>rdepth := rdepth s + 1\<rparr>) = Inr (r, s1)"
    unfolding evaluate_Inr_iff by blast
  then show "I d s'"
    using triple_Inr [OF node [unfolded keeps_def] enter_keeps [OF s]] leave_keeps by blast
qed

lemma keeps_evaluate:
  "\<lbrakk>arityOk n; callsOf n \<subseteq> F; height n + d < lim\<rbrakk> \<Longrightarrow> keeps d (evaluate E n)"
proof (induction n arbitrary: d rule: node_children_induct)
  case (node n)
  have children: "keeps (Suc d) (evaluate E c)" if c: "c \<in> set (children n)" for c
  proof (rule node.IH [OF c])
    show "arityOk c" using node.prems(1) c arityOk_children [of n] by simp
    show "callsOf c \<subseteq> F" using node.prems(2) c by (cases n) auto
    show "height c + Suc d < lim" using height_child [OF c] node.prems(3) by simp
  qed
  have "keeps (Suc d) (evaluateNode E n)"
  proof (cases n)
    case (Variable sp x)
    then show ?thesis by (auto intro!: keeps_lift dest: isDiag_variable)
  next
    case (Call sp f args)
    have "keepsArgs (Suc d) (map (\<lambda>a. (nstart a, evaluate E a)) args)"
      using children Call by (simp add: keepsArgs_def)
    then show ?thesis
      using node.prems(1,2) Call arityOk_children [of n] by (auto intro!: keeps_call)
  qed (use children in \<open>auto intro!: keeps_unary keeps_binary keeps_conditional\<close>)
  then show ?case using node.prems(3) by (intro keeps_evaluate_level) simp_all
qed

lemma evaluate_returns:
  "\<lbrakk>arityOk n; callsOf n \<subseteq> F; height n + d < lim; I d s; evaluate E n s = Inr (r, s')\<rbrakk> \<Longrightarrow> I d s'"
  by (rule triple_Inr [OF keeps_evaluate [unfolded keeps_def]])

lemma evaluate_throws:
  "\<lbrakk>arityOk n; callsOf n \<subseteq> F; height n + d < lim; I d s; evaluate E n s = Inl e\<rbrakk> \<Longrightarrow> Err e"
  by (rule triple_Inl [OF keeps_evaluate [unfolded keeps_def]])

end

end
