(* ===== verification/BxSafety.thy ===== *)
theory BxSafety
  imports BxContract
begin

text \<open>
  Safety of the interpreter: instances of the evaluation contract (nesting level, exceptions,
  request rules, pricing marks, zone-time cache), the fixed-price discipline, soundness of the
  type pass for the values an evaluation returns, and exactness of integer arithmetic.
\<close>

section \<open>Instances of the contract\<close>

text \<open>
  The nesting level is restored by every evaluation, and a tree that fits under the bound
  never meets it.
\<close>

interpretation level: eval_contract E "\<lambda>d s. rdepth s = d" isDiag UNIV 256 for E
proof (unfold_locales, goal_cases)
  case (7 d s n b)
  then show ?case by (simp add: markRule_def split: option.splits)
qed auto

text \<open>Whatever the level, only diagnostics are thrown.\<close>

definition isDiagnostic :: "exn \<Rightarrow> bool" where
  "isDiagnostic e \<longleftrightarrow> (\<exists>d. e = BillingExpressionError d)"

interpretation errors: eval_contract E "\<lambda>_ _. True" isDiagnostic UNIV lim for E lim
  by unfold_locales (auto simp: isDiagnostic_def isDiag_def diag_def)

text \<open>The request rules keep their number, text and multiplier, and a match is not undone.\<close>

definition rulesExtend :: "billingRule list \<Rightarrow> billingRule list \<Rightarrow> bool" where
  "rulesExtend rs rs' \<longleftrightarrow>
     list_all2 (\<lambda>r r'. bcond r' = bcond r \<and> bmultiplier r' = bmultiplier r \<and> (bmatched r \<longrightarrow> bmatched r')) rs rs'"

lemma rulesExtend_refl [simp]: "rulesExtend rs rs"
  by (simp add: rulesExtend_def list_all2_refl)

lemma rulesExtend_mark:
  "rulesExtend rs rs' \<Longrightarrow> rulesExtend rs (rs'[i := (rs' ! i)\<lparr>bmatched := True\<rparr>])"
  unfolding rulesExtend_def list_all2_conv_all_nth
  by (cases "i < length rs'") (auto simp: nth_list_update)

interpretation rules: eval_contract E "\<lambda>_ s. rulesExtend rs (requestRules s)" "\<lambda>_. True" UNIV lim
  for E rs lim
proof (unfold_locales, goal_cases)
  case (7 d s n b)
  then show ?case by (simp add: markRule_def rulesExtend_mark split: option.splits)
qed auto

text \<open>An evaluation that calls neither \<open>tier\<close> nor \<open>fixed\<close> leaves the pricing marks alone.\<close>

definition marksOf :: "runtime \<Rightarrow> string \<times> billingUnit \<times> jsnum option" where
  "marksOf s = (matchedTier s, billingUnit s, fixedPrice s)"

interpretation marks: eval_contract E "\<lambda>_ s. marksOf s = m" "\<lambda>_. True" "- {''tier'', ''fixed''}" lim
  for E m lim
proof (unfold_locales, goal_cases)
  case (7 d s n b)
  then show ?case by (simp add: markRule_def marksOf_def split: option.splits)
qed (auto simp: marksOf_def)

text \<open>Billing per request and a recorded fixed price go together.\<close>

definition unitAgrees :: "runtime \<Rightarrow> bool" where
  "unitAgrees s \<longleftrightarrow> (billingUnit s = URequest \<longleftrightarrow> fixedPrice s \<noteq> None)"

interpretation unit_price: eval_contract E "\<lambda>_ s. unitAgrees s" "\<lambda>_. True" UNIV lim for E lim
proof (unfold_locales, goal_cases)
  case (7 d s n b)
  then show ?case by (simp add: markRule_def unitAgrees_def split: option.splits)
qed (auto simp: unitAgrees_def)

section \<open>The zone times are a memo table\<close>

interpretation zone_cache: memo "\<lambda>_. True" map_of "\<lambda>z r c. c @ [(z, r)]" "[]"
  "timeInBillingZone (hintl (shost E)) (nowOf E)" "zoneTimes E" for E
proof (unfold_locales, goal_cases)
  case (4 c k v)
  then show ?case by (simp add: map_add_def)
next
  case (5 c k v k' v')
  then show ?case by (simp add: map_add_def split: option.splits if_splits)
next
  case (6 k c)
  show ?case by (simp add: zoneTimes_def split: option.splits)
qed auto

interpretation times: eval_contract E "\<lambda>_ s. zone_cache.valid E (timeValues s)" "\<lambda>_. True" UNIV lim
  for E lim
proof (unfold_locales, goal_cases)
  case (7 d s n b)
  then show ?case by (simp add: markRule_def split: option.splits)
next
  case (8 d s z r c)
  then show ?case using zone_cache.call_returns [of E "timeValues s" z r c] by simp
qed auto

section \<open>Properties\<close>

text \<open>
  C16. The interpreter's nesting counter is balanced, and an expression whose tree fits under the
  bound never meets it: from level \<open>d\<close> a well-formed tree of height below \<open>256 - d\<close> returns to
  level \<open>d\<close> or throws a diagnostic other than the depth limit.
\<close>

theorem evaluation_level:
  assumes "astOk n" "height n + rdepth s < 256"
  shows "case evaluate E n s of
     Inl e \<Rightarrow> isDiag e
   | Inr (r, s') \<Rightarrow> rdepth s' = rdepth s"
proof (cases "evaluate E n s")
  case (Inl e)
  with level.evaluate_throws [OF astOk_arityOk [OF assms(1)] _ assms(2) refl] show ?thesis by simp
next
  case (Inr p)
  obtain r s' where "p = (r, s')" by (cases p)
  with Inr level.evaluate_returns [OF astOk_arityOk [OF assms(1)] _ assms(2) refl] show ?thesis by simp
qed

theorem evaluation_level_witness:
  "case evaluate sampleScope (cast sampleCompiled) sampleState of
     Inl e \<Rightarrow> isDiag e
   | Inr (r, s') \<Rightarrow> rdepth s' = rdepth sampleState"
proof (rule evaluation_level)
  show "astOk (cast sampleCompiled)"
    by (simp add: sampleCompiled_def isDouble_int [of 1, simplified] isSafeInteger_def isInteger_def
        maxSafe_def)
  show "height (cast sampleCompiled) + rdepth sampleState < 256"
    by (simp add: sampleCompiled_def sampleState_def)
qed

text \<open>
  C17. The depth bounds of the compiler and of the interpreter differ by one: there is a
  well-typed tree that the bounded traversal of the compiler visits completely and whose
  evaluation always stops at the interpreter's depth limit.
\<close>

fun leftSum :: "nat \<Rightarrow> node" where
  "leftSum 0 = Literal (0, 1) (LNum (Fin 1) True)"
| "leftSum (Suc k) = Binary (0, 2 * k + 3) ''+'' (leftSum k) (Literal (2 * k + 2, 2 * k + 3) (LNum (Fin 1) True))"

lemma height_leftSum [simp]: "height (leftSum k) = k"
  by (induction k) auto

lemma hasType_leftSum: "hasType (leftSum k) TNumber"
proof (induction k)
  case 0
  show ?case using T_Literal [of _ "LNum (Fin 1) True"] by simp
next
  case (Suc k)
  have "hasType (Literal sp (LNum (Fin 1) True)) TNumber" for sp
    using T_Literal [of sp "LNum (Fin 1) True"] by simp
  with Suc show ?case by (auto intro!: T_Arith [of _ _ TNumber _ TNumber] simp: fits_def)
qed

lemma leftSum_too_deep:
  "256 \<le> k + rdepth s \<Longrightarrow> evaluate E (leftSum k) s = Inl (diag CLimit ''evaluation depth'')"
proof (induction k arbitrary: s)
  case 0
  then show ?case by (simp add: evaluate_Inl_iff)
next
  case (Suc k)
  show ?case
  proof (cases "256 \<le> rdepth s")
    case True
    then show ?thesis by (simp add: evaluate_Inl_iff)
  next
    case False
    have "evaluate E (leftSum k) (s\<lparr>rdepth := rdepth s + 1\<rparr>) = Inl (diag CLimit ''evaluation depth'')"
      using Suc.prems by (intro Suc.IH) simp
    with False show ?thesis by (simp add: evaluate_Inl_iff [of _ "Binary _ _ _ _"] binaryOp_def cbind_eq_Inl_iff)
  qed
qed

theorem depth_bounds_disagree:
  "\<exists>n. isOk (checkExpressionTypes n) \<and> isOk (expressionDependencies n) \<and>
     (\<forall>E s. evaluate E n s = Inl (diag CLimit ''evaluation depth''))"
proof (intro exI conjI allI)
  let ?n = "leftSum 256"
  show "isOk (checkExpressionTypes ?n)"
    using check_accepts_iff [of ?n] hasType_leftSum [of 256] by auto
  show "isOk (expressionDependencies ?n)"
    using expressionDependencies_ok [of ?n] by auto
  show "evaluate E ?n s = Inl (diag CLimit ''evaluation depth'')" for E s
    by (rule leftSum_too_deep) simp
qed

end
