(* ===== verification/BxPricing.thy ===== *)
theory BxPricing
  imports BxSafety
begin

text \<open>
  The fixed-price discipline: in an expression that passed \<open>validateFixedPricingTree\<close> every
  evaluation goes through exactly one \<open>tier\<close> leaf, the factors around it are non-negative and
  leave the pricing marks alone, so that a request billed at a fixed price never gets a
  negative cost and its recorded price is the literal of the leaf.
\<close>

section \<open>What accepted parts do\<close>

lemma evaluate_marks:
  assumes "arityOk n" "callsOf n \<inter> {''tier'', ''fixed''} = {}" "evaluate E n s = Inr (r, s')"
  shows "marksOf s' = marksOf s"
  using marks.evaluate_returns [where d = 0 and m = "marksOf s" and lim = "Suc (height n)",
      OF assms(1) _ _ _ assms(3)] assms(2) by auto

lemma no_marker: "containsPricingMarker n = Inr False \<Longrightarrow> callsOf n \<inter> {''tier'', ''fixed''} = {}"
  by (auto simp: containsPricingMarker_def rbind_eq_Inr_iff dest: expressionDependencies_Inr)

lemma marksOf_level [simp]: "marksOf (s\<lparr>rdepth := k\<rparr>) = marksOf s"
  by (simp add: marksOf_def)

lemma marksOf_mark [simp]: "marksOf (markRule c n b s) = marksOf s"
  by (simp add: marksOf_def markRule_def split: option.splits)

text \<open>A conditional evaluates its condition and then one branch.\<close>

lemma evaluate_conditionalE:
  assumes "evaluate E (Conditional sp c y n) s = Inr (r, s')"
  obtains b i s1 m s2 where "evaluate E c (s\<lparr>rdepth := rdepth s + 1\<rparr>) = Inr ((JBool b, i), s1)"
    "marksOf m = marksOf s1" "evaluate E (if b then y else n) m = Inr (r, s2)" "marksOf s' = marksOf s2"
proof -
  let ?nd = "Conditional sp c y n" and ?s = "s\<lparr>rdepth := rdepth s + 1\<rparr>"
  obtain s2 where s2: "evaluateNode E ?nd ?s = Inr (r, s2)" "s' = s2\<lparr>rdepth := rdepth s2 - 1\<rparr>"
    using assms by (auto simp: evaluate_Inr_iff [of E ?nd])
  then obtain b i s1 where "evaluate E c ?s = Inr ((JBool b, i), s1)"
    "(if b then evaluate E y else evaluate E n) (markRule (scompiled E) ?nd b s1) = Inr (r, s2)"
    by (auto simp: conditionalOp_def reader_iffs)
  with s2(2) show ?thesis by (intro that [of b i s1 "markRule (scompiled E) ?nd b s1" s2]) auto
qed

lemma evaluate_productE:
  assumes "evaluate E (Binary sp ''*'' a b) s = Inr ((v, i), s')"
  obtains va ia s1 vb ib s2 where
    "evaluate E a (s\<lparr>rdepth := rdepth s + 1\<rparr>) = Inr ((va, ia), s1)"
    "evaluate E b s1 = Inr ((vb, ib), s2)" "operateOp (fst sp) ''*'' (va, ia) (vb, ib) = Inr (v, i)"
    "marksOf s' = marksOf s2"
  using assms
  by (auto simp: evaluate_Inr_iff [of E "Binary sp ''*'' a b"] binaryOp_def cbind_eq_Inr_iff)

lemma product_of_numbers:
  "operateOp pos ''*'' (JNum x, i) (JNum y, j) = Inr (v, k) \<Longrightarrow> v = JNum (js_mul x y)"
  by (auto simp: operateOp_def relational_def arithmeticOp_def)

lemma nonNeg_one: "js_eq one (Fin 1) \<Longrightarrow> nonNeg one"
  by (auto simp: js_eq_def nonNeg_iff elim: isFinite.elims)

text \<open>The request rules of a compiled expression describe their nodes.\<close>

definition rulesDescribe :: "requestRule list \<Rightarrow> bool" where
  "rulesDescribe rules \<longleftrightarrow> (\<forall>r\<in>set rules. ruleMultiplier (rnode r) = Some (rmultiplier r) \<and>
     rcondition r = conditionOf (rnode r))"

lemma rulesDescribe_compiled: "compiledOk c \<Longrightarrow> rulesDescribe (crules c)"
  by (auto simp: compiledOk_def rulesDescribe_def ruleFor_def isRule_def)

lemma image_count_value:
  assumes "variableValue ctx pos ''image_count'' = Inr (v, i)"
  shows "\<exists>x. v = JNum x \<and> nonNeg x"
proof -
  have v: "imageCountOk v" using assms by (auto simp: variableValue_def Let_def split: if_splits)
  then obtain x where x: "v = JNum x" "isFinite x" "\<not> js_lt x (Fin 1)"
    by (auto simp: imageCountOk_def isInteger_def split: jsval.splits)
  then have "nonNeg x" by (cases x) (auto simp: not_less)
  with x show ?thesis by blast
qed

lemma rule_value:
  assumes "ruleMultiplier n = Some m" "nonNeg m" "arityOk n"
    "callsOf (conditionOf n) \<inter> {''tier'', ''fixed''} = {}" "evaluate E n s = Inr ((v, i), s')"
  shows "\<exists>x. v = JNum x \<and> nonNeg x \<and> marksOf s' = marksOf s"
proof -
  obtain sp c sp1 i1 sp2 one i2 where
    n: "n = Conditional sp c (Literal sp1 (LNum m i1)) (Literal sp2 (LNum one i2))" "js_eq one (Fin 1)"
    using assms(1) by (auto elim!: ruleMultiplier.elims split: if_splits)
  have "marksOf s' = marksOf s" using assms(3-5) n by (intro evaluate_marks) auto
  moreover obtain b st s2 where
    "evaluate E (if b then Literal sp1 (LNum m i1) else Literal sp2 (LNum one i2)) st = Inr ((v, i), s2)"
    using assms(5) unfolding n by (elim evaluate_conditionalE)
  then have "v = JNum (if b then m else one)" by (auto dest: evaluate_literal split: if_splits)
  ultimately show ?thesis using assms(2) nonNeg_one [OF n(2)] by simp
qed

lemma factor_value:
  assumes "factorAccepted rules n = Inr True" "rulesDescribe rules" "arityOk n"
    and run: "evaluate E n s = Inr ((v, i), s')"
  shows "\<exists>x. v = JNum x \<and> nonNeg x \<and> marksOf s' = marksOf s"
proof (cases "\<exists>sp. n = Variable sp ''image_count''")
  case True
  then obtain sp where n: "n = Variable sp ''image_count''" by blast
  with run have "variableValue (scontext E) (fst sp) ''image_count'' = Inr (v, i)"
    by (auto simp: evaluate_Inr_iff)
  then show ?thesis using image_count_value n evaluate_marks [OF assms(3) _ run] by auto
next
  case False
  then obtain r where r: "find (\<lambda>r. rnode r = n) rules = Some r" "nonNeg (rmultiplier r)"
    "containsPricingMarker (rcondition r) = Inr False"
    using assms(1) by (auto simp: factorAccepted_def rbind_eq_Inr_iff nonNeg_def
        split: node.splits option.splits if_splits)
  then have "r \<in> set rules" "rnode r = n" by (auto simp: find_Some_iff)
  with r assms(2) have "ruleMultiplier n = Some (rmultiplier r)"
    "callsOf (conditionOf n) \<inter> {''tier'', ''fixed''} = {}"
    using no_marker [OF r(3)] by (auto simp: rulesDescribe_def)
  from rule_value [OF this(1) r(2) assms(3) this(2) run] show ?thesis .
qed

section \<open>Validated trees\<close>

lemma validate_conditional:
  "validateFixedPricingTree rules (Conditional sp c y n) = Inr u \<Longrightarrow>
   callsOf c \<inter> {''tier'', ''fixed''} = {} \<and> validateFixedPricingTree rules y = Inr () \<and>
   validateFixedPricingTree rules n = Inr ()"
  using no_marker [of c] by (auto simp: rbind_eq_Inr_iff split: if_splits)

lemma validate_binary:
  "validateFixedPricingTree rules (Binary sp op l r) = Inr u \<Longrightarrow>
   op = ''*'' \<and> (factorAccepted rules r = Inr True \<and> validateFixedPricingTree rules l = Inr () \<or>
     factorAccepted rules l = Inr True \<and> validateFixedPricingTree rules r = Inr ())"
  by (auto simp: rbind_eq_Inr_iff split: if_splits)

text \<open>The amount of a fixed leaf.\<close>

definition isFixedLeaf :: "node \<Rightarrow> jsnum \<Rightarrow> bool" where
  "isFixedLeaf price amount \<longleftrightarrow> (\<exists>sp sp' i rest. price = Call sp ''fixed'' (Literal sp' (LNum amount i) # rest) \<and>
     nonNeg amount)"

lemma validate_call:
  assumes "validateFixedPricingTree rules (Call sp f args) = Inr u"
  shows "f = ''tier'' \<and> (\<exists>label price rest. args = label # price # rest \<and>
    callsOf label \<inter> {''tier'', ''fixed''} = {} \<and>
    ((\<exists>amount. isFixedLeaf price amount) \<or> callsOf price \<inter> {''tier'', ''fixed''} = {}))"
proof -
  have ok: "fixedLeafAccepted f args = Inr True" using assms by (auto simp: rbind_eq_Inr_iff split: if_splits)
  then obtain label price rest where args: "f = ''tier''" "args = label # price # rest"
    "containsPricingMarker label = Inr False" "priceAccepted price = Inr True"
    by (auto simp: fixedLeafAccepted_def rbind_eq_Inr_iff split: if_splits list.splits)
  have "(\<exists>amount. isFixedLeaf price amount) \<or> containsPricingMarker price = Inr False"
    using args(4)
    by (auto simp: priceAccepted_def isFixedLeaf_def rbind_eq_Inr_iff nonNeg_def
        split: node.splits lit.splits list.splits if_splits)
  with args show ?thesis using no_marker by blast
qed

text \<open>
  The promise of an evaluation that starts without a fixed price: a number, and where a fixed
  price was recorded it is non-negative and so is the number.
\<close>

definition priced :: "jsval \<Rightarrow> runtime \<Rightarrow> bool" where
  "priced v s' \<longleftrightarrow> (\<exists>x. v = JNum x \<and>
     (\<forall>a. fixedPrice s' = Some a \<longrightarrow> nonNeg a \<and> nonNeg x))"

lemma priced_marks: "\<lbrakk>priced v s; marksOf s' = marksOf s\<rbrakk> \<Longrightarrow> priced v s'"
  by (simp add: priced_def marksOf_def)

lemma evaluate_tier2E:
  assumes "evaluate E (Call sp ''tier'' [label, price]) s = Inr ((v, i), s')"
  obtains name j s1 x k s2 where
    "evaluate E label (s\<lparr>rdepth := rdepth s + 1\<rparr>) = Inr ((JStr name, j), s1)"
    "evaluate E price s1 = Inr ((JNum x, k), s2)" "v = JNum x" "fixedPrice s' = fixedPrice s2"
  using assms
  by (auto simp: evaluate_Inr_iff [of E "Call sp ''tier'' [label, price]"] callOp_def call_tier_def
      reader_iffs argAt_def)

lemma evaluate_fixedE:
  assumes "evaluate E (Call sp ''fixed'' [Literal sp' (LNum a i')]) s = Inr ((v, i), s')"
  shows "v = JNum (js_mul a million) \<and> fixedPrice s' = Some a \<and> isFinite a"
proof -
  let ?n = "Call sp ''fixed'' [Literal sp' (LNum a i')]"
  obtain x j s1 where lit: "evaluate E (Literal sp' (LNum a i')) (s\<lparr>rdepth := rdepth s + 1\<rparr>) = Inr ((JNum x, j), s1)"
    and s': "v = JNum (js_mul x million)" "fixedPrice s' = Some x"
    using assms by (auto simp: evaluate_Inr_iff [of E ?n] callOp_def call_fixed_def reader_iffs argAt_def)
  from evaluate_literal [OF lit] have "x = a" by simp
  with s' evaluate_finite [OF lit] show ?thesis by simp
qed

lemma tier_leaf_priced:
  assumes leaf: "isFixedLeaf price amount \<or> callsOf price \<inter> {''tier'', ''fixed''} = {}"
    and label: "callsOf label \<inter> {''tier'', ''fixed''} = {}"
    and ok: "arityOk (Call sp ''tier'' [label, price])"
    and run: "fixedPrice s = None" "evaluate E (Call sp ''tier'' [label, price]) s = Inr ((v, i), s')"
  shows "priced v s'"
proof -
  obtain name j s1 x k s2 where
    l: "evaluate E label (s\<lparr>rdepth := rdepth s + 1\<rparr>) = Inr ((JStr name, j), s1)" and
    p: "evaluate E price s1 = Inr ((JNum x, k), s2)" "v = JNum x" "fixedPrice s' = fixedPrice s2"
    using run(2) by (elim evaluate_tier2E)
  have a: "arityOk label" "arityOk price" using ok by (auto simp: arityOk_children [of "Call _ _ _"])
  have none: "fixedPrice s1 = None"
    using evaluate_marks [OF a(1) label l] run(1) by (simp add: marksOf_def)
  from leaf show ?thesis
  proof
    assume "callsOf price \<inter> {''tier'', ''fixed''} = {}"
    from evaluate_marks [OF a(2) this p(1)] none p show ?thesis by (simp add: priced_def marksOf_def)
  next
    assume "isFixedLeaf price amount"
    then obtain sp1 sp2 i2 where price: "price = Call sp1 ''fixed'' [Literal sp2 (LNum amount i2)]"
      and amount: "nonNeg amount"
      using a(2) by (auto simp: isFixedLeaf_def arityOk_children [of "Call _ _ _"] BILLING_FUNCTIONS_def)
    from evaluate_fixedE [OF p(1) [unfolded price]] have
      "x = js_mul amount million" "fixedPrice s2 = Some amount" "isFinite amount" by simp_all
    with p amount show ?thesis
      using nonNeg_js_mul [of amount million] by (simp add: priced_def million_def)
  qed
qed

lemma product_priced:
  assumes "operateOp pos ''*'' (JNum x, i) (JNum y, j) = Inr (v, k)" "isFinite x" "isFinite y"
    and "\<And>a. fixedPrice s' = Some a \<Longrightarrow> nonNeg a \<and> nonNeg x \<and> nonNeg y"
  shows "priced v s'"
  using assms product_of_numbers [OF assms(1)] nonNeg_js_mul by (auto simp: priced_def)

lemma validated_priced:
  "\<lbrakk>validateFixedPricingTree rules n = Inr (); rulesDescribe rules; arityOk n; fixedPrice s = None;
    evaluate E n s = Inr ((v, i), s')\<rbrakk> \<Longrightarrow> priced v s'"
proof (induction n arbitrary: s v i s' rule: node_children_induct)
  case (node n)
  have children: "priced v s'" if "c \<in> set (children n)" "validateFixedPricingTree rules c = Inr ()"
    "fixedPrice s = None" "evaluate E c s = Inr ((v, i), s')" for c s v i s'
    using node.IH node.prems(2,3) that arityOk_children [of n] by blast
  show ?case
  proof (cases n)
    case (Conditional sp c y m)
    note val = validate_conditional [OF node.prems(1) [unfolded Conditional]]
    have ok: "arityOk c" using node.prems(3) Conditional arityOk_children [of n] by simp
    obtain b j s1 st s2 where run: "evaluate E c (s\<lparr>rdepth := rdepth s + 1\<rparr>) = Inr ((JBool b, j), s1)"
      "marksOf st = marksOf s1" "evaluate E (if b then y else m) st = Inr ((v, i), s2)" "marksOf s' = marksOf s2"
      using node.prems(5) unfolding Conditional by (elim evaluate_conditionalE)
    have "fixedPrice st = None"
      using evaluate_marks [OF ok _ run(1)] val run(2) node.prems(4) by (simp add: marksOf_def)
    then have "priced v s2" using children [OF _ _ _ run(3)] val Conditional by (cases b) auto
    then show ?thesis using run(4) by (rule priced_marks)
  next
    case (Binary sp op l r)
    note val = validate_binary [OF node.prems(1) [unfolded Binary]]
    have ok: "arityOk l" "arityOk r" using node.prems(3) Binary arityOk_children [of n] by simp_all
    obtain va ia s1 vb ib s2 where run:
      "evaluate E l (s\<lparr>rdepth := rdepth s + 1\<rparr>) = Inr ((va, ia), s1)"
      "evaluate E r s1 = Inr ((vb, ib), s2)" "operateOp (fst sp) ''*'' (va, ia) (vb, ib) = Inr (v, i)"
      "marksOf s' = marksOf s2"
      using node.prems(5) val unfolding Binary by (auto elim!: evaluate_productE)
    from val consider "factorAccepted rules r = Inr True" "validateFixedPricingTree rules l = Inr ()"
      | "factorAccepted rules l = Inr True" "validateFixedPricingTree rules r = Inr ()" by blast
    then have "\<exists>x y. va = JNum x \<and> vb = JNum y \<and> (\<forall>a. fixedPrice s2 = Some a \<longrightarrow> nonNeg a \<and> nonNeg x \<and> nonNeg y)"
    proof cases
      case 1
      obtain y where "vb = JNum y" "nonNeg y" "marksOf s2 = marksOf s1"
        using factor_value [OF 1(1) node.prems(2) ok(2) run(2)] by blast
      with children [OF _ 1(2) _ run(1)] Binary node.prems(4) show ?thesis
        by (auto simp: priced_def marksOf_def)
    next
      case 2
      obtain x where "va = JNum x" "nonNeg x" "marksOf s1 = marksOf s"
        using factor_value [OF 2(1) node.prems(2) ok(1) run(1)] by auto
      with children [OF _ 2(2) _ run(2)] Binary node.prems(4) show ?thesis
        by (auto simp: priced_def marksOf_def)
    qed
    then obtain x y where "va = JNum x" "vb = JNum y"
      "\<And>a. fixedPrice s2 = Some a \<Longrightarrow> nonNeg a \<and> nonNeg x \<and> nonNeg y" by blast
    with run have "priced v s2"
      by (auto intro!: product_priced [of _ x _ y] dest: evaluate_finite)
    then show ?thesis using run(4) by (rule priced_marks)
  next
    case (Call sp f args)
    obtain label price amount where args: "f = ''tier''" "args = [label, price]"
      "callsOf label \<inter> {''tier'', ''fixed''} = {}"
      "isFixedLeaf price amount \<or> callsOf price \<inter> {''tier'', ''fixed''} = {}"
    proof -
      have "f = ''tier'' \<Longrightarrow> length args = 2"
        using node.prems(3) Call arityOk_children [of n] by (simp add: BILLING_FUNCTIONS_def)
      then show ?thesis
        using validate_call [OF node.prems(1) [unfolded Call]] that
        by (auto simp: length_Suc_conv numeral_2_eq_2)
    qed
    from tier_leaf_priced [OF args(4,3)] node.prems(3-5) Call args(1,2) show ?thesis by blast
  qed (use node.prems(1) in auto)
qed

text \<open>The final state of a successful evaluation.\<close>

lemma evaluationBody_run:
  assumes "evaluationBody h c ctx = Inr r"
  obtains s v i s' where "newRuntime c ctx = Inr s"
    "evaluate \<lparr>shost = h, scompiled = c, scontext = ctx\<rparr> (cast c) s = Inr ((v, i), s')"
    "resultCost v = Inr (cost r)" "eunit r = billingUnit s'" "eFixedPrice r = fixedPrice s'"
    "eTier r = matchedTier s'" "eRules r = requestRules s'"
  using assms by (auto simp: evaluationBody_def rbind_eq_Inr_iff)

section \<open>Properties\<close>

text \<open>
  C2. Fixed prices cannot turn negative: in a compiled expression that uses \<open>fixed\<close>, an
  evaluation that returns yields a number, and if it went through a fixed price then the
  recorded price and the returned number are non-negative, whatever the tokens, the request
  and the clock.
\<close>

theorem fixed_price_nonneg:
  assumes "compiledOk c" "''fixed'' \<in> callsOf (cast c)"
    and "newRuntime c ctx = Inr s"
    and "evaluate \<lparr>shost = h, scompiled = c, scontext = ctx\<rparr> (cast c) s = Inr ((v, i), s')"
  shows "\<exists>x. v = JNum x \<and> (\<forall>a. fixedPrice s' = Some a \<longrightarrow> nonNeg a \<and> nonNeg x)"
proof -
  have "validateFixedPricingTree (crules c) (cast c) = Inr ()"
    using assms(1,2) by (auto simp: compiledOk_def dest: isOkE)
  moreover have "fixedPrice s = None" using assms(3) by (auto simp: newRuntime_def rbind_eq_Inr_iff)
  moreover have "arityOk (cast c)" using assms(1) astOk_arityOk by (simp add: compiledOk_def)
  ultimately show ?thesis
    using validated_priced rulesDescribe_compiled [OF assms(1)] assms(4) by (simp add: priced_def)
qed

definition fixedSource :: string where
  "fixedSource = ''tier(\"img\", fixed(0.5)) * image_count''"

theorem fixed_price_nonneg_witness:
  "\<exists>c s v i s'. compileFresh fixedSource = Ready c \<and> newRuntime c emptyContext = Inr s \<and>
     evaluate \<lparr>shost = sampleHost, scompiled = c, scontext = emptyContext\<rparr> (cast c) s = Inr ((v, i), s') \<and>
     (\<exists>x. v = JNum x \<and> (\<forall>a. fixedPrice s' = Some a \<longrightarrow> nonNeg a \<and> nonNeg x))"
proof -
  have run: "case compileBody fixedSource of
      Inl _ \<Rightarrow> False
    | Inr c \<Rightarrow> ''fixed'' \<in> set (cfunctions c) \<and> isOk (rbind (newRuntime c emptyContext)
        (evaluate \<lparr>shost = sampleHost, scompiled = c, scontext = emptyContext\<rparr> (cast c)))"
    by code_simp
  then obtain c where c: "compileBody fixedSource = Inr c" "''fixed'' \<in> set (cfunctions c)"
    and ok: "isOk (rbind (newRuntime c emptyContext)
        (evaluate \<lparr>shost = sampleHost, scompiled = c, scontext = emptyContext\<rparr> (cast c)))"
    by (auto split: sum.splits)
  from isOkE [OF ok] obtain s v i s' where s: "newRuntime c emptyContext = Inr s"
    "evaluate \<lparr>shost = sampleHost, scompiled = c, scontext = emptyContext\<rparr> (cast c) s = Inr ((v, i), s')"
    by (auto simp: rbind_eq_Inr_iff)
  have "compiledOk c" "''fixed'' \<in> callsOf (cast c)"
    using compileBody_ok [OF c(1)] c(2) by (auto simp: compiledOk_def)
  from fixed_price_nonneg [OF this s] s c(1) show ?thesis by (auto simp: compileFresh_Ready)
qed

end
