(* ===== verification/BxSound.thy ===== *)
theory BxSound
  imports BxSafety
begin

text \<open>
  Soundness of the type pass with respect to the interpreter, and exactness of integer
  arithmetic: what the static type of a node says of the value it evaluates to, and that a
  result flagged as an integer is the mathematical integer the expression denotes.
\<close>

section \<open>Types and values\<close>

fun valueFits :: "etype \<Rightarrow> jsval \<Rightarrow> bool" where
  "valueFits TNumber v = (case v of JNum _ \<Rightarrow> True | _ \<Rightarrow> False)"
| "valueFits TString v = (case v of JStr _ \<Rightarrow> True | _ \<Rightarrow> False)"
| "valueFits TBoolean v = (case v of JBool _ \<Rightarrow> True | _ \<Rightarrow> False)"
| "valueFits TNil v = (v = JNull)"
| "valueFits TDynamic v = True"

text \<open>
  The pass gives \<open>a + b\<close> the type number also when both operands are dynamic; at run time both
  may be strings. The property is about trees without such a sum.
\<close>

definition noDynamicSum :: "node \<Rightarrow> bool" where
  "noDynamicSum n \<longleftrightarrow> (\<forall>m\<in>set (postorder n). case m of
     Binary _ op a b \<Rightarrow> op = ''+'' \<longrightarrow> \<not> (hasType a TDynamic \<and> hasType b TDynamic) | _ \<Rightarrow> True)"

lemma noDynamicSum_children:
  "noDynamicSum n \<longleftrightarrow> (case n of
     Binary _ op a b \<Rightarrow> op = ''+'' \<longrightarrow> \<not> (hasType a TDynamic \<and> hasType b TDynamic) | _ \<Rightarrow> True) \<and>
     (\<forall>c\<in>set (children n). noDynamicSum c)"
  unfolding noDynamicSum_def by (subst postorder_children) auto

lemma valueFits_literal: "valueFits (literalType v) (fst (literalValue v))"
  by (cases v) auto

lemma unaryOp_value:
  "unaryOp op pos m s = Inr ((v, i), s') \<Longrightarrow> valueFits (if op = ''!'' then TBoolean else TNumber) v"
  by (auto simp: unaryOp_def reader_iffs split: if_splits)

lemma logic_value:
  "\<lbrakk>op \<in> set [''&&'', ''||'']; binaryOp pos op lp l rp r s = Inr ((v, i), s')\<rbrakk> \<Longrightarrow> valueFits TBoolean v"
  by (auto simp: binaryOp_def reader_iffs split: if_splits)

lemma compare_value:
  "\<lbrakk>op \<in> set [''=='', ''!='', ''<'', ''<='', ''>'', ''>='']; operateOp pos op a b = Inr (v, i)\<rbrakk> \<Longrightarrow>
   valueFits TBoolean v"
  by (auto simp: operateOp_def equalityOp_def relational_def arithmeticOp_def
      split: if_splits jsval.splits option.splits)

lemma arith_value:
  "\<lbrakk>op \<notin> set [''&&'', ''||'', ''=='', ''!='', ''<'', ''<='', ''>'', ''>=''];
    operateOp pos op (va, ia) (vb, ib) = Inr (v, i);
    op = ''+'' \<longrightarrow> valueFits TNumber va \<or> valueFits TNumber vb\<rbrakk> \<Longrightarrow> valueFits TNumber v"
  by (auto simp: operateOp_def relational_def arithmeticOp_def
      split: if_splits jsval.splits option.splits)

lemma operands:
  assumes "op \<notin> set [''&&'', ''||'']" "binaryOp pos op lp l rp r s = Inr (w, s')"
  obtains va ia s1 vb ib s2 where "l s = Inr ((va, ia), s1)" "r s1 = Inr ((vb, ib), s2)"
    "operateOp pos op (va, ia) (vb, ib) = Inr w"
  using assms by (auto simp: binaryOp_def cbind_eq_Inr_iff)

lemma call_value:
  assumes "hasType (Call sp f as) t" "callOp E pos f args s = Inr ((v, i), s')"
  shows "valueFits t v"
  using assms(1)
  by (rule hasType_CallE)
     (use assms(2) in \<open>auto simp: callOp_def call_header_def call_has_def call_tier_def call_fixed_def
        call_math1_def call_math2_def call_time_def TIME_FUNCTIONS_def MATH_FUNCTIONS_def
        cbind_eq_Inr_iff rbind_eq_Inr_iff split: if_splits option.splits\<close>)

lemma type_sound_binary:
  assumes t: "hasType (Binary sp op a b) t" and dyn: "noDynamicSum (Binary sp op a b)"
    and va: "\<And>s v i s' u. \<lbrakk>evaluate E a s = Inr ((v, i), s'); hasType a u\<rbrakk> \<Longrightarrow> valueFits u v"
    and vb: "\<And>s v i s' u. \<lbrakk>evaluate E b s = Inr ((v, i), s'); hasType b u\<rbrakk> \<Longrightarrow> valueFits u v"
    and run: "binaryOp pos op lp (evaluate E a) rp (evaluate E b) s = Inr ((v, i), s')"
  shows "valueFits t v"
  using t
proof (cases rule: hasType.cases)
  case T_Logic
  then show ?thesis using logic_value [OF _ run] by simp
next
  case T_Compare
  then have "op \<notin> set [''&&'', ''||'']" by auto
  then obtain w w' where "operateOp pos op w w' = Inr (v, i)" by (rule operands [OF _ run])
  with T_Compare compare_value [of op] show ?thesis by simp
next
  case T_Concat
  then have "op \<notin> set [''&&'', ''||'']" by simp
  then obtain x ia s1 y ib s2 where
    e: "evaluate E a s = Inr ((x, ia), s1)" "evaluate E b s1 = Inr ((y, ib), s2)"
    and o: "operateOp pos op (x, ia) (y, ib) = Inr (v, i)" by (rule operands [OF _ run])
  have "valueFits TString x" "valueFits TString y" using va [OF e(1)] vb [OF e(2)] T_Concat by blast+
  with o T_Concat show ?thesis by (auto simp: operateOp_def split: jsval.splits)
next
  case (T_Arith t1 t2)
  then have "op \<notin> set [''&&'', ''||'']" by auto
  then obtain x ia s1 y ib s2 where
    e: "evaluate E a s = Inr ((x, ia), s1)" "evaluate E b s1 = Inr ((y, ib), s2)"
    and o: "operateOp pos op (x, ia) (y, ib) = Inr (v, i)" by (rule operands [OF _ run])
  have "op = ''+'' \<longrightarrow> t1 = TNumber \<or> t2 = TNumber"
    using T_Arith dyn noDynamicSum_children [of "Binary sp op a b"] by (auto simp: fits_def)
  then have "op = ''+'' \<longrightarrow> valueFits TNumber x \<or> valueFits TNumber y"
    using va [OF e(1), of t1] vb [OF e(2), of t2] T_Arith by blast
  with arith_value [OF _ o] T_Arith show ?thesis by simp
qed

lemma type_sound:
  "\<lbrakk>hasType n t; noDynamicSum n; evaluate E n s = Inr ((v, i), s')\<rbrakk> \<Longrightarrow> valueFits t v"
proof (induction n arbitrary: t s v i s' rule: node_children_induct)
  case (node n)
  have children: "valueFits u v"
    if "c \<in> set (children n)" "evaluate E c s = Inr ((v, i), s')" "hasType c u" for c s v i s' u
    using node.IH that node.prems(2) noDynamicSum_children [of n] by blast
  obtain s0 s1 where run: "evaluateNode E n s0 = Inr ((v, i), s1)"
    using node.prems(3) by (auto simp: evaluate_Inr_iff)
  show ?case
  proof (cases n)
    case (Literal sp l)
    with run node.prems(1) show ?thesis
      using valueFits_literal [of l] by (auto elim!: hasType_LiteralE)
  next
    case (Variable sp x)
    with run node.prems(1) show ?thesis
      by (auto simp: variableValue_def imageCountOk_def Let_def elim!: hasType_VariableE
          split: if_splits jsval.splits)
  next
    case (Unary sp op a)
    with run node.prems(1) unaryOp_value show ?thesis by (auto elim!: hasType_UnaryE) force+
  next
    case (Binary sp op a b)
    show ?thesis
    proof (rule type_sound_binary)
      show "hasType (Binary sp op a b) t" "noDynamicSum (Binary sp op a b)"
        using node.prems(1,2) Binary by simp_all
      show "binaryOp (fst sp) op (nstart a) (evaluate E a) (nstart b) (evaluate E b) s0 = Inr ((v, i), s1)"
        using run Binary by simp
    next
      fix s v i s' u
      assume "evaluate E a s = Inr ((v, i), s')" "hasType a u"
      then show "valueFits u v" using children [of a] Binary by simp
    next
      fix s v i s' u
      assume "evaluate E b s = Inr ((v, i), s')" "hasType b u"
      then show "valueFits u v" using children [of b] Binary by simp
    qed
  next
    case (Conditional sp c y m)
    obtain t1 t2 where ty: "hasType y t1" "hasType m t2" "t = (if t1 = t2 then t1 else TDynamic)"
      using node.prems(1) unfolding Conditional by (auto elim!: hasType_ConditionalE)
    obtain b st where "(if b then evaluate E y else evaluate E m) st = Inr ((v, i), s1)"
      using run Conditional by (auto simp: conditionalOp_def reader_iffs)
    then have "valueFits t1 v \<and> b \<or> valueFits t2 v \<and> \<not> b"
      using children [of y] children [of m] ty Conditional by (cases b) auto
    with ty(3) show ?thesis by auto
  next
    case (Call sp f as)
    with run node.prems(1) call_value show ?thesis by auto
  qed
qed

section \<open>Exact integers\<close>

text \<open>The integer an expression of integer literals denotes.\<close>

fun intTree :: "node \<Rightarrow> bool" where
  "intTree (Literal _ (LNum x i)) = (i \<and> isSafeInteger x)"
| "intTree (Unary _ op a) = (op \<in> set [''+'', ''-''] \<and> intTree a)"
| "intTree (Binary _ op a b) = (op \<in> set [''+'', ''-'', ''*'', ''%''] \<and> intTree a \<and> intTree b)"
| "intTree _ = False"

fun intDenotes :: "node \<Rightarrow> int" where
  "intDenotes (Literal _ (LNum x _)) = \<lfloor>valOf x\<rfloor>"
| "intDenotes (Unary _ op a) = (if op = ''-'' then - intDenotes a else intDenotes a)"
| "intDenotes (Binary _ op a b) =
     (let x = intDenotes a; y = intDenotes b
      in if op = ''+'' then x + y else if op = ''-'' then x - y else if op = ''*'' then x * y
         else truncMod x y)"
| "intDenotes _ = 0"

definition isInt :: "jsval \<Rightarrow> int \<Rightarrow> bool" where
  "isInt v k \<longleftrightarrow> (\<exists>x. v = JNum x \<and> isSafeInteger x \<and> valOf x = of_int k)"

lemma isInt_unary:
  "\<lbrakk>isInt (JNum x) k; op \<in> set [''+'', ''-'']\<rbrakk> \<Longrightarrow>
   isInt (JNum (if op = ''-'' then js_neg x else x)) (if op = ''-'' then - k else k)"
  by (auto simp: isInt_def)

lemma isInt_arith:
  assumes "isInt (JNum x) j" "isInt (JNum y) k" "op \<in> set [''+'', ''-'', ''*'', ''%'']"
    and o: "operateOp pos op (JNum x, True) (JNum y, True) = Inr (v, i)" and c: "checkResult p (v, i) = Inr (v, i)"
  shows "i \<and> isInt v (if op = ''+'' then j + k else if op = ''-'' then j - k
    else if op = ''*'' then j * k else truncMod j k)"
proof -
  have xy: "isSafeInteger x" "isSafeInteger y" "valOf x = of_int j" "valOf y = of_int k"
    using assms(1,2) by (simp_all add: isInt_def)
  let ?z = "if op = ''+'' then js_add x y else if op = ''-'' then js_sub x y
    else if op = ''*'' then js_mul x y else js_rem x y"
  have v: "v = JNum ?z" "i"
    using assms(3) o by (auto simp: operateOp_def relational_def arithmeticOp_def)
  with c have z: "isSafeInteger ?z" by (auto simp: checkResult_def split: if_splits)
  have "isFinite y" using xy(2) by (simp add: isSafeInteger_def isInteger_def)
  then have "valOf y = 0 \<Longrightarrow> js_rem x y = NaN" by (simp add: js_rem_def)
  then have nz: "valOf y \<noteq> 0" if "op = ''%''"
    using z that by (auto simp: isSafeInteger_def isInteger_def)
  have "valOf ?z = of_int (if op = ''+'' then j + k else if op = ''-'' then j - k
      else if op = ''*'' then j * k else truncMod j k)"
    using assms(3) z nz xy js_add_safe [OF xy(1,2)] js_sub_safe [OF xy(1,2)] js_mul_safe [OF xy(1,2)]
      js_rem_int [OF xy(1,2)] by auto
  with v z show ?thesis by (simp add: isInt_def)
qed

lemma int_exact:
  "\<lbrakk>intTree n; evaluate E n s = Inr ((v, i), s')\<rbrakk> \<Longrightarrow> i \<and> isInt v (intDenotes n)"
proof (induction n arbitrary: s v i s' rule: intTree.induct)
  case (1 sp x j)
  from evaluate_literal [OF 1(2)] 1(1) show ?case
    by (auto simp: isInt_def isSafeInteger_def isInteger_def)
next
  case (2 sp op a)
  obtain x j s1 s2 where "evaluate E a s1 = Inr ((JNum x, j), s2)"
    "v = JNum (if op = ''-'' then js_neg x else x)" "i = j"
    using 2(2,3) by (auto simp: evaluate_Inr_iff [of E "Unary sp op a"] unaryOp_def reader_iffs)
  with 2 isInt_unary [of x "intDenotes a" op] show ?case by auto
next
  case (3 sp op a b)
  obtain w s0 s1 where bin: "binaryOp (fst sp) op (nstart a) (evaluate E a) (nstart b) (evaluate E b) s0 = Inr ((v, i), s1)"
    and c: "checkResult (fst sp) (v, i) = Inr (v, i)"
    using 3(4) by (auto simp: evaluate_Inr_iff [of E "Binary sp op a b"])
  have op: "op \<in> set [''+'', ''-'', ''*'', ''%'']" using 3(3) by simp
  then have "op \<notin> set [''&&'', ''||'']" by auto
  then obtain va ia s2 vb ib s3 where ab: "evaluate E a s0 = Inr ((va, ia), s2)"
    "evaluate E b s2 = Inr ((vb, ib), s3)" "operateOp (fst sp) op (va, ia) (vb, ib) = Inr (v, i)"
    by (rule operands [OF _ bin])
  have "ia \<and> isInt va (intDenotes a)" using 3(1) [OF _ ab(1)] 3(3) by simp
  moreover have "ib \<and> isInt vb (intDenotes b)" using 3(2) [OF _ ab(2)] 3(3) by simp
  ultimately obtain x y where "va = JNum x" "vb = JNum y" "isInt (JNum x) (intDenotes a)"
    "isInt (JNum y) (intDenotes b)" "ia" "ib" by (auto simp: isInt_def)
  with isInt_arith [OF _ _ op _ c, of x "intDenotes a" y "intDenotes b" "fst sp"] ab(3) show ?case
    by (simp add: Let_def)
qed simp_all

section \<open>Properties\<close>

text \<open>
  C18. The type pass is sound for the interpreter: the value of a node fits its static type
  (number, string, boolean, nil; anything for dynamic), in every scope and state, provided no
  sum has two dynamic operands.
\<close>

theorem types_sound:
  assumes "hasType n t" "noDynamicSum n" "evaluate E n s = Inr ((v, i), s')"
  shows "valueFits t v"
  using assms by (rule type_sound)

definition negation :: node where
  "negation = Unary (0, 5) ''!'' (Literal (1, 5) (LBool True))"

theorem types_sound_witness:
  "\<exists>s'. evaluate sampleScope negation sampleState = Inr ((JBool False, False), s') \<and>
     valueFits TBoolean (JBool False)"
proof -
  have "case evaluate sampleScope negation sampleState of
      Inr (r, _) \<Rightarrow> r = (JBool False, False) | Inl _ \<Rightarrow> False" by code_simp
  then obtain s' where e: "evaluate sampleScope negation sampleState = Inr ((JBool False, False), s')"
    by (auto split: sum.splits)
  have "hasType negation TBoolean" "noDynamicSum negation"
    using T_Literal [of "(1, 5)" "LBool True"]
    by (auto simp: negation_def noDynamicSum_def fits_def intro!: T_Not)
  from types_sound [OF this e] e show ?thesis by blast
qed

text \<open>
  C20. Integer arithmetic is exact: an expression over integer literals with signs and the
  operators plus, minus, times and remainder either throws or returns, flagged as an integer, the mathematical
  integer it denotes (with the truncated remainder); a rounded result is never returned.
\<close>

theorem integers_exact:
  assumes "intTree n" "evaluate E n s = Inr ((v, i), s')"
  shows "i \<and> (\<exists>x. v = JNum x \<and> isSafeInteger x \<and> valOf x = of_int (intDenotes n))"
  using int_exact [OF assms] by (simp add: isInt_def)

definition remainder :: node where
  "remainder = Binary (0, 6) ''%'' (Unary (0, 2) ''-'' (Literal (1, 2) (LNum (Fin 7) True)))
     (Literal (5, 6) (LNum (Fin 3) True))"

theorem integers_exact_witness:
  "\<exists>v i s'. evaluate sampleScope remainder sampleState = Inr ((v, i), s') \<and>
     i \<and> (\<exists>x. v = JNum x \<and> isSafeInteger x \<and> valOf x = of_int (intDenotes remainder)) \<and>
     intDenotes remainder = - 1"
proof -
  have "isOk (evaluate sampleScope remainder sampleState)" by code_simp
  then obtain v i s' where e: "evaluate sampleScope remainder sampleState = Inr ((v, i), s')"
    using isOkE by fastforce
  have "intTree remainder" "intDenotes remainder = - 1" by code_simp+
  with integers_exact [OF this(1) e] e show ?thesis by blast
qed

end
