(* ===== verification/BxSimulation.thy ===== *)
theory BxSimulation
  imports BxSafety
begin

text \<open>
  Evaluations that run in step. The interface \<open>eval_simulation\<close> relates two scopes and two
  states and derives, by one induction on the tree, that evaluation in the first and in the
  second returns the same value or throws the same exception. One instance says what a result
  depends on, the other that the cache of zone times cannot be observed.
\<close>

section \<open>The simulation\<close>

locale eval_simulation =
  fixes E E' :: scope
    and R :: "runtime \<Rightarrow> runtime \<Rightarrow> bool"
    and V F :: "string set"
  assumes R_level: "R s t \<Longrightarrow> rdepth s = rdepth t"
    and R_set_level: "R s t \<Longrightarrow> R (s\<lparr>rdepth := k\<rparr>) (t\<lparr>rdepth := k\<rparr>)"
    and R_fixed: "R s t \<Longrightarrow> R (s\<lparr>billingUnit := URequest, fixedPrice := Some a\<rparr>)
      (t\<lparr>billingUnit := URequest, fixedPrice := Some a\<rparr>)"
    and R_tier: "R s t \<Longrightarrow> R (s\<lparr>matchedTier := name\<rparr>) (t\<lparr>matchedTier := name\<rparr>)"
    and R_mark: "R s t \<Longrightarrow> R (markRule (scompiled E) n b s) (markRule (scompiled E') n b t)"
    and same_variable: "x \<in> V \<Longrightarrow> variableValue (scontext E) pos x = variableValue (scontext E') pos x"
    and same_request: "''param'' \<in> F \<or> ''header'' \<in> F \<Longrightarrow> xRequest (scontext E) = xRequest (scontext E')"
    and same_headers: "\<lbrakk>''header'' \<in> F; R s t\<rbrakk> \<Longrightarrow> headers s = headers t"
    and same_usage: "''u'' \<in> F \<Longrightarrow> xUsage (scontext E) = xUsage (scontext E')"
    and same_times: "F \<inter> set TIME_FUNCTIONS \<noteq> {} \<Longrightarrow>
      inStep R (onTimes (zoneTimes E z)) (onTimes (zoneTimes E' z))"
begin

abbreviation sim :: "'a run \<Rightarrow> 'a run \<Rightarrow> bool" where
  "sim \<equiv> inStep R"

lemma sim_boolean: "sim m m' \<Longrightarrow> sim (booleanOf pos m) (booleanOf pos m')"
  by (auto simp: booleanOf_def split: jsval.splits intro!: step_intros)

lemma sim_numeric: "sim m m' \<Longrightarrow> sim (numericOf pos m) (numericOf pos m')"
  by (auto simp: numericOf_def split: jsval.splits intro!: step_intros)

lemma sim_string: "sim m m' \<Longrightarrow> sim (stringOf pos m) (stringOf pos m')"
  by (auto simp: stringOf_def split: jsval.splits intro!: step_intros)

lemma sim_enter: "sim enter enter"
  unfolding enter_def
  by (intro step_intros inStep_modify inStep_gets)
     (use R_level R_set_level in \<open>fastforce+\<close>)

lemma sim_leave: "sim leave leave"
  unfolding leave_def by (rule inStep_modify) (use R_level R_set_level in fastforce)

text \<open>Arguments in step: the same positions, computations in step.\<close>

definition simArgs :: "(nat \<times> runtimeValue run) list \<Rightarrow> (nat \<times> runtimeValue run) list \<Rightarrow> bool" where
  "simArgs as as' \<longleftrightarrow> list_all2 (\<lambda>a a'. fst a = fst a' \<and> sim (snd a) (snd a')) as as'"

lemma sim_argAt:
  assumes "simArgs as as'"
  shows "fst (argAt as i) = fst (argAt as' i) \<and> sim (snd (argAt as i)) (snd (argAt as' i))"
  using assms list_all2_lengthD [of _ as as'] list_all2_nthD [of _ as as' i]
  by (auto simp: simArgs_def argAt_def missingArg_def intro!: step_intros sim_enter)

lemma sim_numArg: "simArgs as as' \<Longrightarrow> sim (numArg as i) (numArg as' i)"
  using sim_argAt [of as as' i] by (auto simp: numArg_def intro!: step_intros sim_numeric)

lemma sim_strArg: "simArgs as as' \<Longrightarrow> sim (strArg as i) (strArg as' i)"
  using sim_argAt [of as as' i] by (auto simp: strArg_def intro!: sim_string)

lemma sim_has: "simArgs as as' \<Longrightarrow> sim (call_has as) (call_has as')"
  using sim_argAt [of as as' 0] by (auto simp: call_has_def intro!: step_intros sim_strArg)

lemma sim_param: "\<lbrakk>''param'' \<in> F; simArgs as as'\<rbrakk> \<Longrightarrow> sim (call_param E pos as) (call_param E' pos as')"
  using same_request
  by (auto simp: call_param_def split: option.splits intro!: step_intros sim_strArg)

lemma sim_header: "\<lbrakk>''header'' \<in> F; simArgs as as'\<rbrakk> \<Longrightarrow> sim (call_header E pos as) (call_header E' pos as')"
  using same_request same_headers
  by (auto simp: call_header_def split: option.splits intro!: step_intros sim_strArg inStep_gets)

lemma sim_u: "\<lbrakk>''u'' \<in> F; simArgs as as'\<rbrakk> \<Longrightarrow> sim (call_u E pos as) (call_u E' pos as')"
  using same_usage
  by (auto simp: call_u_def split: option.splits intro!: step_intros sim_strArg)

lemma sim_time:
  "\<lbrakk>f \<in> F; f \<in> set TIME_FUNCTIONS; simArgs as as'\<rbrakk> \<Longrightarrow> sim (call_time E f as) (call_time E' f as')"
  unfolding call_time_def
  by (intro step_intros sim_strArg same_times) auto

lemma sim_fixed: "simArgs as as' \<Longrightarrow> sim (call_fixed as) (call_fixed as')"
  by (auto simp: call_fixed_def intro!: step_intros sim_numArg inStep_modify R_fixed)

lemma sim_tier: "simArgs as as' \<Longrightarrow> sim (call_tier as) (call_tier as')"
  by (auto simp: call_tier_def intro!: step_intros sim_numArg sim_strArg inStep_modify R_tier)

lemma sim_math1: "simArgs as as' \<Longrightarrow> sim (call_math1 g as) (call_math1 g as')"
  by (auto simp: call_math1_def intro!: step_intros sim_numArg)

lemma sim_math2: "simArgs as as' \<Longrightarrow> sim (call_math2 g as) (call_math2 g as')"
  by (auto simp: call_math2_def intro!: step_intros sim_numArg)

lemma sim_call:
  assumes "f \<in> F" "simArgs as as'"
  shows "sim (callOp E pos f as) (callOp E' pos f as')"
  unfolding callOp_def
  by (intro inStep_if inStep_throw sim_has sim_fixed sim_tier sim_math1 sim_math2 assms)
     (use assms in \<open>auto intro: sim_param sim_header sim_u sim_time\<close>)

lemma sim_unary: "sim m m' \<Longrightarrow> sim (unaryOp op pos m) (unaryOp op pos m')"
  by (auto simp: unaryOp_def intro!: step_intros sim_boolean sim_numeric)

lemma sim_binary:
  "\<lbrakk>sim l l'; sim r r'\<rbrakk> \<Longrightarrow> sim (binaryOp pos op lp l rp r) (binaryOp pos op lp l' rp r')"
  by (auto simp: binaryOp_def intro!: step_intros sim_boolean)

lemma sim_conditional:
  "\<lbrakk>sim c c'; sim y y'; sim n n'\<rbrakk> \<Longrightarrow>
   sim (conditionalOp E nd pos c y n) (conditionalOp E' nd pos c' y' n')"
  by (auto simp: conditionalOp_def intro!: step_intros sim_boolean inStep_modify R_mark)

lemma sim_evaluate:
  "\<lbrakk>varsOf n \<subseteq> V; callsOf n \<subseteq> F\<rbrakk> \<Longrightarrow> sim (evaluate E n) (evaluate E' n)"
proof (induction n rule: node_children_induct)
  case (node n)
  have children: "sim (evaluate E c) (evaluate E' c)" if c: "c \<in> set (children n)" for c
  proof (rule node.IH [OF c])
    show "varsOf c \<subseteq> V" using node.prems(1) c by (cases n) auto
    show "callsOf c \<subseteq> F" using node.prems(2) c by (cases n) auto
  qed
  have "sim (evaluateNode E n) (evaluateNode E' n)"
  proof (cases n)
    case (Variable sp x)
    then show ?thesis using node.prems(1) same_variable by (auto intro!: step_intros)
  next
    case (Call sp f args)
    have "simArgs (map (\<lambda>a. (nstart a, evaluate E a)) args) (map (\<lambda>a. (nstart a, evaluate E' a)) args)"
      using children Call by (simp add: simArgs_def list.rel_map list.rel_refl_strong)
    then show ?thesis using node.prems(2) Call by (auto intro!: sim_call)
  qed (use children in \<open>auto intro!: step_intros sim_unary sim_binary sim_conditional\<close>)
  then show ?case
    by (auto simp: evaluate.simps [of _ n] intro!: step_intros sim_enter sim_leave)
qed

end

section \<open>The cache of zone times cannot be observed\<close>

text \<open>States that agree except for the cache, both caches holding true entries only.\<close>

definition uncached :: "runtime \<Rightarrow> runtime" where
  "uncached s = s\<lparr>timeValues := []\<rparr>"

definition upToCache :: "scope \<Rightarrow> runtime \<Rightarrow> runtime \<Rightarrow> bool" where
  "upToCache E s t \<longleftrightarrow> uncached s = uncached t \<and>
     zone_cache.valid E (timeValues s) \<and> zone_cache.valid E (timeValues t)"

lemma markRule_timeValues [simp]: "timeValues (markRule c n b s) = timeValues s"
  by (simp add: markRule_def split: option.splits)

lemma uncached_mark: "uncached (markRule c n b s) = markRule c n b (uncached s)"
  by (simp add: markRule_def uncached_def split: option.splits)

lemma runtime_eq_iff:
  "(s :: runtime) = t \<longleftrightarrow> requestRules s = requestRules t \<and> matchedTier s = matchedTier t \<and>
     billingUnit s = billingUnit t \<and> fixedPrice s = fixedPrice t \<and> timeValues s = timeValues t \<and>
     headers s = headers t \<and> rdepth s = rdepth t"
  by (cases s; cases t) auto

lemma uncached_eq_iff:
  "uncached s = uncached t \<longleftrightarrow> requestRules s = requestRules t \<and> matchedTier s = matchedTier t \<and>
     billingUnit s = billingUnit t \<and> fixedPrice s = fixedPrice t \<and>
     headers s = headers t \<and> rdepth s = rdepth t"
  by (simp add: uncached_def runtime_eq_iff)

lemma onTimes_upToCache: "inStep (upToCache E) (onTimes (zoneTimes E z)) (onTimes (zoneTimes E z))"
  unfolding inStep_def
proof (intro allI impI)
  fix s t
  assume st: "upToCache E s t"
  then have v: "zone_cache.valid E (timeValues s)" "zone_cache.valid E (timeValues t)"
    by (simp_all add: upToCache_def)
  let ?now = "timeInBillingZone (hintl (shost E)) (nowOf E) z"
  show "case onTimes (zoneTimes E z) s of Inl e \<Rightarrow> onTimes (zoneTimes E z) t = Inl e
    | Inr (a, s') \<Rightarrow> (\<exists>t'. onTimes (zoneTimes E z) t = Inr (a, t') \<and> upToCache E s' t')"
  proof (cases ?now)
    case (Inl e)
    then have "zoneTimes E z (timeValues s) = Inl e" "zoneTimes E z (timeValues t) = Inl e"
      using zone_cache.call_throws v by blast+
    then show ?thesis by (simp add: onTimes_def)
  next
    case (Inr r)
    then obtain c c' where "zoneTimes E z (timeValues s) = Inr (r, c)" "zone_cache.valid E c"
      "zoneTimes E z (timeValues t) = Inr (r, c')" "zone_cache.valid E c'"
      using zone_cache.call_ok v by meson
    with st show ?thesis by (simp add: onTimes_def upToCache_def uncached_def)
  qed
qed

interpretation same_up_to_cache: eval_simulation E E "upToCache E" UNIV UNIV for E
proof (unfold_locales, goal_cases)
  case (5 s t n b)
  then show ?case by (simp add: upToCache_def uncached_mark)
next
  case (10 z)
  show ?case by (rule onTimes_upToCache)
qed (auto simp: upToCache_def uncached_eq_iff)

section \<open>What a result depends on\<close>

text \<open>Two contexts agree on what a tree mentions.\<close>

definition agreeOn :: "node \<Rightarrow> simulationContext \<Rightarrow> simulationContext \<Rightarrow> bool" where
  "agreeOn n ctx ctx' \<longleftrightarrow>
     (\<forall>x\<in>varsOf n - {''image_count''}. tokenOf ctx x = tokenOf ctx' x) \<and>
     (''image_count'' \<in> varsOf n \<longrightarrow> xImageCount ctx = xImageCount ctx') \<and>
     (callsOf n \<inter> {''param'', ''header''} \<noteq> {} \<longrightarrow> xRequest ctx = xRequest ctx') \<and>
     (''u'' \<in> callsOf n \<longrightarrow> xUsage ctx = xUsage ctx') \<and>
     (callsOf n \<inter> set TIME_FUNCTIONS \<noteq> {} \<longrightarrow> xNow ctx = xNow ctx')"

definition unheaded :: "runtime \<Rightarrow> runtime" where
  "unheaded s = s\<lparr>headers := Map.empty\<rparr>"

definition sameButHeaders :: "bool \<Rightarrow> runtime \<Rightarrow> runtime \<Rightarrow> bool" where
  "sameButHeaders needed s t \<longleftrightarrow> unheaded s = unheaded t \<and> (needed \<longrightarrow> headers s = headers t)"

lemma unheaded_eq_iff:
  "unheaded s = unheaded t \<longleftrightarrow> requestRules s = requestRules t \<and> matchedTier s = matchedTier t \<and>
     billingUnit s = billingUnit t \<and> fixedPrice s = fixedPrice t \<and> timeValues s = timeValues t \<and>
     rdepth s = rdepth t"
  by (auto simp: unheaded_def runtime_eq_iff)

lemma sameButHeaders_mark:
  "sameButHeaders b s t \<Longrightarrow> sameButHeaders b (markRule c n q s) (markRule c n q t)"
  by (auto simp: sameButHeaders_def unheaded_eq_iff markRule_def split: option.splits)

lemma onTimes_sameButHeaders:
  assumes "\<And>c. zoneTimes E z c = zoneTimes E' z c"
  shows "inStep (sameButHeaders b) (onTimes (zoneTimes E z)) (onTimes (zoneTimes E' z))"
  unfolding inStep_def
proof (intro allI impI)
  fix s t
  assume st: "sameButHeaders b s t"
  then have "timeValues s = timeValues t" by (simp add: sameButHeaders_def unheaded_eq_iff)
  then show "case onTimes (zoneTimes E z) s of Inl e \<Rightarrow> onTimes (zoneTimes E' z) t = Inl e
    | Inr (a, s') \<Rightarrow> (\<exists>t'. onTimes (zoneTimes E' z) t = Inr (a, t') \<and> sameButHeaders b s' t')"
    using st assms
    by (auto simp: onTimes_def sameButHeaders_def unheaded_eq_iff rbind_def split: sum.splits)
qed

lemma agree_simulation:
  assumes "agreeOn n ctx ctx'"
    and E: "E = \<lparr>shost = h, scompiled = c, scontext = ctx\<rparr>"
    and E': "E' = \<lparr>shost = h, scompiled = c, scontext = ctx'\<rparr>"
  shows "eval_simulation E E' (sameButHeaders (''header'' \<in> callsOf n)) (varsOf n) (callsOf n)"
proof (unfold_locales, goal_cases)
  case (5 s t nd b)
  then show ?case by (simp add: E E' sameButHeaders_mark)
next
  case (6 x pos)
  then show ?case using assms(1) by (auto simp: E E' variableValue_def agreeOn_def)
next
  case (10 z)
  then have "xNow ctx = xNow ctx'" using assms(1) by (auto simp: agreeOn_def)
  then have "nowOf E = nowOf E'" "shost E = shost E'"
    by (cases "xNow ctx'"; simp add: nowOf_def E E')+
  then have "zoneTimes E z cache = zoneTimes E' z cache" for cache
    by (cases "map_of cache z") (simp_all add: zoneTimes_def)
  then show ?case by (rule onTimes_sameButHeaders)
qed (use assms(1) in \<open>auto simp: E E' sameButHeaders_def unheaded_eq_iff agreeOn_def\<close>)

lemma newRuntime_agree:
  assumes "newRuntime c ctx = Inr s" "newRuntime c ctx' = Inr t"
    and "needed \<Longrightarrow> xRequest ctx = xRequest ctx'"
  shows "sameButHeaders needed s t"
proof -
  have "s = t" if "contextHeaders ctx = contextHeaders ctx'"
    using assms(1,2) that by (auto simp: newRuntime_def)
  moreover have "needed \<Longrightarrow> contextHeaders ctx = contextHeaders ctx'"
    using assms(3) by (simp add: contextHeaders_def)
  ultimately show ?thesis
    using assms(1,2) by (auto simp: sameButHeaders_def unheaded_eq_iff newRuntime_def rbind_eq_Inr_iff)
qed

lemma evaluationBody_agree:
  assumes "compiledOk c" and agree: "agreeOn (cast c) ctx ctx'"
    and run: "newRuntime c ctx = Inr s" "newRuntime c ctx' = Inr t"
    and tokens: "isOk (foldBx checkToken (case xTokens ctx of None \<Rightarrow> [] | Some ts \<Rightarrow> ts) ())"
      "isOk (foldBx checkToken (case xTokens ctx' of None \<Rightarrow> [] | Some ts \<Rightarrow> ts) ())"
  shows "evaluationBody h c ctx = evaluationBody h c ctx'"
proof -
  let ?E = "\<lparr>shost = h, scompiled = c, scontext = ctx\<rparr>"
  let ?E' = "\<lparr>shost = h, scompiled = c, scontext = ctx'\<rparr>"
  let ?R = "sameButHeaders (''header'' \<in> callsOf (cast c))"
  have R: "?R s t" using agree by (intro newRuntime_agree [OF run]) (auto simp: agreeOn_def)
  have sim: "inStep ?R (evaluate ?E (cast c)) (evaluate ?E' (cast c))"
    using eval_simulation.sim_evaluate [OF agree_simulation [OF agree refl refl, of h c]] by blast
  have image: "orOne (xImageCount ctx) = orOne (xImageCount ctx')" if "''image_count'' \<in> set (cvariables c)"
    using agree that assms(1) by (simp add: agreeOn_def compiledOk_def)
  have ok: "\<exists>u. foldBx checkToken (case xTokens ctx of None \<Rightarrow> [] | Some ts \<Rightarrow> ts) () = Inr u"
      "\<exists>u. foldBx checkToken (case xTokens ctx' of None \<Rightarrow> [] | Some ts \<Rightarrow> ts) () = Inr u"
    using tokens by (auto dest: isOkE)
  show ?thesis
  proof (cases "evaluate ?E (cast c) s")
    case (Inl e)
    then have "evaluate ?E' (cast c) t = Inl e" by (rule inStep_Inl [OF sim, OF R])
    with Inl ok show ?thesis by (auto simp: evaluationBody_def run)
  next
    case (Inr r)
    obtain v i s' where r: "r = ((v, i), s')" by (metis prod.exhaust)
    with Inr have s': "evaluate ?E (cast c) s = Inr ((v, i), s')" by simp
    from inStep_Inr [OF sim, OF R this] obtain t' where
      "evaluate ?E' (cast c) t = Inr ((v, i), t')" "?R s' t'" by (elim exE conjE)
    with s' ok image show ?thesis
      by (auto simp: evaluationBody_def run sameButHeaders_def unheaded_eq_iff intro!: rbind_cong)
  qed
qed

section \<open>Properties\<close>

text \<open>
  C21. The cache of zone times cannot be observed: from a state whose cache holds true entries,
  evaluation throws the same exception, or returns the same value in the same state up to the
  cache, as from the state with an empty cache.
\<close>

theorem time_cache_transparent:
  assumes "zone_cache.valid E (timeValues s)"
  shows "case evaluate E n s of
     Inl e \<Rightarrow> evaluate E n (uncached s) = Inl e
   | Inr (r, s') \<Rightarrow> \<exists>t'. evaluate E n (uncached s) = Inr (r, t') \<and> uncached s' = uncached t'"
proof -
  have sim: "inStep (upToCache E) (evaluate E n) (evaluate E n)"
    using same_up_to_cache.sim_evaluate by simp
  have st: "upToCache E s (uncached s)"
    using assms zone_cache.valid_fresh [of E] by (simp add: upToCache_def uncached_def)
  show ?thesis
  proof (cases "evaluate E n s")
    case (Inl e)
    with inStep_Inl [OF sim, OF st] show ?thesis by simp
  next
    case (Inr p)
    obtain r s' where p: "p = (r, s')" by (cases p)
    with Inr inStep_Inr [OF sim, OF st] show ?thesis by (auto simp: upToCache_def)
  qed
qed

definition hourCall :: node where
  "hourCall = Call (0, 11) ''hour'' [Literal (5, 10) (LStr ''UTC'')]"

definition warmState :: runtime where
  "warmState = sampleState\<lparr>timeValues := [(''UTC'', utcRecord 1700000000000)]\<rparr>"

theorem time_cache_transparent_witness:
  "case evaluate sampleScope hourCall warmState of
     Inl e \<Rightarrow> evaluate sampleScope hourCall (uncached warmState) = Inl e
   | Inr (r, s') \<Rightarrow> \<exists>t'. evaluate sampleScope hourCall (uncached warmState) = Inr (r, t') \<and> uncached s' = uncached t'"
proof (rule time_cache_transparent)
  have "timeInBillingZone (hintl (shost sampleScope)) (nowOf sampleScope) ''UTC'' = Inr (utcRecord 1700000000000)"
    by code_simp
  then show "zone_cache.valid sampleScope (timeValues warmState)"
    by (auto simp: zone_cache.valid_def warmState_def split: if_splits)
qed

text \<open>The state the constructor builds without headers.\<close>

definition newState :: "compiledBillingExpression \<Rightarrow> runtime" where
  "newState c =
     \<lparr>requestRules = map (\<lambda>r. \<lparr>bcond = rcond r, bmultiplier = rmultiplier r, bmatched = False\<rparr>) (crules c),
      matchedTier = [], billingUnit = UToken, fixedPrice = None, timeValues = [],
      headers = Map.empty, rdepth = 0\<rparr>"

text \<open>
  C3. A cost depends only on what its expression mentions: for two contexts that agree on the
  token counts of the variables in the expression, on the image count if it occurs, on the
  request if \<open>param\<close> or \<open>header\<close> is called, on the usage if \<open>u\<close> is called and on the time if a
  time function is called, and that pass the entry checks, the outcome is the same.
\<close>

theorem result_depends_on_mentioned:
  assumes "compiledOk c" "agreeOn (cast c) ctx ctx'"
    "newRuntime c ctx = Inr s" "newRuntime c ctx' = Inr t"
    "isOk (foldBx checkToken (case xTokens ctx of None \<Rightarrow> [] | Some ts \<Rightarrow> ts) ())"
    "isOk (foldBx checkToken (case xTokens ctx' of None \<Rightarrow> [] | Some ts \<Rightarrow> ts) ())"
  shows "evaluationBody h c ctx = evaluationBody h c ctx'"
  using assms by (rule evaluationBody_agree)

theorem result_depends_on_mentioned_witness:
  "\<exists>c. compileFresh ''p'' = Ready c \<and>
     evaluationBody sampleHost c sampleContext =
     evaluationBody sampleHost c (emptyContext\<lparr>xTokens := Some [(''p'', JNum (Fin 1000))]\<rparr>)"
proof -
  let ?ctx = "emptyContext\<lparr>xTokens := Some [(''p'', JNum (Fin 1000))]\<rparr>"
  have "case compileBody ''p'' of Inr c \<Rightarrow> cast c = Variable (0, 1) ''p'' | Inl _ \<Rightarrow> False" by code_simp
  then obtain c where c: "compileBody ''p'' = Inr c" "cast c = Variable (0, 1) ''p''"
    by (auto split: sum.splits)
  note ctxs = sampleContext_def emptyContext_def
  have "evaluationBody sampleHost c sampleContext = evaluationBody sampleHost c ?ctx"
  proof (rule result_depends_on_mentioned)
    show "compiledOk c" using compileBody_ok [OF c(1)] by simp
    show "agreeOn (cast c) sampleContext ?ctx"
      by (simp add: c(2) agreeOn_def tokenOf_def ctxs)
    show "newRuntime c sampleContext = Inr (newState c)" "newRuntime c ?ctx = Inr (newState c)"
      by (simp_all add: newRuntime_def contextHeaders_def ctxs newState_def)
  qed (simp_all add: ctxs checkToken_def)
  with c(1) show ?thesis by (auto simp: compileFresh_Ready)
qed

end
