(* ===== verification/BxDisplay.thy ===== *)
theory BxDisplay
  imports BxPricing
begin

text \<open>
  Model of \<open>billing-expression/display.ts\<close>: reading price tables back from a compiled
  expression. \<open>readTokenTierChain\<close> recognises an ordered chain of token tiers,
  \<open>readTimeTokenPricing\<close> one that branches on the clock first, \<open>readTaskTierChain\<close> one that
  branches on declared task facts. The theory relates what is displayed to what the
  interpreter does.
\<close>

section \<open>Token tiers\<close>

record tierCondition =
  tvar :: string
  toperator :: string
  tvalue :: jsnum

text \<open>\<open>TokenTier\<close>; optional fields are options, \<open>imageCount\<close> is present or not.\<close>

record tierRow =
  conditionText :: "string option"
  imageCount :: bool
  tunit :: "billingUnit option"
  tfixedPrice :: "jsnum option"
  tlabel :: string
  tconditions :: "tierCondition list"
  tprices :: "(string \<times> jsnum) list"

fun flattenBinary :: "string \<Rightarrow> node \<Rightarrow> node list" where
  "flattenBinary operator (Binary sp op l r) =
     (if op = operator then flattenBinary operator l @ flattenBinary operator r
      else [Binary sp op l r])"
| "flattenBinary operator n = [n]"

lemma flattenBinary_size: "m \<in> set (flattenBinary op n) \<Longrightarrow> size m \<le> size n"
  by (induction op n rule: flattenBinary.induct) (auto split: if_splits)

fun tokenCondition :: "node \<Rightarrow> tierCondition option" where
  "tokenCondition (Binary _ op (Variable _ x) (Literal _ (LNum v _))) =
     (if op \<in> set [''<'', ''<='', ''>'', ''>=''] \<and> x \<in> set [''p'', ''c'', ''len''] \<and> \<not> js_lt v (Fin 0)
      then Some \<lparr>tvar = x, toperator = op, tvalue = v\<rparr> else None)"
| "tokenCondition _ = None"

definition tokenConditions :: "node \<Rightarrow> tierCondition list option" where
  "tokenConditions n = those (map tokenCondition (flattenBinary ''&&'' n))"

definition isZeroLiteral :: "node \<Rightarrow> bool" where
  "isZeroLiteral n = (case n of Literal _ (LNum v _) \<Rightarrow> js_eq v (Fin 0) | _ \<Rightarrow> False)"

fun nonnegativePriceLiteral :: "node \<Rightarrow> jsnum option" where
  "nonnegativePriceLiteral (Literal _ (LNum v _)) = (if js_le (Fin 0) v then Some v else None)"
| "nonnegativePriceLiteral (Unary _ op a) =
     (if op = ''-'' \<and> isZeroLiteral a then Some NegZero else None)"
| "nonnegativePriceLiteral _ = None"

text \<open>\<open>len - ai\<close>, the text input of an audio request.\<close>

definition isTextRemainder :: "node \<Rightarrow> bool" where
  "isTextRemainder n =
     (case n of Binary _ op (Variable _ x) (Variable _ y) \<Rightarrow> op = ''-'' \<and> x = ''len'' \<and> y = ''ai'' | _ \<Rightarrow> False)"

definition priceVariable :: "node \<Rightarrow> string option" where
  "priceVariable input =
     (case input of
        Variable _ x \<Rightarrow> if x \<noteq> ''len'' \<and> x \<noteq> ''image_count'' then Some x else None
      | Call _ f [a, b] \<Rightarrow>
          if f \<noteq> ''max'' then None
          else if isZeroLiteral a then (if isTextRemainder b then Some ''p'' else None)
          else if isZeroLiteral b then (if isTextRemainder a then Some ''p'' else None)
          else None
      | _ \<Rightarrow> None)"

fun priceTerm :: "node \<Rightarrow> (string \<times> jsnum) option" where
  "priceTerm (Binary _ op l r) =
     (if op \<noteq> ''*'' then None
      else case nonnegativePriceLiteral r of
        Some price \<Rightarrow> map_option (\<lambda>x. (x, price)) (priceVariable l)
      | None \<Rightarrow>
          (case nonnegativePriceLiteral l of
             Some price \<Rightarrow> map_option (\<lambda>x. (x, price)) (priceVariable r)
           | None \<Rightarrow> None))"
| "priceTerm _ = None"

text \<open>The loop over the terms; a variable may be priced once.\<close>

fun tokenPrices :: "node list \<Rightarrow> (string \<times> jsnum) list \<Rightarrow> (string \<times> jsnum) list option" where
  "tokenPrices [] prices = Some prices"
| "tokenPrices (t # ts) prices =
     (case priceTerm t of
        None \<Rightarrow> None
      | Some (x, price) \<Rightarrow>
          if x \<in> fst ` set prices then None else tokenPrices ts (prices @ [(x, price)]))"

definition bareTier :: "string \<Rightarrow> tierCondition list \<Rightarrow> tierRow" where
  "bareTier label conditions =
     \<lparr>conditionText = None, imageCount = False, tunit = None, tfixedPrice = None, tlabel = label,
      tconditions = conditions, tprices = []\<rparr>"

text \<open>The branches on the second argument of \<open>tier\<close>.\<close>

definition tierBody :: "string \<Rightarrow> tierCondition list \<Rightarrow> node \<Rightarrow> tierRow option bx" where
  "tierBody label conditions body =
     (let linear =
        (case tokenPrices (flattenBinary ''+'' body) [] of
           Some prices \<Rightarrow> if prices = [] then None else Some ((bareTier label conditions)\<lparr>tprices := prices\<rparr>)
         | None \<Rightarrow> None)
      in case body of
           Call _ f args \<Rightarrow>
             if f = ''fixed'' then
               (case args of
                  [] \<Rightarrow> Inl (JsError ''TypeError'')
                | Literal _ (LNum v _) # _ \<Rightarrow>
                    Inr (Some ((bareTier label conditions)\<lparr>tunit := Some URequest, tfixedPrice := Some v\<rparr>))
                | _ \<Rightarrow> Inr linear)
             else Inr linear
         | _ \<Rightarrow> Inr linear)"

definition tokenTier :: "node \<Rightarrow> tierCondition list \<Rightarrow> tierRow option bx" where
  "tokenTier n conditions =
     (case n of
        Call _ f (Literal _ (LStr label) # rest) \<Rightarrow>
          if f \<noteq> ''tier'' then Inr None
          else (case rest of
                  [] \<Rightarrow> Inl (JsError ''TypeError'')
                | body # _ \<Rightarrow> tierBody label conditions body)
      | _ \<Rightarrow> Inr None)"

section \<open>Chains\<close>

text \<open>\<open>ai > 0\<close> or \<open>ao > 0\<close>.\<close>

definition audioProbe :: "node \<Rightarrow> string option" where
  "audioProbe n =
     (case n of
        Binary _ op (Variable _ x) r \<Rightarrow>
          if op = ''>'' \<and> x \<in> set [''ai'', ''ao''] \<and> isZeroLiteral r then Some x else None
      | _ \<Rightarrow> None)"

definition audioTiers :: "node \<Rightarrow> tierRow list option bx" where
  "audioTiers n =
     (case n of
        Conditional _ (Binary _ op l r) yes no \<Rightarrow>
          if op = ''||'' \<and> audioProbe l \<noteq> None \<and> audioProbe r \<noteq> None \<and> audioProbe l \<noteq> audioProbe r
          then rbind (tokenTier yes []) (\<lambda>audio. rbind (tokenTier no []) (\<lambda>text.
            Inr (case (audio, text) of
                   (Some a, Some b) \<Rightarrow>
                     Some [a\<lparr>conditionText := Some ''Audio requests''\<rparr>,
                           b\<lparr>conditionText := Some ''Text-only requests''\<rparr>]
                 | _ \<Rightarrow> None)))
          else Inr None
      | _ \<Rightarrow> Inr None)"

text \<open>The \<open>while\<close> loop over the conditionals.\<close>

fun chainFrom :: "node \<Rightarrow> tierRow list option bx" where
  "chainFrom (Conditional _ c yes no) =
     (case tokenConditions c of
        None \<Rightarrow> Inr None
      | Some conditions \<Rightarrow>
          rbind (tokenTier yes conditions) (\<lambda>tier.
          case tier of
            None \<Rightarrow> Inr None
          | Some t \<Rightarrow> rbind (chainFrom no) (\<lambda>rest. Inr (map_option ((#) t) rest))))"
| "chainFrom n = rbind (tokenTier n []) (\<lambda>tier. Inr (map_option (\<lambda>t. [t]) tier))"

definition isImageCount :: "node \<Rightarrow> bool" where
  "isImageCount n = (case n of Variable _ x \<Rightarrow> x = ''image_count'' | _ \<Rightarrow> False)"

fun readTokenTierChain :: "node \<Rightarrow> tierRow list option bx" where
  "readTokenTierChain (Binary sp op l r) =
     (if op = ''*'' \<and> isImageCount l then
        rbind (readTokenTierChain r) (\<lambda>ts. Inr (map_option (map (\<lambda>t. t\<lparr>imageCount := True\<rparr>)) ts))
      else if op = ''*'' \<and> isImageCount r then
        rbind (readTokenTierChain l) (\<lambda>ts. Inr (map_option (map (\<lambda>t. t\<lparr>imageCount := True\<rparr>)) ts))
      else chainFrom (Binary sp op l r))"
| "readTokenTierChain n =
     rbind (audioTiers n) (\<lambda>audio. case audio of Some ts \<Rightarrow> Inr (Some ts) | None \<Rightarrow> chainFrom n)"

section \<open>Tiers that depend on the clock\<close>

definition isTimeCondition :: "node \<Rightarrow> bool bx" where
  "isTimeCondition n =
     rbind (expressionDependencies n) (\<lambda>d.
     Inr (depVariables d = [] \<and> list_ex (\<lambda>f. f \<in> set TIME_FUNCTIONS) (depFunctions d) \<and>
       list_all (\<lambda>f. f \<in> set (TIME_FUNCTIONS @ [''min'', ''max'', ''abs'', ''ceil'', ''floor''])) (depFunctions d)))"

type_synonym timePath = "(node \<times> bool) list"

text \<open>\<open>TimeTokenTier\<close>: a tier with the path of time conditions that leads to it.\<close>

record timeTokenTier =
  ttier :: tierRow
  timeConditions :: timePath

definition pathText :: "string \<Rightarrow> timePath \<Rightarrow> string" where
  "pathText src path =
     joinWith '' && '' (map (\<lambda>(c, matches).
       let text = slice src (nstart c) (nend c)
       in if matches then ''('' @ text @ '')'' else ''!('' @ text @ '')'') path)"

definition conditionSource :: "tierCondition \<Rightarrow> string" where
  "conditionSource c = tvar c @ '' '' @ toperator c @ '' '' @ numString (tvalue c)"

definition timeTier :: "string \<Rightarrow> timePath \<Rightarrow> tierRow \<Rightarrow> timeTokenTier" where
  "timeTier src path t =
     \<lparr>ttier = t\<lparr>conditionText := Some (joinWith '' && '' (pathText src path # map conditionSource (tconditions t)))\<rparr>,
      timeConditions = path\<rparr>"

text \<open>The leaf of \<open>timeTierBranches\<close>.\<close>

definition timeTierLeaf :: "string \<Rightarrow> node \<Rightarrow> timePath \<Rightarrow> timeTokenTier list option bx" where
  "timeTierLeaf src n path =
     rbind (readTokenTierChain n) (\<lambda>tiers.
     case tiers of
       None \<Rightarrow> Inr None
     | Some ts \<Rightarrow> Inr (if path = [] then None else Some (map (timeTier src path) ts)))"

fun timeTierBranches :: "string \<Rightarrow> node \<Rightarrow> timePath \<Rightarrow> timeTokenTier list option bx" where
  "timeTierBranches src (Conditional sp c yes no) path =
     rbind (isTimeCondition c) (\<lambda>timed.
     if timed then
       rbind (timeTierBranches src yes (path @ [(c, True)])) (\<lambda>y.
       rbind (timeTierBranches src no (path @ [(c, False)])) (\<lambda>n.
       Inr (case (y, n) of (Some ys, Some ns) \<Rightarrow> Some (ys @ ns) | _ \<Rightarrow> None)))
     else timeTierLeaf src (Conditional sp c yes no) path)"
| "timeTierBranches src n path = timeTierLeaf src n path"

record timePricing =
  tiersAll :: "timeTokenTier list"
  tiersCurrent :: "timeTokenTier list"

definition pathMatches :: "host \<Rightarrow> compiledBillingExpression \<Rightarrow> date \<Rightarrow> timeTokenTier \<Rightarrow> bool" where
  "pathMatches h compiled now t \<longleftrightarrow>
     list_all (\<lambda>(c, matches). evaluateBillingCondition h compiled c now = Some matches) (timeConditions t)"

definition readTimeTokenPricing ::
    "host \<Rightarrow> string \<Rightarrow> date option \<Rightarrow> compiledCache \<Rightarrow> timePricing option bx \<times> compiledCache" where
  "readTimeTokenPricing h src now cache =
     (let (result, cache') = compileBillingExpression src cache
      in (case result of
            CompileFailure _ \<Rightarrow> Inr None
          | Ready compiled \<Rightarrow>
              rbind (timeTierBranches (csource compiled) (cast compiled) []) (\<lambda>tiers.
              Inr (map_option (\<lambda>ts.
                \<lparr>tiersAll = ts,
                 tiersCurrent = (case now of None \<Rightarrow> [] | Some d \<Rightarrow> filter (pathMatches h compiled d) ts)\<rparr>) tiers)),
          cache'))"

section \<open>Task tiers\<close>

record usageField =
  utype :: "string option"
  uunit :: "string option"
  uenum :: "string list option"

type_synonym usageSchema = "(string \<times> usageField) list"

text \<open>
  \<open>schema[field]\<close> also finds the properties every object inherits; they are functions or
  objects without any of the fields of a schema entry.
\<close>

definition OBJECT_PROPERTIES :: "string list" where
  "OBJECT_PROPERTIES =
     [''constructor'', ''__defineGetter__'', ''__defineSetter__'', ''hasOwnProperty'',
      ''__lookupGetter__'', ''__lookupSetter__'', ''isPrototypeOf'', ''propertyIsEnumerable'',
      ''toString'', ''valueOf'', ''__proto__'', ''toLocaleString'']"

definition schemaField :: "usageSchema \<Rightarrow> string \<Rightarrow> usageField option" where
  "schemaField schema f =
     (case map_of schema f of
        Some d \<Rightarrow> Some d
      | None \<Rightarrow>
          if f \<in> set OBJECT_PROPERTIES then Some \<lparr>utype = None, uunit = None, uenum = None\<rparr> else None)"

text \<open>
  A row of a task table. The unit prices are listed in the order of insertion; the object of the
  source lists keys that are array indices first.
\<close>

record taskTierRow =
  kconditionText :: "string option"
  klabel :: string
  kconditions :: "(string \<times> string) list"
  kconstant :: jsnum
  kunitPrices :: "(string \<times> jsnum) list"

fun litString :: "lit \<Rightarrow> string" where
  "litString (LStr s) = s"
| "litString (LNum x _) = numString x"
| "litString (LBool b) = (if b then ''true'' else ''false'')"
| "litString LNull = ''null''"

text \<open>\<open>u("field")\<close>: the field name, nothing for another node, a TypeError without an argument.\<close>

definition usageProbe :: "node \<Rightarrow> string option bx" where
  "usageProbe n =
     (case n of
        Call _ f args \<Rightarrow>
          if f \<noteq> ''u'' then Inr None
          else (case args of
                  [] \<Rightarrow> Inl (JsError ''TypeError'')
                | Literal _ (LStr field) # _ \<Rightarrow> Inr (Some field)
                | _ \<Rightarrow> Inr None)
      | _ \<Rightarrow> Inr None)"

text \<open>One round of the loop: the conditions so far and whether the branch can be reached.\<close>

type_synonym taskConditionState = "(string \<times> string) list \<times> bool"

definition taskCondition ::
    "usageSchema \<Rightarrow> bool \<Rightarrow> string \<Rightarrow> lit \<Rightarrow> taskConditionState \<Rightarrow> taskConditionState option" where
  "taskCondition schema includeBoolean field v st =
     (let (conditions, reachable) = st
      in case schemaField schema field of
           None \<Rightarrow>
             (case v of
                LBool b \<Rightarrow> Some (conditions, reachable \<and> \<not> b)
              | LStr _ \<Rightarrow> Some (conditions, reachable)
              | _ \<Rightarrow> None)
         | Some d \<Rightarrow>
             if utype d = Some ''boolean'' then
               (case v of
                  LBool _ \<Rightarrow>
                    if includeBoolean then Some (conditions @ [(field, litString v)], reachable) else None
                | _ \<Rightarrow> None)
             else (case (v, uenum d) of
                     (LStr s, Some values) \<Rightarrow>
                       Some (conditions @ [(field, litString v)], reachable \<and> s \<in> set values)
                   | _ \<Rightarrow> None))"

definition taskConditionTerm ::
    "usageSchema \<Rightarrow> bool \<Rightarrow> node \<Rightarrow> taskConditionState \<Rightarrow> taskConditionState option bx" where
  "taskConditionTerm schema includeBoolean term st =
     (case term of
        Binary _ op l r \<Rightarrow>
          if op \<noteq> ''=='' then Inr None
          else rbind (usageProbe l) (\<lambda>probe.
            Inr (case (probe, r) of
                   (Some field, Literal _ v) \<Rightarrow> taskCondition schema includeBoolean field v st
                 | _ \<Rightarrow> None))
      | _ \<Rightarrow> Inr None)"

text \<open>A loop whose body may return null or throw.\<close>

fun optionLoop :: "('a \<Rightarrow> 's \<Rightarrow> 's option bx) \<Rightarrow> 'a list \<Rightarrow> 's \<Rightarrow> 's option bx" where
  "optionLoop f [] s = Inr (Some s)"
| "optionLoop f (x # xs) s =
     rbind (f x s) (\<lambda>r. case r of None \<Rightarrow> Inr None | Some s' \<Rightarrow> optionLoop f xs s')"

datatype taskConditionsResult = Unreachable | Conditions "(string \<times> string) list"

definition taskConditions :: "usageSchema \<Rightarrow> bool \<Rightarrow> node \<Rightarrow> taskConditionsResult option bx" where
  "taskConditions schema includeBoolean n =
     rbind (optionLoop (taskConditionTerm schema includeBoolean) (flattenBinary ''&&'' n) ([], True))
       (\<lambda>r. Inr (map_option (\<lambda>(conditions, reachable).
          if reachable then Conditions conditions else Unreachable) r))"

record taskPriceState =
  pconstant :: "jsnum option"
  punitPrices :: "(string \<times> jsnum) list"

text \<open>The division by a million that scales a token price.\<close>

definition scaledTerm :: "node \<Rightarrow> (bool \<times> node) option" where
  "scaledTerm term =
     (case term of
        Binary _ op l r \<Rightarrow>
          if op = ''/'' then
            (case r of
               Literal _ (LNum v _) \<Rightarrow> if js_eq v million then Some (True, l) else None
             | _ \<Rightarrow> None)
          else Some (False, term)
      | _ \<Rightarrow> Some (False, term))"

text \<open>Assigning a number to the property \<open>__proto__\<close> of an object has no effect.\<close>

definition addUnitPrice ::
    "usageSchema \<Rightarrow> bool \<Rightarrow> string \<Rightarrow> jsnum \<Rightarrow> taskPriceState \<Rightarrow> taskPriceState option" where
  "addUnitPrice schema scaled field price st =
     (case schemaField schema field of
        None \<Rightarrow> Some st
      | Some d \<Rightarrow>
          if utype d \<noteq> Some ''number'' \<or> uunit d = None \<or> uunit d = Some [] \<or>
             field \<in> fst ` set (punitPrices st)
          then None
          else if (uunit d = Some ''token'') \<noteq> scaled then None
          else if field = ''__proto__'' then Some st
          else Some (st\<lparr>punitPrices := punitPrices st @ [(field, price)]\<rparr>))"

definition taskPriceTerm :: "usageSchema \<Rightarrow> node \<Rightarrow> taskPriceState \<Rightarrow> taskPriceState option bx" where
  "taskPriceTerm schema term st =
     (case nonnegativePriceLiteral term of
        Some x \<Rightarrow> Inr (if pconstant st \<noteq> None then None else Some (st\<lparr>pconstant := Some x\<rparr>))
      | None \<Rightarrow>
          (case scaledTerm term of
             None \<Rightarrow> Inr None
           | Some (scaled, term') \<Rightarrow>
               (case term' of
                  Binary _ op l r \<Rightarrow>
                    if op \<noteq> ''*'' then Inr None
                    else rbind (usageProbe l) (\<lambda>probe.
                      Inr (case (probe, nonnegativePriceLiteral r) of
                             (Some field, Some price) \<Rightarrow> addUnitPrice schema scaled field price st
                           | _ \<Rightarrow> None))
                | _ \<Rightarrow> Inr None)))"

definition taskTierBody ::
    "usageSchema \<Rightarrow> string \<Rightarrow> (string \<times> string) list \<Rightarrow> node \<Rightarrow> taskTierRow option bx" where
  "taskTierBody schema label conditions body =
     rbind (optionLoop (taskPriceTerm schema) (flattenBinary ''+'' body) \<lparr>pconstant = None, punitPrices = []\<rparr>)
       (\<lambda>r. Inr (case r of
          None \<Rightarrow> None
        | Some st \<Rightarrow>
            if punitPrices st = [] then None
            else Some \<lparr>kconditionText = None, klabel = label, kconditions = conditions,
                       kconstant = (case pconstant st of Some x \<Rightarrow> x | None \<Rightarrow> Fin 0),
                       kunitPrices = punitPrices st\<rparr>))"

definition taskTier :: "usageSchema \<Rightarrow> node \<Rightarrow> (string \<times> string) list \<Rightarrow> taskTierRow option bx" where
  "taskTier schema n conditions =
     (case n of
        Call _ f args \<Rightarrow>
          if f \<noteq> ''tier'' then Inr None
          else (case args of
                  [] \<Rightarrow> Inl (JsError ''TypeError'')
                | Literal _ (LStr label) # rest \<Rightarrow>
                    (case rest of
                       [] \<Rightarrow> Inl (JsError ''TypeError'')
                     | body # _ \<Rightarrow> taskTierBody schema label conditions body)
                | _ \<Rightarrow> Inr None)
      | _ \<Rightarrow> Inr None)"

text \<open>An earlier tier that matches whenever the conditions hold.\<close>

definition shadows :: "taskTierRow \<Rightarrow> (string \<times> string) list \<Rightarrow> bool" where
  "shadows earlier conditions \<longleftrightarrow> list_all (\<lambda>c. c \<in> set conditions) (kconditions earlier)"

fun readTaskChain :: "usageSchema \<Rightarrow> bool \<Rightarrow> node \<Rightarrow> taskTierRow list \<Rightarrow> taskTierRow list option bx" where
  "readTaskChain schema includeBoolean (Conditional _ c yes no) tiers =
     rbind (taskConditions schema includeBoolean c) (\<lambda>r.
     case r of
       None \<Rightarrow> Inr None
     | Some Unreachable \<Rightarrow> readTaskChain schema includeBoolean no tiers
     | Some (Conditions conditions) \<Rightarrow>
         if list_ex (\<lambda>earlier. shadows earlier conditions) tiers
         then readTaskChain schema includeBoolean no tiers
         else rbind (taskTier schema yes conditions) (\<lambda>tier.
           case tier of
             None \<Rightarrow> Inr None
           | Some t \<Rightarrow>
               if conditions = [] then Inr (Some (tiers @ [t]))
               else readTaskChain schema includeBoolean no (tiers @ [t])))"
| "readTaskChain schema includeBoolean n tiers =
     rbind (taskTier schema n []) (\<lambda>tier. Inr (map_option (\<lambda>t. tiers @ [t]) tier))"

definition readTaskTierChain :: "usageSchema \<Rightarrow> bool \<Rightarrow> node \<Rightarrow> taskTierRow list option bx" where
  "readTaskTierChain schema includeBoolean n = readTaskChain schema includeBoolean n []"

end
