(* ===== verification/BxDisplayFacts.thy ===== *)
theory BxDisplayFacts
  imports BxDisplay
begin

text \<open>
  What the displayed price tables promise: the row the interpreter bills is the first row
  whose displayed conditions hold, the rows for the current time are those of the branch the
  clock selects, and a task table has no row that an earlier one shadows.
\<close>

section \<open>Conditions of a row\<close>

text \<open>What a displayed condition says of the token counts of a context.\<close>

definition condHolds :: "simulationContext \<Rightarrow> tierCondition \<Rightarrow> bool" where
  "condHolds ctx c \<longleftrightarrow> (\<exists>x. tokenOf ctx (tvar c) = JNum x \<and>
     relational (toperator c) (JNum x) (JNum (tvalue c)) = Some True)"

definition condsHold :: "simulationContext \<Rightarrow> tierCondition list \<Rightarrow> bool" where
  "condsHold ctx cs \<longleftrightarrow> (\<forall>c\<in>set cs. condHolds ctx c)"

lemma those_append: "those (xs @ ys) = (case (those xs, those ys) of (Some a, Some b) \<Rightarrow> Some (a @ b) | _ \<Rightarrow> None)"
  by (induction xs) (auto split: option.splits)

lemma variableValue_token:
  "\<lbrakk>variableValue ctx pos x = Inr (v, i); x \<noteq> ''image_count''\<rbrakk> \<Longrightarrow> \<exists>y. tokenOf ctx x = JNum y \<and> v = JNum y"
  by (cases "tokenOf ctx x") (auto simp: variableValue_def split: if_splits)

lemma token_variable:
  assumes "evaluate E (Variable sp x) s = Inr ((v, i), s')" "x \<noteq> ''image_count''"
  shows "tokenOf (scontext E) x = v \<and> (\<exists>y. v = JNum y) \<and> marksOf s' = marksOf s"
proof -
  from assms(1) have "variableValue (scontext E) (fst sp) x = Inr (v, i)" "s' = s"
    by (auto simp: evaluate_Inr_iff)
  with variableValue_token [OF this(1) assms(2)] show ?thesis by auto
qed

lemma compareE:
  assumes "evaluate E (Binary sp op a b) s = Inr ((v, i), s')" "op \<in> set [''<'', ''<='', ''>'', ''>='']"
  obtains va ia s1 vb ib s2 where "evaluate E a (s\<lparr>rdepth := rdepth s + 1\<rparr>) = Inr ((va, ia), s1)"
    "evaluate E b s1 = Inr ((vb, ib), s2)" "operateOp (fst sp) op (va, ia) (vb, ib) = Inr (v, i)"
    "marksOf s' = marksOf s2"
  using assms
  by (auto simp: evaluate_Inr_iff [of E "Binary sp op a b"] binaryOp_def cbind_eq_Inr_iff)

lemma relational_number: "op \<in> set [''<'', ''<='', ''>'', ''>=''] \<Longrightarrow> \<exists>b. relational op (JNum x) (JNum y) = Some b"
  by (auto simp: relational_def)

lemma compare_literal:
  assumes "evaluate E (Binary sp op (Variable sp1 x) (Literal sp2 (LNum c i2))) s = Inr ((v, i), s')"
    "op \<in> set [''<'', ''<='', ''>'', ''>='']" "x \<noteq> ''image_count''"
  shows "\<exists>b. v = JBool b \<and> marksOf s' = marksOf s \<and>
    (b \<longleftrightarrow> (\<exists>y. tokenOf (scontext E) x = JNum y \<and> relational op (JNum y) (JNum c) = Some True))"
proof -
  obtain va ia s1 vb ib s2 where run: "evaluate E (Variable sp1 x) (s\<lparr>rdepth := rdepth s + 1\<rparr>) = Inr ((va, ia), s1)"
    "evaluate E (Literal sp2 (LNum c i2)) s1 = Inr ((vb, ib), s2)"
    "operateOp (fst sp) op (va, ia) (vb, ib) = Inr (v, i)" "marksOf s' = marksOf s2"
    using assms(1,2) by (rule compareE)
  obtain y where y: "tokenOf (scontext E) x = JNum y" "va = JNum y" "marksOf s1 = marksOf s"
    using token_variable [OF run(1) assms(3)] by auto
  have "vb = JNum c" "s2 = s1" using evaluate_literal [OF run(2)] by auto
  moreover obtain b where "relational op (JNum y) (JNum c) = Some b"
    using relational_number [OF assms(2)] by blast
  moreover from this have "operateOp (fst sp) op (JNum y, ia) (JNum c, ib) = Inr (JBool b, False)"
    using assms(2) by (auto simp: operateOp_def)
  ultimately show ?thesis using run(3,4) y by auto
qed

lemma tokenCondition_eval:
  assumes "tokenCondition n = Some c" "evaluate E n s = Inr ((v, i), s')"
  shows "\<exists>b. v = JBool b \<and> marksOf s' = marksOf s \<and> (b \<longleftrightarrow> condHolds (scontext E) c)"
proof -
  obtain sp op sp1 x sp2 w iw where n: "n = Binary sp op (Variable sp1 x) (Literal sp2 (LNum w iw))"
    and op: "op \<in> set [''<'', ''<='', ''>'', ''>='']" "x \<in> set [''p'', ''c'', ''len'']"
    and c: "c = \<lparr>tvar = x, toperator = op, tvalue = w\<rparr>"
    using assms(1) by (auto elim!: tokenCondition.elims split: if_splits)
  from op(2) have "x \<noteq> ''image_count''" by auto
  from compare_literal [OF assms(2) [unfolded n] op(1) this] show ?thesis
    by (simp add: c condHolds_def)
qed

lemma conjunctionE:
  assumes "evaluate E (Binary sp ''&&'' l r) s = Inr ((v, i), s')"
  obtains a ia s1 where "evaluate E l (s\<lparr>rdepth := rdepth s + 1\<rparr>) = Inr ((JBool a, ia), s1)"
      "\<not> a" "v = JBool False" "marksOf s' = marksOf s1"
  | a ia s1 b ib s2 where "evaluate E l (s\<lparr>rdepth := rdepth s + 1\<rparr>) = Inr ((JBool a, ia), s1)" "a"
      "evaluate E r s1 = Inr ((JBool b, ib), s2)" "v = JBool b" "marksOf s' = marksOf s2"
  using assms
  by (auto simp: evaluate_Inr_iff [of E "Binary sp ''&&'' l r"] binaryOp_def reader_iffs split: if_splits)

lemma tokenConditions_eval:
  "\<lbrakk>tokenConditions n = Some cs; evaluate E n s = Inr ((v, i), s')\<rbrakk> \<Longrightarrow>
   \<exists>b. v = JBool b \<and> marksOf s' = marksOf s \<and> (b \<longleftrightarrow> condsHold (scontext E) cs)"
proof (induction n arbitrary: cs s v i s' rule: node_children_induct)
  case (node n)
  show ?case
  proof (cases "\<exists>sp l r. n = Binary sp ''&&'' l r")
    case True
    then obtain sp l r where n: "n = Binary sp ''&&'' l r" by blast
    then obtain cl cr where cs: "tokenConditions l = Some cl" "tokenConditions r = Some cr" "cs = cl @ cr"
      using node.prems(1) by (auto simp: tokenConditions_def those_append split: option.splits)
    note IH = node.IH [of l] node.IH [of r]
    from node.prems(2) [unfolded n] show ?thesis
    proof (cases rule: conjunctionE)
      case (1 a ia s1)
      with IH(1) [OF _ cs(1) 1(1)] n show ?thesis by (auto simp: cs condsHold_def)
    next
      case (2 a ia s1 b ib s2)
      with IH(1) [OF _ cs(1) 2(1)] IH(2) [OF _ cs(2) 2(3)] n show ?thesis by (auto simp: cs condsHold_def)
    qed
  next
    case False
    then have "flattenBinary ''&&'' n = [n]" by (cases n) auto
    with node.prems(1) obtain c where "tokenCondition n = Some c" "cs = [c]"
      by (auto simp: tokenConditions_def split: option.splits)
    with tokenCondition_eval [OF _ node.prems(2)] show ?thesis by (simp add: condsHold_def)
  qed
qed

section \<open>Rows\<close>

lemma callsOf_flatten: "callsOf n \<subseteq> (\<Union>t\<in>set (flattenBinary op n). callsOf t)"
  by (induction n) (auto split: if_splits)

lemma callsOf_zero [simp]: "isZeroLiteral n \<Longrightarrow> callsOf n = {}"
  by (auto simp: isZeroLiteral_def split: node.splits lit.splits)

lemma callsOf_remainder [simp]: "isTextRemainder n \<Longrightarrow> callsOf n = {}"
  by (auto simp: isTextRemainder_def split: node.splits)

lemma callsOf_price: "nonnegativePriceLiteral n = Some x \<Longrightarrow> callsOf n = {}"
  by (auto elim!: nonnegativePriceLiteral.elims split: if_splits)

lemma callsOf_priceVariable: "priceVariable n = Some x \<Longrightarrow> callsOf n \<subseteq> {''max''}"
  by (auto simp: priceVariable_def split: node.splits list.splits if_splits)

lemma callsOf_priceTerm: "priceTerm t = Some p \<Longrightarrow> callsOf t \<subseteq> {''max''}"
  by (cases t) (auto split: if_splits option.splits dest!: callsOf_price callsOf_priceVariable)

lemma tokenPrices_terms: "tokenPrices ts ps = Some qs \<Longrightarrow> \<forall>t\<in>set ts. \<exists>p. priceTerm t = Some p"
  by (induction ts arbitrary: ps) (auto split: option.splits if_splits)

lemma linear_no_marks:
  assumes "tokenPrices (flattenBinary ''+'' n) [] = Some ps"
  shows "callsOf n \<inter> {''tier'', ''fixed''} = {}"
  using callsOf_flatten [of n "''+''"] tokenPrices_terms [OF assms] callsOf_priceTerm by fastforce

text \<open>The price a row reports against the marks of the run.\<close>

definition rowPrice :: "tierRow \<Rightarrow> jsnum option \<Rightarrow> jsnum option" where
  "rowPrice t old = (case tfixedPrice t of None \<Rightarrow> old | Some a \<Rightarrow> Some a)"

definition linearTier :: "string \<Rightarrow> tierCondition list \<Rightarrow> node \<Rightarrow> tierRow option" where
  "linearTier label conds body =
     (case tokenPrices (flattenBinary ''+'' body) [] of
        Some prices \<Rightarrow> if prices = [] then None else Some ((bareTier label conds)\<lparr>tprices := prices\<rparr>)
      | None \<Rightarrow> None)"

lemma linearTier_Some:
  "linearTier label conds body = Some t \<Longrightarrow>
   tlabel t = label \<and> tconditions t = conds \<and> conditionText t = None \<and> tfixedPrice t = None \<and>
   callsOf body \<inter> {''tier'', ''fixed''} = {}"
  using linear_no_marks [of body]
  by (auto simp: linearTier_def bareTier_def split: option.splits if_splits)

lemma tierBody_Some:
  assumes "tierBody label conds body = Inr (Some t)"
  shows "linearTier label conds body = Some t \<or>
    (\<exists>sp sp' a i rest. body = Call sp ''fixed'' (Literal sp' (LNum a i) # rest) \<and>
      t = (bareTier label conds)\<lparr>tunit := Some URequest, tfixedPrice := Some a\<rparr>)"
  using assms unfolding tierBody_def linearTier_def [symmetric] Let_def
  by (auto split: node.splits lit.splits list.splits if_splits)

lemma tierBody_cases:
  assumes "tierBody label conds body = Inr (Some t)"
  shows "tlabel t = label \<and> tconditions t = conds \<and> conditionText t = None \<and>
    (tfixedPrice t = None \<and> callsOf body \<inter> {''tier'', ''fixed''} = {} \<or>
     (\<exists>sp sp' a i rest. body = Call sp ''fixed'' (Literal sp' (LNum a i) # rest) \<and> tfixedPrice t = Some a))"
  using tierBody_Some [OF assms] linearTier_Some [of label conds body t] by (auto simp: bareTier_def)

lemma evaluate_tierE:
  assumes "evaluate E (Call sp ''tier'' (Literal sp1 (LStr label) # body # rest)) s = Inr (r, s')"
  obtains s1 x k s2 where "evaluate E body s1 = Inr ((JNum x, k), s2)" "fixedPrice s1 = fixedPrice s"
    "matchedTier s' = label" "fixedPrice s' = fixedPrice s2"
proof -
  let ?n = "Call sp ''tier'' (Literal sp1 (LStr label) # body # rest)"
  obtain name j s1 x k s2 where
    l: "evaluate E (Literal sp1 (LStr label)) (s\<lparr>rdepth := rdepth s + 1\<rparr>) = Inr ((JStr name, j), s1)" and
    b: "evaluate E body s1 = Inr ((JNum x, k), s2)" and
    s': "matchedTier s' = name" "fixedPrice s' = fixedPrice s2"
    using assms by (auto simp: evaluate_Inr_iff [of E ?n] callOp_def call_tier_def reader_iffs argAt_def)
  from evaluate_literal [OF l] have "name = label" "fixedPrice s1 = fixedPrice s" by auto
  with b s' show ?thesis using that [OF b] by simp
qed

lemma tokenTier_Some:
  assumes "tokenTier n conds = Inr (Some t)"
  obtains sp sp1 label body rest where "n = Call sp ''tier'' (Literal sp1 (LStr label) # body # rest)"
    "tierBody label conds body = Inr (Some t)"
  using assms by (auto simp: tokenTier_def split: node.splits list.splits lit.splits if_splits)

lemma tokenTier_row:
  "tokenTier n conds = Inr (Some t) \<Longrightarrow> tconditions t = conds \<and> conditionText t = None"
  by (auto elim!: tokenTier_Some dest: tierBody_cases)

text \<open>The row that a state reports after a run from a state with price \<open>old\<close>.\<close>

definition bills :: "jsnum option \<Rightarrow> tierRow \<Rightarrow> runtime \<Rightarrow> bool" where
  "bills old t s' \<longleftrightarrow> matchedTier s' = tlabel t \<and> fixedPrice s' = rowPrice t old"

lemma bills_marks: "marksOf s' = marksOf s \<Longrightarrow> bills old t s' = bills old t s"
  by (simp add: bills_def marksOf_def)

lemma tokenTier_eval:
  assumes t: "tokenTier n conds = Inr (Some t)" and ok: "arityOk n" and run: "evaluate E n s = Inr (r, s')"
  shows "bills (fixedPrice s) t s'"
proof -
  obtain sp sp1 label body rest where n: "n = Call sp ''tier'' (Literal sp1 (LStr label) # body # rest)"
    and b: "tierBody label conds body = Inr (Some t)"
    using t by (rule tokenTier_Some)
  note row = tierBody_cases [OF b]
  obtain s1 x k s2 where eb: "evaluate E body s1 = Inr ((JNum x, k), s2)" "fixedPrice s1 = fixedPrice s"
    "matchedTier s' = label" "fixedPrice s' = fixedPrice s2"
    using run [unfolded n] by (rule evaluate_tierE)
  have okb: "arityOk body" using ok arityOk_children [of n] n by simp
  have "fixedPrice s2 = rowPrice t (fixedPrice s1)"
  proof (cases "tfixedPrice t")
    case None
    with row have "callsOf body \<inter> {''tier'', ''fixed''} = {}" by simp
    from evaluate_marks [OF okb this eb(1)] None show ?thesis by (simp add: rowPrice_def marksOf_def)
  next
    case (Some a)
    with row obtain sp2 sp3 i more where body: "body = Call sp2 ''fixed'' (Literal sp3 (LNum a i) # more)"
      by auto
    with okb have "more = []" using arityOk_children [of body] by (simp add: BILLING_FUNCTIONS_def)
    with body eb(1) have "evaluate E (Call sp2 ''fixed'' [Literal sp3 (LNum a i)]) s1 = Inr ((JNum x, k), s2)" by simp
    from evaluate_fixedE [OF this] Some show ?thesis by (simp add: rowPrice_def)
  qed
  with eb row show ?thesis by (simp add: bills_def)
qed

section \<open>The row that applies\<close>

definition audioHolds :: "simulationContext \<Rightarrow> bool" where
  "audioHolds ctx \<longleftrightarrow> (\<exists>x\<in>{''ai'', ''ao''}. condHolds ctx \<lparr>tvar = x, toperator = ''>'', tvalue = Fin 0\<rparr>)"

text \<open>What a displayed row says of a context.\<close>

definition rowApplies :: "simulationContext \<Rightarrow> tierRow \<Rightarrow> bool" where
  "rowApplies ctx t \<longleftrightarrow>
     (if conditionText t = Some ''Audio requests'' then audioHolds ctx
      else if conditionText t = Some ''Text-only requests'' then \<not> audioHolds ctx
      else condsHold ctx (tconditions t))"

definition billedRow :: "simulationContext \<Rightarrow> tierRow list \<Rightarrow> jsnum option \<Rightarrow> runtime \<Rightarrow> bool" where
  "billedRow ctx ts old s' \<longleftrightarrow> (\<exists>t. find (rowApplies ctx) ts = Some t \<and> bills old t s')"

lemma billedRow_marks: "marksOf s' = marksOf s \<Longrightarrow> billedRow ctx ts old s' = billedRow ctx ts old s"
  unfolding billedRow_def by (simp only: bills_marks [of s' s])

lemma chainFrom_leaf:
  "\<nexists>sp c y m. n = Conditional sp c y m \<Longrightarrow>
   chainFrom n = rbind (tokenTier n []) (\<lambda>tier. Inr (map_option (\<lambda>t. [t]) tier))"
  by (cases n) auto

lemma chain_eval:
  "\<lbrakk>chainFrom n = Inr (Some ts); arityOk n; evaluate E n s = Inr (r, s')\<rbrakk> \<Longrightarrow>
   billedRow (scontext E) ts (fixedPrice s) s'"
proof (induction n arbitrary: ts s r s' rule: node_children_induct)
  case (node n)
  show ?case
  proof (cases "\<exists>sp c y m. n = Conditional sp c y m")
    case True
    then obtain sp c yes no where n: "n = Conditional sp c yes no" by blast
    obtain cs t rest where row: "tokenConditions c = Some cs" "tokenTier yes cs = Inr (Some t)"
      and rest: "chainFrom no = Inr (Some rest)" "ts = t # rest"
      using node.prems(1) unfolding n by (auto simp: rbind_eq_Inr_iff split: option.splits)
    have ok: "arityOk yes" "arityOk no" using node.prems(2) arityOk_children [of n] n by simp_all
    obtain b i s1 m s2 where run: "evaluate E c (s\<lparr>rdepth := rdepth s + 1\<rparr>) = Inr ((JBool b, i), s1)"
      "marksOf m = marksOf s1" "evaluate E (if b then yes else no) m = Inr (r, s2)" "marksOf s' = marksOf s2"
      using node.prems(3) [unfolded n] by (rule evaluate_conditionalE)
    have b: "marksOf s1 = marksOf s" "b \<longleftrightarrow> rowApplies (scontext E) t"
      using tokenConditions_eval [OF row(1) run(1)] tokenTier_row [OF row(2)] by (auto simp: rowApplies_def)
    then have fp: "fixedPrice m = fixedPrice s" using run(2) by (simp add: marksOf_def)
    have "billedRow (scontext E) ts (fixedPrice m) s2"
    proof (cases b)
      case True
      with run(3) have "evaluate E yes m = Inr (r, s2)" by simp
      from tokenTier_eval [OF row(2) ok(1) this] True b(2) rest(2) show ?thesis by (simp add: billedRow_def)
    next
      case False
      with run(3) have "evaluate E no m = Inr (r, s2)" by simp
      from node.IH [OF _ rest(1) ok(2) this] False b(2) rest(2) n show ?thesis by (simp add: billedRow_def)
    qed
    with fp show ?thesis by (simp add: billedRow_marks [OF run(4)])
  next
    case False
    then obtain t where t: "tokenTier n [] = Inr (Some t)" "ts = [t]"
      using node.prems(1) by (auto simp: chainFrom_leaf rbind_eq_Inr_iff)
    with tokenTier_row [OF t(1)] tokenTier_eval [OF t(1) node.prems(2,3)] show ?thesis
      by (simp add: billedRow_def rowApplies_def condsHold_def)
  qed
qed

lemma audioProbe_eval:
  assumes "audioProbe n = Some x" "evaluate E n s = Inr ((JBool b, i), s')"
  shows "marksOf s' = marksOf s \<and> x \<in> {''ai'', ''ao''} \<and>
    (b \<longleftrightarrow> condHolds (scontext E) \<lparr>tvar = x, toperator = ''>'', tvalue = Fin 0\<rparr>)"
proof -
  obtain sp sp1 sp2 v iv where n: "n = Binary sp ''>'' (Variable sp1 x) (Literal sp2 (LNum v iv))"
    and v: "js_eq v (Fin 0)" "x \<in> {''ai'', ''ao''}"
    using assms(1) by (auto simp: audioProbe_def isZeroLiteral_def split: node.splits if_splits lit.splits)
  have "js_lt v y = js_lt (Fin 0) y" for y
    using v(1) by (cases v; cases y) (auto simp: js_eq_def)
  then have "relational ''>'' (JNum y) (JNum v) = relational ''>'' (JNum y) (JNum (Fin 0))" for y
    by (simp add: relational_def)
  with compare_literal [OF assms(2) [unfolded n]] v(2) show ?thesis by (auto simp: condHolds_def)
qed

lemma disjunctionE:
  assumes "evaluate E (Binary sp ''||'' l r) s = Inr ((v, i), s')"
  obtains a ia s1 where "evaluate E l (s\<lparr>rdepth := rdepth s + 1\<rparr>) = Inr ((JBool a, ia), s1)"
      "a" "v = JBool True" "marksOf s' = marksOf s1"
  | a ia s1 b ib s2 where "evaluate E l (s\<lparr>rdepth := rdepth s + 1\<rparr>) = Inr ((JBool a, ia), s1)" "\<not> a"
      "evaluate E r s1 = Inr ((JBool b, ib), s2)" "v = JBool b" "marksOf s' = marksOf s2"
  using assms
  by (auto simp: evaluate_Inr_iff [of E "Binary sp ''||'' l r"] binaryOp_def reader_iffs split: if_splits)

lemma audioCondition_eval:
  assumes "audioProbe l = Some x" "audioProbe r = Some y" "x \<noteq> y"
    and "evaluate E (Binary sp ''||'' l r) s = Inr ((JBool b, i), s')"
  shows "marksOf s' = marksOf s \<and> (b \<longleftrightarrow> audioHolds (scontext E))"
  using assms(4)
proof (cases rule: disjunctionE)
  case (1 a ia s1)
  from audioProbe_eval [OF assms(1) 1(1)] 1 show ?thesis by (auto simp: audioHolds_def)
next
  case (2 a ia s1 c ib s2)
  from audioProbe_eval [OF assms(1) 2(1)] audioProbe_eval [OF assms(2) 2(3)] 2 assms(3) show ?thesis
    by (auto simp: audioHolds_def)
qed

lemma audioTiers_Some:
  assumes "audioTiers n = Inr (Some ts)"
  obtains sp sp1 l r yes no x y ta tb where "n = Conditional sp (Binary sp1 ''||'' l r) yes no"
    "audioProbe l = Some x" "audioProbe r = Some y" "x \<noteq> y"
    "tokenTier yes [] = Inr (Some ta)" "tokenTier no [] = Inr (Some tb)"
    "ts = [ta\<lparr>conditionText := Some ''Audio requests''\<rparr>, tb\<lparr>conditionText := Some ''Text-only requests''\<rparr>]"
  using assms by (auto simp: audioTiers_def rbind_eq_Inr_iff split: node.splits if_splits option.splits)

lemma audio_eval:
  assumes "audioTiers n = Inr (Some ts)" "arityOk n" "evaluate E n s = Inr (res, s')"
  shows "billedRow (scontext E) ts (fixedPrice s) s'"
  using assms(1)
proof (cases rule: audioTiers_Some)
  case (1 sp sp1 l r yes no x y ta tb)
  have ok: "arityOk yes" "arityOk no" using assms(2) arityOk_children [of n] 1(1) by simp_all
  obtain b i s1 m s2 where run:
    "evaluate E (Binary sp1 ''||'' l r) (s\<lparr>rdepth := rdepth s + 1\<rparr>) = Inr ((JBool b, i), s1)"
    "marksOf m = marksOf s1" "evaluate E (if b then yes else no) m = Inr (res, s2)" "marksOf s' = marksOf s2"
    using assms(3) [unfolded 1(1)] by (rule evaluate_conditionalE)
  have b: "marksOf s1 = marksOf s" "b \<longleftrightarrow> audioHolds (scontext E)"
    using audioCondition_eval [OF 1(2-4) run(1)] by auto
  then have fp: "fixedPrice m = fixedPrice s" using run(2) by (simp add: marksOf_def)
  have "bills (fixedPrice m) (if b then ta else tb) s2"
    using tokenTier_eval [OF 1(5) ok(1)] tokenTier_eval [OF 1(6) ok(2)] run(3) by (cases b) auto
  with b(2) fp 1(7) have "billedRow (scontext E) ts (fixedPrice s) s2"
    by (auto simp: billedRow_def rowApplies_def bills_def rowPrice_def)
  then show ?thesis by (simp add: billedRow_marks [OF run(4)])
qed

text \<open>The factor \<open>image_count\<close> in front of a chain marks the rows and changes nothing else.\<close>

lemma billedRow_imageCount:
  "billedRow ctx (map (\<lambda>t. t\<lparr>imageCount := True\<rparr>) ts) old s' = billedRow ctx ts old s'"
proof -
  have "rowApplies ctx (t\<lparr>imageCount := True\<rparr>) = rowApplies ctx t" for t by (simp add: rowApplies_def)
  then have "find (rowApplies ctx) (map (\<lambda>t. t\<lparr>imageCount := True\<rparr>) ts) =
      map_option (\<lambda>t. t\<lparr>imageCount := True\<rparr>) (find (rowApplies ctx) ts)"
    by (induction ts) auto
  then show ?thesis by (auto simp: billedRow_def bills_def rowPrice_def)
qed

lemma imageCount_marks:
  "\<lbrakk>isImageCount n; evaluate E n s = Inr (r, s')\<rbrakk> \<Longrightarrow> marksOf s' = marksOf s"
  by (cases r) (auto simp: isImageCount_def evaluate_Inr_iff split: node.splits)

lemma readTokenTierChain_plain:
  "\<nexists>sp op l r. n = Binary sp op l r \<Longrightarrow>
   readTokenTierChain n = rbind (audioTiers n) (\<lambda>audio. case audio of Some ts \<Rightarrow> Inr (Some ts) | None \<Rightarrow> chainFrom n)"
  by (cases n) auto

lemma tierChain_eval:
  "\<lbrakk>readTokenTierChain n = Inr (Some ts); arityOk n; evaluate E n s = Inr (r, s')\<rbrakk> \<Longrightarrow>
   billedRow (scontext E) ts (fixedPrice s) s'"
proof (induction n arbitrary: ts s r s' rule: node_children_induct)
  case (node n)
  show ?case
  proof (cases "\<exists>sp op l r. n = Binary sp op l r")
    case False
    with node.prems(1) consider "audioTiers n = Inr (Some ts)" | "chainFrom n = Inr (Some ts)"
      by (auto simp: readTokenTierChain_plain rbind_eq_Inr_iff split: option.splits)
    then show ?thesis using audio_eval chain_eval node.prems(2,3) by cases auto
  next
    case True
    then obtain sp op l rt where n: "n = Binary sp op l rt" by blast
    have ok: "arityOk l" "arityOk rt" using node.prems(2) arityOk_children [of n] n by simp_all
    have "chainFrom n \<noteq> Inr (Some ts)" by (auto simp: n tokenTier_def)
    with node.prems(1) obtain us where op: "op = ''*''"
      and us: "ts = map (\<lambda>t. t\<lparr>imageCount := True\<rparr>) us"
        "isImageCount l \<and> readTokenTierChain rt = Inr (Some us) \<or>
         isImageCount rt \<and> readTokenTierChain l = Inr (Some us)"
      unfolding n by (auto simp: rbind_eq_Inr_iff split: if_splits)
    obtain v i where r: "r = (v, i)" by (cases r)
    obtain va ia s1 vb ib s2 where run: "evaluate E l (s\<lparr>rdepth := rdepth s + 1\<rparr>) = Inr ((va, ia), s1)"
      "evaluate E rt s1 = Inr ((vb, ib), s2)" "marksOf s' = marksOf s2"
      using node.prems(3) unfolding n op r by (rule evaluate_productE)
    from us(2) have "billedRow (scontext E) us (fixedPrice s) s2"
    proof
      assume "isImageCount l \<and> readTokenTierChain rt = Inr (Some us)"
      with node.IH [OF _ _ ok(2) run(2)] imageCount_marks [OF _ run(1)] n show ?thesis
        by (auto simp: marksOf_def)
    next
      assume "isImageCount rt \<and> readTokenTierChain l = Inr (Some us)"
      then have "billedRow (scontext E) us (fixedPrice s) s1" "marksOf s2 = marksOf s1"
        using node.IH [OF _ _ ok(1) run(1)] imageCount_marks [OF _ run(2)] n by auto
      then show ?thesis by (simp add: billedRow_marks [OF \<open>marksOf s2 = marksOf s1\<close>])
    qed
    then show ?thesis by (simp add: us(1) billedRow_imageCount billedRow_marks [OF run(3)])
  qed
qed

section \<open>The branch the clock selects\<close>

text \<open>The leaf below the time conditions, with its path; none if a condition has no value.\<close>

fun timeLeaf :: "host \<Rightarrow> compiledBillingExpression \<Rightarrow> date \<Rightarrow> node \<Rightarrow> timePath \<Rightarrow> (node \<times> timePath) option" where
  "timeLeaf h c now (Conditional sp cond yes no) path =
     (if isTimeCondition cond \<noteq> Inr True then Some (Conditional sp cond yes no, path)
      else case evaluateBillingCondition h c cond now of
             None \<Rightarrow> None
           | Some True \<Rightarrow> timeLeaf h c now yes (path @ [(cond, True)])
           | Some False \<Rightarrow> timeLeaf h c now no (path @ [(cond, False)]))"
| "timeLeaf h c now n path = Some (n, path)"

definition pathHolds :: "host \<Rightarrow> compiledBillingExpression \<Rightarrow> date \<Rightarrow> timePath \<Rightarrow> bool" where
  "pathHolds h c now path \<longleftrightarrow> list_all (\<lambda>(cond, b). evaluateBillingCondition h c cond now = Some b) path"

text \<open>The rows displayed for a leaf.\<close>

definition leafRows :: "string \<Rightarrow> (node \<times> timePath) option \<Rightarrow> timeTokenTier list \<Rightarrow> bool" where
  "leafRows src leaf rows \<longleftrightarrow>
     (case leaf of
        None \<Rightarrow> rows = []
      | Some (n, path) \<Rightarrow> path \<noteq> [] \<and>
          (\<exists>ts. readTokenTierChain n = Inr (Some ts) \<and> rows = map (timeTier src path) ts))"

lemma leafRows_None [simp]: "leafRows src None rows \<longleftrightarrow> rows = []"
  by (simp add: leafRows_def)

lemma pathHolds_append: "pathHolds h c now (p @ q) \<longleftrightarrow> pathHolds h c now p \<and> pathHolds h c now q"
  by (simp add: pathHolds_def)

lemma pathMatches_timeTier: "pathMatches h c now (timeTier src path t) = pathHolds h c now path"
  by (simp add: pathMatches_def timeTier_def pathHolds_def)

lemma timeTierLeaf_rows:
  assumes "timeTierLeaf src n path = Inr (Some ts)"
  shows "leafRows src (Some (n, path)) ts \<and> (\<forall>t\<in>set ts. timeConditions t = path)"
proof -
  obtain rows where "readTokenTierChain n = Inr (Some rows)" "path \<noteq> []" "ts = map (timeTier src path) rows"
    using assms unfolding timeTierLeaf_def rbind_eq_Inr_iff by (auto split: option.split_asm if_split_asm)
  then show ?thesis by (auto simp: leafRows_def timeTier_def)
qed

lemma filter_path:
  "\<forall>t\<in>set ts. timeConditions t = path \<Longrightarrow>
   filter (pathMatches h c now) ts = (if pathHolds h c now path then ts else [])"
  by (induction ts) (auto simp: pathMatches_def pathHolds_def)

lemma timeTierBranches_plain:
  "\<nexists>sp c y m. n = Conditional sp c y m \<Longrightarrow> timeTierBranches src n path = timeTierLeaf src n path"
  "\<nexists>sp c y m. n = Conditional sp c y m \<Longrightarrow> timeLeaf h c now n path = Some (n, path)"
  by (cases n; simp)+

lemma branches_filter:
  "timeTierBranches src n path = Inr (Some ts) \<Longrightarrow>
   if pathHolds h c now path then leafRows src (timeLeaf h c now n path) (filter (pathMatches h c now) ts)
   else filter (pathMatches h c now) ts = []"
proof (induction n arbitrary: path ts rule: node_children_induct)
  case (node n)
  have leaf: ?case if "timeTierLeaf src n path = Inr (Some ts)" "timeLeaf h c now n path = Some (n, path)"
    using timeTierLeaf_rows [OF that(1)] filter_path [of ts path] that(2) by simp
  show ?case
  proof (cases "\<exists>sp cond y m. n = Conditional sp cond y m")
    case False
    with node.prems show ?thesis by (intro leaf) (simp_all add: timeTierBranches_plain)
  next
    case True
    then obtain sp cond yes no where n: "n = Conditional sp cond yes no" by blast
    show ?thesis
    proof (cases "isTimeCondition cond = Inr True")
      case False
      with node.prems show ?thesis unfolding n
        by (intro leaf [unfolded n]) (auto simp: rbind_eq_Inr_iff)
    next
      case True
      with node.prems obtain ys ns where
        sub: "timeTierBranches src yes (path @ [(cond, True)]) = Inr (Some ys)"
          "timeTierBranches src no (path @ [(cond, False)]) = Inr (Some ns)" "ts = ys @ ns"
        unfolding n by (auto simp: rbind_eq_Inr_iff split: option.splits)
      from node.IH [OF _ sub(1)] node.IH [OF _ sub(2)] n True show ?thesis
        by (cases "evaluateBillingCondition h c cond now")
          (auto simp: sub(3) pathHolds_append pathHolds_def split: bool.splits if_splits)
    qed
  qed
qed

section \<open>Properties\<close>

text \<open>
  C26. The displayed table is the table that bills: if a compiled expression is shown as a chain
  of token tiers and an evaluation succeeds, then some displayed row applies to the token
  counts, and the tier and the fixed price of the result are those of the first row whose
  displayed conditions (token bounds, or audio against text) hold.
\<close>

theorem displayed_tier_billed:
  assumes "compiledOk c" "readTokenTierChain (cast c) = Inr (Some ts)" "evaluationBody h c ctx = Inr r"
  shows "\<exists>t. find (rowApplies ctx) ts = Some t \<and> eTier r = tlabel t \<and> eFixedPrice r = tfixedPrice t"
proof -
  obtain s v i s' where run: "newRuntime c ctx = Inr s"
    "evaluate \<lparr>shost = h, scompiled = c, scontext = ctx\<rparr> (cast c) s = Inr ((v, i), s')"
    "eFixedPrice r = fixedPrice s'" "eTier r = matchedTier s'"
    using assms(3) by (rule evaluationBody_run)
  have "arityOk (cast c)" using assms(1) astOk_arityOk by (simp add: compiledOk_def)
  from tierChain_eval [OF assms(2) this run(2)] have "billedRow ctx ts (fixedPrice s) s'" by simp
  moreover have "fixedPrice s = None" using run(1) by (auto simp: newRuntime_def rbind_eq_Inr_iff)
  ultimately show ?thesis using run(3,4)
    by (auto simp: billedRow_def bills_def rowPrice_def split: option.splits)
qed

definition chainSource :: string where
  "chainSource = ''len <= 1000 ? tier(\"base\", p * 2) : tier(\"long\", fixed(0.5))''"

definition chainContext :: simulationContext where
  "chainContext = emptyContext\<lparr>xTokens := Some [(''p'', JNum (Fin 3000)), (''len'', JNum (Fin 3000))]\<rparr>"

theorem displayed_tier_billed_witness:
  "\<exists>c ts r. compileFresh chainSource = Ready c \<and> readTokenTierChain (cast c) = Inr (Some ts) \<and>
     evaluationBody sampleHost c chainContext = Inr r \<and>
     (\<exists>t. find (rowApplies chainContext) ts = Some t \<and> eTier r = tlabel t \<and> eFixedPrice r = tfixedPrice t)"
proof -
  have run: "case compileBody chainSource of
      Inl _ \<Rightarrow> False
    | Inr c \<Rightarrow> (case readTokenTierChain (cast c) of Inr (Some _) \<Rightarrow> True | _ \<Rightarrow> False) \<and>
        isOk (evaluationBody sampleHost c chainContext)"
    by code_simp
  then obtain c where c: "compileBody chainSource = Inr c"
    "case readTokenTierChain (cast c) of Inr (Some _) \<Rightarrow> True | _ \<Rightarrow> False"
    "isOk (evaluationBody sampleHost c chainContext)"
    by (auto split: sum.splits)
  then obtain ts r where "readTokenTierChain (cast c) = Inr (Some ts)"
    "evaluationBody sampleHost c chainContext = Inr r"
    by (auto split: sum.splits option.splits dest!: isOkE)
  with displayed_tier_billed [OF conjunct1 [OF compileBody_ok [OF c(1)]] this] c(1) show ?thesis
    by (auto simp: compileFresh_Ready)
qed

text \<open>
  C27. The rows for the current time are those of one branch: descending the displayed
  expression by the values of its time conditions at that moment reaches one leaf, and the
  current rows are exactly the rows of the token chain of that leaf; if a time condition has
  no value there are none.
\<close>

theorem current_tiers_of_branch:
  assumes "compiler_cache.reachable cache"
    and "fst (readTimeTokenPricing h src (Some now) cache) = Inr (Some pricing)"
  shows "\<exists>c. compileFresh src = Ready c \<and>
    leafRows (csource c) (timeLeaf h c now (cast c) []) (tiersCurrent pricing)"
proof -
  obtain k cache' where k: "compileBillingExpression src cache = (k, cache')" by fastforce
  then have "k = compileFresh src" using cache_call [OF assms(1), of src] by simp
  with assms(2) k obtain c ts where c: "compileFresh src = Ready c"
    and ts: "timeTierBranches (csource c) (cast c) [] = Inr (Some ts)"
      "tiersCurrent pricing = filter (pathMatches h c now) ts"
    by (auto simp: readTimeTokenPricing_def rbind_eq_Inr_iff split: compilationResult.splits)
  from branches_filter [OF ts(1), of h c now] c ts(2) show ?thesis by (simp add: pathHolds_def)
qed

definition nightSource :: string where
  "nightSource = ''hour(\"UTC\") < 8 ? tier(\"night\", p * 1) : tier(\"day\", p * 2)''"

theorem current_tiers_of_branch_witness:
  "\<exists>pricing c. fst (readTimeTokenPricing sampleHost nightSource (Some (Some 1700000000000)) []) = Inr (Some pricing) \<and>
     compileFresh nightSource = Ready c \<and>
     leafRows (csource c) (timeLeaf sampleHost c (Some 1700000000000) (cast c) []) (tiersCurrent pricing)"
proof -
  have "case fst (readTimeTokenPricing sampleHost nightSource (Some (Some 1700000000000)) []) of
      Inr (Some p) \<Rightarrow> length (tiersCurrent p) = 1 | _ \<Rightarrow> False"
    by code_simp
  then obtain pricing where
    p: "fst (readTimeTokenPricing sampleHost nightSource (Some (Some 1700000000000)) []) = Inr (Some pricing)"
    by (auto split: sum.splits option.splits)
  from current_tiers_of_branch [OF compiler_cache.reachable.start p] p show ?thesis by auto
qed

end
