(* ===== verification/BxTaskFacts.thy ===== *)
theory BxTaskFacts
  imports BxDisplayFacts
begin

text \<open>
  What a displayed task table promises: no row is shadowed by an earlier one, only the last
  row has no condition, prices are non-negative prices of declared units, and for facts that
  conform to the schema the tier of a run is the first row whose conditions hold, although
  unreachable and shadowed branches are left out of the table.
\<close>

section \<open>The table\<close>

definition priceOk :: "usageSchema \<Rightarrow> string \<times> jsnum \<Rightarrow> bool" where
  "priceOk schema fp \<longleftrightarrow> js_le (Fin 0) (snd fp) \<and>
     (\<exists>d. schemaField schema (fst fp) = Some d \<and> utype d = Some ''number'' \<and> uunit d \<noteq> None)"

definition rowOk :: "usageSchema \<Rightarrow> taskTierRow \<Rightarrow> bool" where
  "rowOk schema t \<longleftrightarrow> kunitPrices t \<noteq> [] \<and> distinct (map fst (kunitPrices t)) \<and>
     list_all (priceOk schema) (kunitPrices t) \<and> js_le (Fin 0) (kconstant t)"

text \<open>Every row can be reached past the rows before it; only the last one is unconditional.\<close>

fun unshadowed :: "taskTierRow list \<Rightarrow> bool" where
  "unshadowed [] \<longleftrightarrow> True"
| "unshadowed (t # ts) \<longleftrightarrow> (\<forall>u\<in>set ts. \<not> shadows t (kconditions u)) \<and> unshadowed ts"

lemma unshadowed_snoc:
  "unshadowed (ts @ [t]) \<longleftrightarrow> unshadowed ts \<and> (\<forall>u\<in>set ts. \<not> shadows u (kconditions t))"
  by (induction ts) auto

lemma shadows_none: "shadows t [] \<longleftrightarrow> kconditions t = []"
  by (cases "kconditions t") (auto simp: shadows_def)

lemma price_literal: "nonnegativePriceLiteral n = Some x \<Longrightarrow> js_le (Fin 0) x"
  by (auto elim!: nonnegativePriceLiteral.elims simp: js_le_def js_eq_def split: if_splits)

lemma rbind_option_Some:
  "rbind m (\<lambda>r. Inr (case r of None \<Rightarrow> None | Some x \<Rightarrow> f x)) = Inr (Some t) \<longleftrightarrow>
   (\<exists>x. m = Inr (Some x) \<and> f x = Some t)"
  by (cases m) (auto split: option.splits)

text \<open>A loop that returns keeps what each round keeps.\<close>

lemma optionLoop_invariant:
  assumes "\<And>x s s'. \<lbrakk>f x s = Inr (Some s'); P s\<rbrakk> \<Longrightarrow> P s'"
  shows "\<lbrakk>optionLoop f xs s = Inr (Some s'); P s\<rbrakk> \<Longrightarrow> P s'"
  by (induction xs arbitrary: s) (auto simp: rbind_eq_Inr_iff assms split: option.split_asm)

definition pricesOk :: "usageSchema \<Rightarrow> taskPriceState \<Rightarrow> bool" where
  "pricesOk schema st \<longleftrightarrow> distinct (map fst (punitPrices st)) \<and> list_all (priceOk schema) (punitPrices st) \<and>
     (\<forall>x. pconstant st = Some x \<longrightarrow> js_le (Fin 0) x)"

lemma addUnitPrice_ok:
  "\<lbrakk>addUnitPrice schema scaled f x st = Some st'; pricesOk schema st; js_le (Fin 0) x\<rbrakk> \<Longrightarrow> pricesOk schema st'"
  by (auto simp: addUnitPrice_def pricesOk_def priceOk_def split: option.splits if_splits)

lemma taskPriceTerm_ok:
  assumes "taskPriceTerm schema term st = Inr (Some st')" "pricesOk schema st"
  shows "pricesOk schema st'"
proof (cases "nonnegativePriceLiteral term")
  case (Some x)
  with assms price_literal [OF Some] show ?thesis by (auto simp: taskPriceTerm_def pricesOk_def split: if_splits)
next
  case None
  have case_pair: "(case (p, q) of (Some f, Some x) \<Rightarrow> g f x | _ \<Rightarrow> None) =
      (case p of None \<Rightarrow> None | Some f \<Rightarrow> (case q of None \<Rightarrow> None | Some x \<Rightarrow> g f x))"
    for p :: "string option" and q :: "jsnum option" and g :: "string \<Rightarrow> jsnum \<Rightarrow> taskPriceState option"
    by (simp split: option.splits)
  obtain scaled f n x where "nonnegativePriceLiteral n = Some x" "addUnitPrice schema scaled f x st = Some st'"
    using assms(1) None unfolding taskPriceTerm_def case_pair
    by (auto simp: rbind_option_Some split: option.split_asm node.split_asm if_split_asm prod.split_asm)
  with assms(2) price_literal show ?thesis by (blast intro: addUnitPrice_ok)
qed

lemma taskTierBody_row:
  assumes "taskTierBody schema label cs body = Inr (Some t)"
  shows "klabel t = label \<and> kconditions t = cs \<and> rowOk schema t"
proof -
  obtain st where st: "optionLoop (taskPriceTerm schema) (flattenBinary ''+'' body)
      \<lparr>pconstant = None, punitPrices = []\<rparr> = Inr (Some st)" and ne: "punitPrices st \<noteq> []"
    and t: "t = \<lparr>kconditionText = None, klabel = label, kconditions = cs,
       kconstant = (case pconstant st of Some x \<Rightarrow> x | None \<Rightarrow> Fin 0), kunitPrices = punitPrices st\<rparr>"
    using assms by (auto simp: taskTierBody_def rbind_option_Some split: if_split_asm)
  have "pricesOk schema st"
    by (rule optionLoop_invariant [OF taskPriceTerm_ok st]) (simp_all add: pricesOk_def)
  with ne t show ?thesis by (auto simp: rowOk_def pricesOk_def js_le_def js_eq_def split: option.splits)
qed

lemma taskTier_Some:
  assumes "taskTier schema n cs = Inr (Some t)"
  obtains sp sp1 label body rest where "n = Call sp ''tier'' (Literal sp1 (LStr label) # body # rest)"
    "taskTierBody schema label cs body = Inr (Some t)"
  using assms by (auto simp: taskTier_def split: node.splits list.splits lit.splits if_splits)

lemma taskTier_row: "taskTier schema n cs = Inr (Some t) \<Longrightarrow> kconditions t = cs \<and> rowOk schema t"
  by (auto elim!: taskTier_Some dest: taskTierBody_row)

text \<open>The rows so far, all conditional, and the whole table.\<close>

definition rowsOk :: "usageSchema \<Rightarrow> taskTierRow list \<Rightarrow> bool" where
  "rowsOk schema ts \<longleftrightarrow> unshadowed ts \<and> (\<forall>t\<in>set ts. kconditions t \<noteq> [] \<and> rowOk schema t)"

definition tableOk :: "usageSchema \<Rightarrow> taskTierRow list \<Rightarrow> bool" where
  "tableOk schema ts \<longleftrightarrow> ts \<noteq> [] \<and> rowsOk schema (butlast ts) \<and> kconditions (last ts) = [] \<and>
     rowOk schema (last ts) \<and> unshadowed ts"

lemma tableOk_close: "\<lbrakk>rowsOk schema ts; rowOk schema t; kconditions t = []\<rbrakk> \<Longrightarrow> tableOk schema (ts @ [t])"
  by (simp add: tableOk_def rowsOk_def unshadowed_snoc shadows_none)

lemma readTaskChain_leaf:
  "\<nexists>sp c y m. n = Conditional sp c y m \<Longrightarrow>
   readTaskChain schema b n ts = rbind (taskTier schema n []) (\<lambda>tier. Inr (map_option (\<lambda>t. ts @ [t]) tier))"
  by (cases n) auto

text \<open>One round of the loop: the branch is left out, ends the table or is added to it.\<close>

lemma readTaskChain_conditional:
  assumes "readTaskChain schema b (Conditional sp c yes no) ts = Inr (Some us)"
  obtains (unreachable) "taskConditions schema b c = Inr (Some Unreachable)"
      "readTaskChain schema b no ts = Inr (Some us)"
  | (shadowed) cs t where "taskConditions schema b c = Inr (Some (Conditions cs))" "t \<in> set ts" "shadows t cs"
      "readTaskChain schema b no ts = Inr (Some us)"
  | (final) t where "taskConditions schema b c = Inr (Some (Conditions []))" "taskTier schema yes [] = Inr (Some t)"
      "us = ts @ [t]"
  | (row) cs t where "taskConditions schema b c = Inr (Some (Conditions cs))" "cs \<noteq> []"
      "\<forall>t\<in>set ts. \<not> shadows t cs" "taskTier schema yes cs = Inr (Some t)"
      "readTaskChain schema b no (ts @ [t]) = Inr (Some us)"
proof -
  obtain r where r: "taskConditions schema b c = Inr (Some r)"
    using assms by (auto simp: rbind_eq_Inr_iff split: option.split_asm)
  show ?thesis
  proof (cases r)
    case Unreachable
    with assms r that(1) show ?thesis by simp
  next
    case (Conditions cs)
    show ?thesis
    proof (cases "list_ex (\<lambda>t. shadows t cs) ts")
      case True
      with assms r Conditions that(2) show ?thesis by (auto simp: list_ex_iff)
    next
      case False
      then have none: "\<forall>t\<in>set ts. \<not> shadows t cs" by (simp add: list_ex_iff)
      from False assms r Conditions obtain t where "taskTier schema yes cs = Inr (Some t)"
        "if cs = [] then us = ts @ [t] else readTaskChain schema b no (ts @ [t]) = Inr (Some us)"
        by (auto simp: rbind_eq_Inr_iff split: option.split_asm if_split_asm)
      with r Conditions none that(3,4) show ?thesis by (cases "cs = []") auto
    qed
  qed
qed

lemma readTaskChain_ok:
  "\<lbrakk>readTaskChain schema b n ts = Inr (Some us); rowsOk schema ts\<rbrakk> \<Longrightarrow> tableOk schema us"
proof (induction n arbitrary: ts rule: node_children_induct)
  case (node n)
  show ?case
  proof (cases "\<exists>sp c y m. n = Conditional sp c y m")
    case False
    with node.prems show ?thesis
      by (auto simp: readTaskChain_leaf rbind_eq_Inr_iff dest!: taskTier_row intro: tableOk_close)
  next
    case True
    then obtain sp c yes no where n: "n = Conditional sp c yes no" by blast
    have IH: "tableOk schema us" if "readTaskChain schema b no ts' = Inr (Some us)" "rowsOk schema ts'" for ts'
      using node.IH [OF _ that] n by simp
    from node.prems(1) [unfolded n] show ?thesis
    proof (cases rule: readTaskChain_conditional)
      case (final t)
      with node.prems(2) show ?thesis by (auto dest!: taskTier_row intro: tableOk_close)
    next
      case (row cs t)
      with node.prems(2) taskTier_row [OF row(4)] show ?thesis
        by (intro IH [OF row(5)]) (auto simp: rowsOk_def unshadowed_snoc)
    qed (use node.prems(2) IH in auto)
  qed
qed

section \<open>Facts\<close>

text \<open>What \<open>u(field)\<close> reads, and the text the table compares it with.\<close>

definition factOf :: "simulationContext \<Rightarrow> string \<Rightarrow> jsval" where
  "factOf ctx f =
     (case xUsage ctx of None \<Rightarrow> JUndef | Some us \<Rightarrow> (case map_of us f of Some v \<Rightarrow> v | None \<Rightarrow> JNull))"

fun factText :: "jsval \<Rightarrow> string option" where
  "factText (JStr s) = Some s"
| "factText (JBool b) = Some (if b then ''true'' else ''false'')"
| "factText _ = None"

definition factHolds :: "simulationContext \<Rightarrow> string \<times> string \<Rightarrow> bool" where
  "factHolds ctx c \<longleftrightarrow> factText (factOf ctx (fst c)) = Some (snd c)"

definition taskRowApplies :: "simulationContext \<Rightarrow> taskTierRow \<Rightarrow> bool" where
  "taskRowApplies ctx t \<longleftrightarrow> list_all (factHolds ctx) (kconditions t)"

text \<open>
  A reported fact conforms to the schema: a declared boolean is a boolean, a declared
  enumeration one of its values; a fact that is not declared any rest is reported as
  false.
\<close>

definition conforms :: "usageSchema \<Rightarrow> simulationContext \<Rightarrow> string \<Rightarrow> bool" where
  "conforms schema ctx f \<longleftrightarrow>
     (case schemaField schema f of
        None \<Rightarrow> factOf ctx f = JBool False
      | Some d \<Rightarrow>
          if utype d = Some ''boolean'' then factOf ctx f = JBool True \<or> factOf ctx f = JBool False
          else (case uenum d of None \<Rightarrow> True | Some vs \<Rightarrow> list_ex (\<lambda>v. factOf ctx f = JStr v) vs))"

text \<open>The comparisons of a chain of conditionals.\<close>

fun chainTerms :: "node \<Rightarrow> node list" where
  "chainTerms (Conditional _ c yes no) = flattenBinary ''&&'' c @ chainTerms no"
| "chainTerms _ = []"

fun termConforms :: "usageSchema \<Rightarrow> simulationContext \<Rightarrow> node \<Rightarrow> bool" where
  "termConforms schema ctx (Binary _ _ (Call _ _ (Literal _ (LStr f) # _)) (Literal _ v)) \<longleftrightarrow>
     conforms schema ctx f \<and> (schemaField schema f = None \<longrightarrow> (case v of LBool _ \<Rightarrow> True | _ \<Rightarrow> False))"
| "termConforms schema ctx _ \<longleftrightarrow> True"

definition factsConform :: "usageSchema \<Rightarrow> simulationContext \<Rightarrow> node \<Rightarrow> bool" where
  "factsConform schema ctx n \<longleftrightarrow> list_all (termConforms schema ctx) (chainTerms n)"

lemma comparisonE:
  assumes "evaluate E (Binary sp ''=='' (Call sp1 ''u'' (Literal sp2 (LStr f) # rest)) (Literal sp3 w)) s = Inr ((v, i), s')"
  shows "v = JBool (strictEq (factOf (scontext E) f) (fst (literalValue w)))"
proof -
  let ?u = "Call sp1 ''u'' (Literal sp2 (LStr f) # rest)"
  obtain va ia s1 vb ib s2 where run: "evaluate E ?u (s\<lparr>rdepth := rdepth s + 1\<rparr>) = Inr ((va, ia), s1)"
    "evaluate E (Literal sp3 w) s1 = Inr ((vb, ib), s2)" "operateOp (fst sp) ''=='' (va, ia) (vb, ib) = Inr (v, i)"
    using assms by (auto simp: evaluate_Inr_iff [of E "Binary sp ''=='' ?u (Literal sp3 w)"] binaryOp_def cbind_eq_Inr_iff)
  have "va = factOf (scontext E) f"
    using run(1) by (cases "xUsage (scontext E)")
      (auto simp: evaluate_Inr_iff [of E ?u] evaluate_Inr_iff [of E "Literal sp2 (LStr f)"] callOp_def call_u_def
        reader_iffs argAt_def factOf_def)
  moreover have "vb = fst (literalValue w)" using evaluate_literal [OF run(2)] by (metis fst_conv)
  ultimately show ?thesis using run(3) by (auto simp: operateOp_def equalityOp_def split: if_splits)
qed

text \<open>The conditions collected by the loop, and whether they can hold at all.\<close>

definition stateHolds :: "simulationContext \<Rightarrow> taskConditionState \<Rightarrow> bool" where
  "stateHolds ctx st \<longleftrightarrow> snd st \<and> list_all (factHolds ctx) (fst st)"

lemma taskCondition_holds:
  assumes "taskCondition schema b f w st = Some st'" "conforms schema ctx f"
    "schemaField schema f = None \<Longrightarrow> \<exists>x. w = LBool x"
  shows "stateHolds ctx st' \<longleftrightarrow> stateHolds ctx st \<and> strictEq (factOf ctx f) (fst (literalValue w))"
proof (cases "schemaField schema f")
  case None
  with assms(3) obtain x where "w = LBool x" by blast
  with None assms(1,2) show ?thesis by (auto simp: taskCondition_def conforms_def stateHolds_def split: prod.splits)
next
  case (Some d)
  with assms(1,2) show ?thesis
    by (cases w) (auto simp: taskCondition_def conforms_def stateHolds_def factHolds_def list_ex_iff
        split: if_splits option.splits prod.splits)
qed

lemma taskConditionTerm_Some:
  assumes "taskConditionTerm schema b term st = Inr (Some st')"
  obtains sp sp1 sp2 sp3 f rest w where
    "term = Binary sp ''=='' (Call sp1 ''u'' (Literal sp2 (LStr f) # rest)) (Literal sp3 w)"
    "taskCondition schema b f w st = Some st'"
  using assms
  by (auto simp: taskConditionTerm_def usageProbe_def rbind_eq_Inr_iff
      split: node.split_asm if_split_asm list.split_asm lit.split_asm)

lemma taskConditionTerm_holds:
  assumes "taskConditionTerm schema b term st = Inr (Some st')" "termConforms schema (scontext E) term"
    "evaluate E term s = Inr ((JBool v, i), s')"
  shows "stateHolds (scontext E) st' \<longleftrightarrow> stateHolds (scontext E) st \<and> v"
proof -
  obtain sp sp1 sp2 sp3 f rest w where n: "term = Binary sp ''=='' (Call sp1 ''u'' (Literal sp2 (LStr f) # rest)) (Literal sp3 w)"
    and st': "taskCondition schema b f w st = Some st'"
    using assms(1) by (rule taskConditionTerm_Some)
  have "schemaField schema f = None \<Longrightarrow> \<exists>x. w = LBool x"
    using assms(2) n by (auto split: lit.splits)
  from taskCondition_holds [OF st' _ this] assms(2) comparisonE [OF assms(3) [unfolded n]] show ?thesis
    by (simp add: n)
qed

lemma optionLoop_append:
  "optionLoop f (xs @ ys) s = rbind (optionLoop f xs s) (\<lambda>r. case r of None \<Rightarrow> Inr None | Some s' \<Rightarrow> optionLoop f ys s')"
  by (induction xs arbitrary: s) (auto simp: rbind_def split: sum.splits option.splits)

lemma taskConditionTerm_mono:
  assumes "taskConditionTerm schema b term st = Inr (Some st')" "stateHolds ctx st'"
  shows "stateHolds ctx st"
proof -
  obtain f w where "taskCondition schema b f w st = Some st'"
    using assms(1) by (rule taskConditionTerm_Some)
  with assms(2) show ?thesis
    by (auto simp: taskCondition_def stateHolds_def split: prod.splits option.splits if_splits lit.splits)
qed

lemma loop_mono:
  "\<lbrakk>optionLoop (taskConditionTerm schema b) ns st = Inr (Some st'); stateHolds ctx st'\<rbrakk> \<Longrightarrow> stateHolds ctx st"
proof (induction ns arbitrary: st)
  case (Cons n ns)
  then obtain st1 where "taskConditionTerm schema b n st = Inr (Some st1)"
    "optionLoop (taskConditionTerm schema b) ns st1 = Inr (Some st')"
    by (auto simp: rbind_eq_Inr_iff split: option.split_asm)
  with Cons.IH Cons.prems(2) show ?case by (blast intro: taskConditionTerm_mono)
qed simp

lemma conditions_hold:
  "\<lbrakk>optionLoop (taskConditionTerm schema b) (flattenBinary ''&&'' n) st = Inr (Some st');
    list_all (termConforms schema (scontext E)) (flattenBinary ''&&'' n);
    evaluate E n s = Inr ((JBool v, i), s')\<rbrakk> \<Longrightarrow>
   stateHolds (scontext E) st' \<longleftrightarrow> stateHolds (scontext E) st \<and> v"
proof (induction n arbitrary: st st' s v i s' rule: node_children_induct)
  case (node n)
  show ?case
  proof (cases "\<exists>sp l r. n = Binary sp ''&&'' l r")
    case True
    then obtain sp l r where n: "n = Binary sp ''&&'' l r" by blast
    obtain st1 where loop: "optionLoop (taskConditionTerm schema b) (flattenBinary ''&&'' l) st = Inr (Some st1)"
      "optionLoop (taskConditionTerm schema b) (flattenBinary ''&&'' r) st1 = Inr (Some st')"
      using node.prems(1) by (auto simp: n optionLoop_append rbind_eq_Inr_iff split: option.split_asm)
    have fits: "list_all (termConforms schema (scontext E)) (flattenBinary ''&&'' l)"
      "list_all (termConforms schema (scontext E)) (flattenBinary ''&&'' r)"
      using node.prems(2) by (auto simp: n)
    note IH = node.IH [OF _ loop(1) fits(1)] node.IH [OF _ loop(2) fits(2)]
    from node.prems(3) [unfolded n] show ?thesis
    proof (cases rule: conjunctionE)
      case (1 a ia s1)
      with IH(1) [OF _ 1(1)] loop_mono [OF loop(2)] n show ?thesis by auto
    next
      case (2 a ia s1 c ib s2)
      with IH(1) [OF _ 2(1)] IH(2) [OF _ 2(3)] n show ?thesis by auto
    qed
  next
    case False
    then have "flattenBinary ''&&'' n = [n]" by (cases n) auto
    with node.prems taskConditionTerm_holds [of schema b n st st' E s v i s'] show ?thesis
      by (auto simp: rbind_eq_Inr_iff split: option.split_asm)
  qed
qed

lemma taskConditions_eval:
  assumes "taskConditions schema b c = Inr (Some r)" "evaluate E c s = Inr ((JBool v, i), s')"
    "list_all (termConforms schema (scontext E)) (flattenBinary ''&&'' c)"
  shows "v \<longleftrightarrow> (case r of Unreachable \<Rightarrow> False | Conditions cs \<Rightarrow> list_all (factHolds (scontext E)) cs)"
proof -
  obtain st where st: "optionLoop (taskConditionTerm schema b) (flattenBinary ''&&'' c) ([], True) = Inr (Some st)"
    "r = (if snd st then Conditions (fst st) else Unreachable)"
    using assms(1) by (auto simp: taskConditions_def rbind_eq_Inr_iff split: prod.splits)
  from conditions_hold [OF st(1) assms(3,2)] st(2) show ?thesis by (auto simp: stateHolds_def)
qed

section \<open>The row that applies\<close>

lemma readTaskChain_prefix: "readTaskChain schema b n ts = Inr (Some us) \<Longrightarrow> \<exists>vs. us = ts @ vs"
proof (induction n arbitrary: ts rule: node_children_induct)
  case (node n)
  show ?case
  proof (cases "\<exists>sp c y m. n = Conditional sp c y m")
    case False
    with node.prems show ?thesis by (auto simp: readTaskChain_leaf rbind_eq_Inr_iff)
  next
    case True
    then obtain sp c yes no where n: "n = Conditional sp c yes no" by blast
    have IH: "\<exists>vs. us = ts' @ vs" if "readTaskChain schema b no ts' = Inr (Some us)" for ts'
      using node.IH [OF _ that] n by simp
    from node.prems [unfolded n] show ?thesis
      by (cases rule: readTaskChain_conditional) (use IH in force)+
  qed
qed

lemma find_none: "list_all (\<lambda>t. \<not> P t) ts \<Longrightarrow> find P (ts @ us) = find P us"
  by (induction ts) auto

lemma taskTier_eval:
  assumes "taskTier schema n cs = Inr (Some t)" "evaluate E n s = Inr (r, s')"
  shows "matchedTier s' = klabel t"
  using assms(1)
proof (cases rule: taskTier_Some)
  case (1 sp sp1 label body rest)
  from assms(2) [unfolded 1(1)] taskTierBody_row [OF 1(2)] show ?thesis by (auto elim: evaluate_tierE)
qed

lemma taskChain_eval:
  "\<lbrakk>readTaskChain schema b n ts = Inr (Some us); factsConform schema (scontext E) n;
    list_all (\<lambda>t. \<not> taskRowApplies (scontext E) t) ts; evaluate E n s = Inr (r, s')\<rbrakk> \<Longrightarrow>
   \<exists>t. find (taskRowApplies (scontext E)) us = Some t \<and> matchedTier s' = klabel t"
proof (induction n arbitrary: ts s r s' rule: node_children_induct)
  case (node n)
  have here: ?case if "us = ts @ t # vs" "taskTier schema m cs = Inr (Some t)" "list_all (factHolds (scontext E)) cs"
    "evaluate E m s1 = Inr (r, s2)" "marksOf s' = marksOf s2" for t vs m cs s1 s2
    using taskTier_eval [OF that(2,4)] taskTier_row [OF that(2)] that node.prems(3)
    by (auto simp: find_none taskRowApplies_def marksOf_def)
  show ?case
  proof (cases "\<exists>sp c y m. n = Conditional sp c y m")
    case False
    with node.prems(1) obtain t where "taskTier schema n [] = Inr (Some t)" "us = ts @ [t]"
      by (auto simp: readTaskChain_leaf rbind_eq_Inr_iff)
    then show ?thesis using here [of t "[]" n "[]" s s'] node.prems(4) by simp
  next
    case True
    then obtain sp c yes no where n: "n = Conditional sp c yes no" by blast
    obtain v i s1 m s2 where run: "evaluate E c (s\<lparr>rdepth := rdepth s + 1\<rparr>) = Inr ((JBool v, i), s1)"
      "evaluate E (if v then yes else no) m = Inr (r, s2)" "marksOf s' = marksOf s2"
      using node.prems(4) [unfolded n] by (rule evaluate_conditionalE)
    have fits: "list_all (termConforms schema (scontext E)) (flattenBinary ''&&'' c)" "factsConform schema (scontext E) no"
      using node.prems(2) by (auto simp: n factsConform_def)
    note val = taskConditions_eval [OF _ run(1) fits(1)]
    have later: ?thesis if "\<not> v" "readTaskChain schema b no ts' = Inr (Some us)"
      "list_all (\<lambda>t. \<not> taskRowApplies (scontext E) t) ts'" for ts'
    proof -
      from run(2) that(1) have "evaluate E no m = Inr (r, s2)" by simp
      from node.IH [OF _ that(2) fits(2) that(3) this] n run(3) show ?thesis by (auto simp: marksOf_def)
    qed
    from node.prems(1) [unfolded n] show ?thesis
    proof (cases rule: readTaskChain_conditional)
      case unreachable
      with val [OF unreachable(1)] node.prems(3) show ?thesis by (intro later) simp_all
    next
      case (shadowed cs t)
      then have "\<not> list_all (factHolds (scontext E)) cs"
        using node.prems(3) unfolding shadows_def taskRowApplies_def list_all_iff by blast
      with val [OF shadowed(1)] shadowed(4) node.prems(3) show ?thesis by (intro later) simp_all
    next
      case (final t)
      with val [OF final(1)] run(2,3) show ?thesis using here [of t "[]" yes "[]" m s2] by simp
    next
      case (row cs t)
      note v = val [OF row(1), simplified]
      obtain vs where us: "us = ts @ t # vs" using readTaskChain_prefix [OF row(5)] by auto
      show ?thesis
      proof (cases v)
        case True
        with v run(2,3) here [OF us row(4)] show ?thesis by simp
      next
        case False
        with v node.prems(3) taskTier_row [OF row(4)] show ?thesis
          by (intro later [OF _ row(5)]) (simp_all add: taskRowApplies_def)
      qed
    qed
  qed
qed

section \<open>Properties\<close>

definition taskSource :: string where
  "taskSource = ''u(\"m\")==\"f\"?tier(\"f\",u(\"n\")*2):u(\"m\")==\"o\"?3:tier(\"s\",u(\"n\")*1)''"

definition taskSchema :: usageSchema where
  "taskSchema = [(''m'', \<lparr>utype = Some ''string'', uunit = None, uenum = Some [''f'', ''s'']\<rparr>),
     (''n'', \<lparr>utype = Some ''number'', uunit = Some ''second'', uenum = None\<rparr>)]"

definition taskContext :: simulationContext where
  "taskContext = emptyContext\<lparr>xUsage := Some [(''m'', JStr ''s''), (''n'', JNum (Fin 4))]\<rparr>"

lemma task_sample:
  "case compileBody taskSource of
     Inl _ \<Rightarrow> False
   | Inr c \<Rightarrow> (case readTaskTierChain taskSchema True (cast c) of Inr (Some ts) \<Rightarrow> length ts = 2 | _ \<Rightarrow> False) \<and>
       factsConform taskSchema taskContext (cast c) \<and> isOk (evaluationBody sampleHost c taskContext)"
  by code_simp

text \<open>
  C28. A displayed task table has no dead row: each row can be reached past the rows before it,
  exactly the last one has no condition, and every row prices at least one declared unit, each
  once, with non-negative numbers.
\<close>

theorem task_table_ok:
  assumes "readTaskTierChain schema includeBoolean n = Inr (Some ts)"
  shows "ts \<noteq> [] \<and> unshadowed ts \<and> (\<forall>t\<in>set ts. rowOk schema t) \<and>
    kconditions (last ts) = [] \<and> (\<forall>t\<in>set (butlast ts). kconditions t \<noteq> [])"
proof -
  have ok: "tableOk schema ts"
    using readTaskChain_ok [OF assms [unfolded readTaskTierChain_def]] by (simp add: rowsOk_def)
  then have "set ts = insert (last ts) (set (butlast ts))"
    by (cases ts rule: rev_cases) (auto simp: tableOk_def)
  with ok show ?thesis by (auto simp: tableOk_def rowsOk_def)
qed

theorem task_table_ok_witness:
  "\<exists>c ts. compileFresh taskSource = Ready c \<and> readTaskTierChain taskSchema True (cast c) = Inr (Some ts) \<and>
     ts \<noteq> [] \<and> unshadowed ts \<and> (\<forall>t\<in>set ts. rowOk taskSchema t) \<and>
     kconditions (last ts) = [] \<and> (\<forall>t\<in>set (butlast ts). kconditions t \<noteq> [])"
proof -
  obtain c ts where c: "compileBody taskSource = Inr c"
    and ts: "readTaskTierChain taskSchema True (cast c) = Inr (Some ts)"
    using task_sample by (auto split: sum.splits option.splits)
  with task_table_ok [OF ts] show ?thesis by (auto simp: compileFresh_Ready)
qed

text \<open>
  C29. The displayed task table is the table that bills: for facts that conform to the schema,
  the tier of a successful evaluation is the label of the first displayed row whose
  conditions hold, although branches that cannot match and branches an earlier one shadows
  are not displayed.
\<close>

theorem task_row_billed:
  assumes "readTaskTierChain schema includeBoolean (cast c) = Inr (Some ts)"
    and "factsConform schema ctx (cast c)" "evaluationBody h c ctx = Inr r"
  shows "\<exists>t. find (taskRowApplies ctx) ts = Some t \<and> eTier r = klabel t"
proof -
  obtain s v i s' where run:
    "evaluate \<lparr>shost = h, scompiled = c, scontext = ctx\<rparr> (cast c) s = Inr ((v, i), s')" "eTier r = matchedTier s'"
    using assms(3) by (rule evaluationBody_run)
  from taskChain_eval [OF assms(1) [unfolded readTaskTierChain_def] _ _ run(1)] assms(2) run(2)
  show ?thesis by simp
qed

theorem task_row_billed_witness:
  "\<exists>c ts r. compileFresh taskSource = Ready c \<and> readTaskTierChain taskSchema True (cast c) = Inr (Some ts) \<and>
     evaluationBody sampleHost c taskContext = Inr r \<and>
     (\<exists>t. find (taskRowApplies taskContext) ts = Some t \<and> eTier r = klabel t)"
proof -
  obtain c ts r where c: "compileBody taskSource = Inr c"
    and ts: "readTaskTierChain taskSchema True (cast c) = Inr (Some ts)" "factsConform taskSchema taskContext (cast c)"
    and r: "evaluationBody sampleHost c taskContext = Inr r"
    using task_sample by (auto split: sum.splits option.splits dest!: isOkE)
  from task_row_billed [OF ts r] c ts r show ?thesis by (auto simp: compileFresh_Ready)
qed

end
