(* ===== verification/JsUnits.thy ===== *)
theory JsUnits
  imports JsString "HOL-Library.List_Lexorder"
begin

text \<open>
  Texts as lists of UTF-16 code units, for the modules whose input is not limited to the
  characters of the expression language, with the string methods they use.
\<close>

type_synonym units = "nat list"

text \<open>The units of a text of the source.\<close>

abbreviation unitsOf :: "string \<Rightarrow> units" where
  "unitsOf s \<equiv> map of_char s"

text \<open>The white space and line terminators of ECMA-262, which \<open>trim\<close> and \<open>\s\<close> share.\<close>

definition isSpaceUnit :: "nat \<Rightarrow> bool" where
  "isSpaceUnit c \<longleftrightarrow> 9 \<le> c \<and> c \<le> 13 \<or> c \<in> set [0x20, 0xA0, 0x1680, 0x2028, 0x2029, 0x202F, 0x205F, 0x3000, 0xFEFF] \<or>
     0x2000 \<le> c \<and> c \<le> 0x200A"

definition isDigitUnit :: "nat \<Rightarrow> bool" where
  "isDigitUnit c \<longleftrightarrow> 48 \<le> c \<and> c \<le> 57"

definition trimUnits :: "units \<Rightarrow> units" where
  "trimUnits s = rev (dropWhile isSpaceUnit (rev (dropWhile isSpaceUnit s)))"

text \<open>
  \<open>Number.parseInt(digits, 10)\<close> for a text of digits. The source gets a double; integers up to
  2^53 are exact and rounding is monotone, so comparisons with small numbers are those of the
  exact value.
\<close>

definition parseDigits :: "units \<Rightarrow> nat" where
  "parseDigits = foldl (\<lambda>n c. 10 * n + (c - 48)) 0"

definition isNumber :: "units \<Rightarrow> bool" where
  "isNumber s \<longleftrightarrow> s \<noteq> [] \<and> list_all isDigitUnit s"

text \<open>The text of a small number.\<close>

definition codeText :: "nat \<Rightarrow> units" where
  "codeText n = map of_char (natString (int n))"

text \<open>\<open>text.startsWith(p)\<close> and \<open>text.endsWith(p)\<close>.\<close>

definition startsWithUnits :: "units \<Rightarrow> units \<Rightarrow> bool" where
  "startsWithUnits s p \<longleftrightarrow> take (length p) s = p"

definition endsWithUnits :: "units \<Rightarrow> units \<Rightarrow> bool" where
  "endsWithUnits s p \<longleftrightarrow> length p \<le> length s \<and> drop (length s - length p) s = p"

text \<open>\<open>Array.from(new Set(xs))\<close>: the first occurrences.\<close>

fun uniqueFrom :: "'a list \<Rightarrow> 'a list \<Rightarrow> 'a list" where
  "uniqueFrom seen [] = []"
| "uniqueFrom seen (x # xs) = (if x \<in> set seen then uniqueFrom seen xs else x # uniqueFrom (x # seen) xs)"

definition unique :: "'a list \<Rightarrow> 'a list" where
  "unique = uniqueFrom []"

lemma set_uniqueFrom: "set (uniqueFrom seen xs) = set xs - set seen"
  by (induction xs arbitrary: seen) auto

lemma distinct_uniqueFrom: "distinct (uniqueFrom seen xs)"
  by (induction xs arbitrary: seen) (auto simp: set_uniqueFrom)

lemma unique_simps [simp]: "set (unique xs) = set xs" "distinct (unique xs)"
  by (simp_all add: unique_def set_uniqueFrom distinct_uniqueFrom)

lemma uniqueFrom_id: "\<lbrakk>distinct xs; set xs \<inter> set seen = {}\<rbrakk> \<Longrightarrow> uniqueFrom seen xs = xs"
  by (induction xs arbitrary: seen) auto

lemma uniqueFrom_cong: "set s = set t \<Longrightarrow> uniqueFrom s xs = uniqueFrom t xs"
proof (induction xs arbitrary: s t)
  case (Cons x xs)
  from Cons.IH [OF Cons.prems] Cons.IH [of "x # s" "x # t"] Cons.prems show ?case by simp
qed simp

lemma unique_distinct: "distinct xs \<Longrightarrow> unique xs = xs"
  by (simp add: unique_def uniqueFrom_id)

section \<open>Facts\<close>

lemma codeText_digits: "isNumber (codeText n) \<and> parseDigits (codeText n) = n"
proof -
  have "0 \<le> k \<Longrightarrow> isNumber (map of_char (natString k)) \<and> parseDigits (map of_char (natString k)) = nat k" for k
  proof (induction k rule: natString.induct)
    case (1 k)
    let ?d = "48 + nat (k mod 10)"
    have d: "?d mod 256 = ?d" "nat (k mod 10) \<le> 9" using pos_mod_bound [of 10 k] by auto
    show ?case
    proof (cases "k < 10")
      case True
      with 1(2) show ?thesis by (simp add: natString.simps [of k] isNumber_def isDigitUnit_def parseDigits_def)
    next
      case False
      with 1 have IH: "isNumber (map of_char (natString (k div 10)))"
        "parseDigits (map of_char (natString (k div 10))) = nat (k div 10)" by auto
      have "10 * nat (k div 10) + nat (k mod 10) = nat k"
        using 1(2) nat_add_distrib [of "10 * (k div 10)" "k mod 10"] nat_mult_distrib [of 10 "k div 10"] by simp
      with False IH d show ?thesis
        by (simp add: natString.simps [of k] isNumber_def isDigitUnit_def parseDigits_def)
    qed
  qed
  then show ?thesis by (simp add: codeText_def)
qed

lemma trim_clean: "\<forall>c\<in>set s. \<not> isSpaceUnit c \<Longrightarrow> trimUnits s = s"
proof -
  assume clean: "\<forall>c\<in>set s. \<not> isSpaceUnit c"
  have "\<forall>c\<in>set t. \<not> isSpaceUnit c \<Longrightarrow> dropWhile isSpaceUnit t = t" for t by (cases t) auto
  from this [of s] this [of "rev s"] clean show ?thesis by (simp add: trimUnits_def)
qed

lemma trimUnits_Nil [simp]: "trimUnits [] = []"
  by (simp add: trimUnits_def)

lemma set_trimUnits: "set (trimUnits s) \<subseteq> set s"
  by (auto simp: trimUnits_def dest!: set_dropWhileD)

lemma trimUnits_idem [simp]: "trimUnits (trimUnits s) = trimUnits s"
proof -
  have trimmed: "dropWhile isSpaceUnit t = t" if "t = [] \<or> \<not> isSpaceUnit (hd t)" for t
    using that by (cases t) auto
  have head: "dropWhile isSpaceUnit s = [] \<or> \<not> isSpaceUnit (hd (dropWhile isSpaceUnit s))" for s
    by (metis hd_dropWhile)
  let ?t = "dropWhile isSpaceUnit s"
  have "trimUnits s = [] \<or> \<not> isSpaceUnit (hd (trimUnits s))"
  proof (cases "trimUnits s")
    case (Cons c r)
    have "?t = [] \<Longrightarrow> trimUnits s = []" by (auto simp: trimUnits_def dest: set_dropWhileD)
    with Cons have "?t \<noteq> []" by force
    moreover have "hd (trimUnits s) = hd ?t"
    proof -
      obtain zs where "rev ?t = zs @ dropWhile isSpaceUnit (rev ?t)"
        by (metis takeWhile_dropWhile_id)
      then have "?t = trimUnits s @ rev zs" unfolding trimUnits_def by (metis rev_append rev_rev_ident)
      with Cons show ?thesis by (metis append_Cons list.sel(1))
    qed
    ultimately show ?thesis using head [of s] by auto
  qed simp
  then have "dropWhile isSpaceUnit (trimUnits s) = trimUnits s" by (rule trimmed)
  then show ?thesis using head [of "rev ?t"] trimmed by (simp add: trimUnits_def)
qed

end
