(* ===== verification/Json.thy ===== *)
theory Json
  imports JsUnits "HOL-Library.Multiset"
begin

text \<open>
  The part of the language the configuration modules rest on: objects with the property
  order of ECMA-262, \<open>JSON.parse\<close>, and \<open>JSON.stringify(mapping, null, 2)\<close> for an object of
  strings. The recursive parser runs on fuel that is shown to be enough for every text, and
  reading back a printed mapping returns it.
\<close>

datatype json = JsonNull | JsonBool bool | JsonNum jsnum | JsonStr units | JsonArr "json list"
  | JsonObj "(units \<times> json) list"

datatype jsonError = SyntaxError | JsonFuel

type_synonym 'a jres = "(jsonError, 'a) result"

section \<open>Properties of an object\<close>

text \<open>Setting a property keeps its place or appends it.\<close>

fun setProp :: "'k \<Rightarrow> 'v \<Rightarrow> ('k \<times> 'v) list \<Rightarrow> ('k \<times> 'v) list" where
  "setProp k v [] = [(k, v)]"
| "setProp k v ((k', v') # kvs) = (if k = k' then (k, v) # kvs else (k', v') # setProp k v kvs)"

text \<open>The keys that are array indices come first, in numeric order.\<close>

definition isArrayIndex :: "units \<Rightarrow> bool" where
  "isArrayIndex k \<longleftrightarrow> isNumber k \<and> (k = [48] \<or> hd k \<noteq> 48) \<and> parseDigits k < 2 ^ 32 - 1"

definition objectEntries :: "(units \<times> 'v) list \<Rightarrow> (units \<times> 'v) list" where
  "objectEntries kvs =
     sort_key (\<lambda>kv. parseDigits (fst kv)) (filter (\<lambda>kv. isArrayIndex (fst kv)) kvs) @
     filter (\<lambda>kv. \<not> isArrayIndex (fst kv)) kvs"

lemma map_of_setProp [simp]: "map_of (setProp k v kvs) = (map_of kvs)(k \<mapsto> v)"
  by (induction kvs) (auto simp: fun_eq_iff)

lemma keys_setProp: "map fst (setProp k v kvs) = (if k \<in> fst ` set kvs then map fst kvs else map fst kvs @ [k])"
  by (induction k v kvs rule: setProp.induct) auto

lemma distinct_setProp [simp]: "distinct (map fst (setProp k v kvs)) = distinct (map fst kvs)"
  by (simp add: keys_setProp)

lemma set_objectEntries [simp]: "set (objectEntries kvs) = set kvs"
  by (auto simp: objectEntries_def)

lemma distinct_objectEntries:
  assumes "distinct (map fst kvs)"
  shows "distinct (map fst (objectEntries kvs))"
proof -
  have "mset (objectEntries kvs) = mset kvs"
    by (simp add: objectEntries_def)
  then have "mset (map fst (objectEntries kvs)) = mset (map fst kvs)" by (metis mset_map)
  with assms show ?thesis using mset_eq_imp_distinct_iff by blast
qed

lemma map_of_objectEntries: "distinct (map fst kvs) \<Longrightarrow> map_of (objectEntries kvs) = map_of kvs"
  by (rule map_of_eqI) (auto simp: distinct_objectEntries intro!: map_of_eqI)

lemma objectEntries_idem [simp]: "objectEntries (objectEntries kvs) = objectEntries kvs"
  by (simp add: objectEntries_def filter_sort sort_key_id_if_sorted)

section \<open>\<open>JSON.parse\<close>\<close>

definition jsonSpace :: "nat \<Rightarrow> bool" where
  "jsonSpace c \<longleftrightarrow> c = 9 \<or> c = 10 \<or> c = 13 \<or> c = 32"

definition skipJson :: "units \<Rightarrow> units" where
  "skipJson = dropWhile jsonSpace"

definition isHexUnit :: "nat \<Rightarrow> bool" where
  "isHexUnit c \<longleftrightarrow> isDigitUnit c \<or> 97 \<le> c \<and> c \<le> 102 \<or> 65 \<le> c \<and> c \<le> 70"

definition hexUnitVal :: "nat \<Rightarrow> nat" where
  "hexUnitVal c = (if c \<le> 57 then c - 48 else if c \<le> 70 then c - 55 else c - 87)"

text \<open>The escapes of one character: quote, backslash, slash, b, f, n, r, t.\<close>

definition simpleEscape :: "nat \<Rightarrow> nat option" where
  "simpleEscape e =
     map_of [(34, 34), (92, 92), (47, 47), (98, 8), (102, 12), (110, 10), (114, 13), (116, 9)] e"

definition hexUnits :: "nat list \<Rightarrow> nat" where
  "hexUnits = foldl (\<lambda>n c. 16 * n + hexUnitVal c) 0"

text \<open>The rest of a string literal after its opening quote.\<close>

function (sequential) jsonChars :: "units \<Rightarrow> (units \<times> units) option" where
  "jsonChars [] = None"
| "jsonChars (c # s) =
     (if c = 34 then Some ([], s)
      else if c = 92 then
        (case s of
           [] \<Rightarrow> None
         | e # r \<Rightarrow>
             if e = 117 then
               (if length r \<ge> 4 \<and> list_all isHexUnit (take 4 r)
                then map_option (\<lambda>(cs, q). (hexUnits (take 4 r) # cs, q)) (jsonChars (drop 4 r)) else None)
             else (case simpleEscape e of
                     None \<Rightarrow> None
                   | Some v \<Rightarrow> map_option (\<lambda>(cs, q). (v # cs, q)) (jsonChars r)))
      else if c < 32 then None
      else map_option (\<lambda>(cs, q). (c # cs, q)) (jsonChars s))"
  by pat_completeness auto

termination jsonChars by (relation "measure length") auto

text \<open>The digits, the fraction and the exponent of a number.\<close>

definition jsonInt :: "units \<Rightarrow> units" where
  "jsonInt s = (case s of c # _ \<Rightarrow> if c = 48 then [48] else takeWhile isDigitUnit s | [] \<Rightarrow> [])"

definition jsonFraction :: "units \<Rightarrow> units" where
  "jsonFraction s =
     (case s of c # t \<Rightarrow> if c = 46 then c # takeWhile isDigitUnit t else [] | [] \<Rightarrow> [])"

definition jsonExponent :: "units \<Rightarrow> units" where
  "jsonExponent s =
     (case s of
        c # t \<Rightarrow>
          if c = 101 \<or> c = 69
          then let sign = takeWhile (\<lambda>x. x = 43 \<or> x = 45) (take 1 t)
               in c # sign @ takeWhile isDigitUnit (drop (length sign) t)
          else []
      | [] \<Rightarrow> [])"

text \<open>A fraction or an exponent that starts needs a digit at its end.\<close>

definition endsInDigit :: "units \<Rightarrow> bool" where
  "endsInDigit s \<longleftrightarrow> s = [] \<or> isDigitUnit (last s)"

definition jsonNumber :: "units \<Rightarrow> (json \<times> units) option" where
  "jsonNumber s =
     (let negative = (s \<noteq> [] \<and> hd s = 45);
          t = (if negative then tl s else s);
          i = jsonInt t;
          f = jsonFraction (drop (length i) t);
          e = jsonExponent (drop (length i + length f) t);
          x = numberOf (map char_of (i @ f @ e))
      in if i = [] \<or> \<not> endsInDigit f \<or> \<not> endsInDigit e then None
         else Some (JsonNum (if negative then js_neg x else x), drop (length i + length f + length e) t))"

fun jsonVal :: "nat \<Rightarrow> units \<Rightarrow> (json \<times> units) jres"
  and jsonElems :: "nat \<Rightarrow> units \<Rightarrow> (json list \<times> units) jres"
  and jsonMembers :: "nat \<Rightarrow> units \<Rightarrow> (units \<times> json) list \<Rightarrow> ((units \<times> json) list \<times> units) jres" where
  "jsonVal 0 s = Inl JsonFuel"
| "jsonVal (Suc n) s =
     (case skipJson s of
        [] \<Rightarrow> Inl SyntaxError
      | c # t \<Rightarrow>
          if c = 34 then (case jsonChars t of Some (cs, r) \<Rightarrow> Inr (JsonStr cs, r) | None \<Rightarrow> Inl SyntaxError)
          else if c = 91 then
            (case skipJson t of
               [] \<Rightarrow> Inl SyntaxError
             | d # r \<Rightarrow>
                 if d = 93 then Inr (JsonArr [], r)
                 else rbind (jsonElems n t) (\<lambda>(vs, r). Inr (JsonArr vs, r)))
          else if c = 123 then
            (case skipJson t of
               [] \<Rightarrow> Inl SyntaxError
             | d # r \<Rightarrow>
                 if d = 125 then Inr (JsonObj [], r)
                 else rbind (jsonMembers n t []) (\<lambda>(kvs, r). Inr (JsonObj kvs, r)))
          else if startsWithUnits (c # t) (unitsOf ''true'') then Inr (JsonBool True, drop 4 (c # t))
          else if startsWithUnits (c # t) (unitsOf ''false'') then Inr (JsonBool False, drop 5 (c # t))
          else if startsWithUnits (c # t) (unitsOf ''null'') then Inr (JsonNull, drop 4 (c # t))
          else (case jsonNumber (c # t) of Some vr \<Rightarrow> Inr vr | None \<Rightarrow> Inl SyntaxError))"
| "jsonElems 0 s = Inl JsonFuel"
| "jsonElems (Suc n) s =
     rbind (jsonVal n s) (\<lambda>(v, r).
     case skipJson r of
       [] \<Rightarrow> Inl SyntaxError
     | d # q \<Rightarrow>
         if d = 44 then rbind (jsonElems n q) (\<lambda>(vs, r'). Inr (v # vs, r'))
         else if d = 93 then Inr ([v], q) else Inl SyntaxError)"
| "jsonMembers 0 s kvs = Inl JsonFuel"
| "jsonMembers (Suc n) s kvs =
     (case skipJson s of
        [] \<Rightarrow> Inl SyntaxError
      | c # t \<Rightarrow>
          if c \<noteq> 34 then Inl SyntaxError
          else (case jsonChars t of
                  None \<Rightarrow> Inl SyntaxError
                | Some (k, r) \<Rightarrow>
                    (case skipJson r of
                       [] \<Rightarrow> Inl SyntaxError
                     | d # q \<Rightarrow>
                         if d \<noteq> 58 then Inl SyntaxError
                         else rbind (jsonVal n q) (\<lambda>(v, r').
                           case skipJson r' of
                             [] \<Rightarrow> Inl SyntaxError
                           | e # q' \<Rightarrow>
                               if e = 44 then jsonMembers n q' (setProp k v kvs)
                               else if e = 125 then Inr (setProp k v kvs, q') else Inl SyntaxError))))"

declare jsonVal.simps [simp del] jsonElems.simps [simp del] jsonMembers.simps [simp del]

lemmas json_unfold = jsonVal.simps jsonElems.simps jsonMembers.simps

definition parseJson :: "units \<Rightarrow> json jres" where
  "parseJson s =
     rbind (jsonVal (2 * length s + 1) s) (\<lambda>(v, r).
     if skipJson r = [] then Inr v else Inl SyntaxError)"

text \<open>
  \<open>String(value)\<close> for a parsed value. An object whose own property \<open>toString\<close> hides the method
  has no text: the conversion throws a TypeError.
\<close>

fun jsonText :: "json \<Rightarrow> units option" where
  "jsonText JsonNull = Some (unitsOf ''null'')"
| "jsonText (JsonBool b) = Some (unitsOf (if b then ''true'' else ''false''))"
| "jsonText (JsonNum x) = Some (unitsOf (numString x))"
| "jsonText (JsonStr s) = Some s"
| "jsonText (JsonArr vs) =
     map_option (joinWith [44]) (those (map (\<lambda>v. if v = JsonNull then Some [] else jsonText v) vs))"
| "jsonText (JsonObj kvs) =
     (if unitsOf ''toString'' \<in> fst ` set kvs then None else Some (unitsOf ''[object Object]''))"

section \<open>\<open>JSON.stringify\<close>\<close>

definition hexDigit :: "nat \<Rightarrow> nat" where
  "hexDigit d = (if d < 10 then 48 + d else 87 + d)"

definition unicodeEscape :: "nat \<Rightarrow> units" where
  "unicodeEscape c = [92, 117, hexDigit (c div 4096 mod 16), hexDigit (c div 256 mod 16), hexDigit (c div 16 mod 16), hexDigit (c mod 16)]"

definition leadSurrogate :: "nat \<Rightarrow> bool" where "leadSurrogate c \<longleftrightarrow> 0xD800 \<le> c \<and> c \<le> 0xDBFF"
definition trailSurrogate :: "nat \<Rightarrow> bool" where "trailSurrogate c \<longleftrightarrow> 0xDC00 \<le> c \<and> c \<le> 0xDFFF"

definition quoteUnit :: "nat \<Rightarrow> units" where
  "quoteUnit c =
     (case map_of [(8, 98), (9, 116), (10, 110), (12, 102), (13, 114), (34, 34), (92, 92)] c of
        Some e \<Rightarrow> [92, e]
      | None \<Rightarrow> if c < 32 \<or> leadSurrogate c \<or> trailSurrogate c then unicodeEscape c else [c])"

text \<open>A lead surrogate followed by a trail surrogate is one code point and not escaped.\<close>

fun quoteUnits :: "units \<Rightarrow> units" where
  "quoteUnits [] = []"
| "quoteUnits [c] = quoteUnit c"
| "quoteUnits (c # d # s) =
     (if leadSurrogate c \<and> trailSurrogate d then c # d # quoteUnits s else quoteUnit c @ quoteUnits (d # s))"

definition quoteJson :: "units \<Rightarrow> units" where
  "quoteJson s = 34 # quoteUnits s @ [34]"

definition stringifyMember :: "units \<times> units \<Rightarrow> units" where
  "stringifyMember kv = [32, 32] @ quoteJson (fst kv) @ [58, 32] @ quoteJson (snd kv)"

definition stringifyMapping :: "(units \<times> units) list \<Rightarrow> units" where
  "stringifyMapping kvs =
     (if kvs = [] then [123, 125]
      else [123, 10] @ joinWith [44, 10] (map stringifyMember (objectEntries kvs)) @ [10, 125])"

section \<open>The fuel is enough\<close>

lemma skipJson_shorter: "length (skipJson s) \<le> length s"
  by (simp add: skipJson_def length_dropWhile_le)

lemma skipJson_Cons: "skipJson s = c # t \<Longrightarrow> length t < length s"
  using skipJson_shorter [of s] by simp

lemma jsonChars_shorter: "jsonChars s = Some (cs, r) \<Longrightarrow> length r < length s"
proof (induction s arbitrary: cs r rule: jsonChars.induct)
  case (2 c s)
  show ?case
  proof (cases "c = 92")
    case True
    then obtain e t where "s = e # t" using "2.prems" by (auto split: list.splits)
    with True "2.prems" "2.IH"(1,2) show ?thesis
      by (auto split: if_splits option.splits) (fastforce dest: less_trans)+
  next
    case False
    with "2.prems" "2.IH"(3) show ?thesis by (fastforce split: if_splits dest: less_SucI)
  qed
qed simp

lemma jsonNumber_shorter:
  assumes "jsonNumber s = Some (v, r)"
  shows "length r < length s"
proof -
  define t where "t = (if s \<noteq> [] \<and> hd s = 45 then tl s else s)"
  define i where "i = jsonInt t"
  have r: "length r \<le> length t - length i" and i: "i \<noteq> []"
    using assms by (auto simp: jsonNumber_def Let_def i_def t_def split: if_splits)
  have "length i \<le> length t"
    by (auto simp: i_def jsonInt_def length_takeWhile_le split: list.splits)
  moreover have "length t \<le> length s" by (simp add: t_def)
  moreover have "0 < length i" using i by simp
  ultimately show ?thesis using r by linarith
qed

text \<open>A result leaves a rest shorter than \<open>len\<close>, and given enough fuel it is not the fuel error.\<close>

definition consumes :: "nat \<Rightarrow> bool \<Rightarrow> ('a \<times> units) jres \<Rightarrow> bool" where
  "consumes len enough m \<longleftrightarrow> (\<forall>v r. m = Inr (v, r) \<longrightarrow> length r < len) \<and> (enough \<longrightarrow> m \<noteq> Inl JsonFuel)"

lemma consumes_simps [simp]:
  "consumes len enough (Inl SyntaxError)"
  "consumes len enough (Inl JsonFuel) \<longleftrightarrow> \<not> enough"
  "consumes len enough (Inr (v, r)) \<longleftrightarrow> length r < len"
  by (auto simp: consumes_def)

lemma consumes_rbind:
  assumes "consumes len' enough' m" "enough \<Longrightarrow> enough'"
    "\<And>v r. \<lbrakk>m = Inr (v, r); length r < len'\<rbrakk> \<Longrightarrow> consumes len enough (f (v, r))"
  shows "consumes len enough (rbind m f)"
  using assms by (cases m) (auto simp: consumes_def)

lemma consumes_optional:
  "(\<And>v r. x = Some (v, r) \<Longrightarrow> length r < len) \<Longrightarrow>
   consumes len enough (case x of Some vr \<Rightarrow> Inr vr | None \<Rightarrow> Inl SyntaxError)"
  by (auto split: option.split)

lemma json_consumes:
  "consumes (length s) (2 * length s + 1 \<le> n) (jsonVal n s)"
  "consumes (length s) (2 * length s + 2 \<le> n) (jsonElems n s)"
  "consumes (length s) (2 * length s + 2 \<le> n) (jsonMembers n s kvs)"
proof (induction n s and n s and n s kvs rule: jsonVal_jsonElems_jsonMembers.induct)
  case (2 n s)
  show ?case
  proof (cases "skipJson s")
    case (Cons c t)
    note t = skipJson_Cons [OF Cons]
    have lit: "length (drop (Suc k) (c # t)) < length s" for k using t by simp
    have num: "jsonNumber (c # t) = Some (v, r) \<Longrightarrow> length r < length s" for v r
      using jsonNumber_shorter [of "c # t" v r] skipJson_shorter [of s] Cons by simp
    have chars: "jsonChars t = Some (cs, r) \<Longrightarrow> length r < length s" for cs r
      using jsonChars_shorter [of t cs r] t by simp
    have arr: "consumes (length s) (2 * length s + 1 \<le> Suc n) (rbind (jsonElems n t) (\<lambda>(vs, r). Inr (JsonArr vs, r)))"
      if "skipJson t = d # r" "d \<noteq> 93" "c = 91" for d r
      by (rule consumes_rbind [OF "2.IH"(1) [OF Cons _ that(3,1,2)]]) (use t that in auto)
    have obj: "consumes (length s) (2 * length s + 1 \<le> Suc n) (rbind (jsonMembers n t []) (\<lambda>(vs, r). Inr (JsonObj vs, r)))"
      if "skipJson t = d # r" "d \<noteq> 125" "c = 123" for d r
      by (rule consumes_rbind [OF "2.IH"(2) [OF Cons _ _ that(3,1,2)]]) (use t that in auto)
    show ?thesis
      using arr obj lit [of 3] lit [of 4] t skipJson_Cons [of t]
      by (auto simp: json_unfold Cons split: list.split option.split intro!: consumes_optional
          dest: chars num skipJson_Cons [of t])
  qed (simp add: json_unfold)
next
  case (4 n s)
  show ?case unfolding jsonElems.simps
  proof (rule consumes_rbind [OF "4.IH"(1)])
    fix v r assume v: "jsonVal n s = Inr (v, r)" and r: "length r < length s"
    have more: "consumes (length s) (2 * length s + 2 \<le> Suc n) (rbind (jsonElems n q) (\<lambda>(vs, r'). Inr (v # vs, r')))"
      if "skipJson r = d # q" "d = 44" for d q
      by (rule consumes_rbind [OF "4.IH"(2) [OF v refl that]]) (use r skipJson_Cons [OF that(1)] in auto)
    show "consumes (length s) (2 * length s + 2 \<le> Suc n)
      (case (v, r) of (v, r) \<Rightarrow> case skipJson r of [] \<Rightarrow> Inl SyntaxError
        | d # q \<Rightarrow> if d = 44 then rbind (jsonElems n q) (\<lambda>(vs, r'). Inr (v # vs, r'))
                   else if d = 93 then Inr ([v], q) else Inl SyntaxError)"
      using more r skipJson_Cons [of r] by (fastforce split: list.split)
  qed simp
next
  case (6 n s kvs)
  show ?case
  proof (cases "skipJson s")
    case (Cons c t)
    note t = skipJson_Cons [OF Cons]
    have member: "consumes (length s) (2 * length s + 2 \<le> Suc n) (rbind (jsonVal n q) (\<lambda>(v, r').
        case skipJson r' of [] \<Rightarrow> Inl SyntaxError
        | e # q' \<Rightarrow> if e = 44 then jsonMembers n q' (setProp k v kvs)
                    else if e = 125 then Inr (setProp k v kvs, q') else Inl SyntaxError))"
      if k: "jsonChars t = Some (k, r)" and q: "skipJson r = d # q" and c: "\<not> c \<noteq> 34" "\<not> d \<noteq> 58" for k r d q
    proof -
      have len: "length q < length s" using jsonChars_shorter [OF k] skipJson_Cons [OF q] t by simp
      show ?thesis
      proof (rule consumes_rbind [OF "6.IH"(1) [OF Cons c(1) k refl q c(2)]])
        fix v r' assume v: "jsonVal n q = Inr (v, r')" and r': "length r' < length q"
        have "consumes (length q') (2 * length q' + 2 \<le> n) (jsonMembers n q' (setProp k v kvs))"
          if "skipJson r' = e # q'" "e = 44" for e q'
          using "6.IH"(2) [OF Cons c(1) k refl q c(2) v refl that] .
        then show "consumes (length s) (2 * length s + 2 \<le> Suc n) (case (v, r') of (v, r') \<Rightarrow>
            case skipJson r' of [] \<Rightarrow> Inl SyntaxError
            | e # q' \<Rightarrow> if e = 44 then jsonMembers n q' (setProp k v kvs)
                        else if e = 125 then Inr (setProp k v kvs, q') else Inl SyntaxError)"
          using r' len skipJson_Cons [of r'] by (fastforce split: list.split simp: consumes_def)
      qed (use len in simp)
    qed
    then show ?thesis by (auto simp: json_unfold Cons split: list.split option.split)
  qed (simp add: json_unfold)
qed (simp_all add: json_unfold)

lemma parseJson_fuel: "parseJson s \<noteq> Inl JsonFuel"
  using json_consumes(1) [of s "2 * length s + 1"]
  by (cases "jsonVal (2 * length s + 1) s") (auto simp: parseJson_def consumes_def split: if_splits)

text \<open>The keys of a parsed object are distinct.\<close>

lemma jsonMembers_distinct:
  "\<lbrakk>jsonMembers n s kvs = Inr (kvs', r); distinct (map fst kvs)\<rbrakk> \<Longrightarrow> distinct (map fst kvs')"
proof (induction n arbitrary: s kvs)
  case (Suc n)
  obtain c t k r1 d q where s: "skipJson s = c # t" "c = 34" "jsonChars t = Some (k, r1)" "skipJson r1 = d # q" "d = 58"
    using Suc.prems(1) by (auto simp: json_unfold split: list.split_asm option.split_asm if_split_asm)
  obtain v r2 where v: "jsonVal n q = Inr (v, r2)"
    using Suc.prems(1) s by (cases "jsonVal n q") (auto simp: json_unfold)
  obtain e q' where "skipJson r2 = e # q'"
    using Suc.prems(1) s v by (cases "skipJson r2") (auto simp: json_unfold)
  with Suc.prems s v have "kvs' = setProp k v kvs \<or> jsonMembers n q' (setProp k v kvs) = Inr (kvs', r)"
    by (auto simp: json_unfold split: if_split_asm)
  with Suc.IH Suc.prems(2) show ?case by auto
qed (simp add: json_unfold)

lemma parseJson_distinct:
  assumes "parseJson s = Inr (JsonObj kvs)"
  shows "distinct (map fst kvs)"
proof -
  obtain r where "jsonVal (Suc (2 * length s)) s = Inr (JsonObj kvs, r)"
    using assms by (auto simp: parseJson_def rbind_eq_Inr_iff split: if_splits)
  then have "kvs = [] \<or> (\<exists>t. jsonMembers (2 * length s) t [] = Inr (kvs, r))"
    by (auto simp: json_unfold rbind_eq_Inr_iff jsonNumber_def Let_def
        split: list.split_asm option.split_asm if_split_asm)
  then show ?thesis using jsonMembers_distinct by fastforce
qed

section \<open>Reading a printed mapping\<close>

lemma hexDigit_val: "d < 16 \<Longrightarrow> isHexUnit (hexDigit d) \<and> hexUnitVal (hexDigit d) = d"
  by (auto simp: hexDigit_def isHexUnit_def isDigitUnit_def hexUnitVal_def)

lemma jsonChars_unicode:
  assumes "c < 65536"
  shows "jsonChars (unicodeEscape c @ t) = map_option (\<lambda>(cs, q). (c # cs, q)) (jsonChars t)"
proof -
  let ?ds = "[hexDigit (c div 4096 mod 16), hexDigit (c div 256 mod 16), hexDigit (c div 16 mod 16), hexDigit (c mod 16)]"
  have "hexUnits ?ds = 4096 * (c div 4096 mod 16) + 256 * (c div 256 mod 16) + 16 * (c div 16 mod 16) + c mod 16"
    by (simp add: hexUnits_def hexDigit_val)
  moreover have "c div 4096 mod 16 = c div 4096" using assms by (simp add: less_mult_imp_div_less)
  moreover have "c div 4096 * 16 + c div 256 mod 16 = c div 256" "c div 256 * 16 + c div 16 mod 16 = c div 16"
    "c div 16 * 16 + c mod 16 = c"
    using div_mult_mod_eq [of "c div 256" 16] div_mult_mod_eq [of "c div 16" 16] div_mult_mod_eq [of c 16]
    by (simp_all add: div_mult2_eq [symmetric])
  ultimately have "hexUnits ?ds = c" by linarith
  moreover have "list_all isHexUnit ?ds" by (simp add: hexDigit_val)
  ultimately show ?thesis by (simp add: unicodeEscape_def)
qed

lemma jsonChars_quoteUnit:
  "jsonChars (quoteUnit c @ t) = map_option (\<lambda>(cs, q). (c # cs, q)) (jsonChars t)"
proof (cases "map_of [(8, 98), (9, 116), (10, 110), (12, 102), (13, 114), (34, 34), (92, 92)] c :: nat option")
  case None
  then have c: "c \<noteq> 34" "c \<noteq> 92" by (auto split: if_splits)
  have quote: "quoteUnit c = (if c < 32 \<or> leadSurrogate c \<or> trailSurrogate c then unicodeEscape c else [c])"
    unfolding quoteUnit_def None by simp
  show ?thesis
  proof (cases "c < 32 \<or> leadSurrogate c \<or> trailSurrogate c")
    case True
    then have "c < 65536" by (auto simp: leadSurrogate_def trailSurrogate_def)
    with True quote show ?thesis by (simp add: jsonChars_unicode)
  next
    case False
    with quote c show ?thesis by simp
  qed
next
  case (Some e)
  then have "quoteUnit c = [92, e]" by (simp add: quoteUnit_def)
  moreover from Some have "e \<noteq> 117 \<and> simpleEscape e = Some c"
    by (auto simp: simpleEscape_def split: if_splits)
  ultimately show ?thesis by simp
qed

lemma jsonChars_quote: "jsonChars (quoteUnits s @ 34 # r) = Some (s, r)"
proof (induction s rule: quoteUnits.induct)
  case (3 c d s)
  show ?case
  proof (cases "leadSurrogate c \<and> trailSurrogate d")
    case True
    then have "c \<noteq> 34" "c \<noteq> 92" "\<not> c < 32" "d \<noteq> 34" "d \<noteq> 92" "\<not> d < 32"
      by (auto simp: leadSurrogate_def trailSurrogate_def)
    with 3(1) [OF True] True show ?thesis by simp
  next
    case False
    with 3(2) show ?thesis by (auto simp: jsonChars_quoteUnit)
  qed
qed (simp_all add: jsonChars_quoteUnit)

lemma skipJson_simps [simp]:
  "skipJson (9 # s) = skipJson s" "skipJson (10 # s) = skipJson s" "skipJson (32 # s) = skipJson s"
  "skipJson (34 # s) = 34 # s" "skipJson (44 # s) = 44 # s" "skipJson (58 # s) = 58 # s"
  "skipJson (123 # s) = 123 # s" "skipJson (125 # s) = 125 # s" "skipJson [] = []"
  by (simp_all add: skipJson_def jsonSpace_def)

definition jsonEntries :: "(units \<times> units) list \<Rightarrow> (units \<times> json) list" where
  "jsonEntries = map (\<lambda>(k, v). (k, JsonStr v))"

lemma setProp_new: "k \<notin> fst ` set kvs \<Longrightarrow> setProp k v kvs = kvs @ [(k, v)]"
  by (induction kvs) auto

lemma jsonMembers_member:
  "jsonMembers (Suc (Suc m)) (10 # stringifyMember (k, v) @ 44 # q) acc = jsonMembers (Suc m) q (setProp k (JsonStr v) acc)"
  "jsonMembers (Suc (Suc m)) (10 # stringifyMember (k, v) @ 10 # 125 # q) acc = Inr (setProp k (JsonStr v) acc, q)"
  by (simp_all add: jsonMembers.simps(2) [of "Suc m"] jsonVal.simps(2) stringifyMember_def quoteJson_def jsonChars_quote)

lemma jsonMembers_printed:
  "\<lbrakk>kvs \<noteq> []; length kvs < n; distinct (map fst (acc @ jsonEntries kvs))\<rbrakk> \<Longrightarrow>
   jsonMembers n (10 # joinWith [44, 10] (map stringifyMember kvs) @ 10 # 125 # r) acc =
     Inr (acc @ jsonEntries kvs, r)"
proof (induction kvs arbitrary: n acc)
  case (Cons kv kvs)
  obtain k v where kv: "kv = (k, v)" by (cases kv)
  obtain m where n: "n = Suc (Suc m)" using Cons.prems(2) by (cases n; cases "n - 1") auto
  have new: "setProp k (JsonStr v) acc = acc @ [(k, JsonStr v)]"
    using Cons.prems(3) kv by (intro setProp_new) (auto simp: jsonEntries_def)
  show ?case
  proof (cases "kvs = []")
    case True
    then show ?thesis by (simp add: n kv jsonMembers_member new jsonEntries_def)
  next
    case False
    have "jsonMembers (Suc m) (10 # joinWith [44, 10] (map stringifyMember kvs) @ 10 # 125 # r)
        (acc @ [(k, JsonStr v)]) = Inr ((acc @ [(k, JsonStr v)]) @ jsonEntries kvs, r)"
      using Cons.prems False kv n by (intro Cons.IH) (auto simp: jsonEntries_def)
    moreover have "joinWith [44, 10] (map stringifyMember (kv # kvs)) =
        stringifyMember (k, v) @ 44 # 10 # joinWith [44, 10] (map stringifyMember kvs)"
      using False kv by (cases kvs) simp_all
    ultimately show ?thesis by (simp add: n jsonMembers_member new) (simp add: jsonEntries_def kv)
  qed
qed simp

lemma jsonVal_object:
  "jsonVal (Suc n) (123 # t) =
     (case skipJson t of
        [] \<Rightarrow> Inl SyntaxError
      | d # r \<Rightarrow> if d = 125 then Inr (JsonObj [], r) else rbind (jsonMembers n t []) (\<lambda>(kvs, r). Inr (JsonObj kvs, r)))"
  by (simp add: jsonVal.simps)

lemma joined_members: "length es \<le> length (joinWith [44, 10] (map stringifyMember es))"
  by (induction es rule: induct_list012) (auto simp: stringifyMember_def)

lemma joined_start: "es \<noteq> [] \<Longrightarrow> \<exists>t. joinWith [44, 10] (map stringifyMember es) = 32 # 32 # 34 # t"
  by (induction es rule: induct_list012) (auto simp: stringifyMember_def quoteJson_def)

lemma parse_stringify:
  assumes "distinct (map fst kvs)"
  shows "parseJson (stringifyMapping kvs) = Inr (JsonObj (jsonEntries (objectEntries kvs)))"
proof (cases "kvs = []")
  case True
  have "jsonVal (Suc 4) [123, 125] = Inr (JsonObj [], [])" by (simp only: jsonVal_object) simp
  with True show ?thesis
    by (simp add: parseJson_def stringifyMapping_def jsonEntries_def objectEntries_def)
next
  case False
  let ?es = "objectEntries kvs" and ?n = "2 * length (stringifyMapping kvs)"
  let ?t = "10 # joinWith [44, 10] (map stringifyMember ?es) @ [10, 125]"
  have ne: "?es \<noteq> []" using False set_objectEntries [of kvs] by (metis set_empty)
  have printed: "stringifyMapping kvs = 123 # ?t" using False by (simp add: stringifyMapping_def)
  have "distinct (map fst ([] @ jsonEntries ?es))"
    using distinct_objectEntries [OF assms] by (simp add: jsonEntries_def case_prod_beta o_def)
  moreover have "length ?es < ?n" using joined_members [of ?es] by (simp add: printed)
  ultimately have run: "jsonMembers ?n ?t [] = Inr (jsonEntries ?es, [])"
    using jsonMembers_printed [OF ne, of ?n "[]" "[]"] by simp
  obtain t where "joinWith [44, 10] (map stringifyMember ?es) = 32 # 32 # 34 # t"
    using joined_start [OF ne] by blast
  then have "skipJson ?t = 34 # t @ [10, 125]" by simp
  with run have "jsonVal (Suc ?n) (123 # ?t) = Inr (JsonObj (jsonEntries ?es), [])"
    by (simp add: jsonVal_object)
  then show ?thesis by (simp add: parseJson_def printed)
qed

end
