(* ===== verification/BxTaskDisplay.thy ===== *)
theory BxTaskDisplay
  imports BxTaskFacts Json
begin

text \<open>
  Model of \<open>billing-expression/task-display.ts\<close>: a task expression is turned into a table by
  resolving its categorical facts for every combination of declared values and by keeping
  time predicates as explicit, symbolic conditions of price branches. The counter
  \<open>context.remaining\<close> is the state of the computation; \<open>null\<close> is an option.
\<close>

section \<open>Branches\<close>

record priceBranch =
  plabel :: "string option"
  bconstant :: jsnum
  bprices :: "(string \<times> jsnum) list"
  btimes :: "(string \<times> bool) list"

record displayContext =
  dsource :: string
  dschema :: usageSchema
  dfacts :: "(string \<times> lit) list"

type_synonym 'a display = "(int, exn, 'a option) comp"

definition MAX_DISPLAY_ROWS :: nat where "MAX_DISPLAY_ROWS = 128"

text \<open>\<open>--context.remaining < 0\<close> at the head of a function.\<close>

definition spend :: "'a display \<Rightarrow> 'a display" where
  "spend m = (\<lambda>k. if k - 1 < 0 then Inr (None, k - 1) else m (k - 1))"

definition obind :: "'a display \<Rightarrow> ('a \<Rightarrow> 'b display) \<Rightarrow> 'b display" where
  "obind m f = cbind m (\<lambda>r. case r of None \<Rightarrow> return None | Some x \<Rightarrow> f x)"

datatype displayCond = DBool bool | DText string

text \<open>A comparison of a fact with a literal; none if the two nodes are not of that form.\<close>

definition factComparison :: "displayContext \<Rightarrow> string \<Rightarrow> string \<Rightarrow> lit \<Rightarrow> displayCond option bx" where
  "factComparison ctx op key w =
     (case map_of (dfacts ctx) key of
        None \<Rightarrow> Inr None
      | Some reported \<Rightarrow>
          (case schemaField (dschema ctx) key of
             None \<Rightarrow> Inl (JsError ''TypeError'')
           | Some d \<Rightarrow>
               let equal = (reported = w);
                   result = Some (DBool (if op = ''=='' then equal else \<not> equal))
               in Inr (if utype d = Some ''boolean'' then (case w of LBool _ \<Rightarrow> result | _ \<Rightarrow> None)
                       else (case w of
                               LStr s \<Rightarrow>
                                 if (case uenum d of Some vs \<Rightarrow> s \<in> set vs | None \<Rightarrow> False) then result
                                 else Some (DBool (op = ''!=''))
                             | _ \<Rightarrow> None))))"

definition probeComparison ::
    "displayContext \<Rightarrow> string \<Rightarrow> node \<Rightarrow> node \<Rightarrow> displayCond option option bx" where
  "probeComparison ctx op probe literal =
     rbind (usageProbe probe) (\<lambda>field.
     case (field, literal) of
       (Some key, Literal _ w) \<Rightarrow> rbind (factComparison ctx op key w) (\<lambda>r. Inr (Some r))
     | _ \<Rightarrow> Inr None)"

text \<open>A number or a time function of a fixed zone.\<close>

definition timeOperand :: "node \<Rightarrow> bool bx" where
  "timeOperand part =
     (case part of
        Literal _ (LNum _ _) \<Rightarrow> Inr True
      | Call _ f args \<Rightarrow>
          if f \<notin> set TIME_FUNCTIONS then Inr False
          else (case args of
                  [] \<Rightarrow> Inl (JsError ''TypeError'')
                | Literal _ (LStr zone) # _ \<Rightarrow> Inr (trim zone \<noteq> ''Local'')
                | _ \<Rightarrow> Inr False)
      | _ \<Rightarrow> Inr False)"

definition isCall :: "node \<Rightarrow> bool" where
  "isCall n = (case n of Call _ _ _ \<Rightarrow> True | _ \<Rightarrow> False)"

text \<open>The comparisons at the leaves of a condition.\<close>

definition leafCondition :: "displayContext \<Rightarrow> span \<Rightarrow> string \<Rightarrow> node \<Rightarrow> node \<Rightarrow> displayCond option bx" where
  "leafCondition ctx sp op l r =
     rbind (if op \<in> set [''=='', ''!=''] then probeComparison ctx op l r else Inr None) (\<lambda>first.
     case first of
       Some result \<Rightarrow> Inr result
     | None \<Rightarrow>
         rbind (if op \<in> set [''=='', ''!=''] then probeComparison ctx op r l else Inr None) (\<lambda>second.
         case second of
           Some result \<Rightarrow> Inr result
         | None \<Rightarrow>
             if op \<in> set [''=='', ''!='', ''<'', ''<='', ''>'', ''>=''] \<and> (isCall l \<or> isCall r)
             then rbind (timeOperand l) (\<lambda>a.
                  if \<not> a then Inr None
                  else rbind (timeOperand r) (\<lambda>b.
                  Inr (if b then Some (DText (slice (dsource ctx) (fst sp) (snd sp))) else None)))
             else Inr None))"

text \<open>The conjunction or disjunction of two resolved conditions.\<close>

definition joinConditions :: "string \<Rightarrow> displayCond option \<Rightarrow> displayCond option \<Rightarrow> displayCond option" where
  "joinConditions op left right =
     (case (left, right) of
        (Some a, Some b) \<Rightarrow>
          let shortCircuit = DBool (op = ''||'')
          in Some (if a = shortCircuit \<or> b = shortCircuit then shortCircuit
                   else case (a, b) of
                          (DBool _, _) \<Rightarrow> b
                        | (_, DBool _) \<Rightarrow> a
                        | (DText x, DText y) \<Rightarrow> DText (''('' @ x @ '') '' @ op @ '' ('' @ y @ '')''))
      | _ \<Rightarrow> None)"

definition negateCondition :: "displayCond \<Rightarrow> displayCond" where
  "negateCondition v = (case v of DBool b \<Rightarrow> DBool (\<not> b) | DText x \<Rightarrow> DText (''!('' @ x @ '')''))"

fun taskDisplayCondition :: "displayContext \<Rightarrow> node \<Rightarrow> displayCond display" where
  "taskDisplayCondition ctx (Literal _ (LBool b)) = spend (return (Some (DBool b)))"
| "taskDisplayCondition ctx (Unary _ op a) =
     spend (if op = ''!''
            then obind (taskDisplayCondition ctx a) (\<lambda>v.
              return (Some (negateCondition v)))
            else return None)"
| "taskDisplayCondition ctx (Binary sp op l r) =
     spend (if op \<in> set [''&&'', ''||'']
            then cbind (taskDisplayCondition ctx l) (\<lambda>a.
                 cbind (taskDisplayCondition ctx r) (\<lambda>b. return (joinConditions op a b)))
            else lift (leafCondition ctx sp op l r))"
| "taskDisplayCondition ctx _ = spend (return None)"

section \<open>Prices\<close>

text \<open>
  Reading a price; a property that every object inherits is not a number. Assigning to
  \<open>__proto__\<close> has no effect.
\<close>

definition priceAt :: "(string \<times> jsnum) list \<Rightarrow> string \<Rightarrow> jsnum" where
  "priceAt ps f =
     (case map_of ps f of Some x \<Rightarrow> x | None \<Rightarrow> if f \<in> set OBJECT_PROPERTIES then NaN else Fin 0)"

definition storePrices :: "(string \<times> jsnum) list \<Rightarrow> (string \<times> jsnum) list" where
  "storePrices ps = filter (\<lambda>p. fst p \<noteq> ''__proto__'') ps"

definition setTimes :: "(string \<times> bool) list \<Rightarrow> (string \<times> bool) list" where
  "setTimes es = fold (\<lambda>e. setProp (fst e) (snd e)) es []"

definition timesConflict :: "(string \<times> bool) list \<Rightarrow> (string \<times> bool) list \<Rightarrow> bool" where
  "timesConflict a b \<longleftrightarrow>
     list_ex (\<lambda>(k, v). case map_of b k of Some w \<Rightarrow> w \<noteq> v | None \<Rightarrow> False) a"

definition priceFields :: "priceBranch \<Rightarrow> string list" where
  "priceFields b = map fst (bprices b)"

text \<open>The arithmetic on two branches: the constant and the prices; \<open>null\<close> is \<open>None\<close>.\<close>

definition combinePrices :: "string \<Rightarrow> priceBranch \<Rightarrow> priceBranch \<Rightarrow> (jsnum \<times> (string \<times> jsnum) list) option" where
  "combinePrices op a b =
     (if op = ''+'' then
        Some (js_add (bconstant a) (bconstant b),
          storePrices (map (\<lambda>f. (f, js_add (priceAt (bprices a) f) (priceAt (bprices b) f)))
            (unique (priceFields a @ priceFields b))))
      else
        let aQuantity = (bprices a \<noteq> []); bQuantity = (bprices b \<noteq> [])
        in if aQuantity \<and> bQuantity \<or> op = ''/'' \<and> (bQuantity \<or> js_le (bconstant b) (Fin 0)) then None
           else
             let quantity = (if aQuantity then a else b);
                 factor = (if op = ''/'' then js_div (Fin 1) (bconstant b)
                           else if aQuantity then bconstant b else bconstant a)
             in Some (if op = ''/'' then js_div (bconstant a) (bconstant b) else js_mul (bconstant a) (bconstant b),
                  storePrices (map (\<lambda>(f, p). (f, js_mul p factor)) (bprices quantity))))"

definition priceFine :: "jsnum \<Rightarrow> bool" where
  "priceFine x \<longleftrightarrow> isFinite x \<and> js_le (Fin 0) x"

text \<open>One round of the inner loop: \<open>null\<close>, skipped, or a branch.\<close>

definition combineBranches :: "string \<Rightarrow> priceBranch \<Rightarrow> priceBranch \<Rightarrow> priceBranch option option" where
  "combineBranches op a b =
     (if plabel a \<noteq> None \<and> plabel b \<noteq> None then None
      else if timesConflict (btimes a) (btimes b) then Some None
      else case combinePrices op a b of
             None \<Rightarrow> None
           | Some (constant, prices) \<Rightarrow>
               if \<not> (priceFine constant \<and> list_all (\<lambda>p. priceFine (snd p)) prices) then None
               else Some (Some \<lparr>plabel = (if plabel a \<noteq> None then plabel a else plabel b), bconstant = constant,
                               bprices = prices, btimes = setTimes (btimes a @ btimes b)\<rparr>))"

fun collectBranches :: "priceBranch option option list \<Rightarrow> priceBranch list option" where
  "collectBranches [] = Some []"
| "collectBranches (None # rs) = None"
| "collectBranches (Some None # rs) = collectBranches rs"
| "collectBranches (Some (Some b) # rs) = map_option ((#) b) (collectBranches rs)"

text \<open>The children of one side of a conditional, with the time condition added.\<close>

definition underCondition :: "string \<Rightarrow> bool \<Rightarrow> priceBranch list \<Rightarrow> priceBranch list" where
  "underCondition c matches bs =
     map (\<lambda>b. b\<lparr>btimes := setTimes ((c, matches) # btimes b)\<rparr>)
       (filter (\<lambda>b. \<not> (case map_of (btimes b) c of Some v \<Rightarrow> v \<noteq> matches | None \<Rightarrow> False)) bs)"

definition plainBranch :: "jsnum \<Rightarrow> (string \<times> jsnum) list \<Rightarrow> priceBranch" where
  "plainBranch c ps = \<lparr>plabel = None, bconstant = c, bprices = ps, btimes = []\<rparr>"

definition isPricedField :: "usageSchema \<Rightarrow> string \<Rightarrow> bool" where
  "isPricedField schema f \<longleftrightarrow>
     (case schemaField schema f of
        Some d \<Rightarrow> utype d = Some ''number'' \<and> uunit d \<noteq> None \<and> uunit d \<noteq> Some []
      | None \<Rightarrow> False)"

definition limitRows :: "priceBranch list \<Rightarrow> priceBranch list option" where
  "limitRows bs = (if length bs \<le> MAX_DISPLAY_ROWS then Some bs else None)"

fun taskPriceBranches :: "displayContext \<Rightarrow> node \<Rightarrow> priceBranch list display" where
  "taskPriceBranches ctx (Literal _ (LNum x _)) =
     spend (return (if js_le (Fin 0) x then Some [plainBranch x []] else None))"
| "taskPriceBranches ctx (Call _ f (Literal _ (LStr name) # rest)) =
     spend (if f = ''u'' then
              return (if isPricedField (dschema ctx) name then Some [plainBranch (Fin 0) [(name, Fin 1)]] else None)
            else if f = ''tier'' then
              (case rest of
                 [] \<Rightarrow> throw (JsError ''TypeError'')
               | body # _ \<Rightarrow>
                   obind (taskPriceBranches ctx body) (\<lambda>bs.
                   return (if list_ex (\<lambda>b. plabel b \<noteq> None) bs then None
                           else Some (map (\<lambda>b. b\<lparr>plabel := Some name\<rparr>) bs))))
            else return None)"
| "taskPriceBranches ctx (Call _ f []) =
     spend (if f = ''u'' \<or> f = ''tier'' then throw (JsError ''TypeError'') else return None)"
| "taskPriceBranches ctx (Conditional _ c yes no) =
     spend (obind (taskDisplayCondition ctx c) (\<lambda>v.
       case v of
         DBool b \<Rightarrow> if b then taskPriceBranches ctx yes else taskPriceBranches ctx no
       | DText t \<Rightarrow>
           obind (taskPriceBranches ctx yes) (\<lambda>ys.
           obind (taskPriceBranches ctx no) (\<lambda>ns.
           return (limitRows (underCondition t True ys @ underCondition t False ns))))))"
| "taskPriceBranches ctx (Binary _ op l r) =
     spend (if op \<notin> set [''+'', ''*'', ''/''] then return None
            else cbind (taskPriceBranches ctx l) (\<lambda>a.
                 cbind (taskPriceBranches ctx r) (\<lambda>b.
                 return (case (a, b) of
                           (Some as, Some bs) \<Rightarrow>
                             if length as * length bs > MAX_DISPLAY_ROWS then None
                             else collectBranches [combineBranches op x y. x \<leftarrow> as, y \<leftarrow> bs]
                         | _ \<Rightarrow> None))))"
| "taskPriceBranches ctx _ = spend (return None)"

section \<open>The table\<close>

text \<open>The callback that collects the facts an expression reads.\<close>

definition collectField :: "usageSchema \<Rightarrow> node \<Rightarrow> string list \<times> bool \<Rightarrow> (string list \<times> bool) bx" where
  "collectField schema n st =
     (case n of
        Call _ f args \<Rightarrow>
          if f \<noteq> ''u'' then Inr st
          else (case args of
                  [] \<Rightarrow> Inl (JsError ''TypeError'')
                | Literal _ (LStr key) # _ \<Rightarrow>
                    Inr (if map_of schema key = None then (fst st, False) else (addSet key (fst st), snd st))
                | _ \<Rightarrow> Inr (fst st, False))
      | _ \<Rightarrow> Inr st)"

definition declaredValues :: "usageField \<Rightarrow> lit list" where
  "declaredValues d =
     (if utype d = Some ''boolean'' then [LBool False, LBool True]
      else case uenum d of Some vs \<Rightarrow> map LStr vs | None \<Rightarrow> [])"

type_synonym factCombination = "(string \<times> lit) list"

text \<open>One round of the loop over the fields.\<close>

definition expandFacts :: "usageSchema \<Rightarrow> string \<Rightarrow> factCombination list \<Rightarrow> factCombination list option" where
  "expandFacts schema f combos =
     (case map_of schema f of
        None \<Rightarrow> None
      | Some d \<Rightarrow>
          if utype d = Some ''number'' then Some combos
          else let values = declaredValues d
               in if values = [] \<or> length combos * length values > MAX_DISPLAY_ROWS then None
                  else Some (concat (map (\<lambda>facts. map (\<lambda>v. setProp f v facts) values) combos)))"

fun factCombinations :: "usageSchema \<Rightarrow> string list \<Rightarrow> factCombination list \<Rightarrow> factCombination list option" where
  "factCombinations schema [] combos = Some combos"
| "factCombinations schema (f # fs) combos = Option.bind (expandFacts schema f combos) (factCombinations schema fs)"

definition unitPricesOf :: "usageSchema \<Rightarrow> string list \<Rightarrow> priceBranch \<Rightarrow> (string \<times> jsnum) list" where
  "unitPricesOf schema names b =
     storePrices (map (\<lambda>f. (f, js_mul (priceAt (bprices b) f)
         (if Option.bind (map_of schema f) uunit = Some ''token'' then million else Fin 1)))
       (filter (isPricedField schema) names))"

definition timesText :: "(string \<times> bool) list \<Rightarrow> string" where
  "timesText es =
     joinWith '' && '' (map (\<lambda>(c, matches). if matches then ''('' @ c @ '')'' else ''!('' @ c @ '')'') es)"

text \<open>\<open>Object.entries\<close> on the facts: keys that are array indices come first.\<close>

definition entriesOrder :: "(string \<times> 'v) list \<Rightarrow> (string \<times> 'v) list" where
  "entriesOrder kvs =
     sort_key (\<lambda>kv. parseDigits (unitsOf (fst kv))) (filter (\<lambda>kv. isArrayIndex (unitsOf (fst kv))) kvs) @
     filter (\<lambda>kv. \<not> isArrayIndex (unitsOf (fst kv))) kvs"

definition branchRow :: "usageSchema \<Rightarrow> string list \<Rightarrow> factCombination \<Rightarrow> priceBranch \<Rightarrow> taskTierRow option" where
  "branchRow schema names facts b =
     (case plabel b of
        None \<Rightarrow> None
      | Some label \<Rightarrow>
          let prices = unitPricesOf schema names b
          in if prices = [] \<or> \<not> list_all (\<lambda>p. isFinite (snd p)) prices then None
             else Some \<lparr>kconditionText = (if timesText (btimes b) = [] then None else Some (timesText (btimes b))),
                        klabel = label, kconditions = map (\<lambda>(f, v). (f, litString v)) (entriesOrder facts),
                        kconstant = bconstant b, kunitPrices = prices\<rparr>)"

text \<open>The loop over the combinations; the counter runs through all of them.\<close>

fun displayRows ::
    "string \<Rightarrow> usageSchema \<Rightarrow> node \<Rightarrow> string list \<Rightarrow> factCombination list \<Rightarrow> taskTierRow list \<Rightarrow> taskTierRow list display" where
  "displayRows src schema ast names [] tiers = return (Some tiers)"
| "displayRows src schema ast names (facts # combos) tiers =
     obind (taskPriceBranches \<lparr>dsource = src, dschema = schema, dfacts = facts\<rparr> ast) (\<lambda>bs.
       if length tiers + length bs > MAX_DISPLAY_ROWS then return None
       else case those (map (branchRow schema names facts) bs) of
              None \<Rightarrow> return None
            | Some rows \<Rightarrow> displayRows src schema ast names combos (tiers @ rows))"

definition readConditionalTaskPricing ::
    "string \<Rightarrow> usageSchema \<Rightarrow> compiledCache \<Rightarrow> taskTierRow list option bx \<times> compiledCache" where
  "readConditionalTaskPricing src schema cache =
     (let (result, cache') = compileBillingExpression src cache
      in (case result of
            CompileFailure _ \<Rightarrow> Inr None
          | Ready compiled \<Rightarrow>
              rbind (visitExpression (collectField schema) (cast compiled) ([], True)) (\<lambda>(names, valid).
              if \<not> valid then Inr None
              else case factCombinations schema names [[]] of
                     None \<Rightarrow> Inr None
                   | Some combos \<Rightarrow>
                       rbind (displayRows src schema (cast compiled) names combos [] 20000) (\<lambda>(rows, _). Inr rows)),
          cache'))"

end
