(* ===== verification/BxTaskDisplayFacts.thy ===== *)
theory BxTaskDisplayFacts
  imports BxTaskDisplay
begin

text \<open>
  The price branches of a task expression against a reference that follows one truth value
  per time condition: for every such valuation exactly one branch applies, and it carries the
  label and the prices that the reference computes.
  A second reference knows no texts: time conditions are formulas over comparisons with the
  clock, and the texts of the rows are shown to be texts of such formulas.
\<close>

section \<open>The reference\<close>

text \<open>The resolved condition, without the counter.\<close>

fun displayCondition :: "displayContext \<Rightarrow> node \<Rightarrow> displayCond option" where
  "displayCondition ctx (Literal _ (LBool b)) = Some (DBool b)"
| "displayCondition ctx (Unary _ op a) =
     (if op = ''!''
      then map_option negateCondition (displayCondition ctx a)
      else None)"
| "displayCondition ctx (Binary sp op l r) =
     (if op \<in> set [''&&'', ''||''] then joinConditions op (displayCondition ctx l) (displayCondition ctx r)
      else case leafCondition ctx sp op l r of Inr v \<Rightarrow> v | Inl _ \<Rightarrow> None)"
| "displayCondition ctx _ = None"


text \<open>
  Independently of the texts, a time condition is a formula over comparisons with the clock;
  a comparison is named by its source text.
\<close>

datatype timeFormula = TAtom string | TNot timeFormula | TAnd timeFormula timeFormula | TOr timeFormula timeFormula

fun formulaText :: "timeFormula \<Rightarrow> string" where
  "formulaText (TAtom c) = c"
| "formulaText (TNot f) = ''!('' @ formulaText f @ '')''"
| "formulaText (TAnd f g) = ''('' @ formulaText f @ '') && ('' @ formulaText g @ '')''"
| "formulaText (TOr f g) = ''('' @ formulaText f @ '') || ('' @ formulaText g @ '')''"

fun formulaTrue :: "(string \<Rightarrow> bool) \<Rightarrow> timeFormula \<Rightarrow> bool" where
  "formulaTrue atom (TAtom c) = atom c"
| "formulaTrue atom (TNot f) \<longleftrightarrow> \<not> formulaTrue atom f"
| "formulaTrue atom (TAnd f g) \<longleftrightarrow> formulaTrue atom f \<and> formulaTrue atom g"
| "formulaTrue atom (TOr f g) \<longleftrightarrow> formulaTrue atom f \<or> formulaTrue atom g"

text \<open>What a condition says once the facts are known: a truth value or a formula of the clock.\<close>

datatype resolved = Known bool | OnTime timeFormula

fun resolvedNot :: "resolved \<Rightarrow> resolved" where
  "resolvedNot (Known b) = Known (\<not> b)"
| "resolvedNot (OnTime f) = OnTime (TNot f)"

fun resolvedAnd :: "resolved \<Rightarrow> resolved \<Rightarrow> resolved" where
  "resolvedAnd (Known b) r = (if b then r else Known False)"
| "resolvedAnd r (Known b) = (if b then r else Known False)"
| "resolvedAnd (OnTime f) (OnTime g) = OnTime (TAnd f g)"

fun resolvedOr :: "resolved \<Rightarrow> resolved \<Rightarrow> resolved" where
  "resolvedOr (Known b) r = (if b then Known True else r)"
| "resolvedOr r (Known b) = (if b then Known True else r)"
| "resolvedOr (OnTime f) (OnTime g) = OnTime (TOr f g)"

fun resolvedTrue :: "(string \<Rightarrow> bool) \<Rightarrow> resolved \<Rightarrow> bool" where
  "resolvedTrue atom (Known b) = b"
| "resolvedTrue atom (OnTime f) = formulaTrue atom f"

fun resolvedText :: "resolved \<Rightarrow> displayCond" where
  "resolvedText (Known b) = DBool b"
| "resolvedText (OnTime f) = DText (formulaText f)"

definition leafResolved :: "displayContext \<Rightarrow> span \<Rightarrow> string \<Rightarrow> node \<Rightarrow> node \<Rightarrow> resolved option" where
  "leafResolved ctx sp op l r =
     (case leafCondition ctx sp op l r of
        Inr (Some (DBool b)) \<Rightarrow> Some (Known b)
      | Inr (Some (DText c)) \<Rightarrow> Some (OnTime (TAtom c))
      | _ \<Rightarrow> None)"

fun resolveCondition :: "displayContext \<Rightarrow> node \<Rightarrow> resolved option" where
  "resolveCondition ctx (Literal _ (LBool b)) = Some (Known b)"
| "resolveCondition ctx (Unary _ op a) =
     (if op = ''!'' then map_option resolvedNot (resolveCondition ctx a) else None)"
| "resolveCondition ctx (Binary sp op l r) =
     (if op = ''&&'' then Option.bind (resolveCondition ctx l) (\<lambda>a. map_option (resolvedAnd a) (resolveCondition ctx r))
      else if op = ''||'' then Option.bind (resolveCondition ctx l) (\<lambda>a. map_option (resolvedOr a) (resolveCondition ctx r))
      else leafResolved ctx sp op l r)"
| "resolveCondition ctx _ = None"

text \<open>The truth of a condition when \<open>atom\<close> says which comparisons with the clock hold.\<close>

fun conditionTrue :: "displayContext \<Rightarrow> (string \<Rightarrow> bool) \<Rightarrow> node \<Rightarrow> bool" where
  "conditionTrue ctx atom (Literal _ (LBool b)) = b"
| "conditionTrue ctx atom (Unary _ op a) \<longleftrightarrow> \<not> conditionTrue ctx atom a"
| "conditionTrue ctx atom (Binary sp op l r) \<longleftrightarrow>
     (if op = ''&&'' then conditionTrue ctx atom l \<and> conditionTrue ctx atom r
      else if op = ''||'' then conditionTrue ctx atom l \<or> conditionTrue ctx atom r
      else case leafCondition ctx sp op l r of
             Inr (Some (DBool b)) \<Rightarrow> b
           | Inr (Some (DText c)) \<Rightarrow> atom c
           | _ \<Rightarrow> False)"
| "conditionTrue ctx atom _ = False"


text \<open>The formulas of the clock that the conditions of an expression come to.\<close>

fun timeFormulas :: "displayContext \<Rightarrow> node \<Rightarrow> timeFormula list" where
  "timeFormulas ctx (Call _ f (_ # body # _)) = timeFormulas ctx body"
| "timeFormulas ctx (Conditional _ c yes no) =
     (case resolveCondition ctx c of Some (OnTime f) \<Rightarrow> [f] | _ \<Rightarrow> []) @
     timeFormulas ctx yes @ timeFormulas ctx no"
| "timeFormulas ctx (Binary _ op l r) = timeFormulas ctx l @ timeFormulas ctx r"
| "timeFormulas ctx _ = []"


lemma resolved_text:
  "resolvedText (resolvedNot r) = negateCondition (resolvedText r)"
  "joinConditions ''&&'' (Some (resolvedText r)) (Some (resolvedText q)) = Some (resolvedText (resolvedAnd r q))"
  "joinConditions ''||'' (Some (resolvedText r)) (Some (resolvedText q)) = Some (resolvedText (resolvedOr r q))"
  by (cases r; cases q; simp add: negateCondition_def joinConditions_def)+

lemma resolved_true:
  "resolvedTrue atom (resolvedNot r) \<longleftrightarrow> \<not> resolvedTrue atom r"
  "resolvedTrue atom (resolvedAnd r q) \<longleftrightarrow> resolvedTrue atom r \<and> resolvedTrue atom q"
  "resolvedTrue atom (resolvedOr r q) \<longleftrightarrow> resolvedTrue atom r \<or> resolvedTrue atom q"
  by (cases r; cases q; auto)+

text \<open>A displayed condition is the text of its formula, and the formula says what it says.\<close>

lemma displayCondition_resolved:
  "displayCondition ctx n = Some v \<Longrightarrow>
   \<exists>r. resolveCondition ctx n = Some r \<and> v = resolvedText r \<and> (\<forall>atom. conditionTrue ctx atom n = resolvedTrue atom r)"
proof (induction ctx n arbitrary: v rule: displayCondition.induct)
  case (3 ctx sp op l r)
  show ?case
  proof (cases "op = ''&&'' \<or> op = ''||''")
    case True
    then have "joinConditions op (displayCondition ctx l) (displayCondition ctx r) = Some v" using "3.prems" by auto
    moreover then obtain a b where "displayCondition ctx l = Some a" "displayCondition ctx r = Some b"
      by (auto simp: joinConditions_def split: option.splits)
    ultimately show ?thesis using True "3.IH" by (auto simp: resolved_text resolved_true)
  next
    case False
    with "3.prems" show ?thesis
      by (auto simp: leafResolved_def split: sum.splits option.splits displayCond.splits)
  qed
qed (auto simp: resolved_text resolved_true split: if_splits)

section \<open>Times of a branch\<close>


definition functionalTimes :: "(string \<times> bool) list \<Rightarrow> bool" where
  "functionalTimes es \<longleftrightarrow> (\<forall>k v w. (k, v) \<in> set es \<longrightarrow> (k, w) \<in> set es \<longrightarrow> v = w)"





lemma functional_distinct: "distinct (map fst es) \<Longrightarrow> functionalTimes es"
  by (auto simp: functionalTimes_def dest: eq_key_imp_eq_value)




section \<open>Conditions\<close>

lemma spend_Some: "spend m k = Inr (Some v, k') \<longleftrightarrow> 0 \<le> k - 1 \<and> m (k - 1) = Inr (Some v, k')"
  by (auto simp: spend_def)

lemma obind_Some:
  "obind m f k = Inr (Some v, k') \<longleftrightarrow> (\<exists>x k1. m k = Inr (Some x, k1) \<and> f x k1 = Inr (Some v, k'))"
  by (auto simp: obind_def cbind_eq_Inr_iff split: option.splits)

lemma joinConditions_Some: "joinConditions op a b = Some v \<Longrightarrow> (\<exists>x y. a = Some x \<and> b = Some y)"
  by (auto simp: joinConditions_def split: option.splits)

lemma condition_pure:
  "taskDisplayCondition ctx n k = Inr (Some v, k') \<Longrightarrow> displayCondition ctx n = Some v"
proof (induction ctx n arbitrary: k v k' rule: taskDisplayCondition.induct)
  case (2 ctx sp op a)
  then show ?case by (auto simp: spend_Some obind_Some split: if_splits)
next
  case (3 ctx sp op l r)
  show ?case
  proof (cases "op \<in> set [''&&'', ''||'']")
    case True
    with "3.prems" obtain a k1 b k2 where
      run: "taskDisplayCondition ctx l (k - 1) = Inr (a, k1)" "taskDisplayCondition ctx r k1 = Inr (b, k2)"
        "joinConditions op a b = Some v"
      by (auto simp: spend_Some cbind_eq_Inr_iff split: if_splits)
    with joinConditions_Some [OF run(3)] "3.IH" True show ?thesis by auto
  next
    case False
    with "3.prems" show ?thesis by (auto simp: spend_Some split: if_splits)
  qed
qed (auto simp: spend_Some)

section \<open>Exactly one branch applies\<close>





lemma collectBranches_Some:
  "collectBranches rs = Some bs \<Longrightarrow> None \<notin> set rs \<and> bs = concat (map (\<lambda>r. case r of Some (Some b) \<Rightarrow> [b] | _ \<Rightarrow> []) rs)"
  by (induction rs arbitrary: bs rule: collectBranches.induct) auto




definition pairBranch :: "string \<Rightarrow> priceBranch \<Rightarrow> priceBranch \<Rightarrow> priceBranch list" where
  "pairBranch op a b = (case combineBranches op a b of Some (Some c) \<Rightarrow> [c] | _ \<Rightarrow> [])"

lemma product_branches:
  assumes "collectBranches [combineBranches op x y. x \<leftarrow> as, y \<leftarrow> bs] = Some cs"
  shows "cs = concat (map (\<lambda>x. concat (map (pairBranch op x) bs)) as) \<and>
    (\<forall>x\<in>set as. \<forall>y\<in>set bs. combineBranches op x y \<noteq> None)"
proof -
  have flat: "concat (map f (concat xss)) = concat (map (\<lambda>xs. concat (map f xs)) xss)" for f :: "'a \<Rightarrow> 'b list" and xss
    by (induction xss) auto
  note cs = collectBranches_Some [OF assms]
  have "cs = concat (map (\<lambda>x. concat (map (pairBranch op x) bs)) as)"
    unfolding conjunct2 [OF cs] flat by (simp add: o_def pairBranch_def [abs_def])
  moreover have "combineBranches op x y \<noteq> None" if "x \<in> set as" "y \<in> set bs" for x y
  proof
    assume "combineBranches op x y = None"
    with that have "\<exists>x\<in>set as. None \<in> combineBranches op x ` set bs" by force
    with conjunct1 [OF cs] show False by auto
  qed
  ultimately show ?thesis by blast
qed









section \<open>The table\<close>















section \<open>Texts and formulas\<close>


lemma setTimes_keys: "fst ` set (setTimes es) = fst ` set es"
proof -
  have one: "fst ` set (setProp k v acc) = insert k (fst ` set acc)" for k and v :: bool and acc
    unfolding set_map [symmetric] keys_setProp by (auto simp: insert_absorb)
  have "fst ` set (fold (\<lambda>e. setProp (fst e) (snd e)) es acc) = fst ` set acc \<union> fst ` set es"
    for acc :: "(string \<times> bool) list"
    by (induction es arbitrary: acc) (auto simp: one)
  from this [of "[]"] show ?thesis by (simp add: setTimes_def)
qed

definition branchTexts :: "priceBranch list \<Rightarrow> string set" where
  "branchTexts bs = (\<Union>b\<in>set bs. fst ` set (btimes b))"

lemma branchTexts_append: "branchTexts (xs @ ys) = branchTexts xs \<union> branchTexts ys"
  by (simp add: branchTexts_def)

lemma branchTexts_under: "branchTexts (underCondition t m bs) \<subseteq> insert t (branchTexts bs)"
  by (auto simp: branchTexts_def underCondition_def setTimes_keys simp del: image_iff)

lemma branchTexts_product:
  assumes "collectBranches [combineBranches op x y. x \<leftarrow> as, y \<leftarrow> bs] = Some cs"
  shows "branchTexts cs \<subseteq> branchTexts as \<union> branchTexts bs"
proof -
  have keys: "fst ` set (btimes c) = fst ` set (btimes x) \<union> fst ` set (btimes y)"
    if "combineBranches op x y = Some (Some c)" for x y c
  proof -
    have "btimes c = setTimes (btimes x @ btimes y)"
      using that by (auto simp: combineBranches_def split: if_splits option.splits prod.splits)
    then show ?thesis by (simp only: setTimes_keys set_append image_Un)
  qed
  have made: "\<exists>x\<in>set as. \<exists>y\<in>set bs. combineBranches op x y = Some (Some c)" if c: "c \<in> set cs" for c
  proof -
    obtain x y where "x \<in> set as" "y \<in> set bs" "c \<in> set (pairBranch op x y)"
      using c unfolding conjunct1 [OF product_branches [OF assms]] by auto
    moreover then have "combineBranches op x y = Some (Some c)" by (auto simp: pairBranch_def split: option.splits)
    ultimately show ?thesis by blast
  qed
  show ?thesis
  proof
    fix t
    assume "t \<in> branchTexts cs"
    then obtain c where c: "c \<in> set cs" "t \<in> fst ` set (btimes c)" unfolding branchTexts_def by blast
    from made [OF c(1)] obtain x y where "x \<in> set as" "y \<in> set bs" "combineBranches op x y = Some (Some c)" by blast
    with c(2) keys [of x y c] show "t \<in> branchTexts as \<union> branchTexts bs" unfolding branchTexts_def by blast
  qed
qed

lemma branch_formulas:
  "taskPriceBranches ctx n k = Inr (Some bs, k') \<Longrightarrow> branchTexts bs \<subseteq> formulaText ` set (timeFormulas ctx n)"
proof (induction ctx n arbitrary: k bs k' rule: taskPriceBranches.induct)
  case (2 ctx sp f sp1 name rest)
  show ?case
  proof (cases "f = ''u''")
    case False
    then obtain body others ys k1 where run: "f = ''tier''" "rest = body # others"
      "taskPriceBranches ctx body k1 = Inr (Some ys, k')" "bs = map (\<lambda>b. b\<lparr>plabel := Some name\<rparr>) ys"
      using "2.prems" by (auto simp: spend_Some obind_Some split: if_splits list.splits)
    from "2.IH" [OF False run(1,2) run(3)] run(2,4) show ?thesis by (simp add: branchTexts_def)
  qed (use "2.prems" in \<open>auto simp: spend_Some branchTexts_def plainBranch_def split: if_splits\<close>)
next
  case (4 ctx sp c yes no)
  obtain v k1 where c: "taskDisplayCondition ctx c (k - 1) = Inr (Some v, k1)"
    using "4.prems" by (auto simp: spend_Some obind_Some)
  show ?case
  proof (cases v)
    case (DBool b)
    with "4" c show ?thesis by (cases b) (fastforce simp: spend_Some obind_Some)+
  next
    case (DText t)
    obtain ys ns k2 k3 where run: "taskPriceBranches ctx yes k1 = Inr (Some ys, k2)"
      "taskPriceBranches ctx no k2 = Inr (Some ns, k3)" and bs: "bs = underCondition t True ys @ underCondition t False ns"
      using "4.prems" c DText by (auto simp: spend_Some obind_Some limitRows_def split: if_splits)
    obtain f where f: "resolveCondition ctx c = Some (OnTime f)" "formulaText f = t"
      using displayCondition_resolved [OF condition_pure [OF c]] DText by (metis resolvedText.elims displayCond.distinct(1) displayCond.inject(2))
    have "branchTexts bs \<subseteq> insert t (branchTexts ys \<union> branchTexts ns)"
      using branchTexts_under [of t True ys] branchTexts_under [of t False ns] by (auto simp: bs branchTexts_append)
    moreover have "branchTexts ys \<subseteq> formulaText ` set (timeFormulas ctx yes)"
      "branchTexts ns \<subseteq> formulaText ` set (timeFormulas ctx no)"
      using "4.IH" c DText run by (auto simp: spend_Some)
    ultimately show ?thesis using f by auto
  qed
next
  case (5 ctx sp op l r)
  then obtain as ys k1 where run: "taskPriceBranches ctx l (k - 1) = Inr (Some as, k1)"
    "taskPriceBranches ctx r k1 = Inr (Some ys, k')"
    "collectBranches [combineBranches op x y. x \<leftarrow> as, y \<leftarrow> ys] = Some bs" "op \<in> set [''+'', ''*'', ''/'']"
    by (auto simp: spend_Some cbind_eq_Inr_iff split: if_splits option.splits)
  have "branchTexts as \<subseteq> formulaText ` set (timeFormulas ctx l)" "branchTexts ys \<subseteq> formulaText ` set (timeFormulas ctx r)"
    using "5.IH" run by auto
  with branchTexts_product [OF run(3)] show ?case by (simp add: image_Un) blast
qed (auto simp: spend_Some branchTexts_def plainBranch_def split: if_splits)

section \<open>Properties\<close>





















end
