(* ===== verification/BxStructure.thy ===== *)
theory BxStructure
  imports JsString
begin

text \<open>
  Model of \<open>billing-expression/structure.ts\<close>: splitting a source at the top-level occurrences
  of an operator, and removing the parentheses around a source. Both work on the text, outside
  the grammar, and have to keep it: the properties state that nothing is lost.
\<close>

section \<open>Splitting\<close>

text \<open>The local variables of the loop.\<close>

record splitState =
  parts :: "string list"
  partStart :: nat
  depth :: int
  quote :: "char option"

definition opensBracket :: "char \<Rightarrow> bool" where
  "opensBracket c \<longleftrightarrow> c \<in> set ''([{''"

definition closesBracket :: "char \<Rightarrow> bool" where
  "closesBracket c \<longleftrightarrow> c \<in> set '')]}''"

text \<open>What one round does: it goes on at an index, or returns the whole source.\<close>

datatype splitRound = Goto nat splitState | Whole

definition splitStep :: "string \<Rightarrow> string \<Rightarrow> nat \<Rightarrow> splitState \<Rightarrow> splitRound" where
  "splitStep source operator i st =
     (let c = source ! i
      in case quote st of
           Some q \<Rightarrow>
             if c = backslash then Goto (i + 2) st
             else Goto (i + 1) (if c = q then st\<lparr>quote := None\<rparr> else st)
         | None \<Rightarrow>
             if c = quoteDbl \<or> c = quoteSgl then Goto (i + 1) (st\<lparr>quote := Some c\<rparr>)
             else
               let d = depth st + (if opensBracket c then 1 else 0) - (if closesBracket c then 1 else 0);
                   st = st\<lparr>depth := d\<rparr>
               in if d \<noteq> 0 then Goto (i + 1) st
                  else if c = CHR ''?'' then Whole
                  else if startsWith (drop i source) operator
                  then Goto (i + length operator)
                    (st\<lparr>parts := parts st @ [trim (slice source (partStart st) i)], partStart := i + length operator\<rparr>)
                  else Goto (i + 1) st)"

text \<open>The loop. With an empty operator it never ends; not returning is the value \<open>None\<close>.\<close>

partial_function (option) splitLoop :: "string \<Rightarrow> string \<Rightarrow> nat \<Rightarrow> splitState \<Rightarrow> string list option" where
  "splitLoop source operator i st =
     (if i < length source
      then (case splitStep source operator i st of
              Goto j st' \<Rightarrow> splitLoop source operator j st'
            | Whole \<Rightarrow> Some [trim source])
      else Some (filter (\<lambda>p. p \<noteq> []) (parts st @ [trim (drop (partStart st) source)])))"

declare splitLoop.simps [code]

definition splitExpressionAtTopLevel :: "string \<Rightarrow> string \<Rightarrow> string list option" where
  "splitExpressionAtTopLevel source operator =
     splitLoop source operator 0 \<lparr>parts = [], partStart = 0, depth = 0, quote = None\<rparr>"

section \<open>Parentheses\<close>

text \<open>The inner loop: whether the first bracket closes at the last character.\<close>

function closesAtEnd :: "string \<Rightarrow> nat \<Rightarrow> int \<Rightarrow> char option \<Rightarrow> bool" where
  "closesAtEnd e i d q =
     (if length e \<le> i then False
      else
        let c = e ! i
        in case q of
             Some r \<Rightarrow>
               if c = backslash then closesAtEnd e (i + 2) d q
               else closesAtEnd e (i + 1) d (if c = r then None else q)
           | None \<Rightarrow>
               if c = quoteDbl \<or> c = quoteSgl then closesAtEnd e (i + 1) d (Some c)
               else
                 let d' = d + (if c = CHR ''('' then 1 else 0) - (if c = CHR '')'' then 1 else 0)
                 in if d' = 0 then i = length e - 1 else closesAtEnd e (i + 1) d' None)"
  by pat_completeness auto

termination closesAtEnd by (relation "measure (\<lambda>(e, i, _). length e - i)") auto

declare closesAtEnd.simps [simp del]

definition isWrapped :: "string \<Rightarrow> bool" where
  "isWrapped e \<longleftrightarrow> e \<noteq> [] \<and> hd e = CHR ''('' \<and> last e = CHR '')'' \<and> closesAtEnd e 0 0 None"

lemma length_trim: "length (trim s) \<le> length s"
proof -
  have "length (trimEnd t) \<le> length t" for t
    by (simp add: trimEnd_def) (metis length_dropWhile_le length_rev)
  from le_trans [OF this length_dropWhile_le] show ?thesis by (simp add: trim_def trimStart_def)
qed

function unwrapLoop :: "string \<Rightarrow> string" where
  "unwrapLoop e = (if isWrapped e then unwrapLoop (trim (slice e 1 (length e - 1))) else e)"
  by pat_completeness auto

termination unwrapLoop
proof (relation "measure length", simp, goal_cases)
  case (1 e)
  then show ?case using length_trim [of "slice e 1 (length e - 1)"] by (cases e) (auto simp: isWrapped_def)
qed

declare unwrapLoop.simps [simp del]

definition unwrapExpressionParens :: "string \<Rightarrow> string" where
  "unwrapExpressionParens source = unwrapLoop (trim source)"

section \<open>Facts\<close>

text \<open>The texts of the parts before they are trimmed, up to the index.\<close>

definition splitInv :: "string \<Rightarrow> string \<Rightarrow> nat \<Rightarrow> splitState \<Rightarrow> bool" where
  "splitInv source operator i st \<longleftrightarrow> partStart st \<le> i \<and>
     (\<exists>raws. parts st = map trim raws \<and> take (partStart st) source = concat (map (\<lambda>r. r @ operator) raws))"

lemma splitStep_inv:
  assumes "splitInv source operator i st" "i < length source" "splitStep source operator i st = Goto j st'"
    "operator \<noteq> []"
  shows "splitInv source operator j st' \<and> i < j"
proof (cases "parts st' = parts st \<and> partStart st' = partStart st")
  case True
  then have "i < j" using assms(3,4)
    by (auto simp: splitStep_def Let_def split: option.splits if_splits)
  with True assms(1) show ?thesis by (auto simp: splitInv_def)
next
  case False
  have j: "j = i + length operator" "startsWith (drop i source) operator"
    "parts st' = parts st @ [trim (slice source (partStart st) i)]" "partStart st' = i + length operator"
    using assms(3) False by (auto simp: splitStep_def Let_def split: option.splits if_splits)
  obtain raws where raws: "parts st = map trim raws" "partStart st \<le> i"
    "take (partStart st) source = concat (map (\<lambda>r. r @ operator) raws)"
    using assms(1) by (auto simp: splitInv_def)
  have "take (i + length operator) source = take i source @ operator"
    using j(2) by (simp add: take_add startsWith_def)
  also have "take i source = take (partStart st) source @ slice source (partStart st) i"
    using raws(2) by (simp add: slice_def flip: take_add)
  finally have "take (partStart st') source = concat (map (\<lambda>r. r @ operator) (raws @ [slice source (partStart st) i]))"
    using raws(3) j(4) by simp
  moreover have "parts st' = map trim (raws @ [slice source (partStart st) i])" using raws(1) j(3) by simp
  ultimately have "\<exists>raws. parts st' = map trim raws \<and> take (partStart st') source = concat (map (\<lambda>r. r @ operator) raws)"
    by blast
  then show ?thesis using j(1,4) assms(4) unfolding splitInv_def by simp
qed

lemma joinWith_concat: "joinWith sep (raws @ [r]) = concat (map (\<lambda>x. x @ sep) raws) @ r"
  by (induction raws rule: induct_list012) auto

lemma splitLoop_result:
  assumes "operator \<noteq> []"
  shows "splitInv source operator i st \<Longrightarrow>
    \<exists>ps. splitLoop source operator i st = Some ps \<and>
      (ps = [trim source] \<or>
       (\<exists>raws. joinWith operator raws = source \<and> ps = filter (\<lambda>p. p \<noteq> []) (map trim raws)))"
proof (induction "length source - i" arbitrary: i st rule: less_induct)
  case less
  show ?case
  proof (cases "i < length source")
    case False
    obtain raws where raws: "parts st = map trim raws"
      "take (partStart st) source = concat (map (\<lambda>r. r @ operator) raws)"
      using less.prems by (auto simp: splitInv_def)
    let ?raws = "raws @ [drop (partStart st) source]"
    have "joinWith operator ?raws = source"
      unfolding joinWith_concat raws(2) [symmetric] by (rule append_take_drop_id)
    moreover have "parts st @ [trim (drop (partStart st) source)] = map trim ?raws" using raws(1) by simp
    ultimately show ?thesis using False by (subst splitLoop.simps) auto
  next
    case True
    show ?thesis
    proof (cases "splitStep source operator i st")
      case (Goto j st')
      with splitStep_inv [OF less.prems True Goto assms] have "splitInv source operator j st'" "i < j" by auto
      from less.hyps [OF _ this(1)] this(2) True Goto show ?thesis by (subst splitLoop.simps) auto
    next
      case Whole
      with True show ?thesis by (subst splitLoop.simps) simp
    qed
  qed
qed

definition spaces :: "string \<Rightarrow> bool" where
  "spaces s \<longleftrightarrow> (\<forall>c\<in>set s. isSpace c)"

lemma trim_parts: "\<exists>a b. s = a @ trim s @ b \<and> spaces a \<and> spaces b"
proof -
  let ?t = "dropWhile isSpace s"
  have "s = takeWhile isSpace s @ ?t" "rev ?t = takeWhile isSpace (rev ?t) @ dropWhile isSpace (rev ?t)" by simp_all
  then have "s = takeWhile isSpace s @ trim s @ rev (takeWhile isSpace (rev ?t))"
    unfolding trim_def trimStart_def trimEnd_def by (metis rev_append rev_rev_ident)
  then show ?thesis unfolding spaces_def by (metis set_rev set_takeWhileD)
qed

definition visible :: "string \<Rightarrow> string" where
  "visible s = filter (\<lambda>c. \<not> isSpace c) s"

lemma visible_spaces [simp]: "spaces s \<Longrightarrow> visible s = []"
  by (auto simp: visible_def spaces_def filter_empty_conv)

lemma visible_simps [simp]: "visible (a @ b) = visible a @ visible b"
  "visible (CHR ''('' # a) = CHR ''('' # visible a" "visible [CHR '')''] = [CHR '')'']"
  by (simp_all add: visible_def isSpace_def)

lemma unwrap_layers:
  "\<exists>k a b. \<not> isWrapped (unwrapLoop e) \<and> e = a @ unwrapLoop e @ b \<and>
     visible a = replicate k CHR ''('' \<and> visible b = replicate k CHR '')''"
proof (induction e rule: unwrapLoop.induct)
  case (1 e)
  show ?case
  proof (cases "isWrapped e")
    case False
    then have "unwrapLoop e = e" by (simp add: unwrapLoop.simps [of e])
    with False have "\<not> isWrapped (unwrapLoop e) \<and> e = [] @ unwrapLoop e @ [] \<and>
        visible [] = replicate 0 CHR ''('' \<and> visible [] = replicate 0 CHR '')''" by (simp add: visible_def)
    then show ?thesis by blast
  next
    case True
    define m where "m = slice e 1 (length e - 1)"
    have "e = CHR ''('' # m @ [CHR '')'']"
    proof -
      obtain e' where e': "e = CHR ''('' # e'" using True by (cases e) (auto simp: isWrapped_def)
      moreover from this True have "e' \<noteq> []" "last e' = CHR '')''" by (auto simp: isWrapped_def split: if_splits)
      ultimately show ?thesis using append_butlast_last_id [of e'] by (simp add: m_def slice_def butlast_conv_take)
    qed
    moreover obtain s1 s2 where "m = s1 @ trim m @ s2" "spaces s1" "spaces s2" using trim_parts by blast
    moreover obtain k a b where IH: "\<not> isWrapped (unwrapLoop (trim m))" "trim m = a @ unwrapLoop (trim m) @ b"
      "visible a = replicate k CHR ''(''" "visible b = replicate k CHR '')''"
      using 1 [OF True] unfolding m_def [symmetric] by blast
    moreover have "unwrapLoop e = unwrapLoop (trim m)" using True by (simp add: unwrapLoop.simps [of e] m_def)
    ultimately have "\<not> isWrapped (unwrapLoop e) \<and> e = (CHR ''('' # s1 @ a) @ unwrapLoop e @ (b @ s2 @ [CHR '')'']) \<and>
        visible (CHR ''('' # s1 @ a) = replicate (Suc k) CHR ''('' \<and>
        visible (b @ s2 @ [CHR '')'']) = replicate (Suc k) CHR '')''"
      by (simp add: replicate_append_same) (metis append.assoc)
    then show ?thesis by blast
  qed
qed

section \<open>Properties\<close>

text \<open>
  C39. Splitting ends for every operator that is not empty and is lossless: the result is the
  trimmed source, or the non-empty trimmed pieces of a division of the source whose pieces,
  joined by the operator, are the source.
\<close>

theorem split_lossless:
  assumes "operator \<noteq> []"
  shows "\<exists>ps. splitExpressionAtTopLevel source operator = Some ps \<and>
    (ps = [trim source] \<or>
     (\<exists>raws. joinWith operator raws = source \<and> ps = filter (\<lambda>p. p \<noteq> []) (map trim raws)))"
  unfolding splitExpressionAtTopLevel_def by (rule splitLoop_result [OF assms]) (simp add: splitInv_def)

theorem split_lossless_witness:
  "\<exists>ps. splitExpressionAtTopLevel ''a && (b && c) && \"&&\"'' ''&&'' = Some ps \<and>
    (ps = [trim ''a && (b && c) && \"&&\"''] \<or>
     (\<exists>raws. joinWith ''&&'' raws = ''a && (b && c) && \"&&\"'' \<and> ps = filter (\<lambda>p. p \<noteq> []) (map trim raws)))"
  by (rule split_lossless) simp

text \<open>
  Removing parentheses keeps the expression: the result is a contiguous part of the source,
  what surrounds it is white space and the same number of opening and closing parentheses,
  and the result itself is not enclosed in a matching pair any more.
\<close>

theorem unwrap_keeps:
  "\<exists>k a b. \<not> isWrapped (unwrapExpressionParens source) \<and> source = a @ unwrapExpressionParens source @ b \<and>
     visible a = replicate k CHR ''('' \<and> visible b = replicate k CHR '')''"
proof -
  obtain k a b where u: "\<not> isWrapped (unwrapLoop (trim source))" "trim source = a @ unwrapLoop (trim source) @ b"
    "visible a = replicate k CHR ''(''" "visible b = replicate k CHR '')''"
    using unwrap_layers by blast
  obtain s1 s2 where "source = s1 @ trim source @ s2" "spaces s1" "spaces s2" using trim_parts by blast
  with u have "source = (s1 @ a) @ unwrapLoop (trim source) @ (b @ s2) \<and>
      visible (s1 @ a) = replicate k CHR ''('' \<and> visible (b @ s2) = replicate k CHR '')''"
    by simp (metis append.assoc)
  with u(1) show ?thesis unfolding unwrapExpressionParens_def by blast
qed

end
