(* ===== verification/BxVisual.thy ===== *)
theory BxVisual
  imports BxDisplay Json
begin

text \<open>
  Model of \<open>billing-expression/visual.ts\<close>: the document the visual price editor works on.
  \<open>parseVisualBillingDocument\<close> reads a compiled expression into a tree of branches and tiers
  in which every part remembers the syntax node it came from; \<open>serializeVisualBillingDocument\<close>
  writes the tree back, reusing the source text of every part that was not edited. Node
  identity (\<open>===\<close>) is structural equality: spans are part of a node and identify it within
  its tree.
\<close>

section \<open>The document\<close>

text \<open>\<open>Origin\<close>: a key for the user interface and the node a part was read from.\<close>

record identity =
  vid :: string
  vorigin :: "node option"

record visualComparison = identity +
  vprobe :: string
  vtimezone :: string
  voperator :: string
  vvalue :: string

datatype groupKind = AllOf | AnyOf

datatype visualCondition =
    Comparison visualComparison
  | Group identity groupKind "visualCondition list"
  | Negation identity visualCondition

record visualPrice =
  pvariable :: string
  pvalue :: string
  porigin :: "node option"

record visualTier = identity +
  vlabel :: string
  vprices :: "visualPrice list"
  vbillingUnit :: billingUnit
  vfixedPrice :: string

datatype visualPricingNode =
    Tier visualTier
  | Branch identity visualCondition visualPricingNode visualPricingNode

record visualBillingDocument =
  dsource :: string
  droot :: visualPricingNode

record visualBillingIssue =
  issueId :: string
  message :: string

datatype visualBillingSerialization = Written string | Rejected "visualBillingIssue list"

fun conditionOrigin :: "visualCondition \<Rightarrow> node option" where
  "conditionOrigin (Comparison c) = vorigin c"
| "conditionOrigin (Group i _ _) = vorigin i"
| "conditionOrigin (Negation i _) = vorigin i"

fun pricingId :: "visualPricingNode \<Rightarrow> string" where
  "pricingId (Tier t) = vid t"
| "pricingId (Branch i _ _ _) = vid i"

definition COMPARISONS :: "string list" where
  "COMPARISONS = [''<'', ''<='', ''>'', ''>='', ''=='', ''!='']"

definition TIME_DOMAINS :: "string \<Rightarrow> (int \<times> int) option" where
  "TIME_DOMAINS = map_of
     [(''hour'', (0, 23)), (''minute'', (0, 59)), (''weekday'', (0, 6)), (''month'', (1, 12)),
      (''day'', (1, 31))]"

text \<open>The module variable \<open>nextId\<close> is passed along.\<close>

definition visualNodeId :: "int \<Rightarrow> string \<times> int" where
  "visualNodeId nextId = (''draft-'' @ intString (nextId + 1), nextId + 1)"

definition createEmptyVisualCondition :: "int \<Rightarrow> visualComparison \<times> int" where
  "createEmptyVisualCondition nextId =
     (let (i, nextId') = visualNodeId nextId
      in (\<lparr>vid = i, vorigin = None, vprobe = ''hour'', vtimezone = ''Asia/Shanghai'',
           voperator = ''>='', vvalue = []\<rparr>, nextId'))"

section \<open>Reading a tree\<close>

definition nodeIdentity :: "string \<Rightarrow> node \<Rightarrow> identity" where
  "nodeIdentity kind n =
     \<lparr>vid = kind @ ''-'' @ natString (int (nstart n)) @ ''-'' @ natString (int (nend n)),
      vorigin = Some n\<rparr>"

text \<open>The left side of a comparison: what is compared, and the time zone.\<close>

definition readProbe :: "node \<Rightarrow> (string \<times> string) option bx" where
  "readProbe l =
     (case l of
        Variable _ x \<Rightarrow> Inr (if x \<in> set [''p'', ''c'', ''len''] then Some (x, []) else None)
      | Call _ f args \<Rightarrow>
          if f \<notin> set TIME_FUNCTIONS then Inr None
          else (case args of
                  [] \<Rightarrow> Inl (JsError ''TypeError'')
                | Literal _ (LStr tz) # _ \<Rightarrow> Inr (Some (f, tz))
                | _ \<Rightarrow> Inr None)
      | _ \<Rightarrow> Inr None)"

definition readComparison :: "node \<Rightarrow> string \<Rightarrow> node \<Rightarrow> node \<Rightarrow> visualCondition option bx" where
  "readComparison n op l r =
     (case r of
        Literal _ (LNum v _) \<Rightarrow>
          if op \<notin> set COMPARISONS then Inr None
          else rbind (readProbe l) (\<lambda>probe. Inr (map_option (\<lambda>(x, tz).
            Comparison \<lparr>vid = vid (nodeIdentity ''condition'' n), vorigin = Some n, vprobe = x,
              vtimezone = tz, voperator = op, vvalue = numString v\<rparr>) probe))
      | _ \<Rightarrow> Inr None)"

function readVisualCondition :: "node \<Rightarrow> visualCondition option bx" where
  "readVisualCondition n =
     (case n of
        Unary _ op a \<Rightarrow>
          if op = ''!''
          then rbind (readVisualCondition a)
                 (\<lambda>child. Inr (map_option (Negation (nodeIdentity ''condition'' n)) child))
          else Inr None
      | Binary _ op l r \<Rightarrow>
          if op \<in> set [''&&'', ''||'']
          then rbind (mapBx readVisualCondition (flattenBinary op n)) (\<lambda>children.
                 Inr (map_option (Group (nodeIdentity ''condition'' n)
                        (if op = ''&&'' then AllOf else AnyOf)) (those children)))
          else readComparison n op l r
      | _ \<Rightarrow> Inr None)"
  by pat_completeness auto
termination
  by (relation "measure size") (auto dest!: flattenBinary_size)

declare readVisualCondition.simps [simp del]

text \<open>The loop over the terms of a token price.\<close>

fun readPrices :: "node list \<Rightarrow> visualPrice list \<Rightarrow> visualPrice list option" where
  "readPrices [] prices = Some prices"
| "readPrices (Binary sp op (Variable vsp x) (Literal lsp (LNum v i)) # terms) prices =
     (if op \<noteq> ''*'' \<or> x = ''len'' \<or> x = ''image_count'' \<or> js_lt v (Fin 0) then None
      else if list_ex (\<lambda>p. pvariable p = x) prices then None
      else readPrices terms (prices @
             [\<lparr>pvariable = x, pvalue = numString v,
               porigin = Some (Binary sp op (Variable vsp x) (Literal lsp (LNum v i)))\<rparr>]))"
| "readPrices (_ # terms) prices = None"

definition readTier :: "node \<Rightarrow> string \<Rightarrow> node \<Rightarrow> visualTier option bx" where
  "readTier n label body =
     (let tier = (\<lambda>prices unit price. \<lparr>vid = vid (nodeIdentity ''pricing'' n), vorigin = Some n,
            vlabel = label, vprices = prices, vbillingUnit = unit, vfixedPrice = price\<rparr>);
          linear = map_option (\<lambda>prices. tier prices UToken []) (readPrices (flattenBinary ''+'' body) [])
      in case body of
           Call _ f args \<Rightarrow>
             if f = ''fixed'' then
               (case args of
                  [] \<Rightarrow> Inl (JsError ''TypeError'')
                | Literal _ v # _ \<Rightarrow> Inr (Some (tier [] URequest (litString v)))
                | _ \<Rightarrow> Inr linear)
             else Inr linear
         | _ \<Rightarrow> Inr linear)"

fun readVisualPricing :: "node \<Rightarrow> visualPricingNode option bx" where
  "readVisualPricing (Conditional sp c y n) =
     rbind (readVisualCondition c) (\<lambda>condition.
     rbind (readVisualPricing y) (\<lambda>yes.
     rbind (readVisualPricing n) (\<lambda>no.
     Inr (case (condition, yes, no) of
            (Some c', Some y', Some n') \<Rightarrow>
              Some (Branch (nodeIdentity ''pricing'' (Conditional sp c y n)) c' y' n')
          | _ \<Rightarrow> None))))"
| "readVisualPricing (Call sp f args) =
     (if f \<noteq> ''tier'' then Inr None
      else case args of
             [] \<Rightarrow> Inl (JsError ''TypeError'')
           | Literal _ (LStr label) # rest \<Rightarrow>
               (case rest of
                  [] \<Rightarrow> Inl (JsError ''TypeError'')
                | body # _ \<Rightarrow>
                    rbind (readTier (Call sp f args) label body) (\<lambda>t. Inr (map_option Tier t)))
           | _ \<Rightarrow> Inr None)"
| "readVisualPricing _ = Inr None"

section \<open>Writing a tree\<close>

text \<open>\<open>text.slice(i, j)\<close>: a negative index counts from the end.\<close>

definition sliceIndex :: "nat \<Rightarrow> int \<Rightarrow> nat" where
  "sliceIndex len i = (if i < 0 then nat (int len + i) else min (nat i) len)"

definition jsSlice :: "string \<Rightarrow> int \<Rightarrow> int \<Rightarrow> string" where
  "jsSlice s i j = slice s (sliceIndex (length s) i) (sliceIndex (length s) j)"

definition sourceOf :: "string \<Rightarrow> node \<Rightarrow> string" where
  "sourceOf src n = slice src (nstart n) (nend n)"

definition applyPatch :: "node \<Rightarrow> string \<Rightarrow> node \<times> string \<Rightarrow> string" where
  "applyPatch origin result patch =
     jsSlice result 0 (int (nstart (fst patch)) - int (nstart origin)) @ snd patch @
     jsSlice result (int (nend (fst patch)) - int (nstart origin)) (int (length result))"

definition patchSource :: "string \<Rightarrow> node \<Rightarrow> (node \<times> string) list \<Rightarrow> string" where
  "patchSource src origin patches =
     foldl (applyPatch origin) (sourceOf src origin)
       (sort_key (\<lambda>patch. - int (nstart (fst patch))) patches)"

definition parseNonNegativeNumber :: "string \<Rightarrow> jsnum option" where
  "parseNonNegativeNumber v =
     (if trim v = [] \<or> scanNumber (trim v) \<noteq> trim v then None
      else let x = stringToNumber v
           in if isFinite x \<and> js_le (Fin 0) x then Some x else None)"

text \<open>\<open>JSON.stringify\<close> of a string.\<close>

definition jsonString :: "string \<Rightarrow> string" where
  "jsonString s = map char_of (quoteJson (unitsOf s))"

text \<open>\<open>value === literal.value\<close>, where \<open>value\<close> may be null.\<close>

fun litEquals :: "jsnum option \<Rightarrow> lit \<Rightarrow> bool" where
  "litEquals (Some x) (LNum y _) = js_eq x y"
| "litEquals None LNull = True"
| "litEquals _ _ = False"

text \<open>The writers push to the array \<open>issues\<close> and may throw.\<close>

type_synonym 'a writer = "(visualBillingIssue list, exn, 'a) comp"

definition pushIssue :: "string \<Rightarrow> string \<Rightarrow> unit writer" where
  "pushIssue i m = modify (\<lambda>issues. issues @ [\<lparr>issueId = i, message = m\<rparr>])"

definition issueUnless :: "bool \<Rightarrow> string \<Rightarrow> string \<Rightarrow> unit writer" where
  "issueUnless ok i m = (if ok then return () else pushIssue i m)"

definition negationText :: "string \<Rightarrow> identity \<Rightarrow> visualCondition \<Rightarrow> string \<Rightarrow> string" where
  "negationText src i child text =
     (let fresh = ''!('' @ text @ '')''
      in case vorigin i of
           Some (Unary sp op a) \<Rightarrow>
             if conditionOrigin child = Some a then patchSource src (Unary sp op a) [(a, text)] else fresh
         | _ \<Rightarrow> fresh)"

definition groupOperator :: "groupKind \<Rightarrow> string" where
  "groupOperator k = (case k of AllOf \<Rightarrow> ''&&'' | AnyOf \<Rightarrow> ''||'')"

definition groupText ::
    "string \<Rightarrow> identity \<Rightarrow> groupKind \<Rightarrow> visualCondition list \<Rightarrow> string list \<Rightarrow> string" where
  "groupText src i k members texts =
     (let operator = groupOperator k;
          fresh = ''('' @ joinWith ('' '' @ operator @ '' '') (map (\<lambda>t. ''('' @ t @ '')'') texts) @ '')''
      in case vorigin i of
           Some (Binary sp op l r) \<Rightarrow>
             if op = operator then
               (let original = flattenBinary operator (Binary sp op l r)
                in if map conditionOrigin members = map Some original
                   then patchSource src (Binary sp op l r) (zip original texts)
                   else fresh)
             else fresh
         | _ \<Rightarrow> fresh)"

definition validValue :: "visualComparison \<Rightarrow> bool" where
  "validValue c =
     (case parseNonNegativeNumber (vvalue c) of
        None \<Rightarrow> False
      | Some x \<Rightarrow>
          (if vprobe c \<in> set TIME_FUNCTIONS
           then (case TIME_DOMAINS (vprobe c) of
                   None \<Rightarrow> False
                 | Some (lo, hi) \<Rightarrow>
                     isInteger x \<and> js_le (ofInt lo) x \<and>
                     js_le x (ofInt (hi + (if voperator c = ''<'' then 1 else 0))))
           else True))"

text \<open>The value of the first argument when it is a literal; reading a missing one throws.\<close>

definition firstLiteral :: "node list \<Rightarrow> lit option bx" where
  "firstLiteral args =
     (case args of
        [] \<Rightarrow> Inl (JsError ''TypeError'')
      | Literal _ v # _ \<Rightarrow> Inr (Some v)
      | _ \<Rightarrow> Inr None)"

definition originalZone :: "node option \<Rightarrow> lit option bx" where
  "originalZone origin =
     (case origin of
        Some (Binary _ _ (Call _ _ args) _) \<Rightarrow> firstLiteral args
      | _ \<Rightarrow> Inr None)"

definition zoneAccepted :: "intl \<Rightarrow> string \<Rightarrow> bool" where
  "zoneAccepted env tz \<longleftrightarrow> trim tz \<noteq> [] \<and> resolvedZone env (trim tz) \<noteq> None"

definition checkZone :: "intl \<Rightarrow> visualComparison \<Rightarrow> unit writer" where
  "checkZone env c =
     (if vprobe c \<in> set TIME_FUNCTIONS
      then cbind (lift (originalZone (vorigin c))) (\<lambda>zone.
             issueUnless (zone = Some (LStr (vtimezone c)) \<or> zoneAccepted env (vtimezone c))
               (vid c) ''Choose a valid IANA timezone.'')
      else return ())"

definition probeSource :: "visualComparison \<Rightarrow> string" where
  "probeSource c =
     (if vprobe c \<in> set TIME_FUNCTIONS then vprobe c @ ''('' @ jsonString (vtimezone c) @ '')''
      else vprobe c)"

text \<open>The text of the probe when it is patched into the original comparison.\<close>

definition patchedProbe :: "string \<Rightarrow> visualComparison \<Rightarrow> node \<Rightarrow> string bx" where
  "patchedProbe src c old =
     (case old of
        Variable _ x \<Rightarrow> Inr (if x = vprobe c then sourceOf src old else probeSource c)
      | Call _ f args \<Rightarrow>
          if f = vprobe c
          then rbind (firstLiteral args) (\<lambda>v.
                 Inr (if v = Some (LStr (vtimezone c)) then sourceOf src old else probeSource c))
          else Inr (probeSource c)
      | _ \<Rightarrow> Inr (probeSource c))"

definition patchedValue :: "string \<Rightarrow> visualComparison \<Rightarrow> node \<Rightarrow> string" where
  "patchedValue src c right =
     (case right of
        Literal _ v \<Rightarrow> if litEquals (parseNonNegativeNumber (vvalue c)) v then sourceOf src right else vvalue c
      | _ \<Rightarrow> vvalue c)"

definition comparisonText :: "string \<Rightarrow> visualComparison \<Rightarrow> string bx" where
  "comparisonText src c =
     (let fresh = ''('' @ probeSource c @ '' '' @ voperator c @ '' '' @ vvalue c @ '')''
      in case vorigin c of
           Some (Binary sp op l r) \<Rightarrow>
             if op = voperator c
             then rbind (patchedProbe src c l) (\<lambda>probe.
                    Inr (patchSource src (Binary sp op l r) [(l, probe), (r, patchedValue src c r)]))
             else Inr fresh
         | _ \<Rightarrow> Inr fresh)"

definition writeComparison :: "intl \<Rightarrow> string \<Rightarrow> visualComparison \<Rightarrow> string writer" where
  "writeComparison env src c =
     cbind (issueUnless (validValue c) (vid c) ''Enter a valid condition value.'') (\<lambda>_.
     cbind (checkZone env c) (\<lambda>_. lift (comparisonText src c)))"

fun writeVisualCondition :: "intl \<Rightarrow> string \<Rightarrow> visualCondition \<Rightarrow> string writer"
and writeVisualConditions :: "intl \<Rightarrow> string \<Rightarrow> visualCondition list \<Rightarrow> string list writer" where
  "writeVisualCondition env src (Negation i child) =
     cbind (writeVisualCondition env src child) (\<lambda>text. return (negationText src i child text))"
| "writeVisualCondition env src (Group i k members) =
     cbind (issueUnless (members \<noteq> []) (vid i) ''Add at least one condition to this group.'') (\<lambda>_.
     cbind (writeVisualConditions env src members) (\<lambda>texts.
     return (groupText src i k members texts)))"
| "writeVisualCondition env src (Comparison c) = writeComparison env src c"
| "writeVisualConditions env src [] = return []"
| "writeVisualConditions env src (c # cs) =
     cbind (writeVisualCondition env src c) (\<lambda>text.
     cbind (writeVisualConditions env src cs) (\<lambda>texts. return (text # texts)))"

definition visualConditionExpression :: "intl \<Rightarrow> visualCondition \<Rightarrow> string \<Rightarrow> string option bx" where
  "visualConditionExpression env node src =
     rbind (writeVisualCondition env src node [])
       (\<lambda>(expression, issues). Inr (if issues = [] then Some expression else None))"

definition labelText :: "string \<Rightarrow> visualTier \<Rightarrow> node \<Rightarrow> string" where
  "labelText src t label =
     (case label of
        Literal _ (LStr s) \<Rightarrow> if s = vlabel t then sourceOf src label else jsonString (vlabel t)
      | _ \<Rightarrow> jsonString (vlabel t))"

definition fixedText :: "string \<Rightarrow> visualTier \<Rightarrow> node \<Rightarrow> string bx" where
  "fixedText src t price =
     (let fresh = ''fixed('' @ vfixedPrice t @ '')''
      in case price of
           Call _ f args \<Rightarrow>
             if f = ''fixed'' then
               (case args of
                  [] \<Rightarrow> Inl (JsError ''TypeError'')
                | Literal sp v # _ \<Rightarrow>
                    Inr (patchSource src price [(Literal sp v,
                      if litEquals (parseNonNegativeNumber (vfixedPrice t)) v
                      then sourceOf src (Literal sp v) else vfixedPrice t)])
                | _ \<Rightarrow> Inr fresh)
             else Inr fresh
         | _ \<Rightarrow> Inr fresh)"

definition isTierCall :: "node \<Rightarrow> bool" where
  "isTierCall n = (case n of Call _ f _ \<Rightarrow> f = ''tier'' | _ \<Rightarrow> False)"

text \<open>The label and the body of the original \<open>tier\<close> call; reading a missing one throws.\<close>

definition tierArguments :: "node \<Rightarrow> (node \<times> node) bx" where
  "tierArguments n =
     (case children n of label # body # _ \<Rightarrow> Inr (label, body) | _ \<Rightarrow> Inl (JsError ''TypeError''))"

definition finiteFixedPrice :: "string \<Rightarrow> bool" where
  "finiteFixedPrice s =
     (case parseNonNegativeNumber s of None \<Rightarrow> False | Some x \<Rightarrow> isFinite (js_mul x million))"

definition writeFixedTier :: "string \<Rightarrow> visualTier \<Rightarrow> string writer" where
  "writeFixedTier src t =
     cbind (issueUnless (finiteFixedPrice (vfixedPrice t)) (vid t @ '':fixed'')
              ''Enter a finite, non-negative price.'') (\<lambda>_.
     lift (let fresh = ''tier('' @ jsonString (vlabel t) @ '', fixed('' @ vfixedPrice t @ ''))''
           in case vorigin t of
                None \<Rightarrow> Inr fresh
              | Some origin \<Rightarrow>
                  if isTierCall origin
                  then rbind (tierArguments origin) (\<lambda>(label, price).
                       rbind (fixedText src t price) (\<lambda>text.
                       Inr (patchSource src origin [(label, labelText src t label), (price, text)])))
                  else Inr fresh))"

text \<open>One price of the loop: its text, and the patch of its literal when it has an origin.\<close>

definition priceText :: "string \<Rightarrow> visualPrice \<Rightarrow> string \<times> (node \<times> string) option" where
  "priceText src p =
     (let fresh = (pvariable p @ '' * '' @ pvalue p, None)
      in case porigin p of
           Some (Binary sp op l (Literal lsp v)) \<Rightarrow>
             (let text = (if litEquals (parseNonNegativeNumber (pvalue p)) v
                          then sourceOf src (Literal lsp v) else pvalue p);
                  patch = (Literal lsp v, text)
              in (patchSource src (Binary sp op l (Literal lsp v)) [patch], Some patch))
         | _ \<Rightarrow> fresh)"

fun checkPrices :: "string \<Rightarrow> visualPrice list \<Rightarrow> unit writer" where
  "checkPrices i [] = return ()"
| "checkPrices i (p # ps) =
     cbind (issueUnless (parseNonNegativeNumber (pvalue p) \<noteq> None) (i @ '':'' @ pvariable p)
              ''Enter a finite, non-negative price.'') (\<lambda>_. checkPrices i ps)"

definition tokenTierText :: "string \<Rightarrow> visualTier \<Rightarrow> string bx" where
  "tokenTierText src t =
     (let written = map (priceText src) (vprices t);
          terms = joinWith '' + '' (map fst written);
          valuePatches = List.map_filter snd written;
          fresh = ''tier('' @ jsonString (vlabel t) @ '', '' @ terms @ '')''
      in case vorigin t of
           None \<Rightarrow> Inr fresh
         | Some origin \<Rightarrow>
             if isTierCall origin
             then rbind (tierArguments origin) (\<lambda>(label, body).
                  Inr (patchSource src origin ((label, labelText src t label) #
                    (if map porigin (vprices t) = map Some (flattenBinary ''+'' body)
                     then valuePatches else [(body, terms)]))))
             else Inr fresh)"

definition writeTokenTier :: "string \<Rightarrow> visualTier \<Rightarrow> string writer" where
  "writeTokenTier src t =
     cbind (issueUnless (vprices t \<noteq> []) (vid t) ''Include at least one price variable.'') (\<lambda>_.
     cbind (checkPrices (vid t) (vprices t)) (\<lambda>_. lift (tokenTierText src t)))"

definition branchText ::
    "string \<Rightarrow> identity \<Rightarrow> string \<Rightarrow> string \<Rightarrow> string \<Rightarrow> string" where
  "branchText src i condition yes no =
     (case vorigin i of
        Some (Conditional sp c y n) \<Rightarrow>
          patchSource src (Conditional sp c y n) [(c, condition), (y, yes), (n, no)]
      | _ \<Rightarrow> ''('' @ condition @ '') ? ('' @ yes @ '') : ('' @ no @ '')'')"

fun writeVisualPricing :: "intl \<Rightarrow> string \<Rightarrow> visualPricingNode \<Rightarrow> string writer" where
  "writeVisualPricing env src (Branch i c y n) =
     cbind (writeVisualCondition env src c) (\<lambda>condition.
     cbind (writeVisualPricing env src y) (\<lambda>yes.
     cbind (writeVisualPricing env src n) (\<lambda>no.
     return (branchText src i condition yes no))))"
| "writeVisualPricing env src (Tier t) =
     (if vbillingUnit t = URequest then writeFixedTier src t else writeTokenTier src t)"

section \<open>Documents\<close>

definition lossMessage :: string where
  "lossMessage = ''This expression cannot be edited visually without losing information.''"

definition reject :: "visualPricingNode \<Rightarrow> string \<Rightarrow> visualBillingSerialization" where
  "reject tree m = Rejected [\<lparr>issueId = pricingId tree, message = m\<rparr>]"

text \<open>The part after the writers: splice the body in and compile the result.\<close>

definition spliceBody ::
    "visualBillingDocument \<Rightarrow> string \<Rightarrow> compiledCache \<Rightarrow> visualBillingSerialization \<times> compiledCache" where
  "spliceBody doc body cache =
     (let (original, cache1) = compileBillingExpression (dsource doc) cache
      in case original of
           CompileFailure _ \<Rightarrow> (reject (droot doc) lossMessage, cache1)
         | Ready c \<Rightarrow>
             (let src = take (nstart (cast c)) (dsource doc) @ body @ drop (nend (cast c)) (dsource doc);
                  (result, cache2) = compileBillingExpression src cache1
              in (case result of
                    CompileFailure _ \<Rightarrow> reject (droot doc) ''Enter a valid condition value.''
                  | Ready _ \<Rightarrow> Written src,
                  cache2)))"

definition serializeVisualBillingDocument ::
    "intl \<Rightarrow> visualBillingDocument \<Rightarrow> compiledCache \<Rightarrow> visualBillingSerialization bx \<times> compiledCache" where
  "serializeVisualBillingDocument env doc cache =
     (case writeVisualPricing env (dsource doc) (droot doc) [] of
        Inl e \<Rightarrow> (Inl e, cache)
      | Inr (body, issues) \<Rightarrow>
          if issues \<noteq> [] then (Inr (Rejected issues), cache)
          else apfst Inr (spliceBody doc body cache))"

definition parseVisualBillingDocument ::
    "intl \<Rightarrow> string \<Rightarrow> compiledCache \<Rightarrow> visualBillingDocument option bx \<times> compiledCache" where
  "parseVisualBillingDocument env src cache =
     (let (compiled, cache1) = compileBillingExpression src cache
      in case compiled of
           CompileFailure _ \<Rightarrow> (Inr None, cache1)
         | Ready c \<Rightarrow>
             (case readVisualPricing (cast c) of
                Inl e \<Rightarrow> (Inl e, cache1)
              | Inr None \<Rightarrow> (Inr None, cache1)
              | Inr (Some tree) \<Rightarrow>
                  (let doc = \<lparr>dsource = src, droot = tree\<rparr>;
                       (written, cache2) = serializeVisualBillingDocument env doc cache1
                   in (rbind written (\<lambda>w. Inr (case w of Written _ \<Rightarrow> Some doc | Rejected _ \<Rightarrow> None)),
                       cache2))))"

end
