(* ===== verification/JsDecimal.thy ===== *)
theory JsDecimal
  imports JsString
begin

text \<open>
  Printing a number and reading it back. \<open>String(x)\<close> prints the shortest decimal that reads
  back as \<open>x\<close>; seventeen digits are always enough for a double, so \<open>Number(String(x))\<close> is
  \<open>x\<close> for every finite non-negative number, whichever of the four notations is used.
\<close>

section \<open>A decimal close to a double rounds to it\<close>

lemma rhe_near: "\<bar>q - of_int m\<bar> < 1 / 2 \<Longrightarrow> rhe q = m"
proof -
  assume q: "\<bar>q - of_int m\<bar> < 1 / 2"
  have "\<bar>of_int (rhe q) - of_int m :: rat\<bar> < 1" using rhe_close [of q] q by linarith
  then have "\<bar>of_int (rhe q - m) :: rat\<bar> < 1" by simp
  then show ?thesis by linarith
qed

text \<open>In units of the last place of \<open>x\<close>, a double next to \<open>x\<close> is an integer of 53 bits.\<close>

lemma near_significand:
  assumes "dyadic53 a" "0 < a" "0 < x" "\<bar>x - a\<bar> * 2 ^ 54 < a"
  shows "\<exists>M. a = of_int M * 2 powi ulpExp x \<and> M \<le> 2 ^ 53"
proof -
  let ?P = "(2::rat) powi ulpExp x"
  obtain m e where a: "a = of_int m * 2 powi e" "\<bar>m\<bar> \<le> 2 ^ 53" "- 1074 \<le> e"
    using assms(1) unfolding dyadic53_def by blast
  have m: "0 < m" using assms(2) a(1) by (simp add: zero_less_mult_iff)
  have "\<exists>M. a = of_int M * ?P"
  proof (cases "ulpExp x \<le> e")
    case True
    then obtain j where "(2::rat) powi (e - ulpExp x) = of_int j"
      using powi2_nonneg_int [of "e - ulpExp x"] by auto
    then have "a = of_int (m * j) * ?P" unfolding a(1) by (simp add: powi2_diff field_simps)
    then show ?thesis ..
  next
    case False
    then have u: "ulpExp x = ilog2 x - 52" using a(3) by (auto simp: ulpExp_def max_def)
    have "(2::rat) powi (e + 53) \<le> 2 powi ilog2 x" using False u by simp
    then have lo: "2 ^ 53 * 2 powi e \<le> x"
      using ilog2_bounds(1) [OF assms(3)] by (simp add: powi2_add)
    have "x < a + a / 2 ^ 54" using assms(4) by (simp add: field_simps abs_if split: if_splits)
    also have "\<dots> = (of_int m + of_int m / 2 ^ 54) * 2 powi e" by (simp add: a(1) field_simps)
    finally have x: "x < (of_int m + of_int m / 2 ^ 54) * 2 powi e" .
    with lo have "(2 ^ 53 :: rat) * 2 powi e < (of_int m + of_int m / 2 ^ 54) * 2 powi e" by linarith
    then have big: "(2 ^ 53 :: rat) < of_int m + of_int m / 2 ^ 54" by simp
    have "(of_int m :: rat) \<le> of_int (2 ^ 53)" using a(2) by (simp only: of_int_le_iff)
    then have top: "(of_int m :: rat) \<le> 2 ^ 53" by simp
    with big have "(of_int (2 ^ 53 - 1) :: rat) < of_int m" by (simp add: field_simps)
    then have "2 ^ 53 - 1 < m" by (simp only: of_int_less_iff)
    with a(2) have m53: "m = 2 ^ 53" by simp
    have "x * 2 < 2 powi e * 18014398509481985" using x m53 by (simp add: field_simps)
    then have "x < 18014398509481984 * 2 powi e" using powi2_pos [of e] by linarith
    then have "x < 2 powi (e + 54)" by (simp add: powi2_add)
    then have "ilog2 x < e + 54" by (intro ilog2_less assms(3))
    then have "ulpExp x = e + 1" using False u by simp
    then have "a = of_int (2 ^ 52) * ?P" by (simp add: a(1) m53 powi2_add)
    then show ?thesis ..
  qed
  then obtain M where M: "a = of_int M * ?P" ..
  have "(2::rat) powi (ilog2 x + 1) \<le> 2 powi (53 + ulpExp x)" by (simp add: ulpExp_def max_def)
  then have "x < 2 ^ 53 * ?P" using ilog2_bounds(2) [OF assms(3)] by (simp add: powi2_add)
  moreover have "a - a / 2 ^ 54 < x" using assms(4) by (simp add: field_simps abs_if split: if_splits)
  moreover have "(of_int M - of_int M / 2 ^ 54) * ?P = a - a / 2 ^ 54"
    unfolding M by (simp add: left_diff_distrib)
  ultimately have "(of_int M - of_int M / 2 ^ 54) * ?P < 2 ^ 53 * ?P" by linarith
  then have "(of_int M - of_int M / 2 ^ 54 :: rat) < 2 ^ 53" by (simp del: diff_divide_distrib)
  then have "(of_int M :: rat) < of_int (2 ^ 53 + 1)" by (simp add: field_simps)
  then have "M < 2 ^ 53 + 1" by (simp only: of_int_less_iff)
  then show ?thesis using M by auto
qed

lemma roundAbs_near:
  assumes "dyadic53 a" "0 < a" "0 < x" "\<bar>x - a\<bar> * 2 ^ 54 < a"
  shows "roundAbs x = a"
proof -
  let ?P = "(2::rat) powi ulpExp x"
  obtain M where M: "a = of_int M * ?P" "M \<le> 2 ^ 53" using near_significand [OF assms] by blast
  have "(of_int M :: rat) \<le> of_int (2 ^ 53)" using M(2) by (simp only: of_int_le_iff)
  then have M53: "(of_int M :: rat) \<le> 2 ^ 53" by simp
  have "x / ?P - of_int M = (x - a) / ?P" by (simp add: M(1) diff_divide_distrib)
  then have "\<bar>x / ?P - of_int M\<bar> = \<bar>x - a\<bar> / ?P" by (simp add: abs_divide)
  also have "\<dots> < a / 2 ^ 54 / ?P" using assms(4) by (intro divide_strict_right_mono) (simp_all add: field_simps)
  also have "\<dots> = of_int M / 2 ^ 54" by (simp add: M(1))
  also have "\<dots> \<le> 1 / 2" using M53 by (simp add: field_simps)
  finally have "rhe (x / ?P) = M" by (rule rhe_near)
  then show ?thesis by (simp add: roundAbs_def M(1))
qed

lemma toDouble_near:
  assumes "isDouble (Fin a)" "0 < a" "0 < x" "\<bar>x - a\<bar> * 2 ^ 54 < a"
  shows "toDouble x = Fin a"
proof -
  have "dyadic53 a" "a < 2 ^ 1024" using assms(1,2) by (simp_all add: isDouble_Fin_iff)
  with roundAbs_near [OF _ assms(2-4)] assms(2,3) show ?thesis by (simp add: toDouble_def)
qed

section \<open>Digits\<close>

lemma powi10_pos [simp]: "0 < (10::rat) powi e"
  by (simp add: zero_less_power_int)

lemma powi10_add: "(10::rat) powi (a + b) = 10 powi a * 10 powi b"
  by (simp add: power_int_add)

lemma powi10_diff: "(10::rat) powi (a - b) = 10 powi a / 10 powi b"
  by (simp add: power_int_diff)

lemma powi10_pred: "0 < k \<Longrightarrow> (10::rat) powi (int k - 1) = 10 ^ (k - 1)"
  by (cases k) simp_all

lemma digit_char [simp]:
  "0 \<le> d \<Longrightarrow> d < 10 \<Longrightarrow> isDigit (char_of (48 + nat d)) \<and> int (digitVal (char_of (48 + nat d))) = d"
  by (auto simp: isDigit_def digitVal_def)

lemma digitsVal_append: "digitsVal (xs @ ys) = digitsVal xs * 10 ^ length ys + digitsVal ys"
proof -
  have "foldl (\<lambda>n c. 10 * n + int (digitVal c)) a ys = a * 10 ^ length ys + digitsVal ys" for a
    unfolding digitsVal_def
    by (induction ys rule: rev_induct) (auto simp: algebra_simps)
  from this [of "digitsVal xs"] show ?thesis by (simp add: digitsVal_def)
qed

lemma digitsVal_simps [simp]: "digitsVal [] = 0" "digitsVal [c] = int (digitVal c)"
  by (simp_all add: digitsVal_def)

lemma digitsVal_zeros [simp]: "digitsVal (replicate n CHR ''0'') = 0"
  by (induction n) (simp_all add: digitsVal_def digitVal_def)

lemma natString_nonempty [simp]: "natString n \<noteq> []"
  by (simp add: natString.simps [of n])

lemma natString_digits:
  "0 \<le> n \<Longrightarrow> natString n \<noteq> [] \<and> list_all isDigit (natString n) \<and> digitsVal (natString n) = n"
proof (induction n rule: natString.induct)
  case (1 n)
  show ?case
  proof (cases "n < 10")
    case True
    with 1(2) show ?thesis by (simp add: natString.simps [of n])
  next
    case False
    with 1 have "list_all isDigit (natString (n div 10))" "digitsVal (natString (n div 10)) = n div 10"
      by auto
    with False show ?thesis by (simp add: natString.simps [of n] digitsVal_append)
  qed
qed

lemma natString_takeWhile [simp]: "0 \<le> n \<Longrightarrow> takeWhile isDigit (natString n) = natString n"
  using natString_digits [of n] by (simp add: list_all_iff)

lemma natString_isDigit: "\<lbrakk>c \<in> set (natString n); 0 \<le> n\<rbrakk> \<Longrightarrow> isDigit c"
  using natString_digits [of n] by (simp add: list_all_iff)

lemma natString_length:
  "1 \<le> n \<Longrightarrow> 10 ^ (length (natString n) - 1) \<le> n \<and> n < 10 ^ length (natString n)"
proof (induction n rule: natString.induct)
  case (1 n)
  show ?case
  proof (cases "n < 10")
    case True
    with 1(2) show ?thesis by (simp add: natString.simps [of n])
  next
    case False
    let ?L = "length (natString (n div 10))"
    from False 1 have IH: "10 ^ (?L - 1) \<le> n div 10" "n div 10 < 10 ^ ?L" by auto
    have "0 < ?L" using natString_digits [of "n div 10"] False by simp
    then have "(10::int) ^ ?L = 10 * 10 ^ (?L - 1)" by (cases ?L) auto
    with IH(1) have "10 ^ ?L \<le> n" by linarith
    moreover have "n < 10 ^ Suc ?L" using IH(2) by simp
    ultimately have "10 ^ ?L \<le> n" "n < 10 ^ Suc ?L" by simp_all
    then show ?thesis using False by (simp add: natString.simps [of n])
  qed
qed

lemma natString_length_unique:
  assumes "10 ^ k \<le> n" "n < 10 ^ Suc k"
  shows "length (natString n) = Suc k"
proof -
  have "1 \<le> n" using assms(1) one_le_power [of "10::int" k] by linarith
  note b = natString_length [OF this]
  have "(10::int) ^ k < 10 ^ length (natString n)" "(10::int) ^ (length (natString n) - 1) < 10 ^ Suc k"
    using b assms by linarith+
  then have "k < length (natString n)" "length (natString n) - 1 < Suc k"
    using power_strict_increasing_iff [of "10::int"] by (simp_all del: power_Suc)
  then show ?thesis by linarith
qed

lemma decimalPoint_bounds:
  assumes "0 < a"
  shows "10 powi (decimalPoint a - 1) \<le> a" "a < 10 powi decimalPoint a"
proof -
  have "10 powi (decimalPoint a - 1) \<le> a \<and> a < 10 powi decimalPoint a"
  proof (cases "1 \<le> a")
    case True
    let ?L = "length (natString \<lfloor>a\<rfloor>)"
    have f: "1 \<le> \<lfloor>a\<rfloor>" using True by linarith
    have L: "0 < ?L" using natString_digits [of "\<lfloor>a\<rfloor>"] f by simp
    have "10 ^ (?L - 1) \<le> \<lfloor>a\<rfloor>" "\<lfloor>a\<rfloor> < 10 ^ ?L" using natString_length [OF f] by simp_all
    then have "of_int (10 ^ (?L - 1)) \<le> a" "a < of_int (10 ^ ?L)"
      by (simp_all only: le_floor_iff floor_less_iff)
    then have "10 ^ (?L - 1) \<le> a" "a < 10 ^ ?L" by simp_all
    moreover have "(10::rat) powi (int ?L - 1) = 10 ^ (?L - 1)"
      using L by (rule powi10_pred)
    ultimately show ?thesis using True by (simp add: decimalPoint_def)
  next
    case False
    let ?q = "\<lceil>1 / a\<rceil> - 1" and ?L = "length (natString (\<lceil>1 / a\<rceil> - 1))"
    have "1 < 1 / a" using assms False by simp
    then have q: "1 \<le> ?q" by linarith
    have L: "0 < ?L" by simp
    have "10 ^ (?L - 1) < \<lceil>1 / a\<rceil>" "\<lceil>1 / a\<rceil> \<le> 10 ^ ?L" using natString_length [OF q] by linarith+
    then have "of_int (10 ^ (?L - 1)) < 1 / a" "1 / a \<le> of_int (10 ^ ?L)"
      by (simp_all only: less_ceiling_iff ceiling_le_iff)
    then have "10 ^ (?L - 1) < 1 / a" "1 / a \<le> 10 ^ ?L" by simp_all
    then have "a < 1 / 10 ^ (?L - 1)" "1 / 10 ^ ?L \<le> a" using assms by (simp_all add: field_simps)
    moreover have "(10::rat) powi (1 - int ?L) = 1 / 10 ^ (?L - 1)" "(10::rat) powi (- int ?L) = 1 / 10 ^ ?L"
      using powi10_diff [of 0 "int ?L - 1"] powi10_diff [of 0 "int ?L"] powi10_pred [OF L] by simp_all
    ultimately show ?thesis using False by (simp add: decimalPoint_def)
  qed
  then show "10 powi (decimalPoint a - 1) \<le> a" "a < 10 powi decimalPoint a" by simp_all
qed

lemma natString_pow10: "natString (10 ^ k) = CHR ''1'' # replicate k CHR ''0''"
proof (induction k)
  case 0
  show ?case by (simp add: natString.simps) code_simp
next
  case (Suc k)
  have "char_of (48::nat) = CHR ''0''" by code_simp
  moreover have "\<not> (10::int) ^ Suc k < 10" using one_le_power [of "10::int" k] unfolding power_Suc by linarith
  moreover have "(10::int) ^ Suc k div 10 = 10 ^ k" "(10::int) ^ Suc k mod 10 = 0" by simp_all
  ultimately show ?case
    using Suc by (subst natString.simps) (simp add: replicate_append_same)
qed

section \<open>Seventeen digits are enough\<close>

lemma scaled_bounds:
  assumes "0 < a"
  shows "10 powi (k - 1) \<le> a * 10 powi (k - decimalPoint a)" "a * 10 powi (k - decimalPoint a) < 10 powi k"
proof -
  let ?S = "(10::rat) powi (k - decimalPoint a)"
  have "10 powi (decimalPoint a - 1) * ?S \<le> a * ?S" "a * ?S < 10 powi decimalPoint a * ?S"
    using decimalPoint_bounds [OF assms] by simp_all
  moreover have "10 powi (decimalPoint a - 1) * ?S = 10 powi (k - 1)" "10 powi decimalPoint a * ?S = 10 powi k"
    by (simp_all add: powi10_add [symmetric] algebra_simps)
  ultimately show "10 powi (k - 1) \<le> a * ?S" "a * ?S < 10 powi k" by simp_all
qed

lemma seventeen:
  assumes "isDouble (Fin a)" "0 < a"
  shows "digitCandidates a 17 \<noteq> []"
proof -
  let ?S = "(10::rat) powi (17 - decimalPoint a)"
  have y: "10000000000000000 \<le> a * ?S" using scaled_bounds(1) [OF assms(2), of 17] by simp
  have "\<exists>s \<in> {\<lfloor>a * ?S\<rfloor>, \<lfloor>a * ?S\<rfloor> + 1}. \<bar>of_int s - a * ?S\<bar> \<le> 1 / 2"
    using rhe_close [of "a * ?S"] rhe_floor_or [of "a * ?S"] by auto
  then obtain s where s: "s \<in> {\<lfloor>a * ?S\<rfloor>, \<lfloor>a * ?S\<rfloor> + 1}" "\<bar>of_int s - a * ?S\<bar> \<le> 1 / 2" by blast
  have "(0::rat) < of_int s" using s(2) y by linarith
  then have pos: "0 < s" by simp
  have "of_int s / ?S - a = (of_int s - a * ?S) / ?S" by (simp add: diff_divide_distrib)
  then have "\<bar>of_int s / ?S - a\<bar> = \<bar>of_int s - a * ?S\<bar> / ?S" by (simp add: abs_divide)
  then have "\<bar>of_int s / ?S - a\<bar> * 2 ^ 54 \<le> 2 ^ 53 / ?S"
    using s(2) powi10_pos [of "17 - decimalPoint a"] by (simp add: field_simps)
  also have "\<dots> < a" using y powi10_pos [of "17 - decimalPoint a"] by (simp add: field_simps)
  finally have "toDouble (of_int s / ?S) = Fin a"
    using pos by (intro toDouble_near [OF assms]) simp_all
  with s(1) pos show ?thesis by (auto simp: digitCandidates_def Let_def)
qed

lemma nearer_mem: "nearer x (c # cs) \<in> set (c # cs)"
  by (auto simp: nearer_def Let_def split: list.splits)

lemma shortestFrom_candidate:
  assumes "isDouble (Fin a)" "0 < a"
  shows "\<lbrakk>fuel + k = 18; 1 \<le> k; k \<le> 17; shortestFrom a fuel k = (s, j)\<rbrakk> \<Longrightarrow>
    \<exists>i. j = int i \<and> 1 \<le> i \<and> s \<in> set (digitCandidates a j)"
proof (induction fuel arbitrary: k)
  case (Suc fuel)
  show ?case
  proof (cases "digitCandidates a (int k)")
    case Nil
    with seventeen [OF assms] have "k \<noteq> 17" by auto
    with Suc.prems Nil show ?thesis using Suc.IH [of "Suc k"] by simp
  next
    case (Cons c cs)
    with Suc.prems nearer_mem [of _ c cs] show ?thesis by auto
  qed
qed simp

lemma candidate_bounds:
  assumes "0 < a" "s \<in> set (digitCandidates a (int (Suc i)))"
  shows "10 ^ i \<le> s \<and> s \<le> 10 ^ Suc i \<and> toDouble (of_int s / 10 powi (int (Suc i) - decimalPoint a)) = Fin a"
proof -
  let ?y = "a * 10 powi (int (Suc i) - decimalPoint a)"
  have s: "s = \<lfloor>?y\<rfloor> \<or> s = \<lfloor>?y\<rfloor> + 1" "toDouble (of_int s / 10 powi (int (Suc i) - decimalPoint a)) = Fin a"
    using assms(2) by (auto simp: digitCandidates_def Let_def split: if_splits)
  have "(10::rat) powi (int (Suc i) - 1) = of_int (10 ^ i)" "(10::rat) powi int (Suc i) = of_int (10 ^ Suc i)"
    by (simp_all add: powi10_add)
  with scaled_bounds [OF assms(1), of "int (Suc i)"] have "of_int (10 ^ i) \<le> ?y" "?y < of_int (10 ^ Suc i)"
    by simp_all
  then have "10 ^ i \<le> \<lfloor>?y\<rfloor>" "\<lfloor>?y\<rfloor> < 10 ^ Suc i" by (simp_all only: le_floor_iff floor_less_iff)
  with s show ?thesis by auto
qed

text \<open>The printed digits denote a decimal that rounds to the number.\<close>

lemma shortestDigits_reads:
  assumes "isDouble (Fin a)" "0 < a" "shortestDigits a = (ds, n)"
  shows "ds \<noteq> [] \<and> list_all isDigit ds \<and>
    toDouble (of_int (digitsVal ds) * 10 powi (n - int (length ds))) = Fin a"
proof -
  obtain s j where sj: "shortestFrom a 17 1 = (s, j)" by fastforce
  then obtain i' where i': "j = int i'" "1 \<le> i'" "s \<in> set (digitCandidates a j)"
    using shortestFrom_candidate [OF assms(1,2), of 17 1 s j] by auto
  then obtain i where j: "j = int (Suc i)" "s \<in> set (digitCandidates a (int (Suc i)))"
    by (cases i') simp_all
  note c = candidate_bounds [OF assms(2) j(2)]
  have pos: "1 \<le> s" using c one_le_power [of "10::int" i] by linarith
  note d = natString_digits [of s]
  show ?thesis
  proof (cases "s < 10 ^ Suc i")
    case True
    then have "length (natString s) = Suc i" using c by (intro natString_length_unique) simp_all
    then have "ds = natString s" "n = decimalPoint a"
      using assms(3) sj j(1) by (simp_all add: shortestDigits_def)
    moreover have "(10::rat) powi (decimalPoint a - int (Suc i)) = 1 / 10 powi (int (Suc i) - decimalPoint a)"
      using powi10_diff [of 0 "int (Suc i) - decimalPoint a"] by simp
    ultimately show ?thesis using d c pos \<open>length (natString s) = Suc i\<close> by simp
  next
    case False
    then have s: "s = 10 ^ Suc i" using c by simp
    have "length (natString s) = Suc (Suc i)" "take 1 (natString s) = ''1''"
      unfolding s by (simp_all only: natString_pow10) simp_all
    then have "ds = ''1''" "n = decimalPoint a + 1"
      using assms(3) sj j(1) by (simp_all add: shortestDigits_def)
    moreover have "of_int s / 10 powi (int (Suc i) - decimalPoint a) = (10::rat) powi decimalPoint a"
      unfolding s by (simp add: powi10_diff powi10_add)
    ultimately show ?thesis using c by (simp add: digitVal_def isDigit_def)
  qed
qed

section \<open>Reading the four notations\<close>

text \<open>Digits, an optional fraction and an optional exponent.\<close>

definition decimalText :: "string \<Rightarrow> string \<Rightarrow> int option \<Rightarrow> string" where
  "decimalText xs fs e =
     xs @ (if fs = [] then [] else CHR ''.'' # fs) @
     (case e of None \<Rightarrow> [] | Some k \<Rightarrow> exponentSuffix k)"

lemma not_digits [simp]:
  "\<not> isDigit CHR ''.''" "\<not> isDigit CHR ''e''" "\<not> isDigit CHR ''-''" "\<not> isDigit CHR ''+''"
  by (simp_all add: isDigit_def)

lemma takeWhile_digits:
  "\<lbrakk>list_all isDigit xs; rest = [] \<or> \<not> isDigit (hd rest)\<rbrakk> \<Longrightarrow>
   takeWhile isDigit (xs @ rest) = xs \<and> dropWhile isDigit (xs @ rest) = rest"
  by (induction xs) (cases rest; auto)+

lemma scanExponent_suffix:
  "scanExponent (exponentSuffix k) = exponentSuffix k" "exponentVal (exponentSuffix k) = k"
  using natString_digits [of "\<bar>k\<bar>"]
  by (auto simp: scanExponent_def exponentSuffix_def exponentVal_def Let_def)

lemma scanExponent_Nil [simp]: "scanExponent [] = []" "exponentVal [] = 0"
  by (simp_all add: scanExponent_def exponentVal_def)

lemma exponentSuffix_Cons: "\<exists>t. exponentSuffix k = CHR ''e'' # t"
  by (simp add: exponentSuffix_def)

lemma decimalText_reads:
  assumes "xs \<noteq> []" "list_all isDigit xs" "list_all isDigit fs"
  shows "scanNumber (decimalText xs fs e) = decimalText xs fs e"
    and "decimalVal (decimalText xs fs e) =
      of_int (digitsVal (xs @ fs)) * 10 powi ((case e of None \<Rightarrow> 0 | Some k \<Rightarrow> k) - int (length fs))"
proof -
  define ex where "ex = (case e of None \<Rightarrow> [] | Some k \<Rightarrow> exponentSuffix k)"
  have ex: "ex = [] \<or> (\<exists>t. ex = CHR ''e'' # t)" "scanExponent ex = ex"
    "exponentVal ex = (case e of None \<Rightarrow> 0 | Some k \<Rightarrow> k)"
    unfolding ex_def using exponentSuffix_Cons
    by (auto simp: scanExponent_suffix split: option.splits)
  have head: "ex = [] \<or> \<not> isDigit (hd ex)" using ex(1) by auto
  note whole = takeWhile_digits [OF assms(2), of "(if fs = [] then [] else CHR ''.'' # fs) @ ex"]
  note fraction = takeWhile_digits [OF assms(3) head]
  have tw: "takeWhile isDigit (decimalText xs fs e) = xs"
      "dropWhile isDigit (decimalText xs fs e) = (if fs = [] then [] else CHR ''.'' # fs) @ ex"
    using whole head by (simp_all add: decimalText_def ex_def [symmetric])
  have "scanMantissa (decimalText xs fs e) = xs @ (if fs = [] then [] else CHR ''.'' # fs)"
    using tw fraction assms(1) ex(1) by (auto simp: scanMantissa_def Let_def)
  then show "scanNumber (decimalText xs fs e) = decimalText xs fs e"
    using assms(1) ex(2) by (simp add: scanNumber_def Let_def decimalText_def ex_def [symmetric])
  show "decimalVal (decimalText xs fs e) =
      of_int (digitsVal (xs @ fs)) * 10 powi ((case e of None \<Rightarrow> 0 | Some k \<Rightarrow> k) - int (length fs))"
    using tw fraction ex(1) by (auto simp: decimalVal_def Let_def ex(3) [symmetric])
qed

lemma decimalText_chars:
  assumes "xs \<noteq> []" "list_all isDigit xs" "list_all isDigit fs" "c \<in> set (decimalText xs fs e)"
  shows "isDigit c \<or> c \<in> set ''.e+-''"
  using assms natString_isDigit [of c "\<bar>the e\<bar>"]
  by (auto simp: decimalText_def exponentSuffix_def list_all_iff split: option.splits if_splits)

lemma trim_nonspace: "\<forall>c\<in>set s. \<not> isSpace c \<Longrightarrow> trim s = s"
  using dropWhile_eq_self_iff [of isSpace s] dropWhile_eq_self_iff [of isSpace "rev s"]
  by (cases "s = []") (simp_all add: trim_def trimStart_def trimEnd_def hd_rev)

lemma decimalText_trim:
  assumes "xs \<noteq> []" "list_all isDigit xs" "list_all isDigit fs"
  shows "trim (decimalText xs fs e) = decimalText xs fs e"
proof -
  have "\<not> isSpace c" if "c \<in> set (decimalText xs fs e)" for c
    using decimalText_chars [OF assms that] by (auto simp: isSpace_def isDigit_def)
  then show ?thesis by (intro trim_nonspace) blast
qed

lemma decimalText_number:
  assumes "xs \<noteq> []" "list_all isDigit xs" "list_all isDigit fs"
  shows "stringToNumber (decimalText xs fs e) = numberOf (decimalText xs fs e)"
proof -
  let ?s = "decimalText xs fs e"
  obtain c t where c: "?s = c # t" "isDigit c"
    using assms(1,2) by (cases xs) (auto simp: decimalText_def)
  have low: "toLowerChar d \<notin> set ''xob''" if "d \<in> set ?s" for d
    using decimalText_chars [OF assms that] by (auto simp: toLowerChar_def isUpper_def isDigit_def)
  have "toLowerCase (take 2 ?s) \<notin> set [''0x'', ''0o'', ''0b'']"
    using low c(1) by (cases t) (auto simp: toLowerCase_def)
  moreover have "c \<noteq> CHR ''-''" "c \<noteq> CHR ''+''" "c \<noteq> CHR ''I''" using c(2) by (auto simp: isDigit_def)
  ultimately show ?thesis
    using c(1) decimalText_reads(1) [OF assms, of e] decimalText_trim [OF assms, of e]
    by (auto simp: stringToNumber_def Let_def unsignedNumber_def)
qed

text \<open>Each notation of \<open>Number::toString\<close> is such a text, with the same value.\<close>

lemma positiveString_decimal:
  assumes "shortestDigits a = (ds, n)" "ds \<noteq> []" "list_all isDigit ds"
  shows "\<exists>xs fs e. positiveString a = decimalText xs fs e \<and> xs \<noteq> [] \<and> list_all isDigit xs \<and>
    list_all isDigit fs \<and>
    (of_int (digitsVal (xs @ fs)) * 10 powi ((case e of None \<Rightarrow> 0 | Some k \<Rightarrow> k) - int (length fs)) :: rat) =
    of_int (digitsVal ds) * 10 powi (n - int (length ds))"
proof -
  let ?k = "int (length ds)"
  have z: "list_all isDigit (replicate m CHR ''0'')" for m by (simp add: list_all_iff isDigit_def)
  consider (int) "?k \<le> n" "n \<le> 21" | (mixed) "n < ?k" "0 < n" "n \<le> 21"
    | (small) "n < ?k" "- 6 < n" "n \<le> 0" | (exp) "\<not> (- 6 < n \<and> n \<le> 21)"
    by linarith
  then show ?thesis
  proof cases
    case int
    then have "positiveString a = decimalText (ds @ replicate (nat (n - ?k)) CHR ''0'') [] None"
      using assms(1) by (simp add: positiveString_def decimalText_def)
    moreover have "(10::rat) powi (n - ?k) = of_int (10 ^ nat (n - ?k))"
      using int by (simp add: power_int_def)
    ultimately show ?thesis
      using assms int z by (intro exI [of _ "ds @ replicate (nat (n - ?k)) CHR ''0''"] exI [of _ "[]"] exI [of _ None])
        (simp add: digitsVal_append)
  next
    case mixed
    then have "positiveString a = decimalText (take (nat n) ds) (drop (nat n) ds) None"
      using assms(1) by (simp add: positiveString_def decimalText_def)
    with mixed assms(2,3) show ?thesis
      by (intro exI [of _ "take (nat n) ds"] exI [of _ "drop (nat n) ds"] exI [of _ None])
         (auto simp: list_all_iff dest: in_set_takeD in_set_dropD)
  next
    case small
    then have "positiveString a = decimalText ''0'' (replicate (nat (- n)) CHR ''0'' @ ds) None"
      using assms(1,2) by (simp add: positiveString_def decimalText_def)
    moreover have "digitsVal (''0'' @ replicate (nat (- n)) CHR ''0'' @ ds) = digitsVal ds"
      using digitsVal_append [of "replicate (Suc (nat (- n))) CHR ''0''" ds]
        digitsVal_zeros [of "Suc (nat (- n))"] by simp
    ultimately show ?thesis
      using assms small z
      by (intro exI [of _ "''0''"] exI [of _ "replicate (nat (- n)) CHR ''0'' @ ds"] exI [of _ None])
         (simp add: isDigit_def)
  next
    case exp
    obtain d r where ds: "ds = d # r" using assms(2) by (cases ds) auto
    have "positiveString a = decimalText [d] r (Some (n - 1))"
      using assms(1) exp ds by (cases r) (auto simp: positiveString_def decimalText_def withPoint_def)
    with ds assms(3) show ?thesis
      by - (rule exI [of _ "[d]"], rule exI [of _ r], rule exI [of _ "Some (n - 1)"], simp add: diff_diff_add)
  qed
qed

text \<open>\<open>Number(String(x)) === x\<close>, and the text is one the number pattern matches completely.\<close>

lemma numString_reads:
  assumes "isDouble x" "isFinite x" "nonNeg x"
  shows "numString x \<noteq> [] \<and> trim (numString x) = numString x \<and>
    scanNumber (numString x) = numString x \<and> js_eq (stringToNumber (numString x)) x"
proof (cases "valOf x = 0")
  case True
  then have "numString x = ''0''" "x = Fin 0 \<or> x = NegZero" using assms by (cases x; simp)+
  moreover have "trim ''0'' = ''0''" "scanNumber ''0'' = ''0''" "stringToNumber ''0'' = Fin 0"
    by code_simp+
  ultimately show ?thesis by (auto simp: js_eq_def)
next
  case False
  then obtain a where a: "x = Fin a" "0 < a" using assms(2,3) by (cases x) auto
  obtain ds n where sd: "shortestDigits a = (ds, n)" by fastforce
  note d = shortestDigits_reads [OF _ a(2) sd, OF assms(1) [unfolded a(1)]]
  obtain xs fs e where t: "positiveString a = decimalText xs fs e" "xs \<noteq> []" "list_all isDigit xs"
      "list_all isDigit fs" and
    v: "(of_int (digitsVal (xs @ fs)) * 10 powi ((case e of None \<Rightarrow> 0 | Some k \<Rightarrow> k) - int (length fs)) :: rat) =
      of_int (digitsVal ds) * 10 powi (n - int (length ds))"
    using positiveString_decimal [OF sd] d by blast
  have "stringToNumber (decimalText xs fs e) = Fin a"
    using d decimalText_number [OF t(2-4), of e] decimalText_reads(2) [OF t(2-4), of e] v
    by (simp add: numberOf_def)
  moreover have "decimalText xs fs e \<noteq> []" using t(2) by (simp add: decimalText_def)
  moreover have "numString x = decimalText xs fs e" using a t(1) by simp
  ultimately show ?thesis
    using decimalText_reads(1) [OF t(2-4), of e] decimalText_trim [OF t(2-4), of e] a(1)
    by (simp add: js_eq_def)
qed

end
