(* ===== verification/BxVisualFacts.thy ===== *)
theory BxVisualFacts
  imports BxVisual JsDecimal
begin

text \<open>
  What the visual editor guarantees: an expression it opens is written back unchanged,
  character for character, reading and writing never throw, and whatever document it saves
  is an expression that compiles.
\<close>

section \<open>Patches\<close>

lemma slice_slice:
  "\<lbrakk>s \<le> i; i \<le> j; j \<le> e\<rbrakk> \<Longrightarrow> slice (slice xs s e) (i - s) (j - s) = slice xs i j"
  by (simp add: slice_def drop_take min_def)

lemma slice_split: "\<lbrakk>i \<le> j\<rbrakk> \<Longrightarrow> take i xs @ slice xs i j @ drop j xs = xs"
  by (metis append_take_drop_id drop_drop le_add_diff_inverse2 slice_def)

lemma length_sourceOf: "nend n \<le> length src \<Longrightarrow> length (sourceOf src n) = nend n - nstart n"
  by (simp add: sourceOf_def)

text \<open>A node that lies inside another one, in a source that holds both.\<close>

definition inside :: "string \<Rightarrow> node \<Rightarrow> node \<Rightarrow> bool" where
  "inside src origin n \<longleftrightarrow>
     nstart origin \<le> nstart n \<and> nstart n \<le> nend n \<and> nend n \<le> nend origin \<and> nend origin \<le> length src"

lemma applyPatch_inside:
  assumes "nstart origin \<le> nstart n" "nstart n \<le> nend n" "nend n - nstart origin \<le> length result"
  shows "applyPatch origin result (n, t) =
    take (nstart n - nstart origin) result @ t @ drop (nend n - nstart origin) result"
proof -
  have "nat (int (nend n) - int (nstart origin)) = nend n - nstart origin"
    "nat (int (nstart n) - int (nstart origin)) = nstart n - nstart origin"
    by simp_all
  moreover have "nstart n - nstart origin \<le> length result"
    using assms(2,3) diff_le_mono [of "nstart n" "nend n" "nstart origin"] by linarith
  ultimately show ?thesis
    using assms by (simp add: applyPatch_def jsSlice_def sliceIndex_def slice_def min_def)
qed

text \<open>Patching a part with its own text changes nothing, in whatever order.\<close>

lemma applyPatch_same:
  assumes "inside src origin n"
  shows "applyPatch origin (sourceOf src origin) (n, sourceOf src n) = sourceOf src origin"
proof -
  have *: "nstart origin \<le> nstart n" "nstart n \<le> nend n" "nend n \<le> nend origin" "nend origin \<le> length src"
    using assms by (simp_all add: inside_def)
  have "sourceOf src n = slice (sourceOf src origin) (nstart n - nstart origin) (nend n - nstart origin)"
    using * slice_slice [of "nstart origin" "nstart n" "nend n" "nend origin" src] by (simp add: sourceOf_def)
  with * show ?thesis by (simp add: applyPatch_inside slice_split length_sourceOf diff_le_mono)
qed

lemma patchSource_same:
  assumes "\<forall>p\<in>set patches. inside src origin (fst p) \<and> snd p = sourceOf src (fst p)"
  shows "patchSource src origin patches = sourceOf src origin"
proof -
  have "\<forall>p\<in>set ps. inside src origin (fst p) \<and> snd p = sourceOf src (fst p) \<Longrightarrow>
      foldl (applyPatch origin) (sourceOf src origin) ps = sourceOf src origin" for ps
  proof (induction ps)
    case (Cons p ps)
    then show ?case using applyPatch_same [of src origin "fst p"] by (cases p) simp
  qed simp
  then show ?thesis unfolding patchSource_def using assms by (simp del: foldl_Cons)
qed

lemma flattenBinary_subnode: "m \<in> set (flattenBinary op n) \<Longrightarrow> m \<in> set (postorder n)"
  by (induction op n rule: flattenBinary.induct) (auto split: if_splits)

lemma inside_subnode:
  "\<lbrakk>astOk n; nend n \<le> length src; m \<in> set (postorder n)\<rbrakk> \<Longrightarrow> inside src n m"
  using subnode_span [of n m] by (auto simp: inside_def)

lemma inside_child:
  assumes "astOk n" "nend n \<le> length src" "c \<in> set (children n)"
  shows "inside src n c"
proof -
  have "c \<in> set (postorder n)" using assms(3) self_postorder [of c]
    by (subst postorder_children) auto
  then show ?thesis using assms(1,2) by (intro inside_subnode)
qed

lemma astOk_subnode: "\<lbrakk>astOk n; m \<in> set (postorder n)\<rbrakk> \<Longrightarrow> astOk m"
proof (induction n rule: node_children_induct)
  case (node n)
  then show ?case by (auto simp: postorder_children [of n] intro: astOk_child)
qed

lemma subnode_postorder: "m \<in> set (postorder n) \<Longrightarrow> set (postorder m) \<subseteq> set (postorder n)"
proof (induction n rule: node_children_induct)
  case (node n)
  then show ?case by (fastforce simp: postorder_children [of n])
qed

lemma subnode_end: "\<lbrakk>astOk n; nend n \<le> length src; m \<in> set (postorder n)\<rbrakk> \<Longrightarrow> nend m \<le> length src"
  using subnode_span [of n m] by auto

section \<open>Numbers\<close>

lemma parse_numString:
  assumes "isDouble x" "isFinite x" "nonNeg x"
  shows "\<exists>y. parseNonNegativeNumber (numString x) = Some y \<and> js_eq y x"
proof -
  note n = numString_reads [OF assms]
  have "isFinite (stringToNumber (numString x)) \<and> js_le (Fin 0) (stringToNumber (numString x))"
    using n assms(2,3) by (cases x; cases "stringToNumber (numString x)") (auto simp: js_eq_def js_le_def nonNeg_iff)
  with n show ?thesis by (simp add: parseNonNegativeNumber_def Let_def)
qed

lemma literal_reads:
  "astOk (Literal sp (LNum v i)) \<Longrightarrow> litEquals (parseNonNegativeNumber (numString v)) (LNum v i)"
  using parse_numString [of v] by auto

section \<open>Conditions\<close>

text \<open>A writer that returns \<open>x\<close> without throwing, whatever is in \<open>issues\<close>.\<close>

definition yields :: "'a writer \<Rightarrow> 'a \<Rightarrow> bool" where
  "yields w x \<longleftrightarrow> (\<forall>issues. \<exists>issues'. w issues = Inr (x, issues'))"

lemma yieldsD: "yields w x \<Longrightarrow> \<exists>issues'. w issues = Inr (x, issues')"
  by (simp add: yields_def)

lemma yields_cbind: "\<lbrakk>yields w x; yields (f x) y\<rbrakk> \<Longrightarrow> yields (cbind w f) y"
  unfolding yields_def cbind_apply by (metis (no_types, lifting) case_prod_conv old.sum.simps(6))

lemma yields_simps [simp]:
  "yields (return x) y \<longleftrightarrow> x = y" "yields (\<lambda>s. Inr (x, s)) y \<longleftrightarrow> x = y"
  "yields (lift r) y \<longleftrightarrow> r = Inr y" "yields (issueUnless b i m) ()"
  by (auto simp: yields_def issueUnless_def pushIssue_def)

text \<open>A part that was read from \<open>n\<close> and is written back as the text of \<open>n\<close>.\<close>

definition conditionFaithful :: "intl \<Rightarrow> string \<Rightarrow> node \<Rightarrow> visualCondition \<Rightarrow> bool" where
  "conditionFaithful env src n c \<longleftrightarrow>
     conditionOrigin c = Some n \<and> yields (writeVisualCondition env src c) (sourceOf src n)"

lemma mapBx_reads:
  assumes "\<And>m. m \<in> set ms \<Longrightarrow> \<exists>c. f m = Inr c \<and> (\<forall>v. c = Some v \<longrightarrow> R m v)"
  shows "\<exists>cs. mapBx f ms = Inr cs \<and> (\<forall>vs. those cs = Some vs \<longrightarrow> list_all2 R ms vs)"
  using assms
proof (induction ms)
  case (Cons m ms)
  then obtain c cs where "f m = Inr c" "\<And>v. c = Some v \<Longrightarrow> R m v" "mapBx f ms = Inr cs"
    "\<And>vs. those cs = Some vs \<Longrightarrow> list_all2 R ms vs" by (metis list.set_intros)
  then show ?case by (intro exI [of _ "c # cs"]) (auto split: option.splits)
qed simp

lemma writeVisualConditions_back:
  "list_all2 (conditionFaithful env src) ns cs \<Longrightarrow>
   map conditionOrigin cs = map Some ns \<and> yields (writeVisualConditions env src cs) (map (sourceOf src) ns)"
  by (induction rule: list_all2_induct) (auto simp: conditionFaithful_def intro!: yields_cbind)

lemma comparison_back:
  assumes "astOk n" "nend n \<le> length src" "n = Binary sp op l r"
    and "readComparison n op l r = Inr (Some v)"
  shows "conditionFaithful env src n v"
proof -
  obtain rsp x i pr tz where r: "r = Literal rsp (LNum x i)" and probe: "readProbe l = Inr (Some (pr, tz))"
    and v: "v = Comparison \<lparr>vid = vid (nodeIdentity ''condition'' n), vorigin = Some n, vprobe = pr,
      vtimezone = tz, voperator = op, vvalue = numString x\<rparr>" (is "v = Comparison ?c")
    using assms(4) by (auto simp: readComparison_def rbind_eq_Inr_iff split: node.splits lit.splits if_splits)
  have val: "patchedValue src ?c r = sourceOf src r"
    using assms(1,3) r literal_reads [of rsp x i] by (simp add: patchedValue_def)
  have pr: "patchedProbe src ?c l = Inr (sourceOf src l)"
    and zone: "pr \<in> set TIME_FUNCTIONS \<Longrightarrow> originalZone (Some n) = Inr (Some (LStr tz))"
    using probe assms(3)
    by (auto simp: readProbe_def patchedProbe_def originalZone_def firstLiteral_def TIME_FUNCTIONS_def
        split: node.splits list.splits lit.splits if_splits)
  have "inside src n l" "inside src n r" using inside_child [OF assms(1,2)] assms(3) by simp_all
  then have "comparisonText src ?c = Inr (sourceOf src n)"
    using pr val assms(3) by (simp add: comparisonText_def patchSource_same)
  moreover have "yields (checkZone env ?c) ()"
    using zone by (auto simp: checkZone_def intro!: yields_cbind)
  ultimately show ?thesis
    using v by (auto simp: conditionFaithful_def writeComparison_def intro!: yields_cbind)
qed

lemma readProbe_Inr: "astOk l \<Longrightarrow> \<exists>p. readProbe l = Inr p"
  by (auto simp: readProbe_def BILLING_FUNCTIONS_def TIME_FUNCTIONS_def
      split: node.splits list.splits lit.splits if_splits)

lemma readComparison_Inr: "astOk l \<Longrightarrow> \<exists>c. readComparison n op l r = Inr c"
  using readProbe_Inr [of l] by (auto simp: readComparison_def split: node.splits lit.splits)

lemma readVisualCondition_group:
  "op \<in> set [''&&'', ''||''] \<Longrightarrow> readVisualCondition (Binary sp op l r) =
     rbind (mapBx readVisualCondition (flattenBinary op (Binary sp op l r))) (\<lambda>cs.
       Inr (map_option (Group (nodeIdentity ''condition'' (Binary sp op l r))
              (if op = ''&&'' then AllOf else AnyOf)) (those cs)))"
  by (subst readVisualCondition.simps) simp

lemma condition_back:
  "\<lbrakk>astOk n; nend n \<le> length src\<rbrakk> \<Longrightarrow>
   \<exists>c. readVisualCondition n = Inr c \<and> (\<forall>v. c = Some v \<longrightarrow> conditionFaithful env src n v)"
proof (induction n rule: readVisualCondition.induct)
  case (1 n)
  show ?case
  proof (cases n)
    case (Unary sp op a)
    show ?thesis
    proof (cases "op = ''!''")
      case True
      have a: "inside src n a" "astOk a" "nend a \<le> length src"
        using inside_child [OF "1.prems"] "1.prems" Unary by (auto simp: inside_def)
      obtain c where c: "readVisualCondition a = Inr c" "\<And>v. c = Some v \<Longrightarrow> conditionFaithful env src a v"
        using "1.IH"(1) [OF Unary True a(2,3)] by blast
      have "conditionFaithful env src n (Negation (nodeIdentity ''condition'' n) v)" if "c = Some v" for v
        using c(2) [OF that] a(1) Unary
        by (auto simp: conditionFaithful_def nodeIdentity_def negationText_def Let_def patchSource_same
            intro!: yields_cbind)
      moreover have "readVisualCondition n = Inr (map_option (Negation (nodeIdentity ''condition'' n)) c)"
        using c(1) True unfolding Unary by (simp add: readVisualCondition.simps [of "Unary sp ''!'' a"])
      ultimately show ?thesis by auto
    qed (simp add: Unary readVisualCondition.simps [of "Unary sp op a"])
  next
    case (Binary sp op l r)
    show ?thesis
    proof (cases "op \<in> set [''&&'', ''||'']")
      case True
      let ?ms = "flattenBinary op n" and ?k = "if op = ''&&'' then AllOf else AnyOf"
      have ms: "inside src n m" "astOk m" "nend m \<le> length src" if "m \<in> set ?ms" for m
        using flattenBinary_subnode [OF that] "1.prems" inside_subnode astOk_subnode subnode_end by blast+
      obtain cs where cs: "mapBx readVisualCondition ?ms = Inr cs"
          "\<And>vs. those cs = Some vs \<Longrightarrow> list_all2 (conditionFaithful env src) ?ms vs"
        using mapBx_reads [of ?ms readVisualCondition "conditionFaithful env src"]
          "1.IH"(2) [OF Binary True] ms(2,3) by blast
      have "conditionFaithful env src n (Group (nodeIdentity ''condition'' n) ?k vs)" if "those cs = Some vs" for vs
      proof -
        have "patchSource src n (zip ?ms (map (sourceOf src) ?ms)) = sourceOf src n"
          using ms(1) by (intro patchSource_same) (auto simp: set_zip)
        then have "groupText src (nodeIdentity ''condition'' n) ?k vs (map (sourceOf src) ?ms) = sourceOf src n"
          using writeVisualConditions_back [OF cs(2) [OF that]] Binary True
          by (auto simp: groupText_def groupOperator_def nodeIdentity_def Let_def)
        moreover have "yields (writeVisualConditions env src vs) (map (sourceOf src) ?ms)"
          using writeVisualConditions_back [OF cs(2) [OF that]] by blast
        ultimately show ?thesis
          by (auto simp: conditionFaithful_def nodeIdentity_def intro!: yields_cbind)
      qed
      moreover have "readVisualCondition n = Inr (map_option (Group (nodeIdentity ''condition'' n) ?k) (those cs))"
        using cs(1) readVisualCondition_group [OF True, of sp l r] unfolding Binary by simp
      ultimately show ?thesis by auto
    next
      case False
      obtain c where c: "readComparison n op l r = Inr c"
        using readComparison_Inr [of l n op r] "1.prems" Binary by auto
      moreover have "readVisualCondition n = readComparison n op l r"
        using False unfolding Binary by (simp add: readVisualCondition.simps [of "Binary sp op l r"])
      ultimately show ?thesis
        using comparison_back [OF "1.prems" Binary] by auto
    qed
  qed (simp_all add: readVisualCondition.simps)
qed

section \<open>Tiers and branches\<close>

definition pricingFaithful :: "intl \<Rightarrow> string \<Rightarrow> node \<Rightarrow> visualPricingNode \<Rightarrow> bool" where
  "pricingFaithful env src n v \<longleftrightarrow> yields (writeVisualPricing env src v) (sourceOf src n)"

text \<open>The prices that were read are those of the terms, in order.\<close>

definition readFrom :: "visualPrice \<Rightarrow> node \<Rightarrow> bool" where
  "readFrom p m \<longleftrightarrow> (\<exists>sp x vsp lsp v i. m = Binary sp ''*'' (Variable vsp x) (Literal lsp (LNum v i)) \<and>
     p = \<lparr>pvariable = x, pvalue = numString v, porigin = Some m\<rparr>)"

lemma readPrices_terms:
  "readPrices ms ps = Some qs \<Longrightarrow> \<exists>new. qs = ps @ new \<and> list_all2 readFrom new ms"
proof (induction ms ps rule: readPrices.induct)
  case (2 sp op vsp x lsp v i ms ps)
  then obtain new where "qs = (ps @ [\<lparr>pvariable = x, pvalue = numString v,
      porigin = Some (Binary sp ''*'' (Variable vsp x) (Literal lsp (LNum v i)))\<rparr>]) @ new" "list_all2 readFrom new ms"
    "op = ''*''"
    by (auto split: if_splits)
  moreover have "readFrom \<lparr>pvariable = x, pvalue = numString v,
      porigin = Some (Binary sp ''*'' (Variable vsp x) (Literal lsp (LNum v i)))\<rparr>
      (Binary sp ''*'' (Variable vsp x) (Literal lsp (LNum v i)))"
    by (auto simp: readFrom_def)
  ultimately show ?case by auto
qed auto

lemma readFrom_origins: "list_all2 readFrom ps ms \<Longrightarrow> map porigin ps = map Some ms"
  by (induction rule: list_all2_induct) (auto simp: readFrom_def)

text \<open>The patch of a price that was read is the text of its literal, inside the term.\<close>

lemma priceText_patch:
  assumes "readFrom p m" "astOk m" "snd (priceText src p) = Some (l, t)"
  shows "t = sourceOf src l \<and> l \<in> set (postorder m)"
  using assms literal_reads
  by (fastforce simp: readFrom_def priceText_def Let_def split: if_splits)

lemma valuePatches_back:
  assumes "list_all2 readFrom ps ms" "\<And>m. m \<in> set ms \<Longrightarrow> astOk m \<and> m \<in> set (postorder n)"
    "astOk n" "nend n \<le> length src"
    "patch \<in> set (List.map_filter snd (map (priceText src) ps))"
  shows "inside src n (fst patch) \<and> snd patch = sourceOf src (fst patch)"
proof -
  obtain p where p: "p \<in> set ps" "snd (priceText src p) = Some patch"
    using assms(5) by (auto simp: List.map_filter_def)
  then obtain m where m: "m \<in> set ms" "readFrom p m"
    using assms(1) by (metis in_set_conv_nth list_all2_conv_all_nth)
  have "snd patch = sourceOf src (fst patch) \<and> fst patch \<in> set (postorder m)"
    using priceText_patch [OF m(2), of src "fst patch" "snd patch"] assms(2) [OF m(1)] p(2) by simp
  moreover have "set (postorder m) \<subseteq> set (postorder n)"
    using assms(2) [OF m(1)] by (intro subnode_postorder) simp
  ultimately show ?thesis using inside_subnode [OF assms(3,4)] by blast
qed

lemma yields_checkPrices: "yields (checkPrices i ps) ()"
  by (induction ps) (auto intro!: yields_cbind)

lemma tier_typed: "hasType (Call sp ''tier'' (l # body # rest)) t \<Longrightarrow> \<exists>t. hasType body t"
  by (erule hasType_CallE) (auto simp: call_names)

lemma fixed_typed: "hasType (Call sp ''fixed'' [a]) t \<Longrightarrow> \<exists>t. hasType a t \<and> fits t TNumber"
  by (erule hasType_CallE) (auto simp: call_names)

lemma tier_back:
  assumes "astOk n" "nend n \<le> length src" "hasType n t" "n = Call sp ''tier'' args"
    "args = Literal lsp (LStr label) # body # rest"
  shows "\<exists>v. readTier n label body = Inr v \<and> (\<forall>t. v = Some t \<longrightarrow> pricingFaithful env src n (Tier t))"
proof -
  have kids: "inside src n (Literal lsp (LStr label))" "inside src n body" "astOk body" "nend body \<le> length src"
    using inside_child [OF assms(1,2), of "Literal lsp (LStr label)"] inside_child [OF assms(1,2), of body]
      assms(1,4,5) by (auto simp: inside_def)
  have label: "labelText src t (Literal lsp (LStr label)) = sourceOf src (Literal lsp (LStr label))"
    if "vlabel t = label" for t using that by (simp add: labelText_def)
  have tier: "isTierCall n" "tierArguments n = Inr (Literal lsp (LStr label), body)"
    using assms(4,5) by (simp_all add: isTierCall_def tierArguments_def)
  have linear: "pricingFaithful env src n (Tier t)"
    if lin: "map_option (\<lambda>prices. \<lparr>vid = i, vorigin = Some n, vlabel = label, vprices = prices,
        vbillingUnit = UToken, vfixedPrice = []\<rparr>) (readPrices (flattenBinary ''+'' body) []) = Some t" for t i
  proof -
    obtain ps where ps: "list_all2 readFrom ps (flattenBinary ''+'' body)"
      and t: "t = \<lparr>vid = i, vorigin = Some n, vlabel = label, vprices = ps,
        vbillingUnit = UToken, vfixedPrice = []\<rparr>"
      using lin readPrices_terms [of "flattenBinary ''+'' body" "[]"] by auto
    have sub: "astOk m \<and> m \<in> set (postorder n)" if "m \<in> set (flattenBinary ''+'' body)" for m
      using flattenBinary_subnode [OF that] astOk_subnode [OF kids(3)] assms(4,5) by auto
    have "tokenTierText src t = Inr (sourceOf src n)"
      using tier kids(1) label [of t] readFrom_origins [OF ps] valuePatches_back [OF ps sub assms(1,2)] t
      by (auto simp: tokenTierText_def Let_def intro!: patchSource_same)
    then show ?thesis
      using t by (auto simp: pricingFaithful_def writeTokenTier_def intro!: yields_cbind yields_checkPrices)
  qed
  show ?thesis
  proof (cases "\<exists>fsp fargs. body = Call fsp ''fixed'' fargs")
    case False
    then have "readTier n label body = Inr (map_option (\<lambda>prices. \<lparr>vid = vid (nodeIdentity ''pricing'' n),
        vorigin = Some n, vlabel = label, vprices = prices, vbillingUnit = UToken, vfixedPrice = []\<rparr>)
        (readPrices (flattenBinary ''+'' body) []))"
      by (auto simp: readTier_def Let_def split: node.splits)
    with linear show ?thesis by blast
  next
    case True
    then obtain fsp a where body: "body = Call fsp ''fixed'' [a]"
      using kids(3) by (auto simp: BILLING_FUNCTIONS_def Suc_length_conv)
    have "\<exists>ta. hasType a ta \<and> fits ta TNumber"
      using tier_typed [of sp "Literal lsp (LStr label)" body rest t] assms(3-5) body fixed_typed by blast
    then have num: "\<exists>x i. v = LNum x i" if "a = Literal asp v" for asp v
      using that by (cases v) (auto elim!: hasType_elims simp: fits_def)
    show ?thesis
    proof (cases "\<exists>asp v. a = Literal asp v")
      case False
      then have "readTier n label body = Inr None"
        using body by (cases a) (auto simp: readTier_def Let_def)
      then show ?thesis by simp
    next
      case True
      then obtain asp x i where a: "a = Literal asp (LNum x i)" using num by blast
      have "inside src body a" using inside_child [OF kids(3,4)] body by simp
      moreover have "litEquals (parseNonNegativeNumber (numString x)) (LNum x i)"
        using kids(3) body a literal_reads [of asp x i] by simp
      ultimately have "fixedText src t body = Inr (sourceOf src body)" if "vfixedPrice t = numString x" for t
        using that body a by (simp add: fixedText_def patchSource_same)
      then have "pricingFaithful env src n (Tier t)"
        if "t = \<lparr>vid = i', vorigin = Some n, vlabel = label, vprices = [], vbillingUnit = URequest,
          vfixedPrice = numString x\<rparr>" for t i'
        using that tier label [of t] kids(1,2)
        by (auto simp: pricingFaithful_def writeFixedTier_def Let_def patchSource_same intro!: yields_cbind)
      then show ?thesis using body a by (auto simp: readTier_def Let_def)
    qed
  qed
qed

lemma pricing_back:
  "\<lbrakk>astOk n; nend n \<le> length src; \<exists>t. hasType n t\<rbrakk> \<Longrightarrow>
   \<exists>r. readVisualPricing n = Inr r \<and> (\<forall>v. r = Some v \<longrightarrow> pricingFaithful env src n v)"
proof (induction n rule: readVisualPricing.induct)
  case (1 sp c y n)
  let ?n = "Conditional sp c y n"
  have kids: "inside src ?n m \<and> astOk m \<and> nend m \<le> length src" if "m \<in> {c, y, n}" for m
    using inside_child [OF "1.prems"(1,2), of m] "1.prems"(1) that by (auto simp: inside_def)
  have typed: "\<exists>t. hasType y t" "\<exists>t. hasType n t" using "1.prems"(3) by (auto elim: hasType_elims)
  obtain rc where rc: "readVisualCondition c = Inr rc" "\<And>v. rc = Some v \<Longrightarrow> conditionFaithful env src c v"
    using condition_back [of c src env] kids by auto
  obtain ry where ry: "readVisualPricing y = Inr ry" "\<And>v. ry = Some v \<Longrightarrow> pricingFaithful env src y v"
    using "1.IH"(1) [OF rc(1)] kids typed by auto
  obtain rn where rn: "readVisualPricing n = Inr rn" "\<And>v. rn = Some v \<Longrightarrow> pricingFaithful env src n v"
    using "1.IH"(2) [OF rc(1) ry(1)] kids typed by auto
  have "branchText src (nodeIdentity ''pricing'' ?n) (sourceOf src c) (sourceOf src y) (sourceOf src n) = sourceOf src ?n"
    using kids by (auto simp: branchText_def nodeIdentity_def intro!: patchSource_same)
  then have "pricingFaithful env src ?n (Branch (nodeIdentity ''pricing'' ?n) vc vy vn)"
    if "rc = Some vc" "ry = Some vy" "rn = Some vn" for vc vy vn
    using rc(2) [OF that(1)] ry(2) [OF that(2)] rn(2) [OF that(3)]
    by (auto simp: pricingFaithful_def conditionFaithful_def intro!: yields_cbind)
  with rc(1) ry(1) rn(1) show ?case by (auto split: option.splits)
next
  case (2 sp f args)
  show ?case
  proof (cases "f = ''tier''")
    case True
    then obtain l body where args: "args = [l, body]"
      using "2.prems"(1) by (auto simp: BILLING_FUNCTIONS_def Suc_length_conv length_Suc_conv numeral_2_eq_2)
    obtain t where t: "hasType (Call sp f args) t" using "2.prems"(3) by blast
    show ?thesis
    proof (cases "\<exists>lsp label. l = Literal lsp (LStr label)")
      case label: True
      then obtain lsp label where l: "l = Literal lsp (LStr label)" by blast
      then obtain v where "readTier (Call sp f args) label body = Inr v"
          "\<And>t. v = Some t \<Longrightarrow> pricingFaithful env src (Call sp f args) (Tier t)"
        using tier_back [OF "2.prems"(1,2) t, of sp args lsp label body "[]"] True args by auto
      then show ?thesis using True args l by auto
    next
      case False
      then have "readVisualPricing (Call sp f args) = Inr None"
        using True args by (auto split: node.splits lit.splits)
      then show ?thesis by simp
    qed
  qed simp
qed auto

section \<open>Documents\<close>

lemma compile_reachable:
  assumes "compiler_cache.reachable cache"
  shows "compiler_cache.reachable (snd (compileBillingExpression src cache))"
  using compiler_cache.reachable.step [OF assms, of src "fst (compileBillingExpression src cache)"] by simp

lemma compile_result:
  "\<lbrakk>compiler_cache.reachable cache; compileBillingExpression src cache = (r, cache')\<rbrakk> \<Longrightarrow>
   r = compileFresh src \<and> compiler_cache.reachable cache'"
  using cache_call [of cache src] compile_reachable [of cache src] by simp

lemma spliceBody_written:
  assumes "compiler_cache.reachable cache" "fst (spliceBody doc body cache) = Written src"
  shows "\<exists>c. compileFresh src = Ready c"
proof -
  obtain r1 cache1 where 1: "compileBillingExpression (dsource doc) cache = (r1, cache1)" by fastforce
  obtain c where c: "r1 = Ready c"
    using assms(2) 1 by (cases r1) (auto simp: spliceBody_def reject_def)
  define src' where "src' = take (nstart (cast c)) (dsource doc) @ body @ drop (nend (cast c)) (dsource doc)"
  obtain r2 cache2 where 2: "compileBillingExpression src' cache1 = (r2, cache2)" by fastforce
  then have "r2 = compileFresh src'" using compile_result compile_result [OF assms(1) 1] by blast
  moreover have "src' = src \<and> (\<exists>c. r2 = Ready c)"
    using assms(2) 1 2 c by (cases r2) (auto simp: spliceBody_def reject_def src'_def [symmetric])
  ultimately show ?thesis by auto
qed

lemma spliceBody_same:
  assumes "compiler_cache.reachable cache" "compileFresh (dsource doc) = Ready c"
    "body = sourceOf (dsource doc) (cast c)"
  shows "fst (spliceBody doc body cache) = Written (dsource doc)"
proof -
  obtain r1 cache1 where 1: "compileBillingExpression (dsource doc) cache = (r1, cache1)" by fastforce
  obtain r2 cache2 where 2: "compileBillingExpression (dsource doc) cache1 = (r2, cache2)" by fastforce
  have "compiledOk c" using assms(2) compileBody_ok by (simp add: compileFresh_Ready)
  then have "nstart (cast c) < nend (cast c)" by (intro astOk_span) (simp add: compiledOk_def)
  then have "nstart (cast c) \<le> nend (cast c)" by simp
  then have "take (nstart (cast c)) (dsource doc) @ body @ drop (nend (cast c)) (dsource doc) = dsource doc"
    using assms(3) by (simp add: sourceOf_def slice_split)
  then show ?thesis
    using 1 2 compile_result [OF assms(1) 1] compile_result [OF _ 2] assms(2)
    by (simp add: spliceBody_def Let_def)
qed

lemma compileBody_parse: "compileBody src = Inr c \<Longrightarrow> parseExpression src = Inr (cast c)"
  by (auto simp: compileBody_def rbind_eq_Inr_iff split: if_splits)

lemma read_back:
  assumes "compileFresh src = Ready c"
  shows "\<exists>r. readVisualPricing (cast c) = Inr r \<and> (\<forall>v. r = Some v \<longrightarrow> pricingFaithful env src (cast c) v)"
proof -
  have "compileBody src = Inr c" using assms by (simp add: compileFresh_Ready)
  then have ok: "compiledOk c" and p: "parseExpression src = Inr (cast c)"
    using compileBody_ok [of src c] compileBody_parse [of src c] by simp_all
  from ok have "\<exists>t. hasType (cast c) t" by (simp add: compiledOk_def)
  then show ?thesis using parseExpression_ok [OF p] by (intro pricing_back) simp_all
qed

lemma serialize_back:
  assumes "compiler_cache.reachable cache" "compileFresh src = Ready c" "pricingFaithful env src (cast c) v"
    "writeVisualPricing env src v [] = Inr (body, issues)"
  shows "fst (serializeVisualBillingDocument env \<lparr>dsource = src, droot = v\<rparr> cache) =
    Inr (if issues = [] then Written src else Rejected issues)"
proof -
  have "body = sourceOf src (cast c)" using assms(3,4) yieldsD [of _ _ "[]"] by (fastforce simp: pricingFaithful_def)
  then show ?thesis
    using assms spliceBody_same [of cache "\<lparr>dsource = src, droot = v\<rparr>" c body]
    by (simp add: serializeVisualBillingDocument_def)
qed

lemma parse_returns:
  assumes "compiler_cache.reachable cache"
  shows "\<exists>d. fst (parseVisualBillingDocument env src cache) = Inr d \<and>
    (\<forall>doc. d = Some doc \<longrightarrow> dsource doc = src \<and> (\<forall>cache2. compiler_cache.reachable cache2 \<longrightarrow>
      fst (serializeVisualBillingDocument env doc cache2) = Inr (Written src)))"
proof -
  obtain r cache1 where c1: "compileBillingExpression src cache = (r, cache1)" by fastforce
  note cr = compile_result [OF assms c1]
  show ?thesis
  proof (cases r)
    case (CompileFailure f)
    then show ?thesis using c1 by (simp add: parseVisualBillingDocument_def)
  next
    case (Ready c)
    then have fresh: "compileFresh src = Ready c" using cr by simp
    obtain v where v: "readVisualPricing (cast c) = Inr v" "\<And>t. v = Some t \<Longrightarrow> pricingFaithful env src (cast c) t"
      using read_back [OF fresh] by blast
    show ?thesis
    proof (cases v)
      case None
      then show ?thesis using c1 Ready v(1) by (simp add: parseVisualBillingDocument_def)
    next
      case (Some t)
      obtain body issues where w: "writeVisualPricing env src t [] = Inr (body, issues)"
        using v(2) [OF Some] yieldsD [of _ _ "[]"] by (fastforce simp: pricingFaithful_def)
      note s = serialize_back [OF _ fresh v(2) [OF Some] w]
      obtain w cache2 where "serializeVisualBillingDocument env \<lparr>dsource = src, droot = t\<rparr> cache1 = (w, cache2)"
        by fastforce
      with s [of cache1] conjunct2 [OF cr] c1 Ready v(1) Some
      have "fst (parseVisualBillingDocument env src cache) =
          Inr (if issues = [] then Some \<lparr>dsource = src, droot = t\<rparr> else None)"
        by (simp add: parseVisualBillingDocument_def)
      then show ?thesis using s by (cases "issues = []") simp_all
    qed
  qed
qed

section \<open>Properties\<close>

definition visualSample :: string where
  "visualSample = ''len<=1e3 ? tier(\"a\", p*0.10) : tier(\"b\", fixed(5))''"

definition sampleIntl :: intl where
  "sampleIntl = \<lparr>resolvedZone = (\<lambda>_. None), formatParts = (\<lambda>_ _. [])\<rparr>"

lemma visualSample_opens:
  "case fst (parseVisualBillingDocument sampleIntl visualSample []) of Inr (Some d) \<Rightarrow> dsource d = visualSample | _ \<Rightarrow> False"
  by code_simp

text \<open>
  C8. The visual editor loses nothing: for every source text and every state of the compiler
  cache, opening a document returns without an exception, and when it opens, saving the
  unedited document writes the source back character for character, spelling of numbers,
  white space, parentheses and order of prices included.
\<close>

theorem visual_roundtrip:
  assumes "compiler_cache.reachable cache"
  shows "\<exists>d. fst (parseVisualBillingDocument env src cache) = Inr d \<and>
    (\<forall>doc. d = Some doc \<longrightarrow> dsource doc = src \<and> (\<forall>cache2. compiler_cache.reachable cache2 \<longrightarrow>
      fst (serializeVisualBillingDocument env doc cache2) = Inr (Written src)))"
  using assms by (rule parse_returns)

theorem visual_roundtrip_witness:
  "\<exists>doc. fst (parseVisualBillingDocument sampleIntl visualSample []) = Inr (Some doc) \<and>
    fst (serializeVisualBillingDocument sampleIntl doc []) = Inr (Written visualSample)"
  using visual_roundtrip [OF compiler_cache.reachable.start, of sampleIntl visualSample] visualSample_opens
    compiler_cache.reachable.start
  by (auto split: sum.splits option.splits)

text \<open>
  C10. Whatever was edited, what the visual editor saves is an expression the compiler accepts.
\<close>

theorem visual_writes_compile:
  assumes "compiler_cache.reachable cache"
    and "fst (serializeVisualBillingDocument env doc cache) = Inr (Written src)"
  shows "\<exists>c. compileFresh src = Ready c"
  using assms spliceBody_written
  by (auto simp: serializeVisualBillingDocument_def split: sum.splits prod.splits if_splits)

definition draftDocument :: visualBillingDocument where
  "draftDocument = \<lparr>dsource = ''p'', droot = Tier \<lparr>vid = ''draft-1'', vorigin = None, vlabel = ''x'',
     vprices = [\<lparr>pvariable = ''p'', pvalue = ''3'', porigin = None\<rparr>], vbillingUnit = UToken, vfixedPrice = []\<rparr>\<rparr>"

theorem visual_writes_compile_witness:
  "fst (serializeVisualBillingDocument sampleIntl draftDocument []) = Inr (Written ''tier(\"x\", p * 3)'') \<and>
   (\<exists>c. compileFresh ''tier(\"x\", p * 3)'' = Ready c)"
proof
  show w: "fst (serializeVisualBillingDocument sampleIntl draftDocument []) = Inr (Written ''tier(\"x\", p * 3)'')"
    by code_simp
  show "\<exists>c. compileFresh ''tier(\"x\", p * 3)'' = Ready c"
    using visual_writes_compile [OF compiler_cache.reachable.start w] .
qed

text \<open>
  A number the editor prints reads back: for every finite non-negative double the text of
  \<open>String(x)\<close> passes the number pattern and \<open>parseNonNegativeNumber\<close> returns the number, in each
  of the four notations (integer, fraction, leading zeros, exponent).
\<close>

theorem printed_number_reads:
  assumes "isDouble x" "isFinite x" "nonNeg x"
  shows "\<exists>y. parseNonNegativeNumber (numString x) = Some y \<and> js_eq y x"
  using parse_numString [OF assms] .

theorem printed_number_reads_witness:
  "\<exists>y. parseNonNegativeNumber (numString (toDouble (1 / 10))) = Some y \<and> js_eq y (toDouble (1 / 10))"
  by (rule printed_number_reads) (simp_all, code_simp+)

end
