(* ===== verification/BxVisualEdits.thy ===== *)
theory BxVisualEdits
  imports BxVisualFacts
begin

text \<open>
  Edits in the visual editor are local: changing the value of one price rewrites the
  characters of that one literal and no others, although \<open>patchSource\<close> patches the label and
  every price of the tier.
\<close>

section \<open>One changed patch\<close>

text \<open>The text with the characters from \<open>a\<close> to \<open>b\<close> replaced.\<close>

definition replaceSpan :: "string \<Rightarrow> nat \<Rightarrow> nat \<Rightarrow> string \<Rightarrow> string" where
  "replaceSpan s a b v = take a s @ v @ drop b s"

lemma slice_replaceSpan:
  "\<lbrakk>i \<le> j; j \<le> a; a \<le> length s\<rbrakk> \<Longrightarrow> slice (replaceSpan s a b v) i j = slice s i j"
  by (simp add: slice_def replaceSpan_def drop_take min_def)

definition unchanged :: "string \<Rightarrow> node \<Rightarrow> node \<times> string \<Rightarrow> bool" where
  "unchanged src origin p \<longleftrightarrow> inside src origin (fst p) \<and> snd p = sourceOf src (fst p)"

lemma fold_unchanged:
  "\<forall>p\<in>set ps. unchanged src origin p \<Longrightarrow>
   foldl (applyPatch origin) (sourceOf src origin) ps = sourceOf src origin"
proof (induction ps)
  case (Cons p ps)
  then show ?case using applyPatch_same [of src origin "fst p"] by (cases p) (simp add: unchanged_def)
qed simp

text \<open>Patches that end before the replaced span find their text where it was.\<close>

lemma fold_before:
  assumes "inside src origin m"
  shows "\<forall>p\<in>set ps. unchanged src origin p \<and> nend (fst p) \<le> nstart m \<Longrightarrow>
    foldl (applyPatch origin) (replaceSpan (sourceOf src origin) (nstart m - nstart origin) b v) ps =
      replaceSpan (sourceOf src origin) (nstart m - nstart origin) b v"
proof (induction ps)
  case (Cons p ps)
  let ?T = "sourceOf src origin" and ?a = "nstart m - nstart origin"
  let ?R = "replaceSpan ?T ?a b v"
  obtain n t where p: "p = (n, t)" by (cases p)
  have n: "nstart origin \<le> nstart n" "nstart n \<le> nend n" "nend n \<le> nend origin" "nend origin \<le> length src"
    "nend n \<le> nstart m" "t = sourceOf src n"
    using Cons.prems p by (auto simp: unchanged_def inside_def)
  have a: "?a \<le> length ?T" using assms by (auto simp: inside_def length_sourceOf)
  have "nend n - nstart origin \<le> ?a" using n(5) by (rule diff_le_mono)
  then have len: "nend n - nstart origin \<le> length ?R" using a by (simp add: replaceSpan_def)
  have "slice ?R (nstart n - nstart origin) (nend n - nstart origin) = t"
    using n a slice_slice [of "nstart origin" "nstart n" "nend n" "nend origin" src]
    by (simp add: slice_replaceSpan diff_le_mono sourceOf_def)
  then have "applyPatch origin ?R p = ?R"
    using applyPatch_inside [OF n(1,2) len, of t] slice_split [of "nstart n - nstart origin" "nend n - nstart origin" ?R]
      diff_le_mono [OF n(2)] p by simp
  with Cons show ?case by simp
qed simp

text \<open>Patches in source order are applied from the last to the first.\<close>

lemma seqIn_starts: "\<lbrakk>seqIn lo hi (map fst ps); p \<in> set ps\<rbrakk> \<Longrightarrow> lo \<le> nstart (fst p)"
  using seqIn_bounds [of lo hi "map fst ps" "fst p"] by auto

lemma sort_patches:
  "seqIn lo hi (map fst ps) \<Longrightarrow> sort_key (\<lambda>p. - int (nstart (fst p))) ps = rev ps"
proof -
  assume seq: "seqIn lo hi (map fst ps)"
  have "inj_on (\<lambda>p. - int (nstart (fst p))) (set ps) \<and> sorted (map (\<lambda>p. - int (nstart (fst p))) (rev ps))"
    using seq
  proof (induction ps arbitrary: lo)
    case (Cons p ps)
    then have "nstart (fst p) < nstart (fst q)" if "q \<in> set ps" for q
      using seqIn_starts [OF _ that, of "nend (fst p)" hi] by auto
    with Cons show ?case by (fastforce simp: sorted_append)
  qed simp
  then show ?thesis by (intro sort_key_inj_key_eq) simp_all
qed

lemma seqIn_split: "seqIn lo hi (xs @ m # ys) \<Longrightarrow> \<forall>x\<in>set xs. nend x \<le> nstart m"
  by (induction xs arbitrary: lo) (auto dest: seqIn_bounds [where n = m])

lemma patchSource_one:
  assumes "seqIn lo hi (map fst (xs @ (m, v) # ys))" "inside src origin m"
    "\<forall>p\<in>set (xs @ ys). unchanged src origin p"
  shows "patchSource src origin (xs @ (m, v) # ys) =
    replaceSpan (sourceOf src origin) (nstart m - nstart origin) (nend m - nstart origin) v"
proof -
  let ?T = "sourceOf src origin"
  have m: "nstart origin \<le> nstart m" "nstart m \<le> nend m" "nend m - nstart origin \<le> length ?T"
    using assms(2) by (auto simp: inside_def length_sourceOf)
  have "\<forall>p\<in>set (rev xs). unchanged src origin p \<and> nend (fst p) \<le> nstart m"
    using assms(3) seqIn_split [of lo hi "map fst xs" m "map fst ys"] assms(1) by auto
  then have "foldl (applyPatch origin) (replaceSpan ?T (nstart m - nstart origin) (nend m - nstart origin) v) (rev xs) =
      replaceSpan ?T (nstart m - nstart origin) (nend m - nstart origin) v"
    by (rule fold_before [OF assms(2)])
  moreover have "foldl (applyPatch origin) ?T (rev ys) = ?T" using assms(3) by (intro fold_unchanged) simp
  moreover have "applyPatch origin ?T (m, v) = replaceSpan ?T (nstart m - nstart origin) (nend m - nstart origin) v"
    using applyPatch_inside [OF m] by (simp add: replaceSpan_def)
  ultimately show ?thesis
    unfolding patchSource_def using sort_patches [OF assms(1)] by simp
qed

section \<open>The terms of a price in source order\<close>

lemma seqIn_append: "\<lbrakk>seqIn lo mid xs; seqIn mid hi ys\<rbrakk> \<Longrightarrow> seqIn lo hi (xs @ ys)"
  by (induction xs arbitrary: lo) (auto intro: seqIn_mono)

lemma flattenBinary_seqIn: "astOk n \<Longrightarrow> seqIn (nstart n) (nend n) (flattenBinary op n)"
proof (induction op n rule: flattenBinary.induct)
  case (1 operator sp op l r)
  have s: "fst sp \<le> nstart l" "nend l \<le> nstart r" "nend r \<le> snd sp" "fst sp < snd sp"
    using "1.prems" by (auto simp: spanOk_def)
  show ?case
  proof (cases "op = operator")
    case True
    have "seqIn (nstart l) (nend l) (flattenBinary operator l)" "seqIn (nstart r) (nend r) (flattenBinary operator r)"
      using 1 True by auto
    then have "seqIn (fst sp) (nend l) (flattenBinary operator l)" "seqIn (nend l) (snd sp) (flattenBinary operator r)"
      using s by (auto intro: seqIn_mono)
    with True show ?thesis by (auto intro: seqIn_append)
  qed (use s in simp)
qed (auto simp: spanOk_def)

lemma seqIn_subnodes:
  "\<lbrakk>list_all2 (\<lambda>l m. astOk m \<and> l \<in> set (postorder m)) ls ms; seqIn lo hi ms\<rbrakk> \<Longrightarrow> seqIn lo hi ls"
proof (induction arbitrary: lo rule: list_all2_induct)
  case (Cons l ls m ms)
  have "nstart m \<le> nstart l" "nstart l < nend l" "nend l \<le> nend m"
    using subnode_span [of m l] Cons.hyps by auto
  moreover have "seqIn (nend m) hi ls" using Cons by simp
  ultimately show ?case using Cons.prems by (auto intro: seqIn_mono)
qed simp

section \<open>Editing a price\<close>

fun literalOf :: "node \<Rightarrow> node" where
  "literalOf (Binary _ _ _ r) = r"
| "literalOf n = n"

lemma readFrom_literal:
  assumes "readFrom p m" "astOk m"
  shows "snd (priceText src p) = Some (literalOf m, sourceOf src (literalOf m)) \<and>
    literalOf m \<in> set (postorder m) \<and> parseNonNegativeNumber (pvalue p) \<noteq> None"
proof -
  obtain sp x vsp lsp v i where m: "m = Binary sp ''*'' (Variable vsp x) (Literal lsp (LNum v i))"
    and p: "p = \<lparr>pvariable = x, pvalue = numString v, porigin = Some m\<rparr>"
    using assms(1) by (auto simp: readFrom_def)
  have "litEquals (parseNonNegativeNumber (numString v)) (LNum v i)"
    using assms(2) m literal_reads [of lsp v i] by simp
  with m p show ?thesis by (cases "parseNonNegativeNumber (numString v)") (auto simp: priceText_def Let_def)
qed

lemma map_filter_Some: "(\<And>x. x \<in> set xs \<Longrightarrow> f x = Some (g x)) \<Longrightarrow> List.map_filter f xs = map g xs"
  by (induction xs) (auto simp: List.map_filter_simps)

lemma checkPrices_ok:
  "\<forall>p\<in>set ps. parseNonNegativeNumber (pvalue p) \<noteq> None \<Longrightarrow> checkPrices i ps issues = Inr ((), issues)"
  by (induction ps) (auto simp: cbind_apply issueUnless_def)

text \<open>The patches of the tier after the value of price \<open>i\<close> was set to \<open>v\<close>.\<close>

lemma edited_patches:
  assumes "list_all2 readFrom ps ms" "\<forall>m\<in>set ms. astOk m" "i < length ps"
    "ms ! i = Binary sp op l (Literal lsp y)"
    "new = (if litEquals (parseNonNegativeNumber v) y then sourceOf src (Literal lsp y) else v)"
  shows "List.map_filter snd (map (priceText src) (ps[i := (ps ! i)\<lparr>pvalue := v\<rparr>])) =
    (map (\<lambda>m. (literalOf m, sourceOf src (literalOf m))) ms)[i := (Literal lsp y, new)]"
proof -
  have len: "length ps = length ms" using assms(1) by (rule list_all2_lengthD)
  have at: "readFrom (ps ! k) (ms ! k)" "astOk (ms ! k)" if "k < length ms" for k
    using assms(1,2) that len by (auto simp: list_all2_conv_all_nth)
  have orig: "porigin (ps ! i) = Some (ms ! i)" using at(1) [of i] assms(3) len by (auto simp: readFrom_def)
  let ?g = "\<lambda>p. the (snd (priceText src p))"
  have edit: "snd (priceText src ((ps ! i)\<lparr>pvalue := v\<rparr>)) = Some (Literal lsp y, new)"
    using orig assms(4,5) by (simp add: priceText_def Let_def)
  have old: "snd (priceText src (ps ! k)) = Some (literalOf (ms ! k), sourceOf src (literalOf (ms ! k)))"
    if "k < length ms" for k using readFrom_literal [OF at [OF that]] by blast
  have "snd (priceText src p) = Some (?g p)" if "p \<in> set (ps[i := (ps ! i)\<lparr>pvalue := v\<rparr>])" for p
    using that edit old len assms(3) by (auto simp: in_set_conv_nth nth_list_update split: if_splits)
  then have "List.map_filter snd (map (priceText src) (ps[i := (ps ! i)\<lparr>pvalue := v\<rparr>])) =
      map ?g (ps[i := (ps ! i)\<lparr>pvalue := v\<rparr>])"
    by (subst map_filter_Some [where g = "\<lambda>t. the (snd t)"]) auto
  also have "\<dots> = (map (\<lambda>m. (literalOf m, sourceOf src (literalOf m))) ms)[i := (Literal lsp y, new)]"
    using edit old len assms(3) by (intro nth_equalityI) (auto simp: nth_list_update)
  finally show ?thesis .
qed

text \<open>What a tier with prices was read from.\<close>

lemma read_token_tier:
  assumes "readVisualPricing n = Inr (Some (Tier t))" "vprices t \<noteq> []"
  obtains sp label lsp body rest where
    "n = Call sp ''tier'' (Literal lsp (LStr label) # body # rest)"
    "list_all2 readFrom (vprices t) (flattenBinary ''+'' body)" "vorigin t = Some n" "vlabel t = label"
    "vbillingUnit t = UToken"
proof -
  obtain sp label lsp body rest where n: "n = Call sp ''tier'' (Literal lsp (LStr label) # body # rest)"
    and t: "readTier n label body = Inr (Some t)"
    using assms(1)
    by (cases n rule: readVisualPricing.cases)
       (auto simp: rbind_eq_Inr_iff split: if_splits list.splits node.splits lit.splits option.splits)
  obtain ps where ps: "readPrices (flattenBinary ''+'' body) [] = Some ps" and u: "vprices t = ps"
      "vorigin t = Some n" "vlabel t = label" "vbillingUnit t = UToken"
    using t assms(2) by (auto simp: readTier_def Let_def split: node.splits if_splits list.splits)
  from readPrices_terms [OF ps] n u show thesis by (intro that) auto
qed

lemma edited_tier_text:
  assumes "astOk n" "nend n \<le> length src" "readVisualPricing n = Inr (Some (Tier t))" "i < length (vprices t)"
    "porigin (vprices t ! i) = Some (Binary sp op l (Literal lsp y))"
    "new = (if litEquals (parseNonNegativeNumber v) y then sourceOf src (Literal lsp y) else v)"
  shows "tokenTierText src (t\<lparr>vprices := (vprices t)[i := (vprices t ! i)\<lparr>pvalue := v\<rparr>]\<rparr>) =
    Inr (replaceSpan (sourceOf src n) (fst lsp - nstart n) (snd lsp - nstart n) new)"
proof -
  have "vprices t \<noteq> []" using assms(4) by auto
  then obtain nsp label sp' body rest where n: "n = Call nsp ''tier'' (Literal sp' (LStr label) # body # rest)"
    and from_ms: "list_all2 readFrom (vprices t) (flattenBinary ''+'' body)"
    and t: "vorigin t = Some n" "vlabel t = label"
    using read_token_tier [OF assms(3)] by metis
  let ?ms = "flattenBinary ''+'' body" and ?lab = "Literal sp' (LStr label)"
  have len: "length (vprices t) = length ?ms" using from_ms by (rule list_all2_lengthD)
  have body: "astOk body" "inside src n ?lab" "inside src n body" "nend ?lab \<le> nstart body"
    using assms(1) n inside_child [OF assms(1,2), of ?lab] inside_child [OF assms(1,2), of body]
    by (auto simp: spanOk_def)
  have sub: "m \<in> set (postorder body)" "astOk m" if "m \<in> set ?ms" for m
    using flattenBinary_subnode [OF that] astOk_subnode [OF body(1)] by blast+
  have mi: "?ms ! i = Binary sp op l (Literal lsp y)"
    using from_ms assms(4,5) by (auto simp: list_all2_conv_all_nth readFrom_def)
  let ?xs = "map (\<lambda>m. (literalOf m, sourceOf src (literalOf m))) ?ms"
  have patches: "List.map_filter snd (map (priceText src) ((vprices t)[i := (vprices t ! i)\<lparr>pvalue := v\<rparr>])) =
      ?xs[i := (Literal lsp y, new)]"
    using sub(2) by (intro edited_patches [OF from_ms _ assms(4) mi assms(6)]) blast
  have lits: "list_all2 (\<lambda>l m. astOk m \<and> l \<in> set (postorder m)) (map literalOf ?ms) ?ms"
    using from_ms sub(2) readFrom_literal by (auto simp: list_all2_conv_all_nth)
  have unch: "unchanged src n p" if "p \<in> set ((?lab, sourceOf src ?lab) # ?xs)" for p
  proof -
    have "inside src n (literalOf m)" if "m \<in> set ?ms" for m
    proof -
      have "literalOf m \<in> set (postorder m)" using lits that by (simp add: list_all2_map1 list_all2_same)
      then have "literalOf m \<in> set (postorder n)" using sub(1) [OF that] subnode_postorder [of m body] n by auto
      then show ?thesis by (rule inside_subnode [OF assms(1,2)])
    qed
    then show ?thesis using that body(2) by (auto simp: unchanged_def)
  qed
  have "seqIn (nstart body) (nend body) (map literalOf ?ms)"
    using seqIn_subnodes [OF lits flattenBinary_seqIn [OF body(1)]] .
  then have seq: "seqIn (nstart n) (nend body) (?lab # map literalOf ?ms)"
    using body(2,4) astOk_span [of ?lab] assms(1) n by (auto simp: inside_def intro: seqIn_mono)
  have upd: "?xs[i := (Literal lsp y, new)] = take i ?xs @ (Literal lsp y, new) # drop (Suc i) ?xs"
    using assms(4) len by (intro upd_conv_take_nth_drop) simp
  have ids: "map literalOf ?ms = map literalOf (take i ?ms) @ Literal lsp y # map literalOf (drop (Suc i) ?ms)"
  proof -
    have "?ms = take i ?ms @ ?ms ! i # drop (Suc i) ?ms" using assms(4) len by (intro id_take_nth_drop) simp
    then have "map literalOf ?ms = map literalOf (take i ?ms @ ?ms ! i # drop (Suc i) ?ms)" by (rule arg_cong)
    also have "\<dots> = map literalOf (take i ?ms) @ Literal lsp y # map literalOf (drop (Suc i) ?ms)"
      by (simp add: mi)
    finally show ?thesis .
  qed
  let ?as = "(?lab, sourceOf src ?lab) # take i ?xs" and ?bs = "drop (Suc i) ?xs"
  have "patchSource src n (?as @ (Literal lsp y, new) # ?bs) =
      replaceSpan (sourceOf src n) (nstart (Literal lsp y) - nstart n) (nend (Literal lsp y) - nstart n) new"
  proof (rule patchSource_one)
    show "seqIn (nstart n) (nend body) (map fst (?as @ (Literal lsp y, new) # ?bs))"
      using seq ids by (simp add: take_map drop_map comp_def)
    show "\<forall>p\<in>set (?as @ ?bs). unchanged src n p"
      using unch by (auto dest: in_set_takeD in_set_dropD)
    have "?ms ! i \<in> set ?ms" using assms(4) len by simp
    then have "(literalOf (?ms ! i), sourceOf src (literalOf (?ms ! i))) \<in> set ?xs" by (simp only: set_map image_eqI)
    then have "(Literal lsp y, sourceOf src (Literal lsp y)) \<in> set ?xs" by (simp only: mi literalOf.simps)
    then have "(Literal lsp y, sourceOf src (Literal lsp y)) \<in> set ((?lab, sourceOf src ?lab) # ?xs)"
      by (rule list.set_intros(2))
    from unch [OF this] show "inside src n (Literal lsp y)" by (simp only: unchanged_def fst_conv)
  qed
  moreover have "map porigin ((vprices t)[i := (vprices t ! i)\<lparr>pvalue := v\<rparr>]) = map Some ?ms"
    using readFrom_origins [OF from_ms] assms(4) by (simp add: map_update list_update_id) (metis list_update_id map_update)
  ultimately show ?thesis
    using t n patches upd
    by (simp add: tokenTierText_def Let_def isTierCall_def tierArguments_def labelText_def)
qed

lemma edited_tier_written:
  assumes "astOk n" "nend n \<le> length src" "readVisualPricing n = Inr (Some (Tier t))" "i < length (vprices t)"
    "porigin (vprices t ! i) = Some (Binary sp op l (Literal lsp y))" "parseNonNegativeNumber v \<noteq> None"
    "new = (if litEquals (parseNonNegativeNumber v) y then sourceOf src (Literal lsp y) else v)"
  shows "writeVisualPricing env src (Tier (t\<lparr>vprices := (vprices t)[i := (vprices t ! i)\<lparr>pvalue := v\<rparr>]\<rparr>)) issues =
    Inr (replaceSpan (sourceOf src n) (fst lsp - nstart n) (snd lsp - nstart n) new, issues)"
proof -
  have "vprices t \<noteq> []" using assms(4) by auto
  then obtain nsp label sp' body rest where n: "n = Call nsp ''tier'' (Literal sp' (LStr label) # body # rest)"
    and from_ms: "list_all2 readFrom (vprices t) (flattenBinary ''+'' body)" and u: "vbillingUnit t = UToken"
    using read_token_tier [OF assms(3)] by metis
  have "astOk body" using assms(1) n by simp
  then have "parseNonNegativeNumber (pvalue p) \<noteq> None" if "p \<in> set (vprices t)" for p
    using from_ms that readFrom_literal flattenBinary_subnode astOk_subnode
    by (metis in_set_conv_nth list_all2_conv_all_nth)
  then have "\<forall>p\<in>set ((vprices t)[i := (vprices t ! i)\<lparr>pvalue := v\<rparr>]). parseNonNegativeNumber (pvalue p) \<noteq> None"
    using assms(6) set_update_subset_insert by fastforce
  with \<open>vprices t \<noteq> []\<close> u edited_tier_text [OF assms(1-5,7)] show ?thesis
    by (simp add: writeTokenTier_def cbind_apply issueUnless_def checkPrices_ok)
qed

section \<open>Properties\<close>

definition editSource :: string where
  "editSource = ''tier(\"a\", p*0.50 + c*2)''"

definition editTree :: node where
  "editTree = Call (0, 23) ''tier'' [Literal (5, 8) (LStr ''a''), Binary (10, 22) ''+''
     (Binary (10, 16) ''*'' (Variable (10, 11) ''p'') (Literal (12, 16) (LNum (Fin (1 / 2)) False)))
     (Binary (19, 22) ''*'' (Variable (19, 20) ''c'') (Literal (21, 22) (LNum (Fin 2) True)))]"

definition editTier :: visualTier where
  "editTier = (case readVisualPricing editTree of Inr (Some (Tier t)) \<Rightarrow> t
     | _ \<Rightarrow> \<lparr>vid = [], vorigin = None, vlabel = [], vprices = [], vbillingUnit = UToken, vfixedPrice = []\<rparr>)"

text \<open>
  C9. Editing one price of a tier is local: when the value of a price that was read from the
  source is set to a text that is a non-negative number, the tier is written without an issue
  as the source text of the tier with exactly the characters of that literal replaced, and
  with nothing replaced at all when the new text denotes the number the literal already has.
\<close>

theorem price_edit_local:
  assumes "astOk n" "nend n \<le> length src" "readVisualPricing n = Inr (Some (Tier t))" "i < length (vprices t)"
    "porigin (vprices t ! i) = Some (Binary sp op l (Literal lsp y))" "parseNonNegativeNumber v \<noteq> None"
  shows "writeVisualPricing env src (Tier (t\<lparr>vprices := (vprices t)[i := (vprices t ! i)\<lparr>pvalue := v\<rparr>]\<rparr>)) [] =
    Inr (replaceSpan (sourceOf src n) (fst lsp - nstart n) (snd lsp - nstart n)
      (if litEquals (parseNonNegativeNumber v) y then sourceOf src (Literal lsp y) else v), [])"
  using edited_tier_written [OF assms refl] .

theorem price_edit_local_witness:
  "parseExpression editSource = Inr editTree \<and>
   writeVisualPricing sampleIntl editSource
     (Tier (editTier\<lparr>vprices := (vprices editTier)[0 := (vprices editTier ! 0)\<lparr>pvalue := ''3''\<rparr>]\<rparr>)) [] =
   Inr (''tier(\"a\", p*3 + c*2)'', [])"
proof
  show parse: "parseExpression editSource = Inr editTree" by code_simp
  have read: "readVisualPricing editTree = Inr (Some (Tier editTier))" by code_simp
  have orig: "porigin (vprices editTier ! 0) = Some (Binary (10, 16) ''*'' (Variable (10, 11) ''p'')
      (Literal (12, 16) (LNum (Fin (1 / 2)) False)))" and len: "0 < length (vprices editTier)"
    and num: "parseNonNegativeNumber ''3'' \<noteq> None"
    by code_simp+
  have spelled: "replaceSpan (sourceOf editSource editTree) (fst (12, 16) - nstart editTree) (snd (12, 16) - nstart editTree)
      (if litEquals (parseNonNegativeNumber ''3'') (LNum (Fin (1 / 2)) False)
       then sourceOf editSource (Literal (12, 16) (LNum (Fin (1 / 2)) False)) else ''3'') = ''tier(\"a\", p*3 + c*2)''"
    by code_simp
  show "writeVisualPricing sampleIntl editSource
     (Tier (editTier\<lparr>vprices := (vprices editTier)[0 := (vprices editTier ! 0)\<lparr>pvalue := ''3''\<rparr>]\<rparr>)) [] =
   Inr (''tier(\"a\", p*3 + c*2)'', [])"
    using price_edit_local [OF _ _ read len orig num, of editSource sampleIntl] parseExpression_ok [OF parse] spelled
    by simp
qed

end
