(* ===== verification/Languages.thy ===== *)
theory Languages
  imports JsUnits
begin

text \<open>
  Model of \<open>i18n/languages.ts\<close>: the interface languages, the normalisation of a stored or
  detected language, and the BCP-47 tag handed to the internationalisation API. The code
  works on ASCII text; the labels are lists of code units. \<open>Intl.getCanonicalLocales\<close> is
  outside the program: a function from a tag to the list it returns, nothing when it throws.
\<close>

definition INTERFACE_LANGUAGE_OPTIONS :: "(string \<times> units) list" where
  "INTERFACE_LANGUAGE_OPTIONS =
     [(''zhCN'', [0x7B80, 0x4F53, 0x4E2D, 0x6587]),
      (''en'', unitsOf ''English''),
      (''fr'', unitsOf ''Fran'' @ [0xE7] @ unitsOf ''ais''),
      (''ru'', [0x420, 0x443, 0x441, 0x441, 0x43A, 0x438, 0x439]),
      (''ja'', [0x65E5, 0x672C, 0x8A9E]),
      (''vi'', unitsOf ''Ti'' @ [0x1EBF] @ unitsOf ''ng Vi'' @ [0x1EC7] @ unitsOf ''t''),
      (''zhTW'', [0x7E41, 0x9AD4, 0x4E2D, 0x6587])]"

text \<open>\<open>value.trim().replaceAll('_', '-').toLowerCase()\<close>.\<close>

definition languageKey :: "string \<Rightarrow> string" where
  "languageKey v = toLowerCase (map (\<lambda>c. if c = CHR ''_'' then CHR ''-'' else c) (trim v))"

text \<open>A missing value is \<open>None\<close>; it is falsy, as the empty text is.\<close>

definition normalizeInterfaceLanguage :: "string option \<Rightarrow> string" where
  "normalizeInterfaceLanguage v =
     (case v of
        None \<Rightarrow> ''en''
      | Some s \<Rightarrow>
          if s = [] then ''en''
          else let normalized = languageKey s;
                   normalized = (if s \<in> set [''zh-TW'', ''zh-HK'', ''zh-MO'', ''zhTW''] then ''zhTW'' else normalized);
                   normalized = (if s \<in> set [''zh-CN'', ''zh-Hans'', ''zhCN''] then ''zhCN'' else normalized)
               in if list_ex (\<lambda>l. fst l = normalized) INTERFACE_LANGUAGE_OPTIONS then normalized else ''en'')"

definition convertDetectedLanguage :: "string \<Rightarrow> string" where
  "convertDetectedLanguage v =
     (let lower = languageKey v
      in if \<not> startsWith lower ''zh'' then v
         else if lower \<in> set [''zhtw'', ''zh-tw'', ''zh-hk'', ''zh-mo''] \<or> startsWith lower ''zh-hant''
         then ''zhTW'' else ''zhCN'')"

text \<open>The first element of an empty array is undefined.\<close>

definition toIntlLocale :: "(string \<Rightarrow> string list option) \<Rightarrow> string option \<Rightarrow> string option" where
  "toIntlLocale canonical v =
     (case v of
        None \<Rightarrow> None
      | Some s \<Rightarrow>
          if s = [] then None
          else if s = ''zhCN'' then Some ''zh-CN''
          else if s = ''zhTW'' then Some ''zh-TW''
          else (case canonical s of Some (tag # _) \<Rightarrow> Some tag | _ \<Rightarrow> None))"

section \<open>Facts\<close>

abbreviation languageCodes :: "string set" where
  "languageCodes \<equiv> fst ` set INTERFACE_LANGUAGE_OPTIONS"

lemma languageCodes_def: "languageCodes = {''zhCN'', ''en'', ''fr'', ''ru'', ''ja'', ''vi'', ''zhTW''}"
  by (auto simp: INTERFACE_LANGUAGE_OPTIONS_def)

text \<open>The result is always a language of the interface, and normalising again keeps it.\<close>

lemma normalize_code: "normalizeInterfaceLanguage v \<in> languageCodes"
proof -
  have "list_ex (\<lambda>l. fst l = x) INTERFACE_LANGUAGE_OPTIONS \<longleftrightarrow> x \<in> languageCodes" for x
    by (auto simp: list_ex_iff)
  moreover have "''en'' \<in> languageCodes" by (simp add: languageCodes_def)
  ultimately show ?thesis by (auto simp: normalizeInterfaceLanguage_def Let_def split: option.splits)
qed

lemma normalize_keeps_codes: "c \<in> languageCodes \<Longrightarrow> normalizeInterfaceLanguage (Some c) = c"
proof -
  have "list_all (\<lambda>l. normalizeInterfaceLanguage (Some (fst l)) = fst l) INTERFACE_LANGUAGE_OPTIONS"
    by code_simp
  then show "c \<in> languageCodes \<Longrightarrow> ?thesis" by (auto simp: list_all_iff)
qed

lemma normalize_idem: "normalizeInterfaceLanguage (Some (normalizeInterfaceLanguage v)) = normalizeInterfaceLanguage v"
  using normalize_keeps_codes [OF normalize_code] .

text \<open>
  The tag of an interface language is never one of the two project codes the
  internationalisation API rejects, provided canonical tags are not.
\<close>

lemma toIntlLocale_tag:
  assumes "\<And>s ts. canonical s = Some ts \<Longrightarrow> ''zhCN'' \<notin> set ts \<and> ''zhTW'' \<notin> set ts"
  shows "toIntlLocale canonical v \<notin> {Some ''zhCN'', Some ''zhTW''}"
proof -
  have "toIntlLocale canonical v = None \<or> toIntlLocale canonical v = Some ''zh-CN'' \<or>
    toIntlLocale canonical v = Some ''zh-TW'' \<or>
    (\<exists>s tag ts. canonical s = Some (tag # ts) \<and> toIntlLocale canonical v = Some tag)"
    by (auto simp: toIntlLocale_def split: option.splits list.splits)
  then show ?thesis using assms by fastforce
qed

end
