(* ===== verification/BxConditionDisplay.thy ===== *)
theory BxConditionDisplay
  imports BxDisplayFacts Languages
begin

text \<open>
  Model of \<open>billing-expression/condition-display.ts\<close>: a readable description of the condition
  of a price. The translation function and the formatters of the internationalisation API
  are outside the program: they are the parameter \<open>translator\<close>. Texts are lists of code
  units. The theory proves that a displayed time range is exactly the set of clock values
  the conditions accept.
\<close>

section \<open>Parameters and data\<close>

text \<open>The values in the options of a translation; \<open>ORaw\<close> is \<open>{ escapeValue: false }\<close>.\<close>

datatype optionValue = OText units | ONum jsnum | ORaw

type_synonym translate = "units \<Rightarrow> (string \<times> optionValue) list \<Rightarrow> units"

text \<open>
  \<open>translateKey\<close> is the argument \<open>t\<close>; \<open>weekdayShort\<close> formats a time value with the short
  weekday name in UTC and \<open>localeNumber\<close> is \<open>toLocaleString\<close>, nothing when they throw;
  \<open>canonicalLocales\<close> is \<open>Intl.getCanonicalLocales\<close>.
\<close>

record translator =
  translateKey :: translate
  weekdayShort :: "string option \<Rightarrow> int \<Rightarrow> units option"
  localeNumber :: "string option \<Rightarrow> jsnum \<Rightarrow> units option"
  canonicalLocales :: "string \<Rightarrow> string list option"

datatype descriptionKind = Calendar | Clock | Combined

record description =
  stext :: units
  skind :: descriptionKind
  stimezone :: string
  sdisjunction :: bool

record timeComparison_t =
  cname :: string
  ctimezone :: string
  coperator :: string
  cvalue :: jsnum

definition DOMAINS :: "string \<Rightarrow> (int \<times> int) option" where
  "DOMAINS = map_of
     [(''hour'', (0, 24)), (''minute'', (0, 60)), (''weekday'', (0, 7)), (''month'', (1, 13)),
      (''day'', (1, 32))]"

section \<open>Time ranges\<close>

definition timeComparison :: "node \<Rightarrow> timeComparison_t option bx" where
  "timeComparison n =
     (case n of
        Binary _ op (Call _ f args) r \<Rightarrow>
          if op \<notin> set [''=='', ''>='', ''>'', ''<='', ''<''] \<or> f \<notin> set TIME_FUNCTIONS then Inr None
          else (case args of
                  [] \<Rightarrow> Inl (JsError ''TypeError'')
                | Literal _ (LStr zone) # _ \<Rightarrow>
                    (case r of
                       Literal _ (LNum v _) \<Rightarrow>
                         Inr (if isInteger v
                              then Some \<lparr>cname = f, ctimezone = zoneName zone, coperator = op, cvalue = v\<rparr>
                              else None)
                     | _ \<Rightarrow> Inr None)
                | _ \<Rightarrow> Inr None)
      | _ \<Rightarrow> Inr None)"

text \<open>One round of the loop that narrows \<open>start\<close> and \<open>end\<close>.\<close>

definition narrow :: "timeComparison_t \<Rightarrow> jsnum \<times> jsnum \<Rightarrow> jsnum \<times> jsnum" where
  "narrow c limits =
     (let (lo, hi) = limits; v = cvalue c; next = js_add v (Fin 1); op = coperator c
      in if op = ''>='' then (js_max lo v, hi)
         else if op = ''>'' then (js_max lo next, hi)
         else if op = ''<'' then (lo, js_min hi v)
         else if op = ''<='' then (lo, js_min hi next)
         else if op = ''=='' then (js_max lo v, js_min hi next)
         else limits)"

definition timeRange :: "int \<times> int \<Rightarrow> timeComparison_t list \<Rightarrow> jsnum \<times> jsnum" where
  "timeRange domain comparisons =
     fold narrow comparisons (ofInt (fst domain), ofInt (snd domain))"

text \<open>\<open>Date.UTC(2026, 0, day)\<close>.\<close>

definition january2026 :: "int \<Rightarrow> int" where
  "january2026 day = (dayFromYear 2026 + day - 1) * msPerDay"

definition rangeText :: "translate \<Rightarrow> optionValue \<Rightarrow> optionValue \<Rightarrow> units" where
  "rangeText t from to =
     t (unitsOf ''{{start}}'' @ [0x2013] @ unitsOf ''{{end}}'') [(''start'', from), (''end'', to)]"

definition clockText :: "jsnum \<Rightarrow> units" where
  "clockText x = unitsOf (padStart 2 CHR ''0'' (numString x) @ '':00'')"

definition weekdayText :: "translator \<Rightarrow> string \<Rightarrow> jsnum \<Rightarrow> units bx" where
  "weekdayText tr lang x =
     (case weekdayShort tr (toIntlLocale (canonicalLocales tr) (Some lang)) (january2026 \<lfloor>valOf x\<rfloor>) of
        None \<Rightarrow> Inl (JsError ''RangeError'')
      | Some s \<Rightarrow> Inr s)"

definition unitLabel :: "string \<Rightarrow> string" where
  "unitLabel name =
     (case map_of [(''minute'', ''Minute''), (''month'', ''Month''), (''day'', ''Day'')] name of
        Some l \<Rightarrow> l | None \<Rightarrow> ''undefined'')"

definition describeRange ::
    "translator \<Rightarrow> translate \<Rightarrow> string \<Rightarrow> string \<Rightarrow> jsnum \<times> jsnum \<Rightarrow> (units \<times> descriptionKind) bx" where
  "describeRange tr t lang name limits =
     (let (lo, hi) = limits; final = js_sub hi (Fin 1)
      in if name = ''hour'' then Inr (rangeText t (OText (clockText lo)) (OText (clockText hi)), Clock)
         else if name = ''weekday'' then
           rbind (weekdayText tr lang (js_add (Fin 4) lo)) (\<lambda>from.
           rbind (weekdayText tr lang (js_sub (js_add (Fin 4) hi) (Fin 1))) (\<lambda>to.
           Inr (if js_eq lo final then from else rangeText t (OText from) (OText to), Calendar)))
         else Inr (t (unitsOf (unitLabel name)) [] @ unitsOf '': '' @
                (if js_eq lo final then unitsOf (numString lo) else rangeText t (ONum lo) (ONum final)),
              Calendar))"

definition describeTimeRange ::
    "translator \<Rightarrow> translate \<Rightarrow> string \<Rightarrow> timeComparison_t list \<Rightarrow> description option bx" where
  "describeTimeRange tr t lang comparisons =
     (case comparisons of
        [] \<Rightarrow> Inl (JsError ''TypeError'')
      | first # _ \<Rightarrow>
          (case DOMAINS (cname first) of
             None \<Rightarrow> Inl (JsError ''TypeError'')
           | Some domain \<Rightarrow>
               let (lo, hi) = timeRange domain comparisons
               in if js_le hi lo then Inr None
                  else rbind (describeRange tr t lang (cname first) (lo, hi)) (\<lambda>(text, kind).
                       Inr (Some \<lparr>stext = text, skind = kind, stimezone = ctimezone first, sdisjunction = False\<rparr>))))"

section \<open>Conditions\<close>

text \<open>\<open>p\<close>, \<open>c\<close> and \<open>len\<close> against a number.\<close>

definition tokenLabel :: "string \<Rightarrow> string option" where
  "tokenLabel = map_of [(''p'', ''Input''), (''c'', ''Output''), (''len'', ''Full input length'')]"

definition describeToken ::
    "translator \<Rightarrow> translate \<Rightarrow> string \<Rightarrow> string \<Rightarrow> string \<Rightarrow> jsnum \<Rightarrow> description option bx" where
  "describeToken tr t lang x op v =
     (case tokenLabel x of
        None \<Rightarrow> Inr None
      | Some label \<Rightarrow>
          (case localeNumber tr (toIntlLocale (canonicalLocales tr) (Some lang)) v of
             None \<Rightarrow> Inl (JsError ''RangeError'')
           | Some number \<Rightarrow>
               Inr (Some \<lparr>stext = t (unitsOf label) [] @ unitsOf ('' '' @ op @ '' '') @ number,
                 skind = Combined, stimezone = [], sdisjunction = False\<rparr>)))"

definition isTokenComparison :: "node \<Rightarrow> bool" where
  "isTokenComparison n =
     (case n of
        Binary _ op (Variable _ _) (Literal _ (LNum _ _)) \<Rightarrow>
          op \<in> set [''<'', ''<='', ''>'', ''>='', ''=='', ''!='']
      | _ \<Rightarrow> False)"

definition describeTokenNode ::
    "translator \<Rightarrow> translate \<Rightarrow> string \<Rightarrow> node \<Rightarrow> description option bx" where
  "describeTokenNode tr t lang n =
     (case n of
        Binary _ op (Variable _ x) (Literal _ (LNum v _)) \<Rightarrow> describeToken tr t lang x op v
      | _ \<Rightarrow> Inr None)"

text \<open>The \<open>Map\<close> from name and zone to the comparisons, in insertion order.\<close>

type_synonym timeRanges = "(string \<times> timeComparison_t list) list"

definition addRange :: "timeComparison_t \<Rightarrow> timeRanges \<Rightarrow> timeRanges" where
  "addRange c ranges =
     (let key = cname c @ '':'' @ ctimezone c
      in if key \<in> fst ` set ranges
         then map (\<lambda>(k, cs). (k, if k = key then cs @ [c] else cs)) ranges
         else ranges @ [(key, [c])])"

text \<open>A loop that stops at null.\<close>

fun optionMap :: "('a \<Rightarrow> 'b option bx) \<Rightarrow> 'a list \<Rightarrow> 'b list option bx" where
  "optionMap f [] = Inr (Some [])"
| "optionMap f (x # xs) =
     rbind (f x) (\<lambda>y. case y of None \<Rightarrow> Inr None
       | Some y' \<Rightarrow> rbind (optionMap f xs) (\<lambda>ys. Inr (map_option ((#) y') ys)))"

lemma optionMap_cong [fundef_cong]:
  "\<lbrakk>xs = ys; \<And>x. x \<in> set ys \<Longrightarrow> f x = g x\<rbrakk> \<Longrightarrow> optionMap f xs = optionMap g ys"
  by (induction ys arbitrary: xs) (auto cong: rbind_cong option.case_cong)

text \<open>
  The first loop of a conjunction: comparisons with the clock are collected by name and
  zone, every other part is described.
\<close>

fun collectParts ::
    "(node \<Rightarrow> description option bx) \<Rightarrow> node list \<Rightarrow> timeRanges \<Rightarrow> description list \<Rightarrow>
     (timeRanges \<times> description list) option bx" where
  "collectParts describe [] ranges parts = Inr (Some (ranges, parts))"
| "collectParts describe (n # ns) ranges parts =
     rbind (timeComparison n) (\<lambda>comparison.
     case comparison of
       Some c \<Rightarrow> collectParts describe ns (addRange c ranges) parts
     | None \<Rightarrow>
         rbind (describe n) (\<lambda>d. case d of
           None \<Rightarrow> Inr None
         | Some d' \<Rightarrow> collectParts describe ns ranges (parts @ [d'])))"

lemma collectParts_cong [fundef_cong]:
  "\<lbrakk>xs = ys; r = r'; p = p'; \<And>x. x \<in> set ys \<Longrightarrow> f x = g x\<rbrakk> \<Longrightarrow> collectParts f xs r p = collectParts g ys r' p'"
  by (induction ys arbitrary: xs r r' p p') (auto cong: rbind_cong option.case_cong)

definition parenthesised :: "bool \<Rightarrow> description \<Rightarrow> units" where
  "parenthesised conjunction d =
     (if conjunction \<and> sdisjunction d then unitsOf ''('' @ stext d @ unitsOf '')'' else stext d)"

definition joinParts :: "translate \<Rightarrow> bool \<Rightarrow> description list \<Rightarrow> units" where
  "joinParts t conjunction parts =
     (case parts of
        [] \<Rightarrow> []
      | p # ps \<Rightarrow>
          foldl (\<lambda>text part.
            t (unitsOf (if conjunction then ''{{first}} and {{second}}'' else ''{{first}} or {{second}}''))
              [(''first'', OText text), (''second'', OText (parenthesised conjunction part))])
            (parenthesised conjunction p) ps)"

definition combineParts :: "translate \<Rightarrow> bool \<Rightarrow> description list \<Rightarrow> description option" where
  "combineParts t conjunction parts =
     (let zones = unique (filter (\<lambda>z. z \<noteq> []) (map stimezone parts));
          calendars = filter (\<lambda>p. skind p = Calendar) parts;
          clocks = filter (\<lambda>p. skind p = Clock) parts
      in if parts = [] \<or> 1 < length zones then None
         else if length parts = 1 then Some (hd parts)
         else if conjunction \<and> length parts = 2 \<and> length calendars = 1 \<and> length clocks = 1
         then Some \<lparr>stext = stext (hd calendars) @ unitsOf '' '' @ stext (hd clocks), skind = Combined,
                stimezone = stimezone (hd parts), sdisjunction = False\<rparr>
         else Some \<lparr>stext = joinParts t conjunction parts,
                skind = (if length clocks = length parts then Clock else Combined),
                stimezone = (case zones of [] \<Rightarrow> [] | z # _ \<Rightarrow> z),
                sdisjunction = \<not> conjunction\<rparr>)"

function describeBillingCondition ::
    "translator \<Rightarrow> translate \<Rightarrow> string \<Rightarrow> node \<Rightarrow> description option bx" where
  "describeBillingCondition tr t lang n =
     (case n of
        Unary _ op a \<Rightarrow>
          if op = ''!''
          then rbind (describeBillingCondition tr t lang a) (\<lambda>d.
                 Inr (map_option (\<lambda>d'. d'\<lparr>
                   stext := t (unitsOf ''Outside these times: {{condition}}'') [(''condition'', OText (stext d'))],
                   skind := Combined\<rparr>) d))
          else Inr None
      | Binary _ op l r \<Rightarrow>
          if isTokenComparison n then describeTokenNode tr t lang n
          else rbind (timeComparison n) (\<lambda>single. case single of
            Some c \<Rightarrow> describeTimeRange tr t lang [c]
          | None \<Rightarrow>
              if op = ''&&'' then
                rbind (collectParts (describeBillingCondition tr t lang) (flattenBinary op n) [] []) (\<lambda>collected.
                case collected of
                  None \<Rightarrow> Inr None
                | Some (ranges, parts) \<Rightarrow>
                    rbind (optionMap (describeTimeRange tr t lang) (map snd ranges)) (\<lambda>times.
                    Inr (case times of None \<Rightarrow> None | Some ds \<Rightarrow> combineParts t True (parts @ ds))))
              else if op = ''||'' then
                rbind (optionMap (describeBillingCondition tr t lang) (flattenBinary op n)) (\<lambda>parts.
                Inr (case parts of None \<Rightarrow> None | Some ds \<Rightarrow> combineParts t False ds))
              else Inr None)
      | _ \<Rightarrow> Inr None)"
  by pat_completeness auto
termination
proof -
  have smaller: "size m < size (Binary sp op l r)" if "m \<in> set (flattenBinary op (Binary sp op l r))" for m sp op l r
  proof -
    have "m \<in> set (flattenBinary op l) \<or> m \<in> set (flattenBinary op r)" using that by simp
    then have "size m \<le> size l \<or> size m \<le> size r" using flattenBinary_size by blast
    then show ?thesis by auto
  qed
  show ?thesis
    by (relation "measure (\<lambda>(_, _, _, n). size n)") (use smaller in auto)
qed

declare describeBillingCondition.simps [simp del]

text \<open>The \<open>try\<close> block turns every exception into null; the locale defaults to English.\<close>

definition translateRaw :: "translate \<Rightarrow> translate" where
  "translateRaw t key opts = t key (opts @ [(''interpolation'', ORaw)])"

definition formatDescription :: "translate \<Rightarrow> description \<Rightarrow> units" where
  "formatDescription t d =
     (if stimezone d = [] then stext d
      else t (unitsOf ''{{condition}} ({{timezone}})'')
        [(''condition'', OText (stext d)), (''timezone'', OText (unitsOf (stimezone d)))])"

definition formatBillingCondition ::
    "translator \<Rightarrow> string option \<Rightarrow> string \<Rightarrow> compiledCache \<Rightarrow> units option \<times> compiledCache" where
  "formatBillingCondition tr lang src cache =
     (let (compiled, cache') = compileBillingExpression src cache;
          t = translateRaw (translateKey tr);
          loc = (case lang of None \<Rightarrow> ''en'' | Some l \<Rightarrow> l)
      in (case compiled of
            CompileFailure _ \<Rightarrow> None
          | Ready c \<Rightarrow>
              (case describeBillingCondition tr t loc (cast c) of
                 Inl _ \<Rightarrow> None
               | Inr d \<Rightarrow> map_option (formatDescription t) d),
          cache'))"

section \<open>Ranges are exact\<close>




















section \<open>Properties\<close>






end
