(* ===== verification/BxRules.thy ===== *)
theory BxRules
  imports BxVisual BxStructure
begin

text \<open>
  Model of \<open>pricing/lib/billing-expr.ts\<close>: the adapters that turn a billing expression into the
  rows of a price table, and the editor of request rules. A request rule is a factor
  \<open>(condition ? multiplier : 1)\<close> of the expression; the editor splits an expression into its base
  price and its rules, reads the rules into groups of conditions, and writes the groups back.
  The regular expressions of the source are matchers: each of them can match in one way only,
  since a run of characters is always followed by a character outside its class.
\<close>

section \<open>The variable registry\<close>

datatype varSide = Input | Output | Condition

record billingVar =
  bkey :: string
  bfield :: "string option"
  btierField :: "string option"
  bvarLabel :: string
  bshortLabel :: string
  bside :: varSide
  bisBase :: bool
  bisConditionOnly :: bool
  bgroup :: "string option"

definition pricedVar ::
    "string \<Rightarrow> string \<Rightarrow> string \<Rightarrow> string \<Rightarrow> string \<Rightarrow> varSide \<Rightarrow> bool \<Rightarrow> string option \<Rightarrow> billingVar" where
  "pricedVar k f t l s side base g =
     \<lparr>bkey = k, bfield = Some f, btierField = Some t, bvarLabel = l, bshortLabel = s, bside = side,
      bisBase = base, bisConditionOnly = False, bgroup = g\<rparr>"

definition BILLING_VARS :: "billingVar list" where
  "BILLING_VARS =
     [pricedVar ''p'' ''inputPrice'' ''input_unit_cost'' ''Input price'' ''Input'' Input True None,
      pricedVar ''c'' ''outputPrice'' ''output_unit_cost'' ''Completion price'' ''Output'' Output True None,
      \<lparr>bkey = ''len'', bfield = None, btierField = None, bvarLabel = ''Input length'', bshortLabel = ''Length'',
       bside = Condition, bisBase = False, bisConditionOnly = True, bgroup = None\<rparr>,
      pricedVar ''cr'' ''cacheReadPrice'' ''cache_read_unit_cost'' ''Cache read price'' ''Cache Read'' Input False (Some ''cache''),
      pricedVar ''cc'' ''cacheCreatePrice'' ''cache_create_unit_cost'' ''Cache create price'' ''Cache Write'' Input False (Some ''cache''),
      pricedVar ''img_cr'' ''imageCachePrice'' ''image_cache_unit_cost'' ''Image cache input price'' ''Image Cache'' Input False (Some ''cache''),
      pricedVar ''cc1h'' ''cacheCreate1hPrice'' ''cache_create_1h_unit_cost'' ''Cache create (1h) price'' ''Cache Write (1h)'' Input False (Some ''cache''),
      pricedVar ''img'' ''imagePrice'' ''image_unit_cost'' ''Image input price'' ''Image In'' Input False (Some ''media''),
      pricedVar ''img_o'' ''imageOutputPrice'' ''image_output_unit_cost'' ''Image output price'' ''Image Out'' Output False (Some ''media''),
      pricedVar ''ai'' ''audioInputPrice'' ''audio_input_unit_cost'' ''Audio input price'' ''Audio In'' Input False (Some ''media''),
      pricedVar ''ao'' ''audioOutputPrice'' ''audio_output_unit_cost'' ''Audio output price'' ''Audio Out'' Output False (Some ''media'')]"

definition BILLING_PRICING_VARS :: "billingVar list" where
  "BILLING_PRICING_VARS = filter (\<lambda>v. \<not> bisConditionOnly v) BILLING_VARS"

definition BILLING_CONDITION_VARS :: "string list" where
  "BILLING_CONDITION_VARS = map bkey (filter (\<lambda>v. bisBase v \<or> bisConditionOnly v) BILLING_VARS)"

definition BILLING_VAR_KEY_TO_FIELD :: "string \<Rightarrow> string option" where
  "BILLING_VAR_KEY_TO_FIELD = map_of (map (\<lambda>v. (bkey v, the (bfield v))) BILLING_PRICING_VARS)"

definition BILLING_EXTRA_VARS :: "billingVar list" where
  "BILLING_EXTRA_VARS = filter (\<lambda>v. \<not> bisBase v \<and> \<not> bisConditionOnly v) BILLING_VARS"

definition BILLING_CACHE_VAR_MAP :: "(string \<times> string) list" where
  "BILLING_CACHE_VAR_MAP = map (\<lambda>v. (the (btierField v), bkey v)) BILLING_EXTRA_VARS"

section \<open>Conditions and rules\<close>

definition NUMERIC_LITERAL_REGEX :: "string \<Rightarrow> bool" where
  "NUMERIC_LITERAL_REGEX s =
     (let t = (if startsWith s ''-'' then drop 1 s else s) in t \<noteq> [] \<and> scanNumber t = t)"

text \<open>
  \<open>source\<close> and \<open>mode\<close> are the strings of the source: \<open>param\<close> or \<open>header\<close>, and \<open>eq\<close>, \<open>contains\<close>,
  \<open>gt\<close>, \<open>gte\<close>, \<open>lt\<close>, \<open>lte\<close>, \<open>exists\<close>, \<open>range\<close>.
\<close>

record paramHeaderCondition =
  phSource :: string
  phPath :: string
  phMode :: string
  phValue :: string

record timeCondition =
  tcFunc :: string
  tcZone :: string
  tcMode :: string
  tcValue :: string
  tcStart :: string
  tcEnd :: string

datatype requestCondition = TimeCondition timeCondition | ParamHeaderCondition paramHeaderCondition

record requestRuleGroup =
  rgConditions :: "requestCondition list"
  rgMultiplier :: string
  rgConditionText :: "string option"
  rgMatched :: "bool option"

record requestRuleTrace =
  rtCond :: string
  rtMultiplier :: jsnum
  rtMatched :: bool

section \<open>Matchers\<close>

type_synonym 'a matcher = "string \<Rightarrow> ('a \<times> string) option"

definition mret :: "'a \<Rightarrow> 'a matcher" where
  "mret a s = Some (a, s)"

definition mthen :: "'a matcher \<Rightarrow> ('a \<Rightarrow> 'b matcher) \<Rightarrow> 'b matcher" where
  "mthen m f s = (case m s of None \<Rightarrow> None | Some (a, r) \<Rightarrow> f a r)"

text \<open>A fixed text; one of several texts, none a prefix of another; a run of a class (\<open>+\<close>).\<close>

definition mtext :: "string \<Rightarrow> unit matcher" where
  "mtext p s = (if startsWith s p then Some ((), drop (length p) s) else None)"

definition moneOf :: "string list \<Rightarrow> string matcher" where
  "moneOf ps s = map_option (\<lambda>p. (p, drop (length p) s)) (find (startsWith s) ps)"

definition mrun :: "(char \<Rightarrow> bool) \<Rightarrow> string matcher" where
  "mrun P s = (if takeWhile P s = [] then None else Some (takeWhile P s, dropWhile P s))"

text \<open>The whole text, as \<open>^...$\<close> demands.\<close>

definition full :: "'a matcher \<Rightarrow> string \<Rightarrow> 'a option" where
  "full m s = (case m s of Some (a, []) \<Rightarrow> Some a | _ \<Rightarrow> None)"

text \<open>\<open>[\d.eE+-]\<close>, and \<open>\("([^"]+)"\)\<close>.\<close>

definition numeralChar :: "char \<Rightarrow> bool" where
  "numeralChar c \<longleftrightarrow> isDigit c \<or> c \<in> set ''.eE+-''"

definition quotedArg :: "string matcher" where
  "quotedArg =
     mthen (mtext ''(\"'') (\<lambda>_. mthen (mrun (\<lambda>c. c \<noteq> quoteDbl)) (\<lambda>x. mthen (mtext ''\")'') (\<lambda>_. mret x)))"

text \<open>\<open>"(?:[^"\\]|\\.)*"\<close>, with its quotes; a dot matches no line terminator.\<close>

definition lineTerminator :: "char \<Rightarrow> bool" where
  "lineTerminator c \<longleftrightarrow> c = lineFeed \<or> c = carriageReturn"

fun literalBody :: "string matcher" where
  "literalBody [] = None"
| "literalBody (c # s) =
     (if c = quoteDbl then Some ([c], s)
      else if c = backslash
      then (case s of
              [] \<Rightarrow> None
            | d # r \<Rightarrow>
                if lineTerminator d then None
                else map_option (\<lambda>(b, q). (c # d # b, q)) (literalBody r))
      else map_option (\<lambda>(b, q). (c # b, q)) (literalBody s))"

definition stringLiteral :: "string matcher" where
  "stringLiteral = mthen (mtext [quoteDbl]) (\<lambda>_. mthen literalBody (\<lambda>b. mret (quoteDbl # b)))"

text \<open>\<open>(.+)$\<close>.\<close>

definition restOfLine :: "string matcher" where
  "restOfLine s = (if s \<noteq> [] \<and> list_all (\<lambda>c. \<not> lineTerminator c) s then Some (s, []) else None)"

section \<open>Values\<close>

definition splitTopLevel :: "string \<Rightarrow> string \<Rightarrow> string list bx" where
  "splitTopLevel operator expr =
     (case splitExpressionAtTopLevel expr operator of
        Some ps \<Rightarrow> Inr ps
      | None \<Rightarrow> Inl (OutsideModel ''divergence''))"

definition splitTopLevelMultiply :: "string \<Rightarrow> string list bx" where
  "splitTopLevelMultiply = splitTopLevel ''*''"

definition splitTopLevelAnd :: "string \<Rightarrow> string list bx" where
  "splitTopLevelAnd = splitTopLevel ''&&''"

text \<open>The texts the model can hold.\<close>

definition ofUnits :: "units \<Rightarrow> string bx" where
  "ofUnits us = (if list_all (\<lambda>u. u < 256) us then Inr (map char_of us) else Inl (OutsideModel ''code unit''))"

text \<open>\<open>null\<close> for a text that is no literal, and for \<open>null\<close>.\<close>

definition parseExprLiteral :: "string \<Rightarrow> json option" where
  "parseExprLiteral raw =
     (let s = trim raw
      in if s = ''true'' \<or> s = ''false'' \<or> NUMERIC_LITERAL_REGEX s then Some (JsonStr (unitsOf s))
         else case parseJson (unitsOf s) of
                Inl _ \<Rightarrow> None
              | Inr v \<Rightarrow> if v = JsonNull then None else Some v)"

text \<open>\<open>String(parsed)\<close>.\<close>

definition literalText :: "json \<Rightarrow> string bx" where
  "literalText v =
     (case jsonText v of
        None \<Rightarrow> Inl (JsError ''Cannot convert object to primitive value'')
      | Some us \<Rightarrow> ofUnits us)"

text \<open>\<open>JSON.parse(text) as string\<close> for a text that \<open>stringLiteral\<close> has matched; the error is not caught.\<close>

definition parseStringLiteral :: "string \<Rightarrow> string bx" where
  "parseStringLiteral s =
     (case parseJson (unitsOf s) of
        Inr (JsonStr us) \<Rightarrow> ofUnits us
      | _ \<Rightarrow> Inl (JsError ''SyntaxError''))"

definition TIME_FUNC_RANGES :: "string \<Rightarrow> int \<times> int" where
  "TIME_FUNC_RANGES f =
     (if f = ''hour'' then (0, 23) else if f = ''minute'' then (0, 59) else if f = ''weekday'' then (0, 6)
      else if f = ''month'' then (1, 12) else (1, 31))"

definition isTimeValueInRange :: "string \<Rightarrow> string \<Rightarrow> bool" where
  "isTimeValueInRange f s =
     (if \<not> NUMERIC_LITERAL_REGEX s then False
      else let x = stringToNumber s
           in if \<not> isInteger x then False
              else let (lo, hi) = TIME_FUNC_RANGES f
                   in js_le (Fin (of_int lo)) x \<and> js_le x (Fin (of_int hi)))"

section \<open>Reading conditions\<close>

definition timeProbe :: "(string \<times> string) matcher" where
  "timeProbe = mthen (moneOf TIME_FUNCTIONS) (\<lambda>f. mthen quotedArg (\<lambda>z. mret (f, z)))"

text \<open>\<open>fn("tz") >= N (?:&&|\|\|) fn("tz") < M\<close>, the function and the zone repeated.\<close>

definition rangePattern :: "(string \<times> string \<times> string \<times> string) matcher" where
  "rangePattern =
     mthen timeProbe (\<lambda>(f, z).
     mthen (mtext '' >= '') (\<lambda>_.
     mthen (mrun numeralChar) (\<lambda>s.
     mthen (moneOf ['' && '', '' || '']) (\<lambda>_.
     mthen (mtext (f @ ''(\"'' @ z @ ''\") < '')) (\<lambda>_.
     mthen (mrun numeralChar) (\<lambda>e.
     mret (f, z, s, e)))))))"

definition scalarPattern :: "(string \<times> string \<times> string \<times> string) matcher" where
  "scalarPattern =
     mthen timeProbe (\<lambda>(f, z).
     mthen (moneOf ['' == '', '' >= '', '' < '']) (\<lambda>op.
     mthen (mrun numeralChar) (\<lambda>v.
     mret (f, z, op, v))))"

definition rangeCondition :: "string \<Rightarrow> string \<Rightarrow> string \<Rightarrow> string \<Rightarrow> timeCondition" where
  "rangeCondition f z s e =
     \<lparr>tcFunc = f, tcZone = z, tcMode = ''range'', tcValue = '''', tcStart = s, tcEnd = e\<rparr>"

definition scalarCondition :: "string \<Rightarrow> string \<Rightarrow> string \<Rightarrow> string \<Rightarrow> timeCondition" where
  "scalarCondition f z mode v =
     \<lparr>tcFunc = f, tcZone = z, tcMode = mode, tcValue = v, tcStart = '''', tcEnd = ''''\<rparr>"

definition scalarMode :: "string \<Rightarrow> string" where
  "scalarMode op = (if op = '' >= '' then ''gte'' else if op = '' < '' then ''lt'' else ''eq'')"

definition tryParseTimeCondition :: "string \<Rightarrow> timeCondition option" where
  "tryParseTimeCondition expr =
     (let m = full rangePattern expr;
          m = (if m = None
               then full (mthen (mtext ''('') (\<lambda>_. mthen rangePattern (\<lambda>r. mthen (mtext '')'') (\<lambda>_. mret r)))) expr
               else m)
      in case m of
           Some (f, z, s, e) \<Rightarrow>
             if \<not> isTimeValueInRange f s \<or> \<not> isTimeValueInRange f e then None
             else Some (rangeCondition f z s e)
         | None \<Rightarrow>
             (case full scalarPattern expr of
                Some (f, z, op, v) \<Rightarrow>
                  if \<not> isTimeValueInRange f v then None else Some (scalarCondition f z (scalarMode op) v)
              | None \<Rightarrow> None))"

definition headerExists :: "string matcher" where
  "headerExists = mthen (mtext ''header'') (\<lambda>_. mthen quotedArg (\<lambda>p. mthen (mtext '' != \"\"'') (\<lambda>_. mret p)))"

definition paramExists :: "string matcher" where
  "paramExists = mthen (mtext ''param'') (\<lambda>_. mthen quotedArg (\<lambda>p. mthen (mtext '' != nil'') (\<lambda>_. mret p)))"

definition headerContains :: "(string \<times> string) matcher" where
  "headerContains =
     mthen (mtext ''has(header'') (\<lambda>_.
     mthen quotedArg (\<lambda>p.
     mthen (mtext '', '') (\<lambda>_.
     mthen stringLiteral (\<lambda>v.
     mthen (mtext '')'') (\<lambda>_. mret (p, v))))))"

definition paramContains :: "(string \<times> string \<times> string) matcher" where
  "paramContains =
     mthen paramExists (\<lambda>p.
     mthen (mtext '' && has(param'') (\<lambda>_.
     mthen quotedArg (\<lambda>q.
     mthen (mtext '', '') (\<lambda>_.
     mthen stringLiteral (\<lambda>v.
     mthen (mtext '')'') (\<lambda>_. mret (p, q, v)))))))"

definition paramCompares :: "(string \<times> string \<times> string \<times> string) matcher" where
  "paramCompares =
     mthen paramExists (\<lambda>p.
     mthen (mtext '' && param'') (\<lambda>_.
     mthen quotedArg (\<lambda>q.
     mthen (moneOf ['' > '', '' >= '', '' < '', '' <= '']) (\<lambda>op.
     mthen (mrun numeralChar) (\<lambda>v. mret (p, q, op, v))))))"

definition equalsText :: "(string \<times> string \<times> string) matcher" where
  "equalsText =
     mthen (moneOf [''param'', ''header'']) (\<lambda>src.
     mthen quotedArg (\<lambda>p.
     mthen (mtext '' == '') (\<lambda>_.
     mthen restOfLine (\<lambda>v. mret (src, p, v)))))"

definition phCond :: "string \<Rightarrow> string \<Rightarrow> string \<Rightarrow> string \<Rightarrow> requestCondition" where
  "phCond src p mode v = ParamHeaderCondition \<lparr>phSource = src, phPath = p, phMode = mode, phValue = v\<rparr>"

definition compareMode :: "string \<Rightarrow> string" where
  "compareMode op =
     (if op = '' > '' then ''gt'' else if op = '' >= '' then ''gte'' else if op = '' < '' then ''lt'' else ''lte'')"

text \<open>The last of the patterns, \<open>== literal\<close>.\<close>

definition readEquals :: "string \<Rightarrow> requestCondition option bx" where
  "readEquals expr =
     (case full equalsText expr of
        None \<Rightarrow> Inr None
      | Some (src, p, raw) \<Rightarrow>
          (case parseExprLiteral raw of
             None \<Rightarrow> Inr None
           | Some v \<Rightarrow> rbind (literalText v) (\<lambda>t. Inr (Some (phCond src p ''eq'' t)))))"

text \<open>The two guarded patterns on a parameter, which must name it twice.\<close>

definition readGuarded :: "string \<Rightarrow> requestCondition option bx" where
  "readGuarded expr =
     (let contains = (case full paramContains expr of Some (p, q, v) \<Rightarrow> if p = q then Some (p, v) else None | None \<Rightarrow> None);
          compares = (case full paramCompares expr of Some (p, q, op, v) \<Rightarrow> if p = q then Some (p, op, v) else None | None \<Rightarrow> None)
      in case contains of
           Some (p, v) \<Rightarrow> rbind (parseStringLiteral v) (\<lambda>t. Inr (Some (phCond ''param'' p ''contains'' t)))
         | None \<Rightarrow>
             (case compares of
                Some (p, op, v) \<Rightarrow> Inr (Some (phCond ''param'' p (compareMode op) v))
              | None \<Rightarrow> readEquals expr))"

definition tryParseRequestCondition :: "string \<Rightarrow> requestCondition option bx" where
  "tryParseRequestCondition expr =
     (case tryParseTimeCondition expr of
        Some c \<Rightarrow> Inr (Some (TimeCondition c))
      | None \<Rightarrow>
     (case full headerExists expr of
        Some p \<Rightarrow> Inr (Some (phCond ''header'' p ''exists'' ''''))
      | None \<Rightarrow>
     (case full paramExists expr of
        Some p \<Rightarrow> Inr (Some (phCond ''param'' p ''exists'' ''''))
      | None \<Rightarrow>
     (case full headerContains expr of
        Some (p, v) \<Rightarrow> rbind (parseStringLiteral v) (\<lambda>t. Inr (Some (phCond ''header'' p ''contains'' t)))
      | None \<Rightarrow> readGuarded expr))))"

text \<open>Both texts are read as time conditions; the source tests of the code always hold.\<close>

definition tryParseTimeRangePair :: "string \<Rightarrow> string \<Rightarrow> timeCondition option" where
  "tryParseTimeRangePair lower upper =
     (case (tryParseTimeCondition lower, tryParseTimeCondition upper) of
        (Some a, Some b) \<Rightarrow>
          if tcFunc a \<noteq> tcFunc b \<or> tcZone a \<noteq> tcZone b then None
          else if tcMode a \<noteq> ''gte'' \<or> tcMode b \<noteq> ''lt'' then None
          else Some (rangeCondition (tcFunc a) (tcZone a) (tcValue a) (tcValue b))
      | _ \<Rightarrow> None)"

text \<open>The loop over the parts, which may take two parts at once.\<close>

definition nextPart :: "string list \<Rightarrow> string" where
  "nextPart rest = (case rest of [] \<Rightarrow> [] | n # _ \<Rightarrow> trim n)"

function conditionLoop :: "string list \<Rightarrow> requestCondition list \<Rightarrow> requestCondition list option bx" where
  "conditionLoop [] cs = Inr (if cs \<noteq> [] then Some cs else None)"
| "conditionLoop (raw # rest) cs =
     (let part = trim raw; next = nextPart rest;
          merged = (if next \<noteq> [] then tryParseTimeRangePair part next else None)
      in case merged of
           Some c \<Rightarrow> conditionLoop (tl rest) (cs @ [TimeCondition c])
         | None \<Rightarrow>
             rbind (tryParseRequestCondition part) (\<lambda>found.
             case found of
               None \<Rightarrow> Inr None
             | Some c \<Rightarrow> conditionLoop rest (cs @ [c])))"
  by pat_completeness auto

termination conditionLoop by (relation "measure (\<lambda>(parts, _). length parts)") auto

definition tryParseRequestConditions :: "string \<Rightarrow> requestCondition list option bx" where
  "tryParseRequestConditions conditionStr =
     (case tryParseTimeCondition (trim conditionStr) of
        Some c \<Rightarrow> Inr (Some [TimeCondition c])
      | None \<Rightarrow> rbind (splitTopLevelAnd conditionStr) (\<lambda>andParts. conditionLoop andParts []))"

section \<open>Reading rules\<close>

text \<open>\<open>/^\((.+) \? ([\d.eE+-]+) : 1\)$/s\<close>, read from the end.\<close>

definition factorMatch :: "string \<Rightarrow> (string \<times> string) option" where
  "factorMatch part =
     (if \<not> startsWith part ''('' then None
      else let r = rev (drop 1 part); tail = rev '' : 1)'';
               r' = drop (length tail) r; num = takeWhile numeralChar r'; q = dropWhile numeralChar r'
           in if startsWith r tail \<and> num \<noteq> [] \<and> startsWith q (rev '' ? '') \<and> drop 3 q \<noteq> []
              then Some (rev (drop 3 q), rev num) else None)"

definition tryParseRuleGroupFactor :: "string \<Rightarrow> requestRuleGroup option bx" where
  "tryParseRuleGroupFactor part =
     (case factorMatch part of
        None \<Rightarrow> Inr None
      | Some (condition, multiplier) \<Rightarrow>
          rbind (tryParseRequestConditions condition) (\<lambda>conditions.
          Inr (map_option (\<lambda>cs.
            \<lparr>rgConditions = cs, rgMultiplier = multiplier, rgConditionText = None, rgMatched = None\<rparr>) conditions)))"

definition requestRuleGroupFromTrace :: "requestRuleTrace \<Rightarrow> requestRuleGroup bx" where
  "requestRuleGroupFromTrace rule =
     (let conditionText = trim (rtCond rule)
      in rbind (tryParseRequestConditions conditionText) (\<lambda>conditions.
         Inr \<lparr>rgConditions = (case conditions of Some cs \<Rightarrow> cs | None \<Rightarrow> []),
              rgMultiplier = numString (rtMultiplier rule),
              rgConditionText = Some conditionText, rgMatched = Some (rtMatched rule)\<rparr>))"

definition requestRuleGroupsFromTrace :: "requestRuleTrace list \<Rightarrow> requestRuleGroup list bx" where
  "requestRuleGroupsFromTrace = mapBx requestRuleGroupFromTrace"

fun groupLoop :: "string list \<Rightarrow> requestRuleGroup list \<Rightarrow> requestRuleGroup list option bx" where
  "groupLoop [] groups = Inr (Some groups)"
| "groupLoop (part # ps) groups =
     rbind (tryParseRuleGroupFactor part) (\<lambda>group.
     case group of
       None \<Rightarrow> Inr None
     | Some g \<Rightarrow> groupLoop ps (groups @ [g]))"

definition tryParseRequestRuleExpr :: "string \<Rightarrow> requestRuleGroup list option bx" where
  "tryParseRequestRuleExpr expr =
     (if trim expr = [] then Inr (Some [])
      else rbind (splitTopLevelMultiply (trim expr)) (\<lambda>ps. groupLoop ps []))"

section \<open>Splitting and combining\<close>

text \<open>\<open>compiled.requestRules.some(rule => rule.node === compiled.ast)\<close>.\<close>

fun tracedAst :: "compilationResult \<Rightarrow> bool" where
  "tracedAst (Ready c) = list_ex (\<lambda>rule. rnode rule = cast c) (crules c)"
| "tracedAst (CompileFailure _) = False"

text \<open>The two tests on a factor, with the compiler's cache.\<close>

definition isRulePart :: "string \<Rightarrow> compiledCache \<Rightarrow> bool bx \<times> compiledCache" where
  "isRulePart part cache =
     (case tryParseRequestRuleExpr part of
        Inl e \<Rightarrow> (Inl e, cache)
      | Inr found \<Rightarrow>
          (let (compiled, cache') = compileBillingExpression part cache
           in (Inr ((case found of Some gs \<Rightarrow> gs \<noteq> [] | None \<Rightarrow> False) \<or> tracedAst compiled), cache')))"

text \<open>\<open>parts.forEach\<close>: the rule parts and the base parts.\<close>

fun sortParts ::
    "string list \<Rightarrow> string list \<times> string list \<Rightarrow> compiledCache \<Rightarrow> (string list \<times> string list) bx \<times> compiledCache" where
  "sortParts [] acc cache = (Inr acc, cache)"
| "sortParts (part # ps) (ruleParts, baseParts) cache =
     (case isRulePart part cache of
        (Inl e, cache') \<Rightarrow> (Inl e, cache')
      | (Inr rule, cache') \<Rightarrow>
          sortParts ps (if rule then (ruleParts @ [part], baseParts) else (ruleParts, baseParts @ [part])) cache')"

record splitBilling =
  sbBillingExpr :: string
  sbRequestRuleExpr :: string

text \<open>What is returned once the parts are sortedParts.\<close>

definition rejoinParts :: "string \<Rightarrow> string list \<times> string list \<Rightarrow> splitBilling" where
  "rejoinParts trimmed sortedParts =
     (let (ruleParts, baseParts) = sortedParts;
          quantityParts = filter (\<lambda>part. unwrapExpressionParens part = ''image_count'') baseParts
      in if ruleParts = [] \<or> int (length baseParts) - int (length quantityParts) \<noteq> 1
         then \<lparr>sbBillingExpr = trimmed, sbRequestRuleExpr = ''''\<rparr>
         else \<lparr>sbBillingExpr = joinWith '' * '' (map unwrapExpressionParens baseParts),
               sbRequestRuleExpr = joinWith '' * '' ruleParts\<rparr>)"

definition splitBillingExprAndRequestRules :: "string \<Rightarrow> compiledCache \<Rightarrow> splitBilling bx \<times> compiledCache" where
  "splitBillingExprAndRequestRules expr cache =
     (let trimmed = trim expr
      in if trimmed = [] then (Inr \<lparr>sbBillingExpr = '''', sbRequestRuleExpr = ''''\<rparr>, cache)
         else case splitTopLevelMultiply trimmed of
                Inl e \<Rightarrow> (Inl e, cache)
              | Inr ps \<Rightarrow>
                  if length ps \<le> 1 then (Inr \<lparr>sbBillingExpr = trimmed, sbRequestRuleExpr = ''''\<rparr>, cache)
                  else let (sortedParts, cache') = sortParts ps ([], []) cache
                       in (rbind sortedParts (\<lambda>parts. Inr (rejoinParts trimmed parts)), cache'))"

definition combineBillingExpr :: "string \<Rightarrow> string \<Rightarrow> string" where
  "combineBillingExpr baseExpr requestRuleExpr =
     (let base = trim baseExpr; rules = trim requestRuleExpr
      in if base = [] then ''''
         else if rules = [] then base
         else ''('' @ base @ '') * '' @ rules)"

section \<open>The editor's conditions\<close>

definition createEmptyCondition :: paramHeaderCondition where
  "createEmptyCondition = \<lparr>phSource = ''param'', phPath = '''', phMode = ''eq'', phValue = ''''\<rparr>"

definition createEmptyTimeCondition :: timeCondition where
  "createEmptyTimeCondition = scalarCondition ''hour'' ''Asia/Shanghai'' ''gte'' ''''"

definition createEmptyRuleGroup :: requestRuleGroup where
  "createEmptyRuleGroup =
     \<lparr>rgConditions = [ParamHeaderCondition createEmptyCondition], rgMultiplier = '''',
      rgConditionText = None, rgMatched = None\<rparr>"

definition createEmptyTimeRuleGroup :: requestRuleGroup where
  "createEmptyTimeRuleGroup =
     \<lparr>rgConditions = [TimeCondition createEmptyTimeCondition], rgMultiplier = '''',
      rgConditionText = None, rgMatched = None\<rparr>"

text \<open>The options as pairs of a mode and a label key.\<close>

definition getRequestRuleMatchOptions :: "string \<Rightarrow> (string \<times> string) list" where
  "getRequestRuleMatchOptions kind =
     (if kind = ''time''
      then [(''eq'', ''Equals''), (''gte'', ''Greater than or equal''), (''lt'', ''Less than''), (''range'', ''Overnight range'')]
      else let base = [(''eq'', ''Equals''), (''contains'', ''Contains''), (''exists'', ''Exists'')]
           in if kind = ''header'' then base
              else base @ [(''gt'', ''Greater than''), (''gte'', ''Greater than or equal''), (''lt'', ''Less than''),
                           (''lte'', ''Less than or equal'')])"

text \<open>\<open>Partial<RequestCondition>\<close>: an absent, undefined or null property is \<open>None\<close>.\<close>

record partialCondition =
  pcSource :: "string option"
  pcPath :: "string option"
  pcMode :: "string option"
  pcValue :: "string option"
  pcTimeFunc :: "string option"
  pcTimezone :: "string option"
  pcRangeStart :: "string option"
  pcRangeEnd :: "string option"

definition emptyPartial :: partialCondition where
  "emptyPartial =
     \<lparr>pcSource = None, pcPath = None, pcMode = None, pcValue = None, pcTimeFunc = None, pcTimezone = None,
      pcRangeStart = None, pcRangeEnd = None\<rparr>"

fun toPartial :: "requestCondition \<Rightarrow> partialCondition" where
  "toPartial (TimeCondition c) =
     emptyPartial\<lparr>pcSource := Some ''time'', pcTimeFunc := Some (tcFunc c), pcTimezone := Some (tcZone c),
       pcMode := Some (tcMode c), pcValue := Some (tcValue c), pcRangeStart := Some (tcStart c), pcRangeEnd := Some (tcEnd c)\<rparr>"
| "toPartial (ParamHeaderCondition c) =
     emptyPartial\<lparr>pcSource := Some (phSource c), pcPath := Some (phPath c), pcMode := Some (phMode c),
       pcValue := Some (phValue c)\<rparr>"

text \<open>\<open>x == null ? '' : String(x)\<close> and \<open>x || fallback\<close>.\<close>

definition orEmpty :: "string option \<Rightarrow> string" where
  "orEmpty x = (case x of None \<Rightarrow> '''' | Some s \<Rightarrow> s)"

definition orElse :: "string option \<Rightarrow> string \<Rightarrow> string" where
  "orElse x fallback = (case x of None \<Rightarrow> fallback | Some s \<Rightarrow> if s = '''' then fallback else s)"

definition offeredMode :: "string \<Rightarrow> string option \<Rightarrow> string \<Rightarrow> string" where
  "offeredMode kind mode fallback =
     (case mode of
        None \<Rightarrow> fallback
      | Some m \<Rightarrow> if list_ex (\<lambda>item. fst item = m) (getRequestRuleMatchOptions kind) then m else fallback)"

definition isTimeFunc :: "string option \<Rightarrow> bool" where
  "isTimeFunc x = (case x of None \<Rightarrow> False | Some f \<Rightarrow> f \<in> set TIME_FUNCTIONS)"

definition normalizeTime :: "partialCondition \<Rightarrow> timeCondition" where
  "normalizeTime c =
     \<lparr>tcFunc = (if isTimeFunc (pcTimeFunc c) then the (pcTimeFunc c) else ''hour''),
      tcZone = orElse (pcTimezone c) ''Asia/Shanghai'',
      tcMode = offeredMode ''time'' (pcMode c) ''gte'',
      tcValue = orEmpty (pcValue c), tcStart = orEmpty (pcRangeStart c), tcEnd = orEmpty (pcRangeEnd c)\<rparr>"

definition normalizeParamHeader :: "string \<Rightarrow> partialCondition \<Rightarrow> paramHeaderCondition" where
  "normalizeParamHeader kind c =
     \<lparr>phSource = kind, phPath = orElse (pcPath c) '''', phMode = offeredMode kind (pcMode c) ''eq'',
      phValue = orEmpty (pcValue c)\<rparr>"

definition normalizeCondition :: "partialCondition option \<Rightarrow> requestCondition" where
  "normalizeCondition cond =
     (let c = (case cond of None \<Rightarrow> emptyPartial | Some c \<Rightarrow> c)
      in if pcSource c = Some ''time'' then TimeCondition (normalizeTime c)
         else ParamHeaderCondition
           (normalizeParamHeader (if pcSource c = Some ''header'' then ''header'' else ''param'') c))"

section \<open>Writing\<close>

definition buildExprLiteral :: "string \<Rightarrow> string \<Rightarrow> string" where
  "buildExprLiteral mode val =
     (let s = trim val
      in if mode = ''contains'' then jsonString s
         else if s = ''true'' \<or> s = ''false'' then s
         else if NUMERIC_LITERAL_REGEX s then s
         else jsonString s)"

text \<open>The text of a function applied to a string.\<close>

definition probeText :: "string \<Rightarrow> string \<Rightarrow> string" where
  "probeText f arg = f @ ''('' @ jsonString arg @ '')''"

definition scalarOperator :: "string \<Rightarrow> string" where
  "scalarOperator mode = (if mode = ''gte'' then ''>='' else if mode = ''lt'' then ''<'' else ''=='')"

text \<open>
  \<open>normalizeCondition(cond) as TimeCondition\<close> keeps the source, so that the cast is its first
  case; likewise below for the conditions on parameters and headers.
\<close>

definition buildTimeConditionExpr :: "timeCondition \<Rightarrow> string" where
  "buildTimeConditionExpr cond =
     (let n = normalizeTime (toPartial (TimeCondition cond)); fn = probeText (tcFunc n) (tcZone n)
      in if tcMode n = ''range''
         then let s = trim (tcStart n); e = trim (tcEnd n)
              in if \<not> isTimeValueInRange (tcFunc n) s \<or> \<not> isTimeValueInRange (tcFunc n) e then ''''
                 else if js_lt (stringToNumber e) (stringToNumber s)
                 then fn @ '' >= '' @ s @ '' || '' @ fn @ '' < '' @ e
                 else fn @ '' >= '' @ s @ '' && '' @ fn @ '' < '' @ e
         else let v = trim (tcValue n)
              in if \<not> isTimeValueInRange (tcFunc n) v then ''''
                 else fn @ '' '' @ scalarOperator (tcMode n) @ '' '' @ v)"

definition compareOperator :: "string \<Rightarrow> string" where
  "compareOperator mode =
     (if mode = ''gt'' then ''>'' else if mode = ''gte'' then ''>='' else if mode = ''lt'' then ''<'' else ''<='')"

text \<open>The switch of \<open>buildRequestConditionExpr\<close> for a normalized condition whose path is not blank.\<close>

definition buildParamHeaderExpr :: "paramHeaderCondition \<Rightarrow> string" where
  "buildParamHeaderExpr n =
     (let src = probeText (if phSource n = ''header'' then ''header'' else ''param'') (trim (phPath n))
      in if phMode n = ''exists'' then (if phSource n = ''header'' then src @ '' != \"\"'' else src @ '' != nil'')
         else if phMode n = ''contains''
         then (if phSource n = ''header''
               then ''has('' @ src @ '', '' @ buildExprLiteral (phMode n) (phValue n) @ '')''
               else src @ '' != nil && has('' @ src @ '', '' @ buildExprLiteral (phMode n) (phValue n) @ '')'')
         else if phMode n \<in> {''gt'', ''gte'', ''lt'', ''lte''}
         then let numText = trim (phValue n)
              in if \<not> NUMERIC_LITERAL_REGEX numText then ''''
                 else src @ '' != nil && '' @ src @ '' '' @ compareOperator (phMode n) @ '' '' @ numText
         else src @ '' == '' @ buildExprLiteral (phMode n) (phValue n))"

fun buildRequestConditionExpr :: "requestCondition \<Rightarrow> string" where
  "buildRequestConditionExpr (TimeCondition c) = buildTimeConditionExpr c"
| "buildRequestConditionExpr (ParamHeaderCondition c) =
     (let n = normalizeParamHeader (if phSource c = ''header'' then ''header'' else ''param'')
                (toPartial (ParamHeaderCondition c))
      in if trim (phPath n) = [] then '''' else buildParamHeaderExpr n)"

definition guardOr :: "string \<Rightarrow> string" where
  "guardOr e = (if strIncludes e '' || '' then ''('' @ e @ '')'' else e)"

definition buildRuleGroupFactor :: "requestRuleGroup \<Rightarrow> string" where
  "buildRuleGroupFactor g =
     (let multiplier = trim (rgMultiplier g)
      in if \<not> NUMERIC_LITERAL_REGEX multiplier then ''''
         else let condExprs = filter (\<lambda>e. e \<noteq> []) (map buildRequestConditionExpr (rgConditions g))
              in if condExprs = [] then ''''
                 else let combined = (if length condExprs = 1 then hd condExprs
                                      else joinWith '' && '' (map guardOr condExprs))
                      in ''('' @ combined @ '' ? '' @ multiplier @ '' : 1)'')"

definition buildRequestRuleExpr :: "requestRuleGroup list \<Rightarrow> string" where
  "buildRequestRuleExpr groups = joinWith '' * '' (filter (\<lambda>e. e \<noteq> []) (map buildRuleGroupFactor groups))"

section \<open>Table rows\<close>

text \<open>
  \<open>ParsedTier\<close>: the named properties, and the price fields as an association list. A price key
  that is no pricing variable has no field; the property is then called \<open>undefined\<close>.
\<close>

record parsedTier =
  ptLabel :: string
  ptImageCount :: bool
  ptConditions :: "tierCondition list"
  ptFixed :: "jsnum option option"
  ptConditionText :: "string option"
  ptPrices :: "(string \<times> jsnum) list"

definition mapTokenTier :: "tierRow \<Rightarrow> parsedTier" where
  "mapTokenTier tier =
     \<lparr>ptLabel = tlabel tier, ptImageCount = imageCount tier, ptConditions = tconditions tier,
      ptFixed = (if tunit tier = Some URequest then Some (tfixedPrice tier) else None),
      ptConditionText = (if conditionText tier = Some [] then None else conditionText tier),
      ptPrices = foldl (\<lambda>ps (k, x). setProp (orElse (BILLING_VAR_KEY_TO_FIELD k) ''undefined'') x ps) [] (tprices tier)\<rparr>"

definition parseTiersFromExpr :: "host \<Rightarrow> string \<Rightarrow> compiledCache \<Rightarrow> parsedTier list bx \<times> compiledCache" where
  "parseTiersFromExpr h exprStr cache =
     (if exprStr = [] then (Inr [], cache)
      else case compileBillingExpression exprStr cache of
             (CompileFailure _, cache') \<Rightarrow> (Inr [], cache')
           | (Ready compiled, cache') \<Rightarrow>
               (case readTokenTierChain (cast compiled) of
                  Inl e \<Rightarrow> (Inl e, cache')
                | Inr (Some canonical) \<Rightarrow> (Inr (map mapTokenTier canonical), cache')
                | Inr None \<Rightarrow>
                    (case readTimeTokenPricing h exprStr None cache' of
                       (found, cache'') \<Rightarrow>
                         (rbind found (\<lambda>pricing.
                            Inr (case pricing of None \<Rightarrow> [] | Some t \<Rightarrow> map (mapTokenTier \<circ> ttier) (tiersAll t))),
                          cache''))))"

definition getCurrentTimePricingTiers ::
    "host \<Rightarrow> string \<Rightarrow> date \<Rightarrow> compiledCache \<Rightarrow> parsedTier list option bx \<times> compiledCache" where
  "getCurrentTimePricingTiers h exprStr now cache =
     (case readTimeTokenPricing h exprStr (Some now) cache of
        (found, cache') \<Rightarrow>
          (rbind found (\<lambda>pricing. Inr (map_option (\<lambda>t. map (mapTokenTier \<circ> ttier) (tiersCurrent t)) pricing)), cache'))"

definition parseTaskTiersFromExpr ::
    "string \<Rightarrow> usageSchema option \<Rightarrow> bool \<Rightarrow> compiledCache \<Rightarrow> taskTierRow list bx \<times> compiledCache" where
  "parseTaskTiersFromExpr exprStr schema includeBoolean cache =
     (if exprStr = [] \<or> schema = None \<or> schema = Some [] then (Inr [], cache)
      else case splitBillingExprAndRequestRules exprStr cache of
             (Inl e, cache') \<Rightarrow> (Inl e, cache')
           | (Inr divided, cache') \<Rightarrow>
               (case compileBillingExpression (sbBillingExpr divided) cache' of
                  (CompileFailure _, cache'') \<Rightarrow> (Inr [], cache'')
                | (Ready compiled, cache'') \<Rightarrow>
                    (rbind (readTaskTierChain (the schema) includeBoolean (cast compiled)) (\<lambda>tiers.
                       Inr (case tiers of None \<Rightarrow> [] | Some ts \<Rightarrow> ts)),
                     cache'')))"

section \<open>Labels\<close>

text \<open>
  \<open>replaceAll(/x=?/g, 'x')\<close>; the full-width alternatives of the source's patterns are code units
  the model does not have.
\<close>

fun shortenComparison :: "char \<Rightarrow> string \<Rightarrow> string" where
  "shortenComparison x (c # d # s) =
     (if c = x \<and> d = CHR ''='' then x # shortenComparison x s else c # shortenComparison x (d # s))"
| "shortenComparison x s = s"

definition normalizeTierLabel :: "string option \<Rightarrow> string" where
  "normalizeTierLabel label =
     (case label of
        None \<Rightarrow> []
      | Some s \<Rightarrow>
          toLowerCase (filter (\<lambda>c. \<not> isSpace c)
            (shortenComparison CHR ''>'' (shortenComparison CHR ''<'' s))))"

definition COMMON_TIMEZONES :: "(string \<times> string) list" where
  "COMMON_TIMEZONES =
     [(''Asia/Shanghai'', ''UTC+8 Shanghai (Asia/Shanghai)''), (''UTC'', ''UTC''),
      (''America/New_York'', ''UTC-5 New York (America/New_York)''),
      (''America/Los_Angeles'', ''UTC-8 Los Angeles (America/Los_Angeles)''),
      (''America/Chicago'', ''UTC-6 Chicago (America/Chicago)''), (''Europe/London'', ''UTC+0 London (Europe/London)''),
      (''Europe/Berlin'', ''UTC+1 Berlin (Europe/Berlin)''), (''Asia/Tokyo'', ''UTC+9 Tokyo (Asia/Tokyo)''),
      (''Asia/Singapore'', ''UTC+8 Singapore (Asia/Singapore)''), (''Asia/Seoul'', ''UTC+9 Seoul (Asia/Seoul)''),
      (''Australia/Sydney'', ''UTC+10 Sydney (Australia/Sydney)'')]"

end
