(* ===== verification/BxRulesText.thy ===== *)
theory BxRulesText
  imports BxRules
begin

text \<open>
  Facts on the texts of request rules: how \<open>splitExpressionAtTopLevel\<close> runs over a text whose
  quotes and brackets are closed, how it takes a join of such texts apart again, and what the
  matchers find in a text that the editor has written.
\<close>

section \<open>Closed texts\<close>

text \<open>
  Reading \<open>s\<close> from bracket depth \<open>d\<close> and quote \<open>q\<close> ends at depth 0 outside a quote, never closes
  a bracket it has not opened, and meets no character of the class \<open>stop\<close> at depth 0.
\<close>

fun balanced :: "(char \<Rightarrow> bool) \<Rightarrow> nat \<Rightarrow> char option \<Rightarrow> string \<Rightarrow> bool" where
  "balanced stop d q [] \<longleftrightarrow> d = 0 \<and> q = None"
| "balanced stop d (Some r) (c # s) \<longleftrightarrow>
     (if c = backslash then (case s of [] \<Rightarrow> False | _ # t \<Rightarrow> balanced stop d (Some r) t)
      else balanced stop d (if c = r then None else Some r) s)"
| "balanced stop d None (c # s) \<longleftrightarrow>
     (if c = quoteDbl \<or> c = quoteSgl then balanced stop d (Some c) s
      else if opensBracket c then balanced stop (Suc d) None s
      else if closesBracket c then 0 < d \<and> balanced stop (d - 1) None s
      else (d = 0 \<longrightarrow> \<not> stop c) \<and> balanced stop d None s)"

lemma balanced_append: "\<lbrakk>balanced stop d q s; balanced stop 0 None t\<rbrakk> \<Longrightarrow> balanced stop d q (s @ t)"
  by (induction stop d q s rule: balanced.induct) (auto split: if_splits list.splits)

lemma balanced_within: "\<lbrakk>balanced stop d q s; balanced stop' 0 None t\<rbrakk> \<Longrightarrow> balanced stop' (Suc d) q (s @ CHR '')'' # t)"
  by (induction stop d q s rule: balanced.induct)
     (auto simp: opensBracket_def closesBracket_def split: if_splits list.splits)

lemma balanced_paren: "balanced stop 0 None s \<Longrightarrow> balanced stop' 0 None (CHR ''('' # s @ '')'')"
  using balanced_within [of stop 0 None s stop' "[]"] by (simp add: opensBracket_def)

lemma balanced_mono: "\<lbrakk>balanced stop d q s; \<And>c. stop' c \<Longrightarrow> stop c\<rbrakk> \<Longrightarrow> balanced stop' d q s"
  by (induction stop d q s rule: balanced.induct) (auto split: if_splits list.splits)

text \<open>Texts without quotes and brackets.\<close>

lemma balanced_flat:
  "list_all (\<lambda>c. c \<noteq> quoteDbl \<and> c \<noteq> quoteSgl \<and> \<not> opensBracket c \<and> \<not> closesBracket c \<and> \<not> stop c) s \<Longrightarrow>
   balanced stop 0 None s"
  by (induction s) auto

section \<open>Splitting at a separator\<close>

lemma drop_pre [simp]: "drop (length pre) (pre @ s) = s" by simp

lemma nth_pre [simp]: "(pre @ c # s) ! length pre = c" by simp

lemma trim_spaced:
  assumes "spaces a" "spaces b" "trim p = p" "p \<noteq> []"
  shows "trim (a @ p @ b) = p"
proof -
  have start: "dropWhile isSpace (a @ x) = dropWhile isSpace x" if "spaces a" for a x
    using that by (induction a) (auto simp: spaces_def)
  have d: "dropWhile isSpace p = p"
  proof (rule ccontr)
    assume "dropWhile isSpace p \<noteq> p"
    then have "length (dropWhile isSpace p) < length p"
      by (metis append_Nil length_dropWhile_le le_neq_implies_less takeWhile_dropWhile_id append_eq_append_conv2
          length_append add_right_cancel length_0_conv add_0)
    moreover have "length (trim p) \<le> length (dropWhile isSpace p)"
      by (simp add: trim_def trimStart_def trimEnd_def) (metis length_dropWhile_le length_rev)
    ultimately show False using assms(3) by simp
  qed
  then have h: "\<not> isSpace (hd p)" using assms(4) hd_dropWhile [of isSpace p] by simp
  have e: "rev (dropWhile isSpace (rev p)) = p" using assms(3) d by (simp add: trim_def trimStart_def trimEnd_def)
  have "dropWhile isSpace (p @ b) = p @ b" using h assms(4) by (cases p) auto
  moreover have "spaces (rev b)" using assms(2) by (simp add: spaces_def)
  ultimately show ?thesis using e
    by (simp add: trim_def trimStart_def trimEnd_def start assms(1))
qed

text \<open>
  An operator that splitting looks for, and a class of characters that contains its first
  character and the question mark.
\<close>

abbreviation splitting :: "string list \<Rightarrow> nat \<Rightarrow> int \<Rightarrow> char option \<Rightarrow> splitState" where
  "splitting ps k d q \<equiv> \<lparr>parts = ps, partStart = k, splitState.depth = d, quote = q\<rparr>"

locale separator =
  fixes operator :: string and stop :: "char \<Rightarrow> bool"
  assumes operator: "operator \<noteq> []" "\<not> isSpace (hd operator)" "\<not> opensBracket (hd operator)"
      "\<not> closesBracket (hd operator)" "hd operator \<noteq> quoteDbl" "hd operator \<noteq> quoteSgl" "hd operator \<noteq> CHR ''?''"
    and stop: "stop (hd operator)" "stop CHR ''?''" "\<not> stop CHR '' ''"
begin

lemma starts: "startsWith (c # s) operator \<Longrightarrow> c = hd operator"
  using operator(1) by (cases operator) (auto simp: startsWith_def)

lemma step_run:
  "\<lbrakk>splitStep src operator i st = Goto j st'; i < length src\<rbrakk> \<Longrightarrow>
   splitLoop src operator i st = splitLoop src operator j st'"
  by (subst splitLoop.simps) simp

lemma step_quoted:
  assumes "balanced stop d (Some r) (c # t)"
  shows "splitStep (pre @ (c # t) @ post) operator (length pre) (splitting ps k (int d) (Some r)) =
      Goto (length pre + (if c = backslash then 2 else 1)) (splitting ps k (int d) (if c = r \<and> c \<noteq> backslash then None else Some r))"
    "balanced stop d (if c = r \<and> c \<noteq> backslash then None else Some r) (drop (if c = backslash then 2 else 1) (c # t))"
  using assms by (cases "c = backslash"; cases "c = r"; cases t; simp add: splitStep_def)+

lemma step_open:
  assumes "balanced stop d None (c # t)"
  shows "\<exists>d' q'. splitStep (pre @ (c # t) @ post) operator (length pre) (splitting ps k (int d) None) =
      Goto (length pre + 1) (splitting ps k (int d') q') \<and> balanced stop d' q' t"
proof -
  consider "c = quoteDbl \<or> c = quoteSgl" | "opensBracket c" "\<not> (c = quoteDbl \<or> c = quoteSgl)"
    | "closesBracket c" "\<not> opensBracket c" "\<not> (c = quoteDbl \<or> c = quoteSgl)"
    | "\<not> closesBracket c" "\<not> opensBracket c" "\<not> (c = quoteDbl \<or> c = quoteSgl)" by blast
  then show ?thesis
  proof cases
    case 1
    with assms show ?thesis by (intro exI [of _ d] exI [of _ "Some c"]) (auto simp: splitStep_def)
  next
    case 2
    then have "\<not> closesBracket c" by (auto simp: opensBracket_def closesBracket_def)
    with 2 assms show ?thesis by (intro exI [of _ "Suc d"] exI [of _ None]) (simp add: splitStep_def Let_def)
  next
    case 3
    then have "c \<noteq> CHR ''?''" "\<not> startsWith (c # t @ post) operator"
      using starts [of c "t @ post"] operator(4) by (auto simp: closesBracket_def)
    with 3 assms show ?thesis by (intro exI [of _ "d - 1"] exI [of _ None]) (simp add: splitStep_def Let_def of_nat_diff)
  next
    case 4
    then have "c \<noteq> CHR ''?'' \<and> \<not> startsWith (c # t @ post) operator \<or> d \<noteq> 0"
      using starts [of c "t @ post"] stop assms by auto
    with 4 assms show ?thesis by (intro exI [of _ d] exI [of _ None]) (auto simp add: splitStep_def Let_def)
  qed
qed

lemma run_balanced:
  "balanced stop d q s \<Longrightarrow>
   splitLoop (pre @ s @ post) operator (length pre) (splitting ps k (int d) q) =
   splitLoop (pre @ s @ post) operator (length (pre @ s)) (splitting ps k 0 None)"
proof (induction s arbitrary: d q pre rule: length_induct)
  case (1 s)
  show ?case
  proof (cases s)
    case Nil
    with 1 show ?thesis by simp
  next
    case (Cons c t)
    define n where "n = (if q \<noteq> None \<and> c = backslash then 2 else 1 :: nat)"
    obtain d' q' where step: "splitStep (pre @ s @ post) operator (length pre) (splitting ps k (int d) q) =
        Goto (length pre + n) (splitting ps k (int d') q')" "balanced stop d' q' (drop n s)"
    proof (cases q)
      case None
      then have "n = 1" by (simp add: n_def)
      with step_open [of d c t pre post ps k] 1(2) that show thesis unfolding Cons None by fastforce
    next
      case (Some r)
      then have n: "n = (if c = backslash then 2 else 1)" by (simp add: n_def)
      note facts = step_quoted(1) [of d r c t pre post ps k] step_quoted(2) [of d r c t]
      show thesis
        by (rule that [of d "if c = r \<and> c \<noteq> backslash then None else Some r"];
            unfold Cons Some n; rule facts; use 1(2) Cons Some in simp)
    qed
    have n: "n \<le> length s" "0 < n" using 1(2) Cons by (auto simp: n_def split: list.splits)
    have eq: "(pre @ take n s) @ drop n s @ post = pre @ s @ post" by simp
    have "splitLoop (pre @ s @ post) operator (length pre) (splitting ps k (int d) q) =
        splitLoop (pre @ s @ post) operator (length (pre @ take n s)) (splitting ps k (int d') q')"
      using step_run [OF step(1)] n Cons by simp
    also have "\<dots> = splitLoop (pre @ s @ post) operator (length (pre @ s)) (splitting ps k 0 None)"
      using 1(1) [rule_format, of "drop n s" d' q' "pre @ take n s"] step(2) n by (simp flip: eq)
    finally show ?thesis .
  qed
qed

text \<open>A part and the spaces before it, up to the next separator or to the end.\<close>

lemma run_part:
  assumes "balanced stop 0 None p" "trim p = p" "p \<noteq> []" "spaces w"
    "src = pre @ w @ p @ '' '' @ operator @ '' '' @ post"
  shows "splitLoop src operator (length (pre @ w)) (splitting ps (length pre) 0 None) =
    splitLoop src operator (length (pre @ w @ p @ '' '' @ operator @ '' ''))
      (splitting (ps @ [p]) (length (pre @ w @ p @ '' '' @ operator)) 0 None)"
proof -
  let ?at = "\<lambda>s. splitLoop src operator (length s)"
  have blank: "?at u st = ?at (u @ '' '') st" if "src = u @ '' '' @ v" "st = splitting qs k 0 None" for u v st qs k
    using that run_balanced [of 0 None "'' ''" u v qs k] stop(3) by (simp add: opensBracket_def closesBracket_def)
  have "?at (pre @ w) (splitting ps (length pre) 0 None) = ?at (pre @ w @ p) (splitting ps (length pre) 0 None)"
    using run_balanced [OF assms(1), of "pre @ w" "'' '' @ operator @ '' '' @ post" ps "length pre"] assms(5) by simp
  also have "\<dots> = ?at (pre @ w @ p @ '' '') (splitting ps (length pre) 0 None)"
    using blank [of "pre @ w @ p" "operator @ '' '' @ post"] assms(5) by simp
  also have "\<dots> = ?at (pre @ w @ p @ '' '' @ operator)
      (splitting (ps @ [p]) (length (pre @ w @ p @ '' '' @ operator)) 0 None)"
  proof (rule step_run)
    obtain c t where c: "operator = c # t" using operator(1) by (cases operator) auto
    have "slice src (length pre) (length (pre @ w @ p @ '' '')) = w @ p @ '' ''" by (simp add: slice_def assms(5))
    moreover have "src ! length (pre @ w @ p @ '' '') = c"
      "drop (length (pre @ w @ p @ '' '')) src = operator @ '' '' @ post" by (simp_all add: assms(5) nth_append c)
    ultimately show "splitStep src operator (length (pre @ w @ p @ '' '')) (splitting ps (length pre) 0 None) =
        Goto (length (pre @ w @ p @ '' '' @ operator))
          (splitting (ps @ [p]) (length (pre @ w @ p @ '' '' @ operator)) 0 None)"
      using operator c trim_spaced [OF assms(4) _ assms(2,3), of "'' ''"]
      by (simp add: splitStep_def Let_def startsWith_def spaces_def isSpace_def)
    show "length (pre @ w @ p @ '' '') < length src" by (simp add: assms(5) c)
  qed
  also have "\<dots> = ?at (pre @ w @ p @ '' '' @ operator @ '' '')
      (splitting (ps @ [p]) (length (pre @ w @ p @ '' '' @ operator)) 0 None)"
    using blank [of "pre @ w @ p @ '' '' @ operator" post] assms(5) by simp
  finally show ?thesis .
qed

lemma run_last:
  assumes "balanced stop 0 None p" "trim p = p" "p \<noteq> []" "spaces w" "\<forall>q\<in>set ps. q \<noteq> []"
  shows "splitLoop (pre @ w @ p) operator (length (pre @ w)) (splitting ps (length pre) 0 None) = Some (ps @ [p])"
proof -
  have "splitLoop (pre @ w @ p) operator (length (pre @ w)) (splitting ps (length pre) 0 None) =
      splitLoop (pre @ w @ p) operator (length (pre @ w @ p)) (splitting ps (length pre) 0 None)"
    using run_balanced [OF assms(1), of "pre @ w" "[]"] by simp
  also have "\<dots> = Some (ps @ [p])"
    using assms(3,5) trim_spaced [OF assms(4) _ assms(2,3), of "[]"]
    by (subst splitLoop.simps) (auto simp: spaces_def)
  finally show ?thesis .
qed

text \<open>A text that splitting takes as one part.\<close>

definition onePart :: "string \<Rightarrow> bool" where
  "onePart p \<longleftrightarrow> balanced stop 0 None p \<and> trim p = p \<and> p \<noteq> []"

lemma run_joined:
  "\<lbrakk>ps \<noteq> []; \<forall>p\<in>set ps. onePart p; \<forall>q\<in>set acc. q \<noteq> []; spaces w\<rbrakk> \<Longrightarrow>
   splitLoop (pre @ w @ joinWith ('' '' @ operator @ '' '') ps) operator (length (pre @ w)) (splitting acc (length pre) 0 None) =
   Some (acc @ ps)"
proof (induction ps arbitrary: pre w acc rule: induct_list012)
  case (2 p)
  then show ?case using run_last [of p w acc pre] by (simp add: onePart_def)
next
  case (3 p q ps)
  let ?sep = "'' '' @ operator @ '' ''"
  have "splitLoop (pre @ w @ joinWith ?sep (p # q # ps)) operator (length (pre @ w)) (splitting acc (length pre) 0 None) =
      splitLoop (pre @ w @ joinWith ?sep (p # q # ps)) operator (length ((pre @ w @ p @ '' '' @ operator) @ '' ''))
        (splitting (acc @ [p]) (length (pre @ w @ p @ '' '' @ operator)) 0 None)"
    using run_part [of p w _ pre "joinWith ?sep (q # ps)" acc] 3(4,6) by (simp add: onePart_def)
  also have "\<dots> = Some ((acc @ [p]) @ q # ps)"
    using 3(2) [of "acc @ [p]" "'' ''" "pre @ w @ p @ '' '' @ operator"] 3(4,5)
    by (simp add: onePart_def spaces_def isSpace_def)
  finally show ?case by simp
qed simp

lemma split_joined:
  "\<lbrakk>ps \<noteq> []; \<forall>p\<in>set ps. onePart p\<rbrakk> \<Longrightarrow>
   splitExpressionAtTopLevel (joinWith ('' '' @ operator @ '' '') ps) operator = Some ps"
  using run_joined [of ps "[]" "[]" "[]"] by (simp add: splitExpressionAtTopLevel_def spaces_def)

end

text \<open>The two separators of the rule editor.\<close>

interpretation product: separator "''*''" "\<lambda>c. c = CHR ''?'' \<or> c = CHR ''*''"
  by unfold_locales (auto simp: isSpace_def opensBracket_def closesBracket_def)

interpretation conjunction: separator "''&&''" "\<lambda>c. c = CHR ''?'' \<or> c = CHR ''&''"
  by unfold_locales (auto simp: isSpace_def opensBracket_def closesBracket_def)

section \<open>Quoted strings\<close>

text \<open>How a code unit of the model is quoted.\<close>

lemma quoteUnit_shape:
  assumes "u < 256"
  shows "(\<exists>e w. quoteUnit u = 92 # e # w \<and> 32 \<le> e \<and> e < 128 \<and> (\<forall>x\<in>set w. 32 \<le> x \<and> x < 128 \<and> x \<noteq> 34 \<and> x \<noteq> 92)) \<or>
    quoteUnit u = [u] \<and> u \<noteq> 34 \<and> u \<noteq> 92 \<and> 32 \<le> u"
proof (cases "map_of [(8, 98), (9, 116), (10, 110), (12, 102), (13, 114), (34, 34), (92, 92)] u :: nat option")
  case (Some e)
  then have "quoteUnit u = [92, e]" "32 \<le> e \<and> e < 128" by (auto simp: quoteUnit_def split: if_splits)
  then show ?thesis by auto
next
  case None
  then have plain: "u \<noteq> 34" "u \<noteq> 92" by (auto split: if_splits)
  have "\<not> leadSurrogate u" "\<not> trailSurrogate u" using assms by (simp_all add: leadSurrogate_def trailSurrogate_def)
  then have quote: "quoteUnit u = (if u < 32 then unicodeEscape u else [u])" unfolding quoteUnit_def None by simp
  have digit: "32 \<le> hexDigit n \<and> hexDigit n < 128 \<and> hexDigit n \<noteq> 34 \<and> hexDigit n \<noteq> 92" if "n < 16" for n
    using that by (auto simp: hexDigit_def)
  have "\<exists>w. unicodeEscape u = 92 # 117 # w \<and> (\<forall>x\<in>set w. 32 \<le> x \<and> x < 128 \<and> x \<noteq> 34 \<and> x \<noteq> 92)"
    unfolding unicodeEscape_def by (intro exI conjI, rule refl) (simp add: digit)
  then show ?thesis using plain quote by (cases "u < 32") auto
qed

lemma quoteUnits_concat: "\<forall>u\<in>set us. u < 256 \<Longrightarrow> quoteUnits us = concat (map quoteUnit us)"
  by (induction us rule: quoteUnits.induct) (auto simp: leadSurrogate_def)

definition quotedChar :: "char \<Rightarrow> string" where
  "quotedChar c = map char_of (quoteUnit (of_char c))"

lemma jsonString_chars: "jsonString s = quoteDbl # concat (map quotedChar s) @ [quoteDbl]"
proof -
  have "\<forall>u\<in>set (unitsOf s). u < 256" by (auto simp: of_char_def) 
  then show ?thesis
    by (simp add: jsonString_def quoteJson_def quoteUnits_concat quotedChar_def [abs_def] map_concat o_def char_of_def bit_0)
qed

text \<open>Either an escape or the character itself.\<close>

lemma quotedChar_shape:
  "(\<exists>e w. quotedChar c = backslash # e # w \<and> \<not> lineTerminator e \<and>
      (\<forall>x\<in>set w. x \<noteq> quoteDbl \<and> x \<noteq> backslash \<and> \<not> lineTerminator x)) \<or>
   quotedChar c = [c] \<and> c \<noteq> quoteDbl \<and> c \<noteq> backslash \<and> \<not> lineTerminator c"
proof -
  have char: "(char_of n :: char) = char_of m \<longleftrightarrow> n = m" if "n < 256" "m < 256" for n m :: nat
    using that by (metis mod_less of_char_of)
  have special: "quoteDbl = char_of (34 :: nat)" "backslash = char_of (92 :: nat)" "lineFeed = char_of (10 :: nat)"
    "carriageReturn = char_of (13 :: nat)" by (simp_all add: char_of_def bit_0)
  have c: "c = char_of (of_char c :: nat)" "(of_char c :: nat) < 256" by simp_all
  from quoteUnit_shape [OF c(2)] show ?thesis
  proof
    assume "\<exists>e w. quoteUnit (of_char c) = 92 # e # w \<and> 32 \<le> e \<and> e < 128 \<and> (\<forall>x\<in>set w. 32 \<le> x \<and> x < 128 \<and> x \<noteq> 34 \<and> x \<noteq> 92)"
    then obtain e w where "quoteUnit (of_char c) = 92 # e # w" "32 \<le> e" "e < 128"
      and w: "\<forall>x\<in>set w. 32 \<le> x \<and> x < 128 \<and> x \<noteq> 34 \<and> x \<noteq> 92" by blast
    then have "quotedChar c = backslash # char_of e # map char_of w" "\<not> lineTerminator (char_of e)"
      by (auto simp: quotedChar_def lineTerminator_def special char simp del: char_of_eq_iff)
    moreover have "\<forall>x\<in>set (map char_of w). x \<noteq> quoteDbl \<and> x \<noteq> backslash \<and> \<not> lineTerminator x"
      unfolding lineTerminator_def special using w char by fastforce
    ultimately show ?thesis by blast
  next
    assume "quoteUnit (of_char c) = [of_char c] \<and> (of_char c :: nat) \<noteq> 34 \<and> (of_char c :: nat) \<noteq> 92 \<and> 32 \<le> (of_char c :: nat)"
    then show ?thesis by (auto simp: quotedChar_def lineTerminator_def)
  qed
qed

lemma quotedChar_cases:
  obtains (escape) e w where "quotedChar c = backslash # e # w" "\<not> lineTerminator e"
      "\<forall>x\<in>set w. x \<noteq> quoteDbl \<and> x \<noteq> backslash \<and> \<not> lineTerminator x"
    | (plain) "quotedChar c = [c]" "c \<noteq> quoteDbl" "c \<noteq> backslash" "\<not> lineTerminator c"
  using quotedChar_shape [of c] by blast

lemma balanced_quoted:
  "balanced stop d (Some quoteDbl) (concat (map quotedChar s) @ quoteDbl # t) = balanced stop d None t"
proof (induction s)
  case (Cons c s)
  have skip: "balanced stop d (Some quoteDbl) (w @ r) = balanced stop d (Some quoteDbl) r"
    if "\<forall>x\<in>set w. x \<noteq> quoteDbl \<and> x \<noteq> backslash" for w r
    using that by (induction w) auto
  show ?case
  proof (cases rule: quotedChar_cases [of c])
    case (escape e w)
    with skip [of w] Cons show ?thesis by simp
  next
    case plain
    with Cons show ?thesis by simp
  qed
qed simp

lemma balanced_jsonString: "balanced stop 0 None t \<Longrightarrow> balanced stop 0 None (jsonString s @ t)"
  by (simp add: jsonString_chars balanced_quoted)

lemma literalBody_quoted:
  "literalBody (concat (map quotedChar s) @ quoteDbl # t) = Some (concat (map quotedChar s) @ [quoteDbl], t)"
proof (induction s)
  case (Cons c s)
  have skip: "literalBody (w @ r) = map_option (\<lambda>(b, q). (w @ b, q)) (literalBody r)"
    if "\<forall>x\<in>set w. x \<noteq> quoteDbl \<and> x \<noteq> backslash" for w r
    using that by (induction w; cases "literalBody r") auto
  show ?case
  proof (cases rule: quotedChar_cases [of c])
    case (escape e w)
    with skip [of w] Cons show ?thesis by simp
  next
    case plain
    with Cons show ?thesis by simp
  qed
qed simp

lemma stringLiteral_json: "stringLiteral (jsonString s @ t) = Some (jsonString s, t)"
  by (simp add: stringLiteral_def mthen_def mtext_def mret_def startsWith_def jsonString_chars literalBody_quoted)

lemma jsonString_lines: "c \<in> set (jsonString s) \<Longrightarrow> \<not> lineTerminator c"
proof -
  have "\<not> lineTerminator x" if "x \<in> set (quotedChar c)" for x c
    using that by (cases rule: quotedChar_cases [of c]) (auto simp: lineTerminator_def)
  then show "c \<in> set (jsonString s) \<Longrightarrow> \<not> lineTerminator c"
    by (auto simp: jsonString_chars lineTerminator_def)
qed

lemma parseJson_jsonString: "parseJson (unitsOf (jsonString s)) = Inr (JsonStr (unitsOf s))"
proof -
  have "\<forall>u\<in>set (quoteJson (unitsOf s)). u < 256"
  proof -
    have "\<forall>u\<in>set (quoteUnit (of_char c)). u < 256" for c :: char
      using quoteUnit_shape [of "of_char c"] by fastforce
    then show ?thesis by (auto simp: quoteJson_def quoteUnits_concat)
  qed
  then have "unitsOf (jsonString s) = quoteJson (unitsOf s)"
    by (auto simp: jsonString_def intro!: map_idI)
  then show ?thesis by (simp add: parseJson_def quoteJson_def json_unfold jsonChars_quote)
qed

lemma ofUnits_unitsOf [simp]: "ofUnits (unitsOf s) = Inr s"
  by (simp add: ofUnits_def list_all_iff o_def)

lemma parseStringLiteral_json [simp]: "parseStringLiteral (jsonString s) = Inr s"
  by (simp add: parseStringLiteral_def parseJson_jsonString)

declare balanced.simps(2,3) [simp del]

section \<open>Matching written texts\<close>

lemma mtext_append [simp]: "mtext p (p @ s) = Some ((), s)"
  by (simp add: mtext_def startsWith_def)

lemma mrun_append: "\<lbrakk>x \<noteq> []; list_all P x; s = [] \<or> \<not> P (hd s)\<rbrakk> \<Longrightarrow> mrun P (x @ s) = Some (x, s)"
  by (cases s; cases x) (auto simp: mrun_def list_all_iff takeWhile_append dropWhile_append)

text \<open>Names that are written between quotes as they are.\<close>

definition plainName :: "string \<Rightarrow> bool" where
  "plainName x \<longleftrightarrow> x \<noteq> [] \<and> list_all (\<lambda>c. 32 \<le> code c \<and> c \<noteq> quoteDbl \<and> c \<noteq> backslash) x"

lemma jsonString_plain: "plainName x \<Longrightarrow> jsonString x = quoteDbl # x @ [quoteDbl]"
proof -
  have "quotedChar c = [c]" if "32 \<le> code c" "c \<noteq> quoteDbl" "c \<noteq> backslash" for c
  proof -
    have "quoteDbl = char_of (34 :: nat)" "backslash = char_of (92 :: nat)" by (simp_all add: char_of_def bit_0)
    then have "code c \<noteq> 34" "code c \<noteq> 92" using that(2,3) by (metis char_of_char)+
    moreover have "\<not> leadSurrogate u \<and> \<not> trailSurrogate u" if "u < 256" for u
      using that by (simp add: leadSurrogate_def trailSurrogate_def)
    from this [of "code c"] have "\<not> leadSurrogate (code c)" "\<not> trailSurrogate (code c)" by simp_all
    ultimately show ?thesis using that(1) by (auto simp: quotedChar_def quoteUnit_def split: option.splits if_splits)
  qed
  then have "list_all (\<lambda>c. 32 \<le> code c \<and> c \<noteq> quoteDbl \<and> c \<noteq> backslash) x \<Longrightarrow> concat (map quotedChar x) = x"
    by (induction x) auto
  then show "plainName x \<Longrightarrow> jsonString x = quoteDbl # x @ [quoteDbl]" by (simp add: plainName_def jsonString_chars)
qed

lemma quotedArg_plain: "plainName x \<Longrightarrow> quotedArg (CHR ''('' # jsonString x @ CHR '')'' # s) = Some (x, s)"
  using mrun_append [of x "\<lambda>c. c \<noteq> quoteDbl" "quoteDbl # CHR '')'' # s"]
  by (auto simp: plainName_def jsonString_plain quotedArg_def mthen_def mtext_def mret_def startsWith_def list_all_iff)

end
