(* ===== verification/BxRulesFacts.thy ===== *)
theory BxRulesFacts
  imports BxRulesText JsDecimal
begin

text \<open>
  The texts of single conditions of request rules: what the editor writes for a condition, and what
  the patterns of the parser find in that text, alone and with more text behind it.
\<close>

section \<open>Numerals\<close>

lemma scanExponent_chars: "c \<in> set (scanExponent s) \<Longrightarrow> numeralChar c"
  by (auto simp: scanExponent_def numeralChar_def Let_def dest: set_takeWhileD split: list.splits if_splits)

lemma scanMantissa_chars: "c \<in> set (scanMantissa s) \<Longrightarrow> numeralChar c"
  by (auto simp: scanMantissa_def numeralChar_def Let_def dest: set_takeWhileD split: list.splits if_splits)

lemma scanNumber_chars: "c \<in> set (scanNumber s) \<Longrightarrow> numeralChar c"
  by (auto simp: scanNumber_def Let_def scanMantissa_chars scanExponent_chars split: if_splits)

lemma numeric_chars:
  assumes "NUMERIC_LITERAL_REGEX s"
  shows "s \<noteq> [] \<and> list_all numeralChar s"
proof -
  have all: "list_all numeralChar t" if "scanNumber t = t" for t
    using scanNumber_chars [of _ t] that by (simp add: list_all_iff)
  show ?thesis
  proof (cases "startsWith s ''-''")
    case True
    then obtain t where t: "s = CHR ''-'' # t" by (cases s) (auto simp: startsWith_def)
    then have "scanNumber t = t" using assms by (simp add: NUMERIC_LITERAL_REGEX_def startsWith_def)
    with all t show ?thesis by (simp add: numeralChar_def)
  next
    case False
    with assms all show ?thesis by (simp add: NUMERIC_LITERAL_REGEX_def)
  qed
qed

lemma inRange_numeric: "isTimeValueInRange f s \<Longrightarrow> NUMERIC_LITERAL_REGEX s"
  by (simp add: isTimeValueInRange_def split: if_splits)

lemma numeralChar_plain:
  "numeralChar c \<Longrightarrow> \<not> isSpace c \<and> c \<noteq> quoteDbl \<and> c \<noteq> quoteSgl \<and> \<not> opensBracket c \<and> \<not> closesBracket c \<and>
     c \<noteq> CHR ''?'' \<and> c \<noteq> CHR ''*'' \<and> c \<noteq> CHR ''&'' \<and> \<not> lineTerminator c"
  by (auto simp: numeralChar_def isDigit_def isSpace_def opensBracket_def closesBracket_def lineTerminator_def)

lemma numeric_trim: "NUMERIC_LITERAL_REGEX s \<Longrightarrow> trim s = s"
  using numeric_chars numeralChar_plain by (auto simp: list_all_iff intro!: trim_nonspace)

lemma mrun_numeral:
  "\<lbrakk>NUMERIC_LITERAL_REGEX x; s = [] \<or> \<not> numeralChar (hd s)\<rbrakk> \<Longrightarrow> mrun numeralChar (x @ s) = Some (x, s)"
  using numeric_chars [of x] by (intro mrun_append) auto

section \<open>Time conditions\<close>

lemmas matcher_defs = mthen_def mtext_def mret_def moneOf_def startsWith_def full_def

lemma timeProbe_text:
  assumes "f \<in> set TIME_FUNCTIONS" "plainName z"
  shows "timeProbe (probeText f z @ s) = Some ((f, z), s)"
proof -
  have "moneOf TIME_FUNCTIONS (f @ CHR ''('' # t) = Some (f, CHR ''('' # t)" for t
    using assms(1) unfolding TIME_FUNCTIONS_def by (simp add: moneOf_def startsWith_def) (elim disjE; simp)
  then show ?thesis using quotedArg_plain [OF assms(2), of s]
    by (simp add: timeProbe_def probeText_def mthen_def mret_def)
qed

lemma probeText_less: "plainName z \<Longrightarrow> f @ ''(\"'' @ z @ ''\") < '' = probeText f z @ '' < ''"
  by (simp add: probeText_def jsonString_plain)

lemma rangePattern_text:
  assumes "f \<in> set TIME_FUNCTIONS" "plainName z" "NUMERIC_LITERAL_REGEX s" "NUMERIC_LITERAL_REGEX e"
    "glue = '' && '' \<or> glue = '' || ''" "r = [] \<or> \<not> numeralChar (hd r)"
  shows "rangePattern (probeText f z @ '' >= '' @ s @ glue @ probeText f z @ '' < '' @ e @ r) = Some ((f, z, s, e), r)"
proof -
  have "mrun numeralChar (s @ glue @ t) = Some (s, glue @ t)" for t
    using assms(5) by (intro mrun_numeral [OF assms(3)]) (auto simp: numeralChar_def isDigit_def)
  moreover have "moneOf ['' && '', '' || ''] (glue @ t) = Some (glue, t)" for t
    using assms(5) by (auto simp: moneOf_def startsWith_def)
  moreover have "mtext (f @ ''(\"'' @ z @ ''\") < '') (probeText f z @ '' < '' @ t) = Some ((), t)" for t
    using mtext_append [of "probeText f z @ '' < ''" t] by (simp only: append_assoc probeText_less [OF assms(2)])
  ultimately show ?thesis using timeProbe_text [OF assms(1,2)] mrun_numeral [OF assms(4,6)]
    by (simp add: rangePattern_def mthen_def mret_def mtext_def [of "'' >= ''"] startsWith_def)
qed

lemma scalarPattern_text:
  assumes "f \<in> set TIME_FUNCTIONS" "plainName z" "NUMERIC_LITERAL_REGEX v" "op \<in> {''=='', ''>='', ''<''}"
    "r = [] \<or> \<not> numeralChar (hd r)"
  shows "scalarPattern (probeText f z @ '' '' @ op @ '' '' @ v @ r) = Some ((f, z, '' '' @ op @ '' '', v), r)"
proof -
  have "moneOf ['' == '', '' >= '', '' < ''] ('' '' @ op @ '' '' @ t) = Some ('' '' @ op @ '' '', t)" for t
    using assms(4) by (auto simp: moneOf_def startsWith_def)
  then show ?thesis using timeProbe_text [OF assms(1,2)] mrun_numeral [OF assms(3,5)]
    by (simp add: scalarPattern_def mthen_def mret_def)
qed

text \<open>A function name is no parenthesis, so that the second pattern does not apply.\<close>

lemma probe_start:
  assumes "f \<in> set TIME_FUNCTIONS"
  shows "mtext ''('' (probeText f z @ s) = None"
  using assms unfolding TIME_FUNCTIONS_def probeText_def by (auto simp: mtext_def startsWith_def)

definition timeBounds :: "string \<Rightarrow> string \<Rightarrow> bool" where
  "timeBounds f s \<longleftrightarrow> f \<in> set TIME_FUNCTIONS \<and> isTimeValueInRange f s"

lemma read_range:
  assumes "timeBounds f s" "timeBounds f e" "plainName z" "glue = '' && '' \<or> glue = '' || ''"
  defines "body \<equiv> probeText f z @ '' >= '' @ s @ glue @ probeText f z @ '' < '' @ e"
  shows "tryParseTimeCondition body = Some (rangeCondition f z s e)"
    "tryParseTimeCondition (''('' @ body @ '')'') = Some (rangeCondition f z s e)"
proof -
  have f: "f \<in> set TIME_FUNCTIONS" and n: "NUMERIC_LITERAL_REGEX s" "NUMERIC_LITERAL_REGEX e"
    using assms(1,2) inRange_numeric by (auto simp: timeBounds_def)
  have match: "rangePattern (body @ r) = Some ((f, z, s, e), r)" if "r = [] \<or> \<not> numeralChar (hd r)" for r
    using rangePattern_text [OF f assms(3) n assms(4) that] by (simp add: body_def)
  show "tryParseTimeCondition body = Some (rangeCondition f z s e)"
    using match [of "[]"] assms(1,2) by (simp add: tryParseTimeCondition_def full_def timeBounds_def)
  have "rangePattern (CHR ''('' # t) = None" for t
    by (simp add: rangePattern_def timeProbe_def TIME_FUNCTIONS_def matcher_defs)
  moreover have "rangePattern (body @ '')'') = Some ((f, z, s, e), '')'')"
    by (rule match) (simp add: numeralChar_def isDigit_def)
  ultimately show "tryParseTimeCondition (''('' @ body @ '')'') = Some (rangeCondition f z s e)"
    using assms(1,2) by (simp add: tryParseTimeCondition_def matcher_defs timeBounds_def)
qed

lemma rangePattern_scalar:
  assumes "f \<in> set TIME_FUNCTIONS" "plainName z" "NUMERIC_LITERAL_REGEX v" "op \<in> {''=='', ''>='', ''<''}"
    "r = [] \<or> r = '' && '' @ q" "op = ''>='' \<Longrightarrow> r = '' && '' @ q \<Longrightarrow> \<not> startsWith q (probeText f z @ '' < '')"
  shows "rangePattern (probeText f z @ '' '' @ op @ '' '' @ v @ r) = None"
proof (cases "op = ''>=''")
  case False
  with assms(4) show ?thesis using timeProbe_text [OF assms(1,2)] by (auto simp: rangePattern_def matcher_defs)
next
  case True
  have run: "mrun numeralChar (v @ r) = Some (v, r)"
    using assms(5) by (intro mrun_numeral [OF assms(3)]) (auto simp: numeralChar_def isDigit_def)
  have "r = '' && '' @ q \<Longrightarrow> mtext (f @ ''(\"'' @ z @ ''\") < '') q = None"
    unfolding probeText_less [OF assms(2)] using assms(6) True by (simp only: mtext_def simp_thms if_False)
  then show ?thesis using assms(5) run timeProbe_text [OF assms(1,2)] True
    by (elim disjE) (simp_all add: rangePattern_def mthen_def mret_def moneOf_def mtext_def [of "'' >= ''"] startsWith_def)
qed

lemma read_scalar:
  assumes "timeBounds f v" "plainName z" "op \<in> {''=='', ''>='', ''<''}"
  defines "body \<equiv> probeText f z @ '' '' @ op @ '' '' @ v"
  shows "tryParseTimeCondition body = Some (scalarCondition f z (scalarMode ('' '' @ op @ '' '')) v)"
    "(op = ''>='' \<Longrightarrow> \<not> startsWith q (probeText f z @ '' < '')) \<Longrightarrow> tryParseTimeCondition (body @ '' && '' @ q) = None"
proof -
  have f: "f \<in> set TIME_FUNCTIONS" and v: "NUMERIC_LITERAL_REGEX v"
    using assms(1) inRange_numeric by (auto simp: timeBounds_def)
  have no_paren: "mtext ''('' (body @ r) = None" for r using probe_start [OF f] by (simp add: body_def)
  have "rangePattern (body @ []) = None"
    using rangePattern_scalar [OF f assms(2) v assms(3), of "[]" "[]"] by (simp add: body_def)
  moreover have "scalarPattern (body @ []) = Some ((f, z, '' '' @ op @ '' '', v), [])"
    using scalarPattern_text [OF f assms(2) v assms(3), of "[]"] by (simp add: body_def)
  ultimately show "tryParseTimeCondition body = Some (scalarCondition f z (scalarMode ('' '' @ op @ '' '')) v)"
    using assms(1) no_paren [of "[]"]
    by (simp add: tryParseTimeCondition_def full_def mthen_def timeBounds_def)
  assume q: "op = ''>='' \<Longrightarrow> \<not> startsWith q (probeText f z @ '' < '')"
  have "rangePattern (body @ '' && '' @ q) = None"
    using rangePattern_scalar [OF f assms(2) v assms(3), of "'' && '' @ q" q] q by (simp add: body_def)
  moreover have "scalarPattern (body @ '' && '' @ q) = Some ((f, z, '' '' @ op @ '' '', v), '' && '' @ q)"
    using scalarPattern_text [OF f assms(2) v assms(3), of "'' && '' @ q"] by (simp add: body_def numeralChar_def isDigit_def)
  ultimately show "tryParseTimeCondition (body @ '' && '' @ q) = None"
    using no_paren [of "'' && '' @ q"] by (simp add: tryParseTimeCondition_def full_def mthen_def)
qed

text \<open>A range followed by more is no single time condition.\<close>

lemma read_range_more:
  assumes "timeBounds f s" "timeBounds f e" "plainName z" "glue = '' && '' \<or> glue = '' || ''"
  defines "body \<equiv> probeText f z @ '' >= '' @ s @ glue @ probeText f z @ '' < '' @ e"
  shows "tryParseTimeCondition (body @ '' && '' @ q) = None"
    "tryParseTimeCondition (''('' @ body @ '')'' @ '' && '' @ q) = None"
proof -
  have f: "f \<in> set TIME_FUNCTIONS" and n: "NUMERIC_LITERAL_REGEX s" "NUMERIC_LITERAL_REGEX e"
    using assms(1,2) inRange_numeric by (auto simp: timeBounds_def)
  have match: "rangePattern (body @ r) = Some ((f, z, s, e), r)" if "r = [] \<or> \<not> numeralChar (hd r)" for r
    using rangePattern_text [OF f assms(3) n assms(4) that] by (simp add: body_def)
  let ?more = "'' && '' @ q"
  have "\<not> numeralChar (hd ?more)" by (simp add: numeralChar_def isDigit_def)
  then have "rangePattern (body @ ?more) = Some ((f, z, s, e), ?more)" using match by blast
  moreover have "mtext ''('' (body @ ?more) = None" using probe_start [OF f] by (simp add: body_def)
  moreover have "scalarPattern (body @ ?more) = Some ((f, z, '' >= '', s), glue @ probeText f z @ '' < '' @ e @ ?more)"
    using scalarPattern_text [OF f assms(3) n(1), of "''>=''" "glue @ probeText f z @ '' < '' @ e @ ?more"] assms(4)
    by (auto simp: body_def numeralChar_def isDigit_def)
  ultimately show "tryParseTimeCondition (body @ ?more) = None"
    using assms(4) by (auto simp: tryParseTimeCondition_def full_def mthen_def)
  have "rangePattern (CHR ''('' # t) = None" "scalarPattern (CHR ''('' # t) = None" for t
    by (simp_all add: rangePattern_def scalarPattern_def timeProbe_def TIME_FUNCTIONS_def matcher_defs)
  moreover have "rangePattern (body @ '')'' @ ?more) = Some ((f, z, s, e), '')'' @ ?more)"
    by (rule match) (simp add: numeralChar_def isDigit_def)
  ultimately show "tryParseTimeCondition (''('' @ body @ '')'' @ ?more) = None"
    by (simp add: tryParseTimeCondition_def matcher_defs)
qed

section \<open>Conditions on parameters and headers\<close>

lemma trim_ends: "\<lbrakk>\<not> isSpace a; \<not> isSpace b\<rbrakk> \<Longrightarrow> trim (a # s @ [b]) = a # s @ [b]"
  by (simp add: trim_def trimStart_def trimEnd_def)

lemma trim_jsonString: "trim (jsonString s) = jsonString s"
  unfolding jsonString_chars by (rule trim_ends) (simp_all add: isSpace_def)

text \<open>A literal that is written is read as its text, and lies on one line.\<close>

lemma literal_read:
  assumes "trim v = v"
  shows "parseExprLiteral (buildExprLiteral ''eq'' v) = Some (JsonStr (unitsOf v))"
    "restOfLine (buildExprLiteral ''eq'' v) = Some (buildExprLiteral ''eq'' v, [])"
proof -
  have json: "\<not> NUMERIC_LITERAL_REGEX (jsonString v)" "jsonString v \<noteq> ''true''" "jsonString v \<noteq> ''false''"
    using numeric_chars [of "jsonString v"] by (auto simp: jsonString_chars numeralChar_def isDigit_def)
  show "parseExprLiteral (buildExprLiteral ''eq'' v) = Some (JsonStr (unitsOf v))"
    using assms json by (auto simp: buildExprLiteral_def parseExprLiteral_def trim_jsonString parseJson_jsonString Let_def)
  have "list_all (\<lambda>c. \<not> lineTerminator c) v" if "NUMERIC_LITERAL_REGEX v"
    using numeric_chars [OF that] numeralChar_plain by (auto simp: list_all_iff)
  moreover have "list_all (\<lambda>c. \<not> lineTerminator c) (jsonString v)" using jsonString_lines by (auto simp: list_all_iff)
  moreover have "NUMERIC_LITERAL_REGEX v \<Longrightarrow> v \<noteq> []" "jsonString v \<noteq> []" using numeric_chars by (auto simp: jsonString_chars)
  ultimately show "restOfLine (buildExprLiteral ''eq'' v) = Some (buildExprLiteral ''eq'' v, [])"
    using assms by (auto simp: buildExprLiteral_def restOfLine_def Let_def lineTerminator_def)
qed

lemma no_time:
  "tryParseTimeCondition (''header'' @ s) = None" "tryParseTimeCondition (''param'' @ s) = None"
  "tryParseTimeCondition (''has('' @ s) = None"
  by (simp_all add: tryParseTimeCondition_def rangePattern_def scalarPattern_def timeProbe_def TIME_FUNCTIONS_def matcher_defs)

lemma probeText_append: "probeText f p @ s = f @ (CHR ''('' # jsonString p @ CHR '')'' # s)"
  by (simp add: probeText_def)

lemma read_exists:
  assumes "plainName p"
  shows "tryParseRequestCondition (probeText ''header'' p @ '' != \"\"'') = Inr (Some (phCond ''header'' p ''exists'' []))"
    "tryParseRequestCondition (probeText ''param'' p @ '' != nil'') = Inr (Some (phCond ''param'' p ''exists'' []))"
  unfolding probeText_append using quotedArg_plain [OF assms]
  by (simp_all add: tryParseRequestCondition_def no_time [simplified] headerExists_def paramExists_def matcher_defs)

lemma read_contains:
  assumes "plainName p"
  shows "tryParseRequestCondition (''has('' @ probeText ''header'' p @ '', '' @ jsonString v @ '')'') =
    Inr (Some (phCond ''header'' p ''contains'' v))"
proof -
  have "stringLiteral (jsonString v @ '')'') = Some (jsonString v, '')'')" by (rule stringLiteral_json)
  then show ?thesis
    unfolding probeText_append using quotedArg_plain [OF assms]
    by (simp add: tryParseRequestCondition_def no_time [simplified] headerExists_def paramExists_def headerContains_def matcher_defs)
qed

lemma read_equals:
  assumes "plainName p" "src = ''param'' \<or> src = ''header''" "trim v = v"
  shows "tryParseRequestCondition (probeText src p @ '' == '' @ buildExprLiteral ''eq'' v) = Inr (Some (phCond src p ''eq'' v))"
  using assms(2)
  unfolding probeText_append using quotedArg_plain [OF assms(1)] literal_read [OF assms(3)]
  by (elim disjE)
     (simp_all add: tryParseRequestCondition_def no_time [simplified] headerExists_def paramExists_def headerContains_def
       readGuarded_def paramContains_def paramCompares_def readEquals_def equalsText_def matcher_defs literalText_def)

section \<open>Conditions the editor can express\<close>

definition plainTime :: "timeCondition \<Rightarrow> bool" where
  "plainTime c \<longleftrightarrow> tcFunc c \<in> set TIME_FUNCTIONS \<and> plainName (tcZone c) \<and>
     (if tcMode c = ''range''
      then tcValue c = [] \<and> isTimeValueInRange (tcFunc c) (tcStart c) \<and> isTimeValueInRange (tcFunc c) (tcEnd c)
      else tcMode c \<in> {''eq'', ''gte'', ''lt''} \<and> tcStart c = [] \<and> tcEnd c = [] \<and> isTimeValueInRange (tcFunc c) (tcValue c))"

definition plainParamHeader :: "paramHeaderCondition \<Rightarrow> bool" where
  "plainParamHeader c \<longleftrightarrow> phSource c \<in> {''param'', ''header''} \<and> plainName (phPath c) \<and> trim (phPath c) = phPath c \<and>
     (if phMode c = ''exists'' then phValue c = []
      else trim (phValue c) = phValue c \<and> (phMode c = ''eq'' \<or> phMode c = ''contains'' \<and> phSource c = ''header''))"

fun plainCondition :: "requestCondition \<Rightarrow> bool" where
  "plainCondition (TimeCondition c) = plainTime c"
| "plainCondition (ParamHeaderCondition c) = plainParamHeader c"

definition crossesMidnight :: "timeCondition \<Rightarrow> bool" where
  "crossesMidnight c \<longleftrightarrow> tcMode c = ''range'' \<and> js_lt (stringToNumber (tcEnd c)) (stringToNumber (tcStart c))"

definition boundText :: "timeCondition \<Rightarrow> string \<Rightarrow> string \<Rightarrow> string" where
  "boundText c op v = probeText (tcFunc c) (tcZone c) @ '' '' @ op @ '' '' @ v"

text \<open>The texts between which a written group has the conjunctions.\<close>

fun conditionParts :: "requestCondition \<Rightarrow> string list" where
  "conditionParts (TimeCondition c) =
     (if tcMode c \<noteq> ''range'' then [boundText c (scalarOperator (tcMode c)) (tcValue c)]
      else if crossesMidnight c
      then [''('' @ boundText c ''>='' (tcStart c) @ '' || '' @ boundText c ''<'' (tcEnd c) @ '')'']
      else [boundText c ''>='' (tcStart c), boundText c ''<'' (tcEnd c)])"
| "conditionParts (ParamHeaderCondition c) = [buildRequestConditionExpr (ParamHeaderCondition c)]"

lemma plainName_nonempty: "plainName x \<Longrightarrow> x \<noteq> []"
  by (simp add: plainName_def)

lemma normalize_plain: "plainTime c \<Longrightarrow> normalizeTime (toPartial (TimeCondition c)) = c"
  by (cases c) (auto simp: plainTime_def normalizeTime_def isTimeFunc_def orElse_def orEmpty_def offeredMode_def
    getRequestRuleMatchOptions_def emptyPartial_def plainName_def split: if_splits)

lemma build_time:
  assumes "plainTime c"
  shows "buildTimeConditionExpr c =
    (if tcMode c \<noteq> ''range'' then boundText c (scalarOperator (tcMode c)) (tcValue c)
     else boundText c ''>='' (tcStart c) @ (if crossesMidnight c then '' || '' else '' && '') @ boundText c ''<'' (tcEnd c))"
proof (cases "tcMode c = ''range''")
  case True
  then have v: "isTimeValueInRange (tcFunc c) (tcStart c)" "isTimeValueInRange (tcFunc c) (tcEnd c)"
    using assms by (simp_all add: plainTime_def)
  then have "trim (tcStart c) = tcStart c" "trim (tcEnd c) = tcEnd c" using numeric_trim inRange_numeric by blast+
  with True v show ?thesis
    unfolding buildTimeConditionExpr_def normalize_plain [OF assms] Let_def boundText_def crossesMidnight_def by simp
next
  case False
  then have v: "isTimeValueInRange (tcFunc c) (tcValue c)" using assms by (simp add: plainTime_def)
  then have "trim (tcValue c) = tcValue c" using numeric_trim inRange_numeric by blast
  with False v show ?thesis
    unfolding buildTimeConditionExpr_def normalize_plain [OF assms] Let_def boundText_def by simp
qed

text \<open>The five kinds of plain conditions on a parameter or header.\<close>

lemma plainParamHeader_cases:
  assumes "plainParamHeader c"
  obtains p v where "plainName p" "trim p = p" "trim v = v"
    "(\<exists>src. (src = ''param'' \<or> src = ''header'') \<and>
       (c = \<lparr>phSource = src, phPath = p, phMode = ''exists'', phValue = []\<rparr> \<or>
        c = \<lparr>phSource = src, phPath = p, phMode = ''eq'', phValue = v\<rparr>)) \<or>
     c = \<lparr>phSource = ''header'', phPath = p, phMode = ''contains'', phValue = v\<rparr>"
proof (rule that [of "phPath c" "phValue c"])
  show "trim (phValue c) = phValue c" using assms by (auto simp: plainParamHeader_def trim_def trimStart_def trimEnd_def split: if_splits)
qed (use assms in \<open>auto simp: plainParamHeader_def split: if_splits\<close>)


lemma build_exists:
  assumes "p \<noteq> []" "trim p = p"
  shows "buildRequestConditionExpr (phCond ''param'' p ''exists'' []) = probeText ''param'' p @ '' != nil''"
    "buildRequestConditionExpr (phCond ''header'' p ''exists'' []) = probeText ''header'' p @ '' != \"\"''"
  using assms by (simp_all add: phCond_def normalizeParamHeader_def orElse_def orEmpty_def offeredMode_def emptyPartial_def
      getRequestRuleMatchOptions_def buildParamHeaderExpr_def)

lemma build_contains:
  assumes "p \<noteq> []" "trim p = p" "trim v = v"
  shows "buildRequestConditionExpr (phCond ''header'' p ''contains'' v) =
    ''has('' @ probeText ''header'' p @ '', '' @ jsonString v @ '')''"
  using assms by (simp add: phCond_def normalizeParamHeader_def orElse_def orEmpty_def offeredMode_def emptyPartial_def
      getRequestRuleMatchOptions_def buildParamHeaderExpr_def buildExprLiteral_def)

lemma build_equals:
  assumes "p \<noteq> []" "trim p = p" "src = ''param'' \<or> src = ''header''"
  shows "buildRequestConditionExpr (phCond src p ''eq'' v) = probeText src p @ '' == '' @ buildExprLiteral ''eq'' v"
  using assms(3,1,2) by (elim disjE) (simp_all add: phCond_def normalizeParamHeader_def orElse_def orEmpty_def offeredMode_def emptyPartial_def
      getRequestRuleMatchOptions_def buildParamHeaderExpr_def)

lemma plain_kinds:
  assumes "plainParamHeader c"
  obtains (exists) src p where "src = ''param'' \<or> src = ''header''" "plainName p"
      "ParamHeaderCondition c = phCond src p ''exists'' []"
      "buildRequestConditionExpr (ParamHeaderCondition c) = probeText src p @ (if src = ''header'' then '' != \"\"'' else '' != nil'')"
  | (equals) src p v where "src = ''param'' \<or> src = ''header''" "plainName p" "trim v = v"
      "ParamHeaderCondition c = phCond src p ''eq'' v"
      "buildRequestConditionExpr (ParamHeaderCondition c) = probeText src p @ '' == '' @ buildExprLiteral ''eq'' v"
  | (contains) p v where "plainName p" "ParamHeaderCondition c = phCond ''header'' p ''contains'' v"
      "buildRequestConditionExpr (ParamHeaderCondition c) = ''has('' @ probeText ''header'' p @ '', '' @ jsonString v @ '')''"
proof -
  obtain p v where pv: "plainName p" "trim p = p" "trim v = v"
    "(\<exists>src. (src = ''param'' \<or> src = ''header'') \<and>
       (c = \<lparr>phSource = src, phPath = p, phMode = ''exists'', phValue = []\<rparr> \<or>
        c = \<lparr>phSource = src, phPath = p, phMode = ''eq'', phValue = v\<rparr>)) \<or>
     c = \<lparr>phSource = ''header'', phPath = p, phMode = ''contains'', phValue = v\<rparr>"
    using assms by (rule plainParamHeader_cases)
  note p = plainName_nonempty [OF pv(1)]
  consider src where "src = ''param'' \<or> src = ''header''" "ParamHeaderCondition c = phCond src p ''exists'' []"
    | src where "src = ''param'' \<or> src = ''header''" "ParamHeaderCondition c = phCond src p ''eq'' v"
    | "ParamHeaderCondition c = phCond ''header'' p ''contains'' v"
    using pv(4) unfolding phCond_def by blast
  then show thesis
  proof cases
    case (1 src)
    then have "buildRequestConditionExpr (ParamHeaderCondition c) = probeText src p @ (if src = ''header'' then '' != \"\"'' else '' != nil'')"
      using build_exists [OF p pv(2)] by (elim disjE) simp_all
    with exists 1 pv(1) show thesis by blast
  next
    case (2 src)
    with equals [OF 2(1) pv(1,3) 2(2)] build_equals [OF p pv(2) 2(1), of v] show thesis by simp
  next
    case 3
    with contains [OF pv(1) 3] build_contains [OF p pv(2,3)] show thesis by simp
  qed
qed

lemma read_param_header:
  "plainParamHeader c \<Longrightarrow>
   tryParseRequestCondition (buildRequestConditionExpr (ParamHeaderCondition c)) = Inr (Some (ParamHeaderCondition c))"
proof (erule plain_kinds, goal_cases)
  case (1 src p)
  then show ?case using read_exists [OF 1(2)] by (elim disjE) simp_all
next
  case (2 src p v)
  then show ?case using read_equals [OF 2(2,1,3)] by simp
next
  case (3 p v)
  then show ?case using read_contains [OF 3(1)] by simp
qed

lemma param_header_start:
  "plainParamHeader c \<Longrightarrow>
   \<exists>t. buildRequestConditionExpr (ParamHeaderCondition c) \<in> {''header('' @ t, ''param('' @ t, ''has('' @ t}"
  by (erule plain_kinds) (auto simp: probeText_def)

section \<open>The parts of a written group\<close>

lemma trim_by_ends:
  assumes "s \<noteq> []" "\<not> isSpace (hd s)" "\<not> isSpace (last s)"
  shows "trim s = s"
proof -
  have "dropWhile isSpace t = t" if "t \<noteq> []" "\<not> isSpace (hd t)" for t using that by (cases t) auto
  from this [of s] this [of "rev s"] assms show ?thesis by (simp add: trim_def trimStart_def trimEnd_def hd_rev)
qed

text \<open>The classes at which the editor splits, and the characters that no splitting looks at.\<close>

definition operatorStop :: "(char \<Rightarrow> bool) \<Rightarrow> bool" where
  "operatorStop stop \<longleftrightarrow> (\<forall>c. stop c \<longrightarrow> c \<in> set ''?*&'')"

definition flatChar :: "char \<Rightarrow> bool" where
  "flatChar c \<longleftrightarrow> c \<notin> set ''?*&'' \<and> c \<noteq> quoteDbl \<and> c \<noteq> quoteSgl \<and> \<not> opensBracket c \<and> \<not> closesBracket c"

lemmas flat_simps = flatChar_def opensBracket_def closesBracket_def

lemma balanced_text:
  assumes "operatorStop stop" "list_all flatChar s" "balanced stop 0 None t"
  shows "balanced stop 0 None (s @ t)"
proof (rule balanced_append [OF balanced_flat assms(3)])
  have "flatChar c \<Longrightarrow> c \<noteq> quoteDbl \<and> c \<noteq> quoteSgl \<and> \<not> opensBracket c \<and> \<not> closesBracket c \<and> \<not> stop c" for c
    using assms(1) unfolding operatorStop_def flatChar_def by blast
  then show "list_all (\<lambda>c. c \<noteq> quoteDbl \<and> c \<noteq> quoteSgl \<and> \<not> opensBracket c \<and> \<not> closesBracket c \<and> \<not> stop c) s"
    using assms(2) by (rule list.pred_mono_strong [rotated])
qed

lemma flat_numeral: "NUMERIC_LITERAL_REGEX s \<Longrightarrow> list_all flatChar s"
  using numeric_chars [of s] numeralChar_plain by (auto simp: flatChar_def elim!: list.pred_mono_strong)

lemma balanced_flat_text: "\<lbrakk>operatorStop stop; list_all flatChar s\<rbrakk> \<Longrightarrow> balanced stop 0 None s"
  using balanced_text [of stop s "[]"] by simp

lemma balanced_probe:
  assumes "operatorStop stop" "f \<in> set (TIME_FUNCTIONS @ [''param'', ''header''])" "balanced stop 0 None t"
  shows "balanced stop 0 None (probeText f z @ t)"
proof -
  have "balanced stop 0 None (jsonString z)" using balanced_jsonString [of stop "[]" z] by simp
  from balanced_within [OF this assms(3)] have "balanced stop 0 None (CHR ''('' # jsonString z @ CHR '')'' # t)"
    by (simp add: opensBracket_def balanced.simps)
  moreover have "list_all flatChar f" using assms(2) by (simp add: TIME_FUNCTIONS_def) (elim disjE; simp add: flat_simps)
  ultimately show ?thesis unfolding probeText_append by (intro balanced_text [OF assms(1)])
qed

lemma balanced_literal:
  assumes "operatorStop stop" "trim v = v"
  shows "balanced stop 0 None (buildExprLiteral ''eq'' v)" "\<not> isSpace (last (buildExprLiteral ''eq'' v))"
    "buildExprLiteral ''eq'' v \<noteq> []"
proof -
  consider "buildExprLiteral ''eq'' v = jsonString v" | "buildExprLiteral ''eq'' v = v" "v = ''true'' \<or> v = ''false''"
    | "buildExprLiteral ''eq'' v = v" "NUMERIC_LITERAL_REGEX v"
    using assms(2) unfolding buildExprLiteral_def Let_def by metis
  then have "balanced stop 0 None (buildExprLiteral ''eq'' v) \<and> \<not> isSpace (last (buildExprLiteral ''eq'' v)) \<and>
    buildExprLiteral ''eq'' v \<noteq> []"
  proof cases
    case 1
    then show ?thesis using balanced_jsonString [of stop "[]" v] by (simp add: jsonString_chars isSpace_def)
  next
    case 2
    then have "list_all flatChar v" "\<not> isSpace (last v)" "v \<noteq> []" by (auto simp: flat_simps isSpace_def)
    with 2(1) show ?thesis using balanced_flat_text [OF assms(1)] by simp
  next
    case 3
    then show ?thesis using balanced_flat_text [OF assms(1) flat_numeral] numeric_chars numeralChar_plain
      by (simp add: list_all_iff)
  qed
  then show "balanced stop 0 None (buildExprLiteral ''eq'' v)" "\<not> isSpace (last (buildExprLiteral ''eq'' v))"
    "buildExprLiteral ''eq'' v \<noteq> []" by blast+
qed

lemma bound_part:
  assumes "operatorStop stop" "plainTime c" "op \<in> {''=='', ''>='', ''<''}" "isTimeValueInRange (tcFunc c) v"
  shows "balanced stop 0 None (boundText c op v)" "\<not> isSpace (hd (boundText c op v))" "\<not> isSpace (last (boundText c op v))"
    "boundText c op v \<noteq> []"
proof -
  have f: "tcFunc c \<in> set TIME_FUNCTIONS" using assms(2) by (simp add: plainTime_def)
  have v: "NUMERIC_LITERAL_REGEX v" using assms(4) by (rule inRange_numeric)
  have "list_all flatChar ('' '' @ op @ '' '' @ v)" using assms(3) flat_numeral [OF v] by (auto simp: flat_simps)
  from balanced_flat_text [OF assms(1) this] f show "balanced stop 0 None (boundText c op v)"
    unfolding boundText_def by (intro balanced_probe [OF assms(1)]) simp_all
  show "\<not> isSpace (hd (boundText c op v))"
    using f unfolding boundText_def probeText_def TIME_FUNCTIONS_def by (simp add: isSpace_def) (elim disjE; simp)
  show "\<not> isSpace (last (boundText c op v))"
    using numeric_chars [OF v] numeralChar_plain by (simp add: boundText_def list_all_iff)
  show "boundText c op v \<noteq> []" by (simp add: boundText_def)
qed

lemma param_header_part:
  assumes "operatorStop stop" "plainParamHeader c"
  defines "t \<equiv> buildRequestConditionExpr (ParamHeaderCondition c)"
  shows "balanced stop 0 None t \<and> \<not> isSpace (last t) \<and> \<not> isSpace (hd t) \<and> t \<noteq> []"
  using assms(2)
proof (cases rule: plain_kinds)
  case (exists src p)
  let ?s = "if src = ''header'' then '' != \"\"'' else '' != nil''"
  have "balanced stop 0 None ?s"
    using balanced_text [OF assms(1), of "'' != ''" "[quoteDbl, quoteDbl]"] balanced_flat_text [OF assms(1), of "'' != nil''"]
    by (simp add: flat_simps balanced.simps)
  with exists(1) have "balanced stop 0 None t" unfolding t_def exists(4) by (intro balanced_probe [OF assms(1)]) auto
  with exists(1) show ?thesis unfolding t_def exists(4) by (elim disjE) (simp_all add: probeText_def isSpace_def)
next
  case (equals src p v)
  note lit = balanced_literal [OF assms(1) equals(3)]
  have "balanced stop 0 None ('' == '' @ buildExprLiteral ''eq'' v)"
    by (rule balanced_text [OF assms(1) _ lit(1)]) (simp add: flat_simps)
  with equals(1) have "balanced stop 0 None t" unfolding t_def equals(5) by (intro balanced_probe [OF assms(1)]) auto
  with equals(1) lit(2,3) show ?thesis unfolding t_def equals(5) by (elim disjE) (simp_all add: probeText_def isSpace_def)
next
  case (contains p v)
  have "balanced stop 0 None (probeText ''header'' p @ '', '' @ jsonString v)"
    using balanced_text [OF assms(1), of "'', ''" "jsonString v"] balanced_jsonString [of stop "[]" v]
    by (intro balanced_probe [OF assms(1)]) (simp_all add: flat_simps)
  from balanced_text [OF assms(1), of "''has''", OF _ balanced_paren [OF this]] have "balanced stop 0 None t"
    unfolding t_def contains(3) by (simp add: flat_simps)
  then show ?thesis unfolding t_def contains(3) by (simp add: isSpace_def)
qed

lemma plain_bounds:
  assumes "plainTime c" "tcMode c = ''range''"
  shows "timeBounds (tcFunc c) (tcStart c)" "timeBounds (tcFunc c) (tcEnd c)" "plainName (tcZone c)"
    "isTimeValueInRange (tcFunc c) (tcStart c)" "isTimeValueInRange (tcFunc c) (tcEnd c)"
  using assms by (simp_all add: plainTime_def timeBounds_def)

lemma scalar_operator: "scalarOperator m \<in> {''=='', ''>='', ''<''}"
  by (simp add: scalarOperator_def)

lemma parts_text:
  assumes "operatorStop stop" "plainCondition c" "p \<in> set (conditionParts c)"
  shows "balanced stop 0 None p \<and> \<not> isSpace (last p) \<and> \<not> isSpace (hd p) \<and> p \<noteq> []"
proof (cases c)
  case (ParamHeaderCondition d)
  with assms param_header_part [OF assms(1), of d] show ?thesis by simp
next
  case (TimeCondition d)
  then have d: "plainTime d" using assms(2) by simp
  note bound = bound_part [OF assms(1) d]
  show ?thesis
  proof (cases "tcMode d = ''range''")
    case False
    with d have "isTimeValueInRange (tcFunc d) (tcValue d)" by (simp add: plainTime_def)
    from bound [OF scalar_operator this] False assms(3) TimeCondition show ?thesis by simp
  next
    case True
    note b = plain_bounds [OF d True]
    have two: "x = boundText d ''>='' (tcStart d) \<or> x = boundText d ''<'' (tcEnd d) \<Longrightarrow>
        balanced stop 0 None x \<and> \<not> isSpace (last x) \<and> \<not> isSpace (hd x) \<and> x \<noteq> []" for x
      using bound [OF _ b(4), of "''>=''"] bound [OF _ b(5), of "''<''"] by auto
    have "balanced stop 0 None ('' || '' @ boundText d ''<'' (tcEnd d))"
      using two by (intro balanced_text [OF assms(1)]) (simp_all add: flat_simps)
    from balanced_paren [OF balanced_append [OF conjunct1 [OF two [OF disjI1 [OF refl]]] this], of stop]
    have "balanced stop 0 None (''('' @ boundText d ''>='' (tcStart d) @ '' || '' @ boundText d ''<'' (tcEnd d) @ '')'')"
      by simp
    with two True assms(3) TimeCondition show ?thesis by (auto simp: isSpace_def split: if_splits)
  qed
qed

lemma operatorStop_simps [simp]:
  "operatorStop (\<lambda>c. c = CHR ''?'' \<or> c = CHR ''*'')" "operatorStop (\<lambda>c. c = CHR ''?'' \<or> c = CHR ''&'')"
  by (auto simp: operatorStop_def)

lemma parts_onePart: "\<lbrakk>plainCondition c; p \<in> set (conditionParts c)\<rbrakk> \<Longrightarrow> conjunction.onePart p"
  using parts_text [of "\<lambda>c. c = CHR ''?'' \<or> c = CHR ''&''" c p] by (simp add: conjunction.onePart_def trim_by_ends)

lemma parts_trim: "\<lbrakk>plainCondition c; p \<in> set (conditionParts c)\<rbrakk> \<Longrightarrow> trim p = p \<and> p \<noteq> []"
  using parts_onePart by (simp add: conjunction.onePart_def)

lemma parts_nonempty [simp]: "conditionParts c \<noteq> []"
  by (cases c) auto

section \<open>Reading the parts\<close>

text \<open>What the first part of a condition is as a time condition.\<close>

fun firstTime :: "requestCondition \<Rightarrow> timeCondition option" where
  "firstTime (TimeCondition c) =
     Some (if tcMode c = ''range'' \<and> \<not> crossesMidnight c then scalarCondition (tcFunc c) (tcZone c) ''gte'' (tcStart c) else c)"
| "firstTime (ParamHeaderCondition c) = None"

lemma boundText_append: "boundText c op v @ s = probeText (tcFunc c) (tcZone c) @ '' '' @ op @ '' '' @ v @ s"
  by (simp add: boundText_def)

lemma read_bound:
  assumes "timeBounds (tcFunc c) v" "plainName (tcZone c)"
  shows "tryParseTimeCondition (boundText c ''>='' v) = Some (scalarCondition (tcFunc c) (tcZone c) ''gte'' v)"
    "tryParseTimeCondition (boundText c ''<'' v) = Some (scalarCondition (tcFunc c) (tcZone c) ''lt'' v)"
    "tryParseTimeCondition (boundText c ''=='' v) = Some (scalarCondition (tcFunc c) (tcZone c) ''eq'' v)"
  using read_scalar(1) [OF assms, of "''>=''"] read_scalar(1) [OF assms, of "''<''"] read_scalar(1) [OF assms, of "''==''"]
  by (simp_all add: boundText_def scalarMode_def)

lemma range_record: "\<lbrakk>plainTime c; tcMode c = ''range''\<rbrakk> \<Longrightarrow> rangeCondition (tcFunc c) (tcZone c) (tcStart c) (tcEnd c) = c"
  by (cases c) (simp add: plainTime_def rangeCondition_def)

lemma read_scalar_part:
  assumes "plainTime c" "tcMode c \<noteq> ''range''"
  shows "tryParseTimeCondition (boundText c (scalarOperator (tcMode c)) (tcValue c)) = Some c"
proof -
  have c: "timeBounds (tcFunc c) (tcValue c)" "plainName (tcZone c)" "tcStart c = []" "tcEnd c = []"
    and m: "tcMode c = ''eq'' \<or> tcMode c = ''gte'' \<or> tcMode c = ''lt''"
    using assms by (simp_all add: plainTime_def timeBounds_def)
  then have "scalarCondition (tcFunc c) (tcZone c) (tcMode c) (tcValue c) = c" by (cases c) (simp add: scalarCondition_def)
  with m read_bound [OF c(1,2)] show ?thesis by (elim disjE) (simp_all add: scalarOperator_def)
qed

lemma read_range_part:
  assumes "plainTime c" "tcMode c = ''range''"
  shows "tryParseTimeCondition (boundText c ''>='' (tcStart c) @ (if crossesMidnight c then '' || '' else '' && '') @ boundText c ''<'' (tcEnd c)) = Some c"
    "tryParseTimeCondition (''('' @ boundText c ''>='' (tcStart c) @ '' || '' @ boundText c ''<'' (tcEnd c) @ '')'') = Some c"
  using read_range(1) [OF plain_bounds(1-3) [OF assms], of "if crossesMidnight c then '' || '' else '' && ''"]
    read_range(2) [OF plain_bounds(1-3) [OF assms], of "'' || ''"] range_record [OF assms]
  by (simp_all add: boundText_def split: if_splits)

lemma read_first:
  assumes "plainCondition c"
  shows "tryParseTimeCondition (hd (conditionParts c)) = firstTime c"
proof (cases c)
  case (ParamHeaderCondition d)
  then obtain t where "hd (conditionParts c) \<in> {''header('' @ t, ''param('' @ t, ''has('' @ t}"
    using assms param_header_start [of d] by auto
  with ParamHeaderCondition show ?thesis using no_time [simplified] by auto
next
  case (TimeCondition d)
  then have d: "plainTime d" using assms by simp
  show ?thesis
  proof (cases "tcMode d = ''range''")
    case False
    with TimeCondition read_scalar_part [OF d False] show ?thesis by simp
  next
    case True
    with TimeCondition read_range_part [OF d True] read_bound(1) [OF plain_bounds(1,3) [OF d True]] show ?thesis by simp
  qed
qed

text \<open>Two conditions that would be read as one range.\<close>

fun mergeable :: "requestCondition \<Rightarrow> requestCondition \<Rightarrow> bool" where
  "mergeable (TimeCondition a) (TimeCondition b) \<longleftrightarrow>
     tcMode a = ''gte'' \<and> tcMode b = ''lt'' \<and> tcFunc a = tcFunc b \<and> tcZone a = tcZone b"
| "mergeable _ _ \<longleftrightarrow> False"

fun unmerged :: "requestCondition list \<Rightarrow> bool" where
  "unmerged (c # d # cs) \<longleftrightarrow> \<not> mergeable c d \<and> unmerged (d # cs)"
| "unmerged _ \<longleftrightarrow> True"

definition isDayRange :: "requestCondition \<Rightarrow> bool" where
  "isDayRange c \<longleftrightarrow> (\<exists>t. c = TimeCondition t \<and> tcMode t = ''range'' \<and> \<not> crossesMidnight t)"

lemma read_part:
  assumes "plainCondition c" "\<not> isDayRange c"
  shows "conditionParts c = [hd (conditionParts c)]" "tryParseRequestCondition (hd (conditionParts c)) = Inr (Some c)"
proof -
  show "conditionParts c = [hd (conditionParts c)]" using assms(2) by (cases c) (auto simp: isDayRange_def)
  show "tryParseRequestCondition (hd (conditionParts c)) = Inr (Some c)"
  proof (cases c)
    case (TimeCondition d)
    with assms(2) have "firstTime c = Some d" by (auto simp: isDayRange_def)
    with read_first [OF assms(1)] TimeCondition show ?thesis by (simp add: tryParseRequestCondition_def)
  next
    case (ParamHeaderCondition d)
    with assms(1) read_param_header [of d] show ?thesis by simp
  qed
qed

section \<open>A written group\<close>

lemma timeProbe_bound:
  "plainTime c \<Longrightarrow> timeProbe (boundText c op v @ s) = Some ((tcFunc c, tcZone c), '' '' @ op @ '' '' @ v @ s)"
  unfolding boundText_append by (rule timeProbe_text) (simp_all add: plainTime_def)

lemma probe_first:
  assumes "plainCondition d" "timeProbe (hd (conditionParts d) @ s) = Some ((f, z), '' < '' @ r)"
  shows "\<exists>b. d = TimeCondition b \<and> tcMode b = ''lt'' \<and> tcFunc b = f \<and> tcZone b = z"
proof (cases d)
  case (ParamHeaderCondition c)
  then obtain t where "hd (conditionParts d) \<in> {''header('' @ t, ''param('' @ t, ''has('' @ t}"
    using assms(1) param_header_start [of c] by auto
  then have "timeProbe (hd (conditionParts d) @ s) = None"
    by (auto simp: timeProbe_def TIME_FUNCTIONS_def matcher_defs)
  with assms(2) show ?thesis by simp
next
  case (TimeCondition b)
  then have b: "plainTime b" using assms(1) by simp
  consider "tcMode b \<noteq> ''range''" | "tcMode b = ''range''" "crossesMidnight b" | "tcMode b = ''range''" "\<not> crossesMidnight b" by blast
  then show ?thesis
  proof cases
    case 1
    then have "scalarOperator (tcMode b) = ''<''" "tcFunc b = f" "tcZone b = z"
      using assms(2) TimeCondition timeProbe_bound [OF b, of "scalarOperator (tcMode b)" "tcValue b" s]
      by (auto simp: scalarOperator_def split: if_splits)
    with TimeCondition show ?thesis by (auto simp: scalarOperator_def split: if_splits)
  next
    case 2
    then have "timeProbe (hd (conditionParts d) @ s) = None"
      using TimeCondition by (simp add: timeProbe_def TIME_FUNCTIONS_def matcher_defs)
    with assms(2) show ?thesis by simp
  next
    case 3
    with assms(2) TimeCondition timeProbe_bound [OF b, of "''>=''" "tcStart b" s] show ?thesis by simp
  qed
qed

lemma startsWith_probe:
  assumes "f \<in> set TIME_FUNCTIONS" "plainName z" "startsWith q (probeText f z @ '' < '')"
  shows "\<exists>r. timeProbe q = Some ((f, z), '' < '' @ r)"
proof -
  obtain r where "q = (probeText f z @ '' < '') @ r"
    using assms(3) unfolding startsWith_def by (metis append_take_drop_id)
  then show ?thesis using timeProbe_text [OF assms(1,2), of "'' < '' @ r"] by auto
qed

lemma join_start: "xs \<noteq> [] \<Longrightarrow> \<exists>s. joinWith sep (xs @ ys) = hd xs @ s"
  by (cases xs; cases "tl xs @ ys") auto

text \<open>
  In a group of several conditions the editor puts every text with \<open> || \<close> into parentheses; it can
  read them back for a range over midnight only.
\<close>

definition separable :: "requestCondition \<Rightarrow> bool" where
  "separable c \<longleftrightarrow> (case c of TimeCondition t \<Rightarrow> crossesMidnight t | _ \<Rightarrow> False) \<or>
     \<not> strIncludes (buildRequestConditionExpr c) '' || ''"

definition plainGroup :: "requestRuleGroup \<Rightarrow> bool" where
  "plainGroup g \<longleftrightarrow> rgConditions g \<noteq> [] \<and> list_all plainCondition (rgConditions g) \<and> unmerged (rgConditions g) \<and>
     (length (rgConditions g) = 1 \<or> list_all separable (rgConditions g)) \<and>
     NUMERIC_LITERAL_REGEX (rgMultiplier g) \<and> rgConditionText g = None \<and> rgMatched g = None"

lemma strIncludes_append: "p \<noteq> [] \<Longrightarrow> strIncludes (a @ p @ b) p"
proof (induction a)
  case Nil
  then show ?case by (cases p) (auto simp: startsWith_def)
qed simp

lemma join_condition:
  assumes "plainCondition c" "separable c"
  shows "joinWith '' && '' (conditionParts c) = guardOr (buildRequestConditionExpr c)"
proof (cases c)
  case (ParamHeaderCondition b)
  with assms(2) show ?thesis by (simp add: guardOr_def separable_def del: buildRequestConditionExpr.simps)
next
  case (TimeCondition b)
  then have b: "plainTime b" using assms(1) by simp
  have "crossesMidnight b \<Longrightarrow> strIncludes (buildTimeConditionExpr b) '' || ''"
    unfolding build_time [OF b] using strIncludes_append [of "'' || ''" "boundText b ''>='' (tcStart b)" "boundText b ''<'' (tcEnd b)"]
    by (simp add: crossesMidnight_def)
  moreover have "\<not> crossesMidnight b \<Longrightarrow> \<not> strIncludes (buildTimeConditionExpr b) '' || ''"
    using assms(2) TimeCondition by (simp add: separable_def)
  ultimately show ?thesis using TimeCondition build_time [OF b]
    by (cases "crossesMidnight b") (simp_all add: guardOr_def crossesMidnight_def)
qed

lemma join_concat:
  "\<forall>c\<in>set cs. f c \<noteq> [] \<Longrightarrow> joinWith sep (concat (map f cs)) = joinWith sep (map (\<lambda>c. joinWith sep (f c)) cs)"
proof (induction cs rule: induct_list012)
  case (3 c d cs)
  have "joinWith sep (xs @ ys) = joinWith sep xs @ sep @ joinWith sep ys" if "xs \<noteq> []" "ys \<noteq> []" for xs ys
    using that by (induction xs rule: induct_list012) (cases ys; auto)+
  with 3 show ?case by simp
qed simp_all

lemma join_ends:
  "\<lbrakk>ps \<noteq> []; \<forall>p\<in>set ps. p \<noteq> [] \<and> \<not> isSpace (hd p) \<and> \<not> isSpace (last p)\<rbrakk> \<Longrightarrow>
   joinWith sep ps \<noteq> [] \<and> \<not> isSpace (hd (joinWith sep ps)) \<and> \<not> isSpace (last (joinWith sep ps))"
  by (induction ps rule: induct_list012) auto

lemma balanced_join:
  "\<lbrakk>balanced stop 0 None sep; \<forall>p\<in>set ps. balanced stop 0 None p\<rbrakk> \<Longrightarrow> balanced stop 0 None (joinWith sep ps)"
  by (induction ps rule: induct_list012) (auto intro: balanced_append)

lemma plain_text:
  assumes "plainCondition c"
  defines "e \<equiv> buildRequestConditionExpr c"
  shows "e \<noteq> [] \<and> \<not> isSpace (hd e) \<and> \<not> isSpace (last e) \<and> balanced (\<lambda>_. False) 0 None e"
proof -
  have stop: "operatorStop (\<lambda>_. False)" by (simp add: operatorStop_def)
  have flat: "balanced (\<lambda>_. False) 0 None s" if "s = '' && '' \<or> s = '' || ''" for s
    using that by (intro balanced_flat) (auto simp: opensBracket_def closesBracket_def)
  show ?thesis
  proof (cases c)
    case (ParamHeaderCondition b)
    with assms(1) param_header_part [OF stop, of b] show ?thesis by (simp add: e_def)
  next
    case (TimeCondition b)
    then have b: "plainTime b" using assms(1) by simp
    note bound = bound_part [OF stop b]
    show ?thesis
    proof (cases "tcMode b = ''range''")
      case False
      with b have "isTimeValueInRange (tcFunc b) (tcValue b)" by (simp add: plainTime_def)
      from bound [OF scalar_operator this] False TimeCondition show ?thesis by (simp add: e_def build_time [OF b])
    next
      case True
      let ?glue = "if crossesMidnight b then '' || '' else '' && ''"
      note v = plain_bounds(4,5) [OF b True]
      note lower = bound [OF _ v(1), of "''>=''", simplified] and upper = bound [OF _ v(2), of "''<''", simplified]
      have "balanced (\<lambda>_. False) 0 None (boundText b ''>='' (tcStart b) @ ?glue @ boundText b ''<'' (tcEnd b))"
        by (intro balanced_append lower(1) upper(1) flat) simp
      with lower upper True TimeCondition show ?thesis by (simp add: e_def build_time [OF b])
    qed
  qed
qed

section \<open>Written rules\<close>

lemma factorMatch_text:
  assumes "condition \<noteq> []" "NUMERIC_LITERAL_REGEX m"
  shows "factorMatch (''('' @ condition @ '' ? '' @ m @ '' : 1)'') = Some (condition, m)"
proof -
  let ?tail = "rev m @ '' ? '' @ rev condition"
  have m: "rev m \<noteq> []" "list_all numeralChar (rev m)" using numeric_chars [OF assms(2)] by (auto simp: list_all_iff)
  have "rev (drop 1 (''('' @ condition @ '' ? '' @ m @ '' : 1)'')) = rev '' : 1)'' @ ?tail" by simp
  moreover have "takeWhile numeralChar ?tail = rev m" "dropWhile numeralChar ?tail = '' ? '' @ rev condition"
    using m by (auto simp: list_all_iff takeWhile_append dropWhile_append numeralChar_def isDigit_def)
  ultimately show ?thesis using assms(1) m(1) by (simp add: factorMatch_def Let_def startsWith_def)
qed

end
