(* ===== verification/BxRulesExact.thy ===== *)
theory BxRulesExact
  imports BxRulesFacts
begin

text \<open>
  What the request rule editor reads back of the rules it has written, for every kind of condition
  it offers: which texts the parser cannot read, which conditions come back as one, and that all
  others come back as they were.
\<close>

section \<open>The conditions the editor offers\<close>

text \<open>
  A comparison of a parameter and containment in it are written with a guard, \<open>param("x") != nil\<close>,
  in front.
\<close>

definition guardedParam :: "paramHeaderCondition \<Rightarrow> bool" where
  "guardedParam c \<longleftrightarrow> phSource c = ''param'' \<and> plainName (phPath c) \<and> trim (phPath c) = phPath c \<and>
     (phMode c = ''contains'' \<and> trim (phValue c) = phValue c \<or>
      phMode c \<in> {''gt'', ''gte'', ''lt'', ''lte''} \<and> NUMERIC_LITERAL_REGEX (phValue c))"

fun isGuarded :: "requestCondition \<Rightarrow> bool" where
  "isGuarded (ParamHeaderCondition c) = guardedParam c"
| "isGuarded (TimeCondition c) = False"

definition offeredCondition :: "requestCondition \<Rightarrow> bool" where
  "offeredCondition c \<longleftrightarrow> plainCondition c \<or> isGuarded c"

text \<open>Texts that a group of several conditions puts into parentheses.\<close>

definition hasOr :: "requestCondition \<Rightarrow> bool" where
  "hasOr c = strIncludes (buildRequestConditionExpr c) '' || ''"

fun isRange :: "requestCondition \<Rightarrow> bool" where
  "isRange (TimeCondition c) \<longleftrightarrow> tcMode c = ''range''"
| "isRange (ParamHeaderCondition c) = False"

section \<open>Guarded conditions\<close>

definition guardedParts :: "paramHeaderCondition \<Rightarrow> string list" where
  "guardedParts c =
     (let probe = probeText ''param'' (phPath c)
      in [probe @ '' != nil'',
          if phMode c = ''contains'' then ''has('' @ probe @ '', '' @ jsonString (phValue c) @ '')''
          else probe @ '' '' @ compareOperator (phMode c) @ '' '' @ phValue c])"

lemma guarded_exclusive: "guardedParam c \<Longrightarrow> \<not> plainParamHeader c"
  by (auto simp: guardedParam_def plainParamHeader_def)

lemma build_guarded:
  assumes "guardedParam c"
  shows "buildRequestConditionExpr (ParamHeaderCondition c) = joinWith '' && '' (guardedParts c)"
proof -
  have mode: "list_ex (\<lambda>item. fst item = phMode c) (getRequestRuleMatchOptions ''param'')"
    using assms by (auto simp: guardedParam_def getRequestRuleMatchOptions_def)
  have v: "trim (phValue c) = phValue c" using assms numeric_trim by (auto simp: guardedParam_def)
  have p: "phPath c \<noteq> []" using assms by (simp add: guardedParam_def plainName_def)
  have "normalizeParamHeader ''param'' (toPartial (ParamHeaderCondition c)) = c"
    using assms mode p
    by (cases c) (simp add: guardedParam_def normalizeParamHeader_def orElse_def orEmpty_def offeredMode_def emptyPartial_def)
  with assms v p show ?thesis
    by (auto simp: guardedParam_def guardedParts_def buildParamHeaderExpr_def buildExprLiteral_def Let_def)
qed

definition closedPart :: "(char \<Rightarrow> bool) \<Rightarrow> string \<Rightarrow> bool" where
  "closedPart stop p \<longleftrightarrow> balanced stop 0 None p \<and> \<not> isSpace (last p) \<and> \<not> isSpace (hd p) \<and> p \<noteq> []"

lemma guarded_text:
  assumes "operatorStop stop" "guardedParam c" "p \<in> set (guardedParts c)"
  shows "closedPart stop p"
proof -
  let ?probe = "probeText ''param'' (phPath c)"
  have "closedPart stop (?probe @ '' != nil'')"
    using balanced_probe [OF assms(1), of "''param''" "'' != nil''" "phPath c"] balanced_flat_text [OF assms(1), of "'' != nil''"]
    by (simp add: closedPart_def flat_simps probeText_def isSpace_def)
  moreover have "closedPart stop (''has('' @ ?probe @ '', '' @ jsonString (phValue c) @ '')'')"
  proof -
    have "balanced stop 0 None (?probe @ '', '' @ jsonString (phValue c))"
      using balanced_text [OF assms(1), of "'', ''" "jsonString (phValue c)"] balanced_jsonString [of stop "[]" "phValue c"]
      by (intro balanced_probe [OF assms(1)]) (simp_all add: flat_simps)
    from balanced_text [OF assms(1), of "''has''", OF _ balanced_paren [OF this]] show ?thesis
      by (simp add: closedPart_def flat_simps isSpace_def)
  qed
  moreover have "closedPart stop (?probe @ '' '' @ compareOperator (phMode c) @ '' '' @ phValue c)" if "phMode c \<noteq> ''contains''"
  proof -
    have v: "NUMERIC_LITERAL_REGEX (phValue c)" using assms(2) that by (auto simp: guardedParam_def)
    have "list_all flatChar ('' '' @ compareOperator (phMode c) @ '' '' @ phValue c)"
      using flat_numeral [OF v] by (auto simp: compareOperator_def flat_simps)
    from balanced_probe [OF assms(1) _ balanced_flat_text [OF assms(1) this], of "''param''" "phPath c"]
    show ?thesis using numeric_chars [OF v] numeralChar_plain by (simp add: closedPart_def probeText_def isSpace_def list_all_iff)
  qed
  ultimately show ?thesis using assms(3) by (auto simp: guardedParts_def Let_def split: if_splits)
qed

text \<open>The guard is read as a condition of its own, and what follows it is not read.\<close>

lemma read_guarded:
  assumes "guardedParam c"
  shows "tryParseRequestCondition (hd (guardedParts c)) = Inr (Some (phCond ''param'' (phPath c) ''exists'' []))"
    "tryParseRequestCondition (guardedParts c ! 1) = Inr None"
    "p \<in> set (guardedParts c) \<Longrightarrow> tryParseTimeCondition (p @ s) = None"
proof -
  have p: "plainName (phPath c)" using assms by (simp add: guardedParam_def)
  show "tryParseRequestCondition (hd (guardedParts c)) = Inr (Some (phCond ''param'' (phPath c) ''exists'' []))"
    using read_exists(2) [OF p] by (simp add: guardedParts_def Let_def)
  have "compareOperator (phMode c) \<in> {''>'', ''>='', ''<'', ''<=''}" by (simp add: compareOperator_def)
  then show "tryParseRequestCondition (guardedParts c ! 1) = Inr None"
    unfolding guardedParts_def Let_def probeText_append using quotedArg_plain [OF p]
    by (auto simp: tryParseRequestCondition_def no_time [simplified] headerExists_def paramExists_def headerContains_def
        readGuarded_def paramContains_def paramCompares_def readEquals_def equalsText_def matcher_defs)
  show "tryParseTimeCondition (p @ s) = None" if "p \<in> set (guardedParts c)"
    using that no_time(2,3) [simplified] by (auto simp: guardedParts_def probeText_def Let_def split: if_splits)
qed

section \<open>Texts in parentheses\<close>

lemma paren_unread:
  assumes "rangePattern t = None"
  shows "tryParseTimeCondition (CHR ''('' # t) = None" "tryParseRequestCondition (CHR ''('' # t) = Inr None"
proof -
  have "rangePattern (CHR ''('' # t) = None" "scalarPattern (CHR ''('' # t) = None"
    by (simp_all add: rangePattern_def scalarPattern_def timeProbe_def TIME_FUNCTIONS_def matcher_defs)
  then show time: "tryParseTimeCondition (CHR ''('' # t) = None"
    using assms by (simp add: tryParseTimeCondition_def matcher_defs)
  show "tryParseRequestCondition (CHR ''('' # t) = Inr None"
    by (simp add: tryParseRequestCondition_def time headerExists_def paramExists_def headerContains_def
        readGuarded_def paramContains_def paramCompares_def readEquals_def equalsText_def matcher_defs)
qed

lemma rangePattern_start:
  "rangePattern (''header'' @ s) = None" "rangePattern (''param'' @ s) = None" "rangePattern (''has('' @ s) = None"
  by (simp_all add: rangePattern_def timeProbe_def TIME_FUNCTIONS_def matcher_defs)

lemma rangePattern_closed:
  assumes "plainTime c" "tcMode c \<noteq> ''range''"
  shows "rangePattern (boundText c (scalarOperator (tcMode c)) (tcValue c) @ CHR '')'' # q) = None"
proof -
  have f: "tcFunc c \<in> set TIME_FUNCTIONS" "plainName (tcZone c)" and v: "NUMERIC_LITERAL_REGEX (tcValue c)"
    using assms by (auto simp: plainTime_def intro: inRange_numeric)
  have "mrun numeralChar (tcValue c @ CHR '')'' # q) = Some (tcValue c, CHR '')'' # q)"
    by (rule mrun_numeral [OF v]) (simp add: numeralChar_def isDigit_def)
  then show ?thesis unfolding boundText_append using timeProbe_text [OF f]
    by (simp add: scalarOperator_def rangePattern_def mthen_def mret_def moneOf_def mtext_def [of "'' >= ''"] startsWith_def)
qed

section \<open>The parts of a group of several conditions\<close>

fun bareParts :: "requestCondition \<Rightarrow> string list" where
  "bareParts (ParamHeaderCondition c) =
     (if guardedParam c then guardedParts c else conditionParts (ParamHeaderCondition c))"
| "bareParts (TimeCondition c) = conditionParts (TimeCondition c)"

definition severalParts :: "requestCondition \<Rightarrow> string list" where
  "severalParts c = (if hasOr c then [''('' @ buildRequestConditionExpr c @ '')''] else bareParts c)"

lemma plain_bareParts: "plainCondition c \<Longrightarrow> bareParts c = conditionParts c"
  using guarded_exclusive by (cases c) auto

lemma offered_cases:
  assumes "offeredCondition c"
  obtains (plain) "plainCondition c" "bareParts c = conditionParts c" "\<not> isGuarded c"
  | (guarded) d where "c = ParamHeaderCondition d" "guardedParam d" "bareParts c = guardedParts d"
      "buildRequestConditionExpr c = joinWith '' && '' (guardedParts d)"
proof (cases "isGuarded c")
  case True
  then obtain d where "c = ParamHeaderCondition d" "guardedParam d" by (cases c) auto
  with guarded build_guarded [of d] show thesis by simp
next
  case False
  with assms plain plain_bareParts show thesis by (auto simp: offeredCondition_def)
qed

lemma build_text:
  assumes "offeredCondition c"
  shows "closedPart (\<lambda>_. False) (buildRequestConditionExpr c)"
  using assms
proof (cases rule: offered_cases)
  case plain
  with plain_text [of c] show ?thesis by (simp add: closedPart_def)
next
  case (guarded d)
  have stop: "operatorStop (\<lambda>_. False)" by (simp add: operatorStop_def)
  have "balanced (\<lambda>_. False) 0 None '' && ''" by (rule balanced_flat) (simp add: opensBracket_def closesBracket_def)
  moreover have "guardedParts d \<noteq> []" by (simp add: guardedParts_def Let_def)
  ultimately show ?thesis
    using balanced_join [of "\<lambda>_. False" "'' && ''" "guardedParts d"] join_ends [of "guardedParts d" "'' && ''"]
      guarded_text [OF stop guarded(2)] guarded(4) by (simp add: closedPart_def)
qed

lemma bare_text: "\<lbrakk>operatorStop stop; offeredCondition c; p \<in> set (bareParts c)\<rbrakk> \<Longrightarrow> closedPart stop p"
  by (erule offered_cases) (auto simp: closedPart_def dest: parts_text guarded_text)

lemma several_text:
  assumes "operatorStop stop" "offeredCondition c" "p \<in> set (severalParts c)"
  shows "closedPart stop p"
proof (cases "hasOr c")
  case True
  with assms(3) have p: "p = CHR ''('' # buildRequestConditionExpr c @ '')''" by (simp add: severalParts_def)
  have "balanced stop 0 None p"
    unfolding p using build_text [OF assms(2)] by (intro balanced_paren [of "\<lambda>_. False"]) (simp add: closedPart_def)
  then show ?thesis by (simp add: closedPart_def p isSpace_def)
next
  case False
  with assms bare_text show ?thesis by (simp add: severalParts_def)
qed

lemma several_nonempty: "severalParts c \<noteq> []"
proof -
  have "bareParts c \<noteq> []"
    by (cases c) (auto simp: guardedParts_def Let_def simp del: conditionParts.simps)
  then show ?thesis by (simp add: severalParts_def)
qed

lemma several_onePart:
  "\<lbrakk>offeredCondition c; p \<in> set (severalParts c)\<rbrakk> \<Longrightarrow> conjunction.onePart p \<and> trim p = p \<and> p \<noteq> []"
  using several_text [of "\<lambda>c. c = CHR ''?'' \<or> c = CHR ''&''" c p]
  by (simp add: closedPart_def conjunction.onePart_def trim_by_ends)

lemma join_several:
  assumes "offeredCondition c"
  shows "joinWith '' && '' (severalParts c) = guardOr (buildRequestConditionExpr c)"
  using assms
proof (cases rule: offered_cases)
  case plain
  with join_condition [of c] show ?thesis
    by (cases "hasOr c") (simp_all add: severalParts_def guardOr_def hasOr_def separable_def)
next
  case (guarded d)
  then show ?thesis by (simp add: severalParts_def guardOr_def hasOr_def)
qed

section \<open>Reading the parts of several conditions\<close>

text \<open>The conditions that can be read in a group of several.\<close>

definition readAmong :: "requestCondition \<Rightarrow> bool" where
  "readAmong c \<longleftrightarrow> \<not> isGuarded c \<and> (isRange c \<or> \<not> hasOr c)"

definition bareDay :: "requestCondition \<Rightarrow> bool" where
  "bareDay c \<longleftrightarrow> isDayRange c \<and> \<not> hasOr c"

fun timeOf :: "requestCondition \<Rightarrow> timeCondition option" where
  "timeOf (TimeCondition c) = Some c"
| "timeOf (ParamHeaderCondition c) = None"

lemma midnight_hasOr: "\<lbrakk>plainTime c; crossesMidnight c\<rbrakk> \<Longrightarrow> hasOr (TimeCondition c)"
  using strIncludes_append [of "'' || ''" "boundText c ''>='' (tcStart c)" "boundText c ''<'' (tcEnd c)"]
  by (simp add: hasOr_def build_time crossesMidnight_def)

lemma range_paren:
  assumes "plainTime c" "tcMode c = ''range''"
  shows "tryParseTimeCondition (''('' @ buildTimeConditionExpr c @ '')'') = Some c"
    "tryParseTimeCondition ((''('' @ buildTimeConditionExpr c @ '')'') @ '' && '' @ q) = None"
proof -
  let ?glue = "if crossesMidnight c then '' || '' else '' && ''"
  have glue: "?glue = '' && '' \<or> ?glue = '' || ''" by simp
  have written: "buildTimeConditionExpr c = probeText (tcFunc c) (tcZone c) @ '' >= '' @ tcStart c @ ?glue @
      probeText (tcFunc c) (tcZone c) @ '' < '' @ tcEnd c"
    unfolding build_time [OF assms(1)] using assms(2) by (simp add: boundText_def)
  show "tryParseTimeCondition (''('' @ buildTimeConditionExpr c @ '')'') = Some c"
    using read_range(2) [OF plain_bounds(1-3) [OF assms] glue] range_record [OF assms] unfolding written by simp
  show "tryParseTimeCondition ((''('' @ buildTimeConditionExpr c @ '')'') @ '' && '' @ q) = None"
    using read_range_more(2) [OF plain_bounds(1-3) [OF assms] glue, of q] unfolding written by simp
qed

lemma one_part:
  assumes "offeredCondition c" "readAmong c" "\<not> bareDay c"
  shows "\<exists>p. severalParts c = [p] \<and> tryParseRequestCondition p = Inr (Some c) \<and> tryParseTimeCondition p = timeOf c"
proof -
  have plain: "plainCondition c" "bareParts c = conditionParts c"
    using assms(1,2) by (auto elim: offered_cases simp: readAmong_def)
  show ?thesis
  proof (cases "hasOr c")
    case True
    with assms(2) obtain t where t: "c = TimeCondition t" "tcMode t = ''range''" by (cases c) (auto simp: readAmong_def)
    with plain(1) range_paren(1) [of t] True show ?thesis
      by (simp add: severalParts_def tryParseRequestCondition_def)
  next
    case False
    with assms(3) have day: "\<not> isDayRange c" by (simp add: bareDay_def)
    have "firstTime c = timeOf c" using day by (cases c) (auto simp: isDayRange_def)
    with read_part [OF plain(1) day] read_first [OF plain(1)] False plain(2) show ?thesis
      by (intro exI [of _ "hd (conditionParts c)"]) (simp add: severalParts_def)
  qed
qed

lemma two_parts:
  assumes "offeredCondition c" "bareDay c"
  shows "\<exists>t a b. c = TimeCondition t \<and> severalParts c = [a, b] \<and> tryParseTimeRangePair a b = Some t \<and>
    tryParseTimeCondition a = Some (scalarCondition (tcFunc t) (tcZone t) ''gte'' (tcStart t))"
proof -
  obtain t where t: "c = TimeCondition t" "tcMode t = ''range''" "\<not> crossesMidnight t"
    using assms(2) by (auto simp: bareDay_def isDayRange_def)
  then have plain: "plainTime t" using assms(1) by (auto simp: offeredCondition_def)
  let ?a = "boundText t ''>='' (tcStart t)" and ?b = "boundText t ''<'' (tcEnd t)"
  note bounds = read_bound [OF plain_bounds(1,3) [OF plain t(2)]] read_bound [OF plain_bounds(2,3) [OF plain t(2)]]
  have "severalParts c = [?a, ?b]" using assms(2) t by (simp add: severalParts_def bareDay_def)
  moreover have "tryParseTimeRangePair ?a ?b = Some t"
    unfolding tryParseTimeRangePair_def using bounds range_record [OF plain t(2)] by (simp add: scalarCondition_def)
  ultimately show ?thesis using bounds(1) t(1) by blast
qed

lemma unread_paren:
  assumes "offeredCondition c" "\<not> isRange c"
  shows "rangePattern (buildRequestConditionExpr c @ CHR '')'' # q) = None"
  using assms(1)
proof (cases rule: offered_cases)
  case plain
  show ?thesis
  proof (cases c)
    case (TimeCondition t)
    with plain assms(2) rangePattern_closed [of t q] build_time [of t] show ?thesis by simp
  next
    case (ParamHeaderCondition d)
    then obtain t where "buildRequestConditionExpr c \<in> {''header('' @ t, ''param('' @ t, ''has('' @ t}"
      using plain(1) param_header_start [of d] by auto
    then show ?thesis using rangePattern_start [simplified] by auto
  qed
next
  case (guarded d)
  then show ?thesis using rangePattern_start [simplified] by (simp add: guardedParts_def probeText_def Let_def)
qed

section \<open>The loop over the parts\<close>

text \<open>Adjacent bounds of one clock are read as one range.\<close>

fun mergedRange :: "requestCondition \<Rightarrow> requestCondition \<Rightarrow> requestCondition" where
  "mergedRange (TimeCondition a) (TimeCondition b) =
     TimeCondition (rangeCondition (tcFunc a) (tcZone a) (tcValue a) (tcValue b))"
| "mergedRange c d = c"

fun mergePairs :: "requestCondition list \<Rightarrow> requestCondition list" where
  "mergePairs (c # d # cs) =
     (if mergeable c d then mergedRange c d # mergePairs cs else c # mergePairs (d # cs))"
| "mergePairs cs = cs"

lemma mergePairs_unmerged: "unmerged cs \<Longrightarrow> mergePairs cs = cs"
  by (induction cs rule: mergePairs.induct) auto

lemma loop_one:
  assumes "trim p = p" "tryParseTimeRangePair p (nextPart rest) = None" "tryParseRequestCondition p = Inr (Some c)"
  shows "conditionLoop (p # rest) acc = conditionLoop rest (acc @ [c])"
  using assms by (simp add: Let_def)

lemma loop_pair:
  assumes "trim p = p" "trim q = q" "q \<noteq> []" "tryParseTimeRangePair p q = Some t"
  shows "conditionLoop (p # q # rest) acc = conditionLoop rest (acc @ [TimeCondition t])"
  using assms by (simp add: nextPart_def)

lemma pair_no_time: "tryParseTimeCondition p = None \<Longrightarrow> tryParseTimeRangePair p q = None"
  by (simp add: tryParseTimeRangePair_def)

lemma loop_none:
  assumes "trim p = p" "tryParseTimeCondition p = None" "tryParseRequestCondition p = Inr None"
  shows "conditionLoop (p # rest) acc = Inr None"
  using assms pair_no_time [OF assms(2)] by (simp add: Let_def)

declare conditionLoop.simps(2) [simp del]

text \<open>A condition that cannot be read: its first part is no time condition, and the loop stops.\<close>

lemma unread_kinds:
  assumes "offeredCondition c" "\<not> readAmong c"
  obtains (paren) p where "severalParts c = [p]" "tryParseTimeCondition p = None" "tryParseRequestCondition p = Inr None"
  | (guard) d where "guardedParam d" "severalParts c = [hd (guardedParts d), guardedParts d ! 1]"
proof (cases "hasOr c")
  case True
  have "\<not> isRange c" using assms(1,2) True by (cases c) (auto simp: readAmong_def)
  from paren_unread [OF unread_paren [OF assms(1) this, of "[]"]] True
  show thesis by (intro paren [of "''('' @ buildRequestConditionExpr c @ '')''"]) (simp_all add: severalParts_def)
next
  case False
  with assms obtain d where d: "guardedParam d" "bareParts c = guardedParts d"
    by (auto simp: readAmong_def elim: offered_cases)
  with False show thesis by (intro guard [of d]) (simp_all add: severalParts_def guardedParts_def Let_def)
qed

lemma guarded_no_time:
  assumes "guardedParam d"
  shows "tryParseTimeCondition (hd (guardedParts d)) = None" "tryParseTimeCondition (guardedParts d ! 1) = None"
  using read_guarded(3) [OF assms, of _ "[]"] by (simp_all add: guardedParts_def Let_def)

lemma unread_first:
  assumes "offeredCondition c" "\<not> readAmong c"
  shows "tryParseTimeCondition (hd (severalParts c)) = None"
  using assms by (cases rule: unread_kinds) (simp_all add: guarded_no_time)

lemma guarded_loop:
  assumes "guardedParam d"
  shows "conditionLoop (hd (guardedParts d) # guardedParts d ! 1 # rest) acc = Inr None"
proof -
  let ?p = "hd (guardedParts d)" and ?q = "guardedParts d ! 1"
  have "closedPart (\<lambda>_. False) ?p" "closedPart (\<lambda>_. False) ?q"
    using guarded_text [OF _ assms, of "\<lambda>_. False"] by (simp_all add: operatorStop_def guardedParts_def Let_def)
  then have trim: "trim ?p = ?p" "trim ?q = ?q" by (simp_all add: closedPart_def trim_by_ends)
  have "conditionLoop (?p # ?q # rest) acc = conditionLoop (?q # rest) (acc @ [phCond ''param'' (phPath d) ''exists'' []])"
    using loop_one [OF trim(1) pair_no_time [OF guarded_no_time(1) [OF assms]] read_guarded(1) [OF assms]] by simp
  also have "\<dots> = Inr None" by (rule loop_none [OF trim(2) guarded_no_time(2) [OF assms] read_guarded(2) [OF assms]])
  finally show ?thesis .
qed

lemma loop_unread:
  assumes "offeredCondition c" "\<not> readAmong c"
  shows "conditionLoop (severalParts c @ rest) acc = Inr None"
  using assms
proof (cases rule: unread_kinds)
  case (paren p)
  with several_onePart [OF assms(1)] show ?thesis by (simp add: loop_none)
next
  case (guard d)
  then show ?thesis using guarded_loop [OF guard(1)] by simp
qed

text \<open>What the first part of a condition is as an upper bound.\<close>

lemma first_time:
  assumes "offeredCondition c" "tryParseTimeCondition (hd (severalParts c)) = Some x" "tcMode x = ''lt''"
  shows "c = TimeCondition x \<and> severalParts c = [hd (severalParts c)]"
proof -
  have True: "readAmong c" using unread_first [OF assms(1)] assms(2) by auto
  show ?thesis
  proof (cases "bareDay c")
    case day: True
    from two_parts [OF assms(1) day] assms(2,3) show ?thesis by (auto simp: scalarCondition_def)
  next
    case False
    from one_part [OF assms(1) True False] assms(2) show ?thesis by (cases c) auto
  qed
qed

lemma nextPart_several: "offeredCondition d \<Longrightarrow> nextPart (severalParts d @ ps) = hd (severalParts d)"
  using several_onePart [of d "hd (severalParts d)"] several_nonempty [of d] by (cases "severalParts d") (auto simp: nextPart_def)

lemma pair_Some:
  "tryParseTimeRangePair p q = Some t \<longleftrightarrow>
   (\<exists>a b. tryParseTimeCondition p = Some a \<and> tryParseTimeCondition q = Some b \<and> tcFunc a = tcFunc b \<and> tcZone a = tcZone b \<and>
     tcMode a = ''gte'' \<and> tcMode b = ''lt'' \<and> t = rangeCondition (tcFunc a) (tcZone a) (tcValue a) (tcValue b))"
  by (auto simp: tryParseTimeRangePair_def split: option.splits)

lemma pair_conditions:
  assumes "tryParseTimeCondition p = timeOf c" "offeredCondition d" "tryParseTimeRangePair p (hd (severalParts d)) = Some t"
  shows "mergeable c d \<and> TimeCondition t = mergedRange c d \<and> severalParts d = [hd (severalParts d)]"
proof -
  obtain a b where ab: "timeOf c = Some a" "tryParseTimeCondition (hd (severalParts d)) = Some b" "tcFunc a = tcFunc b"
    "tcZone a = tcZone b" "tcMode a = ''gte''" "tcMode b = ''lt''" "t = rangeCondition (tcFunc a) (tcZone a) (tcValue a) (tcValue b)"
    using assms(1,3) unfolding pair_Some by auto
  from first_time [OF assms(2) ab(2,6)] ab show ?thesis by (cases c) auto
qed

lemma pair_mergeable:
  assumes "tryParseTimeCondition p = timeOf c" "offeredCondition d" "readAmong d" "mergeable c d"
  shows "\<exists>q t. severalParts d = [q] \<and> tryParseTimeRangePair p q = Some t \<and> TimeCondition t = mergedRange c d"
proof -
  obtain a b where ab: "c = TimeCondition a" "d = TimeCondition b" using assms(4) by (cases c; cases d) auto
  then have "\<not> bareDay d" using assms(4) by (auto simp: bareDay_def isDayRange_def)
  from one_part [OF assms(2,3) this] obtain q where "severalParts d = [q]" "tryParseTimeCondition q = Some b" using ab by auto
  with assms(1,4) ab show ?thesis by (auto simp: tryParseTimeRangePair_def)
qed

lemma loop_last:
  assumes "offeredCondition c"
  shows "conditionLoop (severalParts c) acc = Inr (if readAmong c then Some (acc @ [c]) else None)"
proof (cases "readAmong c")
  case False
  with loop_unread [OF assms False, of "[]" acc] show ?thesis by simp
next
  case True
  show ?thesis
  proof (cases "bareDay c")
    case day: True
    then obtain t a b where t: "c = TimeCondition t" "severalParts c = [a, b]" "tryParseTimeRangePair a b = Some t"
      using two_parts [OF assms] by blast
    with loop_pair [of a b t "[]" acc] several_onePart [OF assms] True show ?thesis by simp
  next
    case False
    obtain p where p: "severalParts c = [p]" "tryParseRequestCondition p = Inr (Some c)"
      using one_part [OF assms True False] by blast
    with several_onePart [OF assms] True show ?thesis by (simp add: conditionLoop.simps(2) nextPart_def)
  qed
qed

lemma loop_several:
  "\<lbrakk>\<forall>c\<in>set cs. offeredCondition c; cs \<noteq> [] \<or> acc \<noteq> []\<rbrakk> \<Longrightarrow>
   conditionLoop (concat (map severalParts cs)) acc =
   Inr (if list_all readAmong cs then Some (acc @ mergePairs cs) else None)"
proof (induction cs arbitrary: acc rule: mergePairs.induct)
  case (1 c d cs)
  let ?rest = "concat (map severalParts (d # cs))"
  have c: "offeredCondition c" and d: "offeredCondition d" using "1.prems" by simp_all
  have step: "\<not> mergeable c d \<Longrightarrow> conditionLoop ?rest (acc @ [c]) =
      Inr (if list_all readAmong (d # cs) then Some ((acc @ [c]) @ mergePairs (d # cs)) else None)"
    using "1.IH"(2) [of "acc @ [c]"] "1.prems" by simp
  show ?case
  proof (cases "readAmong c")
    case False
    with loop_unread [OF c False, of ?rest acc] show ?thesis by simp
  next
    case True
    show ?thesis
    proof (cases "bareDay c")
      case day: True
      then obtain t a b where t: "c = TimeCondition t" "severalParts c = [a, b]" "tryParseTimeRangePair a b = Some t"
        using two_parts [OF c] by blast
      have "\<not> mergeable c d" using day by (cases d) (auto simp: bareDay_def isDayRange_def)
      with loop_pair [of a b t ?rest acc] several_onePart [OF c] t True step show ?thesis by simp
    next
      case False
      obtain p where p: "severalParts c = [p]" "tryParseRequestCondition p = Inr (Some c)" "tryParseTimeCondition p = timeOf c"
        using one_part [OF c True False] by blast
      have trim: "trim p = p" using several_onePart [OF c] p(1) by simp
      have following: "nextPart ?rest = hd (severalParts d)" using nextPart_several [OF d] by simp
      show ?thesis
      proof (cases "mergeable c d \<and> readAmong d")
        case True
        then obtain q t where q: "severalParts d = [q]" "tryParseTimeRangePair p q = Some t" "TimeCondition t = mergedRange c d"
          using pair_mergeable [OF p(3) d] by blast
        have "conditionLoop (concat (map severalParts (c # d # cs))) acc = conditionLoop (concat (map severalParts cs)) (acc @ [mergedRange c d])"
          using loop_pair [OF trim _ _ q(2)] several_onePart [OF d] p(1) q(1,3) by simp
        with "1.IH"(1) [of "acc @ [mergedRange c d]"] "1.prems" True \<open>readAmong c\<close> show ?thesis by simp
      next
        case no: False
        have none: "tryParseTimeRangePair p (nextPart ?rest) = None"
        proof (rule ccontr)
          assume "tryParseTimeRangePair p (nextPart ?rest) \<noteq> None"
          then obtain t where t: "tryParseTimeRangePair p (hd (severalParts d)) = Some t" using following by auto
          then obtain b where "tryParseTimeCondition (hd (severalParts d)) = Some b" unfolding pair_Some by blast
          with unread_first [OF d] pair_conditions [OF p(3) d t] no show False by auto
        qed
        note one = loop_one [OF trim none p(2), of acc]
        show ?thesis
        proof (cases "readAmong d")
          case True
          with no have "\<not> mergeable c d" by blast
          with one step p(1) \<open>readAmong c\<close> show ?thesis by simp
        next
          case False
          with one loop_unread [OF d False, of "concat (map severalParts cs)" "acc @ [c]"] p(1) show ?thesis by simp
        qed
      qed
    qed
  qed
next
  case "2_1"
  then show ?case by simp
next
  case "2_2"
  then show ?case by (simp add: loop_last)
qed

declare conditionLoop.simps(2) [simp]

section \<open>The whole text of several conditions\<close>

lemma probe_several:
  assumes "offeredCondition d" "timeProbe (hd (severalParts d) @ s) = Some ((f, z), '' < '' @ r)"
  shows "\<exists>b. d = TimeCondition b \<and> tcMode b = ''lt'' \<and> tcFunc b = f \<and> tcZone b = z \<and> \<not> hasOr d"
proof -
  have no: "\<not> hasOr d"
    using assms(2) by (auto simp: severalParts_def timeProbe_def TIME_FUNCTIONS_def matcher_defs)
  from assms(1) show ?thesis
  proof (cases rule: offered_cases)
    case plain
    with probe_first [OF plain(1)] assms(2) no show ?thesis by (auto simp: severalParts_def)
  next
    case (guarded e)
    then have "timeProbe (hd (severalParts d) @ s) = None"
      using no by (simp add: severalParts_def guardedParts_def probeText_def Let_def timeProbe_def TIME_FUNCTIONS_def matcher_defs)
    with assms(2) show ?thesis by simp
  qed
qed

lemma join_append:
  "\<lbrakk>xs \<noteq> []; ys \<noteq> []\<rbrakk> \<Longrightarrow> joinWith sep (xs @ ys) = joinWith sep xs @ sep @ joinWith sep ys"
  by (induction xs rule: induct_list012) (cases ys; auto)+

lemma whole_scalar:
  assumes t: "plainTime t" "tcMode t \<noteq> ''range''" and d: "offeredCondition d" and q: "q = hd (severalParts d) @ s"
    and no: "\<not> (mergeable (TimeCondition t) d \<and> \<not> hasOr d)"
  shows "tryParseTimeCondition (buildTimeConditionExpr t @ '' && '' @ q) = None"
proof -
  have v: "timeBounds (tcFunc t) (tcValue t)" "plainName (tcZone t)" and f: "tcFunc t \<in> set TIME_FUNCTIONS"
    using t by (simp_all add: plainTime_def timeBounds_def)
  have "\<not> startsWith q (probeText (tcFunc t) (tcZone t) @ '' < '')" if "scalarOperator (tcMode t) = ''>=''"
  proof
    assume "startsWith q (probeText (tcFunc t) (tcZone t) @ '' < '')"
    from startsWith_probe [OF f v(2) this] obtain e where
      "d = TimeCondition e" "tcMode e = ''lt''" "tcFunc e = tcFunc t" "tcZone e = tcZone t" "\<not> hasOr d"
      using probe_several [OF d] unfolding q by blast
    moreover have "tcMode t = ''gte''" using that by (simp add: scalarOperator_def split: if_splits)
    ultimately show False using no by simp
  qed
  from read_scalar(2) [OF v scalar_operator this] show ?thesis
    using t(2) by (simp add: build_time [OF t(1)] boundText_def)
qed

lemma whole_merged:
  assumes "plainTime a" "plainTime b" "mergeable (TimeCondition a) (TimeCondition b)"
  defines "w \<equiv> buildTimeConditionExpr a @ '' && '' @ buildTimeConditionExpr b"
  shows "tryParseTimeCondition w = Some (rangeCondition (tcFunc a) (tcZone a) (tcValue a) (tcValue b))"
    "tryParseTimeCondition (w @ '' && '' @ q) = None"
proof -
  have m: "tcMode a = ''gte''" "tcMode b = ''lt''" "tcFunc b = tcFunc a" "tcZone b = tcZone a" using assms(3) by auto
  then have v: "timeBounds (tcFunc a) (tcValue a)" "timeBounds (tcFunc a) (tcValue b)" "plainName (tcZone a)"
    using assms(1,2) by (auto simp: plainTime_def timeBounds_def)
  have w: "w = probeText (tcFunc a) (tcZone a) @ '' >= '' @ tcValue a @ '' && '' @ probeText (tcFunc a) (tcZone a) @ '' < '' @ tcValue b"
    using m by (simp add: w_def build_time [OF assms(1)] build_time [OF assms(2)] boundText_def scalarOperator_def)
  show "tryParseTimeCondition w = Some (rangeCondition (tcFunc a) (tcZone a) (tcValue a) (tcValue b))"
    unfolding w by (rule read_range(1) [OF v]) simp
  show "tryParseTimeCondition (w @ '' && '' @ q) = None"
    using read_range_more(1) [OF v, of "'' && ''" q] unfolding w by simp
qed

lemma whole_range:
  assumes "plainTime t" "tcMode t = ''range''" "\<not> crossesMidnight t"
  shows "tryParseTimeCondition (buildTimeConditionExpr t @ '' && '' @ q) = None"
  using read_range_more(1) [OF plain_bounds(1-3) [OF assms(1,2)], of "'' && ''" q] assms(2,3)
  by (simp add: build_time [OF assms(1)] boundText_def)

text \<open>Several conditions are read at once only if they are the two bounds of one range.\<close>

lemma whole_several:
  assumes c: "offeredCondition c" and d: "offeredCondition d"
  shows "tryParseTimeCondition (joinWith '' && '' (concat (map severalParts (c # d # cs)))) =
    (if cs = [] \<and> mergeable c d \<and> readAmong c \<and> readAmong d then timeOf (mergedRange c d) else None)"
proof -
  define q where "q = joinWith '' && '' (concat (map severalParts (d # cs)))"
  obtain s where s: "q = hd (severalParts d) @ s"
    using join_start [OF several_nonempty [of d], of "'' && ''" "concat (map severalParts cs)"] by (auto simp: q_def)
  have eq: "joinWith '' && '' (concat (map severalParts (c # d # cs))) = guardOr (buildRequestConditionExpr c) @ '' && '' @ q"
    using join_append [OF several_nonempty [of c], of "concat (map severalParts (d # cs))" "'' && ''"] several_nonempty [of d]
      join_several [OF c] by (simp add: q_def)
  show ?thesis
  proof (cases "readAmong c")
    case False
    have "tryParseTimeCondition (guardOr (buildRequestConditionExpr c) @ '' && '' @ q) = None"
    proof (cases "hasOr c")
      case True
      then have "\<not> isRange c" using False c by (cases c) (auto simp: readAmong_def)
      from paren_unread(1) [OF unread_paren [OF c this, of "'' && '' @ q"]] True show ?thesis
        by (simp add: guardOr_def hasOr_def)
    next
      case no: False
      then obtain e where "guardedParam e" "buildRequestConditionExpr c = joinWith '' && '' (guardedParts e)"
        using c False by (auto simp: readAmong_def elim: offered_cases)
      with read_guarded(3) [of e "hd (guardedParts e)"] no show ?thesis
        by (simp add: guardOr_def hasOr_def guardedParts_def Let_def)
    qed
    with False show ?thesis unfolding eq by simp
  next
    case True
    with c have plain: "plainCondition c" by (auto simp: readAmong_def elim: offered_cases)
    show ?thesis
    proof (cases c)
      case (ParamHeaderCondition b)
      then have "\<not> hasOr c" using True by (simp add: readAmong_def)
      moreover obtain t where "buildRequestConditionExpr c \<in> {''header('' @ t, ''param('' @ t, ''has('' @ t}"
        using plain param_header_start [of b] ParamHeaderCondition by auto
      ultimately show ?thesis unfolding eq using no_time [simplified] ParamHeaderCondition
        by (auto simp: guardOr_def hasOr_def simp del: buildRequestConditionExpr.simps)
    next
      case (TimeCondition t)
      then have t: "plainTime t" using plain by simp
      show ?thesis
      proof (cases "tcMode t = ''range''")
        case bounds: True
        then have "\<not> mergeable c d" using TimeCondition by (cases d) auto
        moreover have "tryParseTimeCondition (guardOr (buildTimeConditionExpr t) @ '' && '' @ q) = None"
          using range_paren(2) [OF t bounds, of q] whole_range [OF t bounds, of q] midnight_hasOr [OF t]
          by (auto simp: guardOr_def hasOr_def)
        ultimately show ?thesis unfolding eq using TimeCondition by simp
      next
        case False
        then have no: "\<not> hasOr c" using True TimeCondition by (simp add: readAmong_def)
        then have g: "guardOr (buildRequestConditionExpr c) = buildTimeConditionExpr t"
          using TimeCondition by (simp add: guardOr_def hasOr_def)
        show ?thesis
        proof (cases "mergeable c d \<and> \<not> hasOr d")
          case two: True
          then obtain b where b: "d = TimeCondition b" using TimeCondition by (cases d) auto
          then have plain_b: "plainTime b" and scalar: "tcMode b \<noteq> ''range''"
            using d two TimeCondition by (auto simp: offeredCondition_def)
          have parts: "severalParts d = [buildTimeConditionExpr b]"
            using two b scalar build_time [OF plain_b] by (simp add: severalParts_def)
          have "cs = [] \<Longrightarrow> q = buildTimeConditionExpr b"
            "cs \<noteq> [] \<Longrightarrow> q = buildTimeConditionExpr b @ '' && '' @ joinWith '' && '' (concat (map severalParts cs))"
            using join_append [of "severalParts d" "concat (map severalParts cs)"] several_nonempty
            by (auto simp: q_def parts neq_Nil_conv)
          moreover have "readAmong d" using two b by (simp add: readAmong_def)
          ultimately show ?thesis
            using whole_merged [OF t plain_b] two True b TimeCondition unfolding eq g by (cases "cs = []") auto
        next
          case merge: False
          from whole_scalar [OF t False d s] merge TimeCondition
          have "tryParseTimeCondition (guardOr (buildRequestConditionExpr c) @ '' && '' @ q) = None" unfolding g by simp
          moreover have "\<not> (mergeable c d \<and> readAmong d)" 
            using merge TimeCondition by (cases d) (auto simp: readAmong_def)
          ultimately show ?thesis unfolding eq by auto
        qed
      qed
    qed
  qed
qed

section \<open>Groups\<close>

definition writtenGroup :: "requestCondition list \<Rightarrow> string" where
  "writtenGroup cs =
     (if length cs = 1 then buildRequestConditionExpr (hd cs) else joinWith '' && '' (concat (map severalParts cs)))"

lemma writtenGroup_text:
  assumes "cs \<noteq> []" "\<forall>c\<in>set cs. offeredCondition c"
  shows "closedPart (\<lambda>_. False) (writtenGroup cs)"
proof (cases "length cs = 1")
  case True
  then obtain c where "cs = [c]" by (cases cs) auto
  with assms(2) build_text show ?thesis by (simp add: writtenGroup_def)
next
  case False
  have stop: "operatorStop (\<lambda>_. False)" by (simp add: operatorStop_def)
  have "balanced (\<lambda>_. False) 0 None '' && ''" by (rule balanced_flat) (simp add: opensBracket_def closesBracket_def)
  moreover have "concat (map severalParts cs) \<noteq> []" using assms(1) several_nonempty by (cases cs) auto
  moreover have "closedPart (\<lambda>_. False) p" if "p \<in> set (concat (map severalParts cs))" for p
    using that several_text [OF stop] assms(2) by auto
  ultimately show ?thesis
    using balanced_join [of "\<lambda>_. False" "'' && ''" "concat (map severalParts cs)"]
      join_ends [of "concat (map severalParts cs)" "'' && ''"] False
    by (simp add: writtenGroup_def closedPart_def)
qed

lemma split_parts:
  "\<lbrakk>ps \<noteq> []; \<forall>p\<in>set ps. conjunction.onePart p\<rbrakk> \<Longrightarrow> splitTopLevelAnd (joinWith '' && '' ps) = Inr ps"
  using conjunction.split_joined by (simp add: splitTopLevelAnd_def splitTopLevel_def)

text \<open>A condition alone: a guarded one is taken apart at its conjunction, any other is read.\<close>

lemma read_single:
  assumes "offeredCondition c"
  shows "tryParseRequestConditions (buildRequestConditionExpr c) = Inr (if isGuarded c then None else Some [c])"
proof -
  have trim: "trim (buildRequestConditionExpr c) = buildRequestConditionExpr c"
    using build_text [OF assms] by (simp add: closedPart_def trim_by_ends)
  have one: "conjunction.onePart p" if "p \<in> set (bareParts c)" for p
    using bare_text [OF _ assms that, of "\<lambda>c. c = CHR ''?'' \<or> c = CHR ''&''"]
    by (simp add: closedPart_def conjunction.onePart_def trim_by_ends)
  from assms show ?thesis
  proof (cases rule: offered_cases)
    case plain
    show ?thesis
    proof (cases c)
      case (TimeCondition t)
      then have t: "plainTime t" using plain by simp
      have "tryParseTimeCondition (buildTimeConditionExpr t) = Some t"
        unfolding build_time [OF t] using read_scalar_part [OF t] read_range_part(1) [OF t] by simp
      then show ?thesis using trim TimeCondition by (simp add: tryParseRequestConditions_def)
    next
      case (ParamHeaderCondition d)
      let ?e = "buildRequestConditionExpr c"
      have "tryParseTimeCondition ?e = None" using read_first [OF plain(1)] ParamHeaderCondition by simp
      moreover have "splitTopLevelAnd ?e = Inr [?e]"
        using split_parts [of "[?e]"] one plain(2) ParamHeaderCondition by simp
      moreover have "conditionLoop [?e] [] = Inr (Some [c])"
        using read_param_header [of d] plain(1) trim ParamHeaderCondition by (simp add: nextPart_def del: buildRequestConditionExpr.simps)
      ultimately show ?thesis using trim plain(3) by (simp add: tryParseRequestConditions_def)
    qed
  next
    case (guarded d)
    have parts: "guardedParts d = [hd (guardedParts d), guardedParts d ! 1]" by (simp add: guardedParts_def Let_def)
    have "splitTopLevelAnd (buildRequestConditionExpr c) = Inr (guardedParts d)"
      unfolding guarded(4) using one guarded(3) by (intro split_parts) (simp_all add: guardedParts_def Let_def)
    moreover have "tryParseTimeCondition (buildRequestConditionExpr c) = None"
      using read_guarded(3) [OF guarded(2), of "hd (guardedParts d)"] guarded(4) by (simp add: guardedParts_def Let_def)
    moreover have "conditionLoop (guardedParts d) [] = Inr None"
      using guarded_loop [OF guarded(2), of "[]" "[]"] by (subst parts)
    ultimately show ?thesis using trim guarded(1,2) by (simp add: tryParseRequestConditions_def)
  qed
qed

text \<open>The conditions of a group that can be read: no guarded one, and among several no text with \<open> || \<close> but that of a range.\<close>

definition readIn :: "requestCondition list \<Rightarrow> requestCondition \<Rightarrow> bool" where
  "readIn cs c \<longleftrightarrow> \<not> isGuarded c \<and> (length cs = 1 \<or> isRange c \<or> \<not> hasOr c)"

lemma read_conditions:
  assumes "cs \<noteq> []" "\<forall>c\<in>set cs. offeredCondition c"
  shows "tryParseRequestConditions (writtenGroup cs) = Inr (if list_all (readIn cs) cs then Some (mergePairs cs) else None)"
proof (cases "length cs = 1")
  case True
  then obtain c where c: "cs = [c]" by (cases cs) auto
  with assms(2) read_single [of c] show ?thesis by (simp add: writtenGroup_def readIn_def)
next
  case False
  then obtain c d ds where cs: "cs = c # d # ds" using assms(1) by (cases cs; cases "tl cs") auto
  let ?ps = "concat (map severalParts cs)"
  have in': "list_all (readIn cs) cs = list_all readAmong cs" using False by (simp add: readIn_def readAmong_def list_all_iff)
  have trim: "trim (joinWith '' && '' ?ps) = joinWith '' && '' ?ps"
    using writtenGroup_text [OF assms] False by (simp add: writtenGroup_def closedPart_def trim_by_ends)
  have split: "splitTopLevelAnd (joinWith '' && '' ?ps) = Inr ?ps"
    using several_onePart assms(2) several_nonempty [of c] cs by (intro split_parts) auto
  have loop: "conditionLoop ?ps [] = Inr (if list_all readAmong cs then Some (mergePairs cs) else None)"
    using loop_several [OF assms(2), of "[]"] assms(1) by simp
  note whole = whole_several [of c d ds, folded cs]
  show ?thesis
  proof (cases "ds = [] \<and> mergeable c d \<and> readAmong c \<and> readAmong d")
    case True
    then obtain a b where "c = TimeCondition a" "d = TimeCondition b" by (cases c; cases d) auto
    with True whole assms(2) trim in' False show ?thesis by (simp add: tryParseRequestConditions_def writtenGroup_def cs)
  next
    case no: False
    then have "tryParseTimeCondition (joinWith '' && '' ?ps) = None" using whole assms(2) cs by auto
    with trim split loop in' False show ?thesis by (simp add: tryParseRequestConditions_def writtenGroup_def)
  qed
qed

section \<open>Rules\<close>

definition offeredGroup :: "requestRuleGroup \<Rightarrow> bool" where
  "offeredGroup g \<longleftrightarrow> rgConditions g \<noteq> [] \<and> list_all offeredCondition (rgConditions g) \<and>
     NUMERIC_LITERAL_REGEX (rgMultiplier g) \<and> rgConditionText g = None \<and> rgMatched g = None"

text \<open>The group that is read back, if any.\<close>

definition readBackGroup :: "requestRuleGroup \<Rightarrow> requestRuleGroup option" where
  "readBackGroup g =
     (if list_all (readIn (rgConditions g)) (rgConditions g)
      then Some (g\<lparr>rgConditions := mergePairs (rgConditions g)\<rparr>) else None)"

lemma plain_offered: "plainGroup g \<Longrightarrow> offeredGroup g"
  by (auto simp: plainGroup_def offeredGroup_def offeredCondition_def list_all_iff)

lemma plain_readBack:
  assumes "plainGroup g"
  shows "readBackGroup g = Some g"
proof -
  have "readIn (rgConditions g) c" if "c \<in> set (rgConditions g)" for c
  proof -
    have "plainCondition c" "length (rgConditions g) = 1 \<or> separable c"
      using assms that by (auto simp: plainGroup_def list_all_iff)
    then show ?thesis using guarded_exclusive
      by (cases c) (auto simp: readIn_def separable_def hasOr_def crossesMidnight_def)
  qed
  then show ?thesis using assms by (simp add: readBackGroup_def list_all_iff plainGroup_def mergePairs_unmerged)
qed

lemma build_group:
  assumes "offeredGroup g"
  shows "buildRuleGroupFactor g = ''('' @ writtenGroup (rgConditions g) @ '' ? '' @ rgMultiplier g @ '' : 1)''"
proof -
  let ?cs = "rgConditions g" and ?es = "map buildRequestConditionExpr (rgConditions g)"
  have m: "NUMERIC_LITERAL_REGEX (rgMultiplier g)" "trim (rgMultiplier g) = rgMultiplier g" and cs: "?cs \<noteq> []"
    and offered: "\<forall>c\<in>set ?cs. offeredCondition c"
    using assms numeric_trim by (auto simp: offeredGroup_def list_all_iff)
  have all: "filter (\<lambda>e. e \<noteq> []) ?es = ?es" using offered build_text by (auto simp: filter_id_conv closedPart_def)
  have "(if length ?es = 1 then hd ?es else joinWith '' && '' (map guardOr ?es)) = writtenGroup ?cs"
  proof (cases "length ?cs = 1")
    case True
    with cs show ?thesis by (simp add: writtenGroup_def hd_map)
  next
    case False
    have "map guardOr ?es = map (\<lambda>c. joinWith '' && '' (severalParts c)) ?cs" using offered join_several by auto
    then show ?thesis using False several_nonempty by (simp add: writtenGroup_def join_concat del: map_map map_eq_conv)
  qed
  then show ?thesis unfolding buildRuleGroupFactor_def all using m cs by (simp add: Let_def)
qed

lemma offeredGroupD:
  assumes "offeredGroup g"
  shows "rgConditions g \<noteq> []" "\<forall>c\<in>set (rgConditions g). offeredCondition c" "NUMERIC_LITERAL_REGEX (rgMultiplier g)"
    "closedPart (\<lambda>_. False) (writtenGroup (rgConditions g))"
  using assms writtenGroup_text by (auto simp: offeredGroup_def list_all_iff)

lemma read_factor:
  assumes "offeredGroup g"
  shows "tryParseRuleGroupFactor (buildRuleGroupFactor g) = Inr (readBackGroup g)"
proof -
  note g = offeredGroupD [OF assms]
  have "\<lparr>rgConditions = cs, rgMultiplier = rgMultiplier g, rgConditionText = None, rgMatched = None\<rparr> = g\<lparr>rgConditions := cs\<rparr>" for cs
    using assms by (cases g) (simp add: offeredGroup_def)
  then show ?thesis unfolding tryParseRuleGroupFactor_def build_group [OF assms]
    using factorMatch_text [OF _ g(3)] g(4) read_conditions [OF g(1,2)] by (simp add: readBackGroup_def closedPart_def)
qed

lemma factor_onePart:
  assumes "offeredGroup g"
  shows "product.onePart (buildRuleGroupFactor g)"
proof -
  note g = offeredGroupD [OF assms]
  have "balanced (\<lambda>_. False) 0 None ('' ? '' @ rgMultiplier g @ '' : 1'')"
    using flat_numeral [OF g(3)] by (intro balanced_flat) (auto simp: list_all_iff flatChar_def opensBracket_def closesBracket_def)
  from balanced_paren [OF balanced_append [OF _ this], of "writtenGroup (rgConditions g)"] g(4)
  have "balanced stop 0 None (buildRuleGroupFactor g)" for stop unfolding build_group [OF assms] by (simp add: closedPart_def)
  moreover have "trim (buildRuleGroupFactor g) = buildRuleGroupFactor g"
    unfolding build_group [OF assms] by (rule trim_by_ends) (simp_all add: isSpace_def)
  ultimately show ?thesis by (simp add: product.onePart_def build_group [OF assms])
qed

lemma groupLoop_read:
  "\<forall>g\<in>set gs. offeredGroup g \<Longrightarrow>
   groupLoop (map buildRuleGroupFactor gs) acc = Inr (map_option ((@) acc) (those (map readBackGroup gs)))"
proof (induction gs arbitrary: acc)
  case (Cons g gs)
  then show ?case by (cases "those (map readBackGroup gs)") (auto simp: read_factor split: option.splits)
qed simp

lemma build_rules:
  assumes "\<forall>g\<in>set gs. offeredGroup g"
  shows "buildRequestRuleExpr gs = joinWith '' * '' (map buildRuleGroupFactor gs)"
proof -
  have "filter (\<lambda>e. e \<noteq> []) (map buildRuleGroupFactor gs) = map buildRuleGroupFactor gs"
    using assms factor_onePart by (auto simp: filter_id_conv product.onePart_def)
  then show ?thesis by (simp only: buildRequestRuleExpr_def)
qed

lemma rules_trim:
  assumes "gs \<noteq> []" "\<forall>g\<in>set gs. offeredGroup g"
  shows "trim (buildRequestRuleExpr gs) = buildRequestRuleExpr gs" "buildRequestRuleExpr gs \<noteq> []"
proof -
  have "p \<noteq> [] \<and> \<not> isSpace (hd p) \<and> \<not> isSpace (last p)" if "p \<in> set (map buildRuleGroupFactor gs)" for p
    using that assms(2) build_group by (auto simp: isSpace_def)
  then have "joinWith '' * '' (map buildRuleGroupFactor gs) \<noteq> [] \<and>
      \<not> isSpace (hd (joinWith '' * '' (map buildRuleGroupFactor gs))) \<and> \<not> isSpace (last (joinWith '' * '' (map buildRuleGroupFactor gs)))"
    using assms(1) by (intro join_ends) auto
  then show "trim (buildRequestRuleExpr gs) = buildRequestRuleExpr gs" "buildRequestRuleExpr gs \<noteq> []"
    unfolding build_rules [OF assms(2)] by (simp_all add: trim_by_ends)
qed

lemma read_written:
  assumes "\<forall>g\<in>set gs. offeredGroup g"
  shows "tryParseRequestRuleExpr (buildRequestRuleExpr gs) = Inr (those (map readBackGroup gs))"
proof (cases "gs = []")
  case True
  then show ?thesis by (simp add: buildRequestRuleExpr_def tryParseRequestRuleExpr_def trim_def trimStart_def trimEnd_def)
next
  case False
  have "splitTopLevelMultiply (buildRequestRuleExpr gs) = Inr (map buildRuleGroupFactor gs)"
    using product.split_joined [of "map buildRuleGroupFactor gs"] factor_onePart assms False
    unfolding build_rules [OF assms] by (simp add: splitTopLevelMultiply_def splitTopLevel_def)
  then show ?thesis using rules_trim [OF False assms] groupLoop_read [OF assms, of "[]"]
    by (cases "those (map readBackGroup gs)") (simp_all add: tryParseRequestRuleExpr_def)
qed

lemma those_plain: "\<forall>g\<in>set gs. plainGroup g \<Longrightarrow> those (map readBackGroup gs) = Some gs"
  by (induction gs) (simp_all add: plain_readBack)

lemma read_rules: "\<forall>g\<in>set gs. plainGroup g \<Longrightarrow> tryParseRequestRuleExpr (buildRequestRuleExpr gs) = Inr (Some gs)"
  using read_written [of gs] those_plain [of gs] plain_offered by auto

end
