(* ===== verification/BxRulesRead.thy ===== *)
theory BxRulesRead
  imports BxRulesExact
begin

text \<open>
  The other direction of the request rule editor: what the parser returns can be written again,
  with an exact account of the conditions and groups that are not; and an expression that was
  combined from a base price and rules is split into them again. The properties of the editor
  stand at the end.
\<close>

section \<open>What is read can be written\<close>

lemma moneOf_mem: "moneOf ps s = Some (p, r) \<Longrightarrow> p \<in> set ps"
  by (auto simp: moneOf_def find_Some_iff in_set_conv_nth)

lemma mrun_chars: "mrun P s = Some (x, r) \<Longrightarrow> x \<noteq> [] \<and> list_all P x"
  by (auto simp: mrun_def list_all_iff dest: set_takeWhileD split: if_splits)

lemma mthen_Some: "mthen m f s = Some (b, r) \<Longrightarrow> \<exists>a t. m s = Some (a, t) \<and> f a t = Some (b, r)"
  by (auto simp: mthen_def split: option.splits)

lemma quotedArg_nonempty: "quotedArg s = Some (x, r) \<Longrightarrow> x \<noteq> []"
  unfolding quotedArg_def by (auto simp: mret_def dest!: mthen_Some mrun_chars)

lemma timeProbe_names: "timeProbe s = Some ((f, z), r) \<Longrightarrow> f \<in> set TIME_FUNCTIONS \<and> z \<noteq> []"
  unfolding timeProbe_def by (auto simp: mret_def dest!: mthen_Some moneOf_mem quotedArg_nonempty)

lemma full_Some: "full m s = Some a \<Longrightarrow> \<exists>r. m s = Some (a, r)"
  by (auto simp: full_def split: option.splits list.splits)

lemma rangePattern_names: "rangePattern s = Some ((f, z, a, b), r) \<Longrightarrow> f \<in> set TIME_FUNCTIONS \<and> z \<noteq> []"
  unfolding rangePattern_def by (auto simp: mret_def dest!: mthen_Some timeProbe_names)

lemma scalarPattern_names:
  "scalarPattern s = Some ((f, z, op, v), r) \<Longrightarrow> f \<in> set TIME_FUNCTIONS \<and> z \<noteq> []"
  unfolding scalarPattern_def by (auto simp: mret_def dest!: mthen_Some timeProbe_names)

text \<open>The time conditions the parser returns: a known function, a zone, a mode the editor offers, values in range.\<close>

definition readTime :: "timeCondition \<Rightarrow> bool" where
  "readTime c \<longleftrightarrow> tcFunc c \<in> set TIME_FUNCTIONS \<and> tcZone c \<noteq> [] \<and>
     (if tcMode c = ''range''
      then isTimeValueInRange (tcFunc c) (tcStart c) \<and> isTimeValueInRange (tcFunc c) (tcEnd c)
      else tcMode c \<in> {''eq'', ''gte'', ''lt''} \<and> isTimeValueInRange (tcFunc c) (tcValue c))"

lemma readTime_range:
  "\<lbrakk>f \<in> set TIME_FUNCTIONS; z \<noteq> []; isTimeValueInRange f s; isTimeValueInRange f e\<rbrakk> \<Longrightarrow> readTime (rangeCondition f z s e)"
  by (simp add: readTime_def rangeCondition_def)

lemma tryParseTimeCondition_read:
  assumes "tryParseTimeCondition expr = Some c"
  shows "readTime c"
proof -
  let ?paren = "mthen (mtext ''('') (\<lambda>_. mthen rangePattern (\<lambda>r. mthen (mtext '')'') (\<lambda>_. mret r)))"
  have paren: "?paren s = Some ((f, z, a, b), r) \<Longrightarrow> f \<in> set TIME_FUNCTIONS \<and> z \<noteq> []" for s f z a b r
    by (auto simp: mret_def dest!: mthen_Some rangePattern_names)
  define m where "m = (if full rangePattern expr = None then full ?paren expr else full rangePattern expr)"
  have names: "f \<in> set TIME_FUNCTIONS \<and> z \<noteq> []" if "m = Some (f, z, a, b)" for f z a b
    using that full_Some [of rangePattern expr "(f, z, a, b)"] full_Some [of ?paren expr "(f, z, a, b)"] rangePattern_names paren
    unfolding m_def by (metis option.distinct(1))
  have unfolded: "tryParseTimeCondition expr =
      (case m of
         Some (f, z, s, e) \<Rightarrow> if \<not> isTimeValueInRange f s \<or> \<not> isTimeValueInRange f e then None else Some (rangeCondition f z s e)
       | None \<Rightarrow> (case full scalarPattern expr of
           Some (f, z, op, v) \<Rightarrow> if \<not> isTimeValueInRange f v then None else Some (scalarCondition f z (scalarMode op) v)
         | None \<Rightarrow> None))"
    unfolding tryParseTimeCondition_def m_def Let_def by (rule refl)
  show ?thesis
  proof (cases m)
    case (Some q)
    obtain f z s e where q: "q = (f, z, s, e)" by (cases q)
    with assms unfolded Some have "c = rangeCondition f z s e" "isTimeValueInRange f s" "isTimeValueInRange f e"
      by (auto split: if_splits)
    with names [of f z s e] Some q show ?thesis using readTime_range by simp
  next
    case None
    with assms unfolded obtain f z op v where sc: "full scalarPattern expr = Some (f, z, op, v)"
      and c: "c = scalarCondition f z (scalarMode op) v" "isTimeValueInRange f v"
      by (auto split: option.splits if_splits)
    from full_Some [OF sc] scalarPattern_names have "f \<in> set TIME_FUNCTIONS" "z \<noteq> []" by blast+
    with c show ?thesis by (simp add: readTime_def scalarCondition_def scalarMode_def)
  qed
qed

lemma normalize_read: "readTime c \<Longrightarrow> normalizeTime (toPartial (TimeCondition c)) = c"
proof -
  assume c: "readTime c"
  then have "tcMode c \<in> {''range'', ''eq'', ''gte'', ''lt''}" by (auto simp: readTime_def split: if_splits)
  then have "offeredMode ''time'' (Some (tcMode c)) ''gte'' = tcMode c"
    by (elim insertE) (simp_all add: offeredMode_def getRequestRuleMatchOptions_def)
  with c show ?thesis
    by (cases c) (simp add: readTime_def normalizeTime_def isTimeFunc_def orElse_def orEmpty_def emptyPartial_def)
qed

lemma build_read_time: "readTime c \<Longrightarrow> buildTimeConditionExpr c \<noteq> []"
proof -
  assume c: "readTime c"
  have trim: "isTimeValueInRange f s \<Longrightarrow> isTimeValueInRange f (trim s)" for f s
    using numeric_trim [OF inRange_numeric, of f s] by simp
  show ?thesis
  proof (cases "tcMode c = ''range''")
    case True
    with c trim show ?thesis
      unfolding buildTimeConditionExpr_def normalize_read [OF c] Let_def by (simp add: readTime_def probeText_def)
  next
    case False
    with c trim show ?thesis
      unfolding buildTimeConditionExpr_def normalize_read [OF c] Let_def by (simp add: readTime_def probeText_def)
  qed
qed

lemma matched_names:
  "headerExists s = Some (p, r) \<Longrightarrow> p \<noteq> []" "paramExists s = Some (p, r) \<Longrightarrow> p \<noteq> []"
  "headerContains s = Some ((p, v), r) \<Longrightarrow> p \<noteq> []"
  "equalsText s = Some ((src, p, v), r) \<Longrightarrow> p \<noteq> [] \<and> src \<in> {''param'', ''header''}"
  unfolding headerExists_def paramExists_def headerContains_def equalsText_def
  by (auto simp: mret_def dest!: mthen_Some quotedArg_nonempty moneOf_mem)

lemma guarded_names:
  "paramContains s = Some ((p, q, v), r) \<Longrightarrow> p \<noteq> []" "paramCompares s = Some ((p, q, op, v), r) \<Longrightarrow> p \<noteq> []"
  unfolding paramContains_def paramCompares_def by (auto simp: mret_def dest!: mthen_Some matched_names(2))

text \<open>The conditions the parser returns.\<close>

fun readCondition :: "requestCondition \<Rightarrow> bool" where
  "readCondition (TimeCondition c) = readTime c"
| "readCondition (ParamHeaderCondition c) \<longleftrightarrow> phSource c \<in> {''param'', ''header''} \<and> phPath c \<noteq> [] \<and>
     phMode c \<in> fst ` set (getRequestRuleMatchOptions (phSource c))"

lemma readCondition_phCond:
  "\<lbrakk>p \<noteq> []; src = ''param'' \<or> src = ''header''; mode \<in> fst ` set (getRequestRuleMatchOptions src)\<rbrakk> \<Longrightarrow> readCondition (phCond src p mode v)"
  by (auto simp: phCond_def)

lemma readEquals_read:
  assumes "readEquals e = Inr (Some c)"
  shows "readCondition c"
proof -
  obtain src p raw t where "full equalsText e = Some (src, p, raw)" "c = phCond src p ''eq'' t"
    using assms by (auto simp: readEquals_def rbind_eq_Inr_iff split: option.splits)
  with full_Some matched_names(4) show ?thesis
    by (auto intro!: readCondition_phCond simp: getRequestRuleMatchOptions_def dest!: full_Some matched_names(4))
qed

lemma readGuarded_read:
  assumes "readGuarded e = Inr (Some c)"
  shows "readCondition c"
proof -
  define contains where "contains = (case full paramContains e of Some (p, q, v) \<Rightarrow> if p = q then Some (p, v) else None | None \<Rightarrow> None)"
  define compares where "compares = (case full paramCompares e of Some (p, q, op, v) \<Rightarrow> if p = q then Some (p, op, v) else None | None \<Rightarrow> None)"
  have p: "contains = Some (p, v) \<Longrightarrow> p \<noteq> []" "compares = Some (p, op, v) \<Longrightarrow> p \<noteq> []" for p op v
    unfolding contains_def compares_def by (auto split: option.splits if_splits dest!: full_Some guarded_names)
  have unfolded: "readGuarded e =
      (case contains of
         Some (p, v) \<Rightarrow> rbind (parseStringLiteral v) (\<lambda>t. Inr (Some (phCond ''param'' p ''contains'' t)))
       | None \<Rightarrow> (case compares of Some (p, op, v) \<Rightarrow> Inr (Some (phCond ''param'' p (compareMode op) v)) | None \<Rightarrow> readEquals e))"
    unfolding readGuarded_def contains_def compares_def Let_def by (rule refl)
  have mode: "compareMode op \<in> {''gt'', ''gte'', ''lt'', ''lte''}" for op by (simp add: compareMode_def)
  show ?thesis
  proof (cases contains)
    case (Some a)
    then obtain q v t where "contains = Some (q, v)" "c = phCond ''param'' q ''contains'' t"
      using assms unfolded by (cases a) (auto simp: rbind_eq_Inr_iff)
    then show ?thesis using p(1) by (auto intro!: readCondition_phCond simp: getRequestRuleMatchOptions_def)
  next
    case None
    show ?thesis
    proof (cases compares)
      case None
      with \<open>contains = None\<close> assms unfolded readEquals_read show ?thesis by simp
    next
      case (Some a)
      then obtain q op v where "compares = Some (q, op, v)" "c = phCond ''param'' q (compareMode op) v"
        using assms unfolded \<open>contains = None\<close> by (cases a) auto
      then show ?thesis using p(2) mode [of op]
        by (auto intro!: readCondition_phCond simp: getRequestRuleMatchOptions_def)
    qed
  qed
qed

lemma tryParseRequestCondition_read:
  assumes "tryParseRequestCondition e = Inr (Some c)"
  shows "readCondition c"
proof -
  have ph: "readCondition (phCond src p mode v)" if "p \<noteq> []"
    "(src, mode) \<in> {(''header'', ''exists''), (''param'', ''exists''), (''header'', ''contains'')}" for src p mode v
    using that by (auto intro!: readCondition_phCond simp: getRequestRuleMatchOptions_def)
  show ?thesis
  proof (cases "tryParseTimeCondition e")
    case (Some t)
    with assms have "c = TimeCondition t" by (simp add: tryParseRequestCondition_def)
    with tryParseTimeCondition_read [OF Some] show ?thesis by simp
  next
    case no_time: None
    show ?thesis
    proof (cases "full headerExists e")
      case (Some p)
      with assms no_time have "c = phCond ''header'' p ''exists'' []" by (simp add: tryParseRequestCondition_def)
      with full_Some [OF Some] matched_names(1) show ?thesis by (auto intro!: ph)
    next
      case no_header: None
      show ?thesis
      proof (cases "full paramExists e")
        case (Some p)
        with assms no_time no_header have "c = phCond ''param'' p ''exists'' []" by (simp add: tryParseRequestCondition_def)
        with full_Some [OF Some] matched_names(2) show ?thesis by (auto intro!: ph)
      next
        case no_param: None
        show ?thesis
        proof (cases "full headerContains e")
          case (Some pv)
          obtain p v where pv: "pv = (p, v)" by (cases pv)
          with assms no_time no_header no_param Some obtain t where "c = phCond ''header'' p ''contains'' t"
            by (auto simp: tryParseRequestCondition_def rbind_eq_Inr_iff)
          with full_Some [OF Some] matched_names(3) pv show ?thesis by (auto intro!: ph)
        next
          case None
          with assms no_time no_header no_param have "readGuarded e = Inr (Some c)" by (simp add: tryParseRequestCondition_def)
          then show ?thesis by (rule readGuarded_read)
        qed
      qed
    qed
  qed
qed

text \<open>The conditions that are not written: a blank path, or a comparison with no number.\<close>

fun omitted :: "requestCondition \<Rightarrow> bool" where
  "omitted (TimeCondition c) \<longleftrightarrow> False"
| "omitted (ParamHeaderCondition c) \<longleftrightarrow> trim (phPath c) = [] \<or>
     phMode c \<in> {''gt'', ''gte'', ''lt'', ''lte''} \<and> \<not> NUMERIC_LITERAL_REGEX (trim (phValue c))"

lemma build_omitted:
  assumes "readCondition c"
  shows "buildRequestConditionExpr c = [] \<longleftrightarrow> omitted c"
proof (cases c)
  case (TimeCondition t)
  with assms build_read_time show ?thesis by simp
next
  case (ParamHeaderCondition d)
  then have d: "phSource d = ''param'' \<or> phSource d = ''header''" "phPath d \<noteq> []"
    "phMode d \<in> fst ` set (getRequestRuleMatchOptions (phSource d))" using assms by auto
  have "list_ex (\<lambda>item. fst item = phMode d) (getRequestRuleMatchOptions (phSource d))"
    using d(3) by (force simp: list_ex_iff)
  then have "normalizeParamHeader (phSource d) (toPartial (ParamHeaderCondition d)) = d"
    using d(2) by (cases d) (simp add: normalizeParamHeader_def orElse_def orEmpty_def offeredMode_def emptyPartial_def)
  moreover have "(if phSource d = ''header'' then ''header'' else ''param'') = phSource d" using d(1) by auto
  ultimately have "buildRequestConditionExpr c = (if trim (phPath d) = [] then [] else buildParamHeaderExpr d)"
    by (simp add: ParamHeaderCondition Let_def)
  moreover have "buildParamHeaderExpr d = [] \<longleftrightarrow>
      phMode d \<in> {''gt'', ''gte'', ''lt'', ''lte''} \<and> \<not> NUMERIC_LITERAL_REGEX (trim (phValue d))"
    by (auto simp: buildParamHeaderExpr_def Let_def)
  ultimately show ?thesis using ParamHeaderCondition by simp
qed

section \<open>Groups\<close>

lemma pair_read: "tryParseTimeRangePair lower upper = Some c \<Longrightarrow> readTime c"
proof -
  assume "tryParseTimeRangePair lower upper = Some c"
  then obtain a b where ab: "tryParseTimeCondition lower = Some a" "tryParseTimeCondition upper = Some b"
    "tcFunc a = tcFunc b" "tcMode a = ''gte''" "tcMode b = ''lt''" "c = rangeCondition (tcFunc a) (tcZone a) (tcValue a) (tcValue b)"
    by (auto simp: tryParseTimeRangePair_def split: option.splits if_splits)
  then show ?thesis using tryParseTimeCondition_read [OF ab(1)] tryParseTimeCondition_read [OF ab(2)]
    by (simp add: readTime_def rangeCondition_def)
qed

lemma loop_read:
  "\<lbrakk>conditionLoop ps acc = Inr (Some cs); list_all readCondition acc\<rbrakk> \<Longrightarrow> cs \<noteq> [] \<and> list_all readCondition cs"
proof (induction ps acc rule: conditionLoop.induct)
  case (1 acc)
  then show ?case by (auto split: if_splits)
next
  case (2 raw rest acc)
  define merged where "merged = (if nextPart rest \<noteq> [] then tryParseTimeRangePair (trim raw) (nextPart rest) else None)"
  show ?case
  proof (cases merged)
    case (Some t)
    then have "readTime t" using pair_read by (auto simp: merged_def split: if_splits)
    moreover have "conditionLoop (tl rest) (acc @ [TimeCondition t]) = Inr (Some cs)"
      using 2(3) Some by (simp add: Let_def flip: merged_def)
    ultimately show ?thesis using 2(2) [OF refl refl merged_def Some] 2(4) by simp
  next
    case None
    then obtain c where c: "tryParseRequestCondition (trim raw) = Inr (Some c)" "conditionLoop rest (acc @ [c]) = Inr (Some cs)"
      using 2(3) by (auto simp: Let_def rbind_eq_Inr_iff simp flip: merged_def split: option.splits)
    then show ?thesis using 2(1) [OF refl refl merged_def None c(1) refl c(2)] 2(4) tryParseRequestCondition_read [OF c(1)]
      by simp
  qed
qed

lemma conditions_read:
  assumes "tryParseRequestConditions e = Inr (Some cs)"
  shows "cs \<noteq> [] \<and> list_all readCondition cs"
proof (cases "tryParseTimeCondition (trim e)")
  case (Some c)
  with assms tryParseTimeCondition_read show ?thesis by (auto simp: tryParseRequestConditions_def)
next
  case None
  with assms obtain ps where "conditionLoop ps [] = Inr (Some cs)" by (auto simp: tryParseRequestConditions_def rbind_eq_Inr_iff)
  from loop_read [OF this] show ?thesis by simp
qed

definition readGroup :: "requestRuleGroup \<Rightarrow> bool" where
  "readGroup g \<longleftrightarrow> list_all readCondition (rgConditions g) \<and> trim (rgMultiplier g) = rgMultiplier g"

lemma factor_read:
  assumes "tryParseRuleGroupFactor part = Inr (Some g)"
  shows "readGroup g"
proof -
  obtain e m cs where g: "factorMatch part = Some (e, m)" "tryParseRequestConditions e = Inr (Some cs)"
    "rgConditions g = cs" "rgMultiplier g = m"
    using assms by (auto simp: tryParseRuleGroupFactor_def rbind_eq_Inr_iff split: option.splits)
  have "\<forall>c\<in>set m. numeralChar c"
    using g(1) by (auto simp: factorMatch_def Let_def dest: set_takeWhileD split: if_splits)
  then have "trim m = m" using numeralChar_plain by (intro trim_nonspace) blast
  with g conditions_read [OF g(2)] show ?thesis by (simp add: readGroup_def)
qed

lemma groups_read: "\<lbrakk>groupLoop ps acc = Inr (Some gs); list_all readGroup acc\<rbrakk> \<Longrightarrow> list_all readGroup gs"
proof (induction ps arbitrary: acc)
  case (Cons part ps)
  then obtain g where "tryParseRuleGroupFactor part = Inr (Some g)" "groupLoop ps (acc @ [g]) = Inr (Some gs)"
    by (auto simp: rbind_eq_Inr_iff split: option.splits)
  with Cons factor_read [of part g] show ?case by simp
qed simp

lemma rules_read:
  "tryParseRequestRuleExpr expr = Inr (Some gs) \<Longrightarrow> list_all readGroup gs"
  using groups_read [of _ "[]" gs] by (auto simp: tryParseRequestRuleExpr_def rbind_eq_Inr_iff split: if_splits)

lemma build_group_empty:
  assumes "readGroup g"
  shows "buildRuleGroupFactor g = [] \<longleftrightarrow> \<not> NUMERIC_LITERAL_REGEX (rgMultiplier g) \<or> list_all omitted (rgConditions g)"
proof -
  have "filter (\<lambda>e. e \<noteq> []) (map buildRequestConditionExpr (rgConditions g)) = [] \<longleftrightarrow> list_all omitted (rgConditions g)"
    using assms build_omitted by (auto simp: readGroup_def list_all_iff filter_empty_conv)
  then show ?thesis using assms by (simp add: buildRuleGroupFactor_def readGroup_def Let_def)
qed

section \<open>Combining and splitting\<close>

text \<open>A base price that can stand in parentheses, and a factor that is no rule.\<close>

definition standsAlone :: "string \<Rightarrow> bool" where
  "standsAlone base \<longleftrightarrow> base \<noteq> [] \<and> trim base = base \<and> balanced (\<lambda>_. False) 0 None base \<and>
     isWrapped (''('' @ base @ '')'') \<and> \<not> isWrapped base \<and> base \<noteq> ''image_count''"

definition isBasePart :: "string \<Rightarrow> bool" where
  "isBasePart part \<longleftrightarrow>
     (case tryParseRequestRuleExpr part of
        Inl _ \<Rightarrow> False
      | Inr found \<Rightarrow> (case found of Some gs \<Rightarrow> gs = [] | None \<Rightarrow> True) \<and> \<not> tracedAst (compileFresh part))"

lemma unwrap_alone: "standsAlone base \<Longrightarrow> unwrapExpressionParens (''('' @ base @ '')'') = base"
proof -
  assume base: "standsAlone base"
  have "trim (''('' @ base @ '')'') = ''('' @ base @ '')''" by (rule trim_by_ends) (simp_all add: isSpace_def)
  moreover have "slice (''('' @ base @ '')'') 1 (length (''('' @ base @ '')'') - 1) = base" by (simp add: slice_def)
  moreover have "unwrapLoop base = base" using base by (simp add: unwrapLoop.simps [of base] standsAlone_def)
  moreover have "isWrapped (''('' @ base @ '')'')" "trim base = base" using base by (simp_all add: standsAlone_def)
  ultimately show ?thesis unfolding unwrapExpressionParens_def by (simp only: unwrapLoop.simps [of "''('' @ base @ '')''"] if_True)
qed

lemma reachable_step: "compiler_cache.reachable cache \<Longrightarrow> compiler_cache.reachable (snd (compileBillingExpression src cache))"
  by (rule compiler_cache.reachable.step [of cache src "fst (compileBillingExpression src cache)"]) simp_all

lemma rulePart_group:
  assumes "plainGroup g"
  shows "isRulePart (buildRuleGroupFactor g) cache = (Inr True, snd (compileBillingExpression (buildRuleGroupFactor g) cache))"
  using read_rules [of "[g]"] assms build_rules [of "[g]"] plain_offered [OF assms]
  by (simp add: isRulePart_def case_prod_unfold)

lemma rulePart_base:
  assumes "isBasePart part" "compiler_cache.reachable cache"
  shows "isRulePart part cache = (Inr False, snd (compileBillingExpression part cache))"
proof -
  have "fst (compileBillingExpression part cache) = compileFresh part" using cache_call [OF assms(2)] by blast
  with assms(1) show ?thesis
    by (auto simp: isRulePart_def isBasePart_def case_prod_unfold split: sum.splits option.splits)
qed

lemma sortParts_groups:
  "\<lbrakk>\<forall>g\<in>set gs. plainGroup g\<rbrakk> \<Longrightarrow>
   fst (sortParts (map buildRuleGroupFactor gs) (rs, bs) cache) = Inr (rs @ map buildRuleGroupFactor gs, bs)"
  by (induction gs arbitrary: rs cache) (simp_all add: rulePart_group)

lemma combine_parts:
  assumes "standsAlone base" "\<forall>g\<in>set gs. plainGroup g" "gs \<noteq> []"
  defines "e \<equiv> combineBillingExpr base (buildRequestRuleExpr gs)"
  shows "trim e = e" "e \<noteq> []" "splitTopLevelMultiply e = Inr ((''('' @ base @ '')'') # map buildRuleGroupFactor gs)"
proof -
  let ?ps = "(''('' @ base @ '')'') # map buildRuleGroupFactor gs"
  have offered: "\<forall>g\<in>set gs. offeredGroup g" using assms(2) plain_offered by blast
  have "e = (''('' @ base @ '')'') @ '' * '' @ buildRequestRuleExpr gs"
    using assms(1) rules_trim [OF assms(3) offered] by (simp add: e_def combineBillingExpr_def standsAlone_def Let_def)
  then have e: "e = joinWith ('' '' @ ''*'' @ '' '') ?ps"
    unfolding build_rules [OF offered] using assms(3) by (cases gs) simp_all
  have one: "\<forall>p\<in>set ?ps. product.onePart p"
  proof -
    have "trim (''('' @ base @ '')'') = ''('' @ base @ '')''" by (rule trim_by_ends) (simp_all add: isSpace_def)
    moreover have "balanced stop 0 None (''('' @ base @ '')'')" for stop
      using balanced_paren [of "\<lambda>_. False" base stop] assms(1) by (simp add: standsAlone_def)
    ultimately show ?thesis using factor_onePart offered by (simp add: product.onePart_def)
  qed
  from product.split_joined [OF _ one] show "splitTopLevelMultiply e = Inr ?ps"
    by (simp add: splitTopLevelMultiply_def splitTopLevel_def e)
  have "p \<noteq> [] \<and> \<not> isSpace (hd p) \<and> \<not> isSpace (last p)" if "p \<in> set ?ps" for p
    using that offered build_group by (auto simp: isSpace_def)
  then have "joinWith ('' '' @ ''*'' @ '' '') ?ps \<noteq> [] \<and> \<not> isSpace (hd (joinWith ('' '' @ ''*'' @ '' '') ?ps)) \<and>
      \<not> isSpace (last (joinWith ('' '' @ ''*'' @ '' '') ?ps))" by (intro join_ends) simp_all
  then show "trim e = e" "e \<noteq> []" unfolding e using trim_by_ends by blast+
qed

section \<open>Properties\<close>

text \<open>
  C11. What the request rule editor reads back of the rules it has written, exactly. Let every
  group have a condition, and let the conditions be of any source and mode the editor offers: a
  time function compared by \<open>eq\<close>, \<open>gte\<close> or \<open>lt\<close> or within a range, a header by \<open>eq\<close>, \<open>contains\<close> or
  \<open>exists\<close>, a parameter by these or by \<open>gt\<close>, \<open>gte\<close>, \<open>lt\<close>, \<open>lte\<close>. Then the parser returns no groups at
  all if some group has a comparison of a parameter or containment in it (\<open>isGuarded\<close>), or has
  several conditions of which one that is no time range is written with \<open> || \<close> in its text
  (\<open>hasOr\<close>). Otherwise it returns the same groups in the same order with the same multipliers and
  the same conditions, except that two adjacent bounds \<open>gte\<close> and \<open>lt\<close> of one time function and zone
  come back as one range (\<open>mergePairs\<close>). Groups of none of these shapes come back unchanged. The
  conditions are well-formed (\<open>plainTime\<close>, \<open>plainParamHeader\<close>, \<open>guardedParam\<close>): names are not empty
  and have no quote, backslash or control character, paths and values have no blanks around them,
  time values are in range, comparisons have a number, and what a mode does not use is empty; the
  multiplier is a numeric literal.
\<close>

theorem rules_roundtrip:
  assumes "list_all offeredGroup gs"
  shows "tryParseRequestRuleExpr (buildRequestRuleExpr gs) = Inr (those (map readBackGroup gs)) \<and>
    (list_all plainGroup gs \<longrightarrow> those (map readBackGroup gs) = Some gs)"
  using assms read_written [of gs] those_plain [of gs] by (simp add: list_all_iff)

text \<open>
  C12. An expression combined from a base price and rules is split into them again: for a base that
  can stand in parentheses and is no rule itself and for at least one rule group, all of them of the
  kind that comes back unchanged (\<open>plainGroup\<close>), \<open>splitBillingExprAndRequestRules\<close> returns the base and the text of the rules,
  whatever was compiled before.
\<close>

theorem combine_split:
  assumes "standsAlone base" "isBasePart (''('' @ base @ '')'')" "list_all plainGroup gs" "gs \<noteq> []"
    "compiler_cache.reachable cache"
  shows "fst (splitBillingExprAndRequestRules (combineBillingExpr base (buildRequestRuleExpr gs)) cache) =
    Inr \<lparr>sbBillingExpr = base, sbRequestRuleExpr = buildRequestRuleExpr gs\<rparr>"
proof -
  have gs: "\<forall>g\<in>set gs. plainGroup g" using assms(3) by (simp add: list_all_iff)
  then have offered: "\<forall>g\<in>set gs. offeredGroup g" using plain_offered by blast
  note e = combine_parts [OF assms(1) gs assms(4)]
  let ?b = "''('' @ base @ '')''" and ?fs = "map buildRuleGroupFactor gs"
  have sorted: "fst (sortParts (?b # ?fs) ([], []) cache) = Inr (?fs, [?b])"
    using rulePart_base [OF assms(2,5)] sortParts_groups [OF gs] by simp
  have join: "rejoinParts x (?fs, [?b]) = \<lparr>sbBillingExpr = base, sbRequestRuleExpr = buildRequestRuleExpr gs\<rparr>" for x
    using unwrap_alone [OF assms(1)] assms(1,4) build_rules [OF offered] by (simp add: rejoinParts_def standsAlone_def)
  show ?thesis using e sorted join assms(4)
    by (simp add: splitBillingExprAndRequestRules_def Let_def case_prod_unfold)
qed

text \<open>
  C13. What the editor loses of the rules it has read, exactly. Of every group the parser returns, a
  condition is written to no text only if its path is blank or it compares with something that is
  no number, never a time condition; and the whole group vanishes only if all its conditions do,
  or if its multiplier, which the parser's pattern does not restrict to numbers, is no number.
\<close>

theorem read_rules_rebuilt:
  assumes "tryParseRequestRuleExpr expr = Inr (Some gs)" "g \<in> set gs"
  shows "(\<forall>c \<in> set (rgConditions g). buildRequestConditionExpr c = [] \<longleftrightarrow> omitted c) \<and>
    (buildRuleGroupFactor g = [] \<longleftrightarrow> \<not> NUMERIC_LITERAL_REGEX (rgMultiplier g) \<or> list_all omitted (rgConditions g))"
proof -
  have g: "readGroup g" using rules_read [OF assms(1)] assms(2) by (simp add: list_all_iff)
  then show ?thesis using build_group_empty [OF g] build_omitted by (simp add: readGroup_def list_all_iff)
qed

section \<open>Samples\<close>

definition ruleGroup :: "requestCondition list \<Rightarrow> string \<Rightarrow> requestRuleGroup" where
  "ruleGroup cs m = \<lparr>rgConditions = cs, rgMultiplier = m, rgConditionText = None, rgMatched = None\<rparr>"

definition sampleGroups :: "requestRuleGroup list" where
  "sampleGroups =
     [ruleGroup [phCond ''param'' ''service_tier'' ''eq'' ''fast'', TimeCondition (rangeCondition ''hour'' ''UTC'' ''9'' ''12''),
        TimeCondition (rangeCondition ''weekday'' ''Asia/Shanghai'' ''5'' ''1'')] ''2'',
      ruleGroup [phCond ''header'' ''x-batch'' ''exists'' []] ''0.5'']"

lemma sampleGroups_plain: "list_all plainGroup sampleGroups"
  by code_simp

text \<open>Two bounds that are merged, a guarded condition, and a text with a disjunction beside another.\<close>

definition boundsGroup :: requestRuleGroup where
  "boundsGroup =
     ruleGroup [TimeCondition (scalarCondition ''hour'' ''UTC'' ''gte'' ''9''), TimeCondition (scalarCondition ''hour'' ''UTC'' ''lt'' ''12''),
       phCond ''header'' ''x-batch'' ''exists'' []] ''2''"

definition guardedGroup :: requestRuleGroup where
  "guardedGroup = ruleGroup [phCond ''param'' ''n'' ''gt'' ''5''] ''2''"

definition disjunctionGroup :: requestRuleGroup where
  "disjunctionGroup = ruleGroup [phCond ''param'' ''q'' ''eq'' ''a || b'', phCond ''header'' ''x-batch'' ''exists'' []] ''2''"

lemma samples_offered: "list_all offeredGroup (boundsGroup # sampleGroups)" "list_all offeredGroup [guardedGroup]"
  "list_all offeredGroup [disjunctionGroup]"
  by code_simp+

lemma samples_readBack:
  "those (map readBackGroup (boundsGroup # sampleGroups)) =
     Some (ruleGroup [TimeCondition (rangeCondition ''hour'' ''UTC'' ''9'' ''12''), phCond ''header'' ''x-batch'' ''exists'' []] ''2''
       # sampleGroups)"
  "those (map readBackGroup [guardedGroup]) = None" "those (map readBackGroup [disjunctionGroup]) = None"
  by code_simp+

theorem rules_roundtrip_witness:
  "tryParseRequestRuleExpr (buildRequestRuleExpr (boundsGroup # sampleGroups)) =
     Inr (Some (ruleGroup [TimeCondition (rangeCondition ''hour'' ''UTC'' ''9'' ''12''), phCond ''header'' ''x-batch'' ''exists'' []] ''2''
       # sampleGroups)) \<and>
   tryParseRequestRuleExpr (buildRequestRuleExpr [guardedGroup]) = Inr None \<and>
   tryParseRequestRuleExpr (buildRequestRuleExpr [disjunctionGroup]) = Inr None"
  using rules_roundtrip [OF samples_offered(1)] rules_roundtrip [OF samples_offered(2)] rules_roundtrip [OF samples_offered(3)]
  unfolding samples_readBack by blast

definition sampleBase :: string where
  "sampleBase = ''tier(\"base\", p * 2 + c * 8)''"

lemma sampleBase_alone: "standsAlone sampleBase"
  by code_simp

lemma sampleBase_part: "isBasePart (''('' @ sampleBase @ '')'')"
  by code_simp

theorem combine_split_witness:
  "fst (splitBillingExprAndRequestRules (combineBillingExpr sampleBase (buildRequestRuleExpr sampleGroups)) []) =
    Inr \<lparr>sbBillingExpr = sampleBase, sbRequestRuleExpr = buildRequestRuleExpr sampleGroups\<rparr>"
  by (rule combine_split [OF sampleBase_alone sampleBase_part sampleGroups_plain _ compiler_cache.reachable.start])
     (simp add: sampleGroups_def)

text \<open>A multiplier that is an expression is read, but the rule is then not written.\<close>

definition lenientGroup :: requestRuleGroup where
  "lenientGroup = ruleGroup [phCond ''header'' ''x-batch'' ''exists'' []] ''2-1''"

lemma lenient_read: "tryParseRequestRuleExpr ''(header(\"x-batch\") != \"\" ? 2-1 : 1)'' = Inr (Some [lenientGroup])"
  by code_simp

lemma lenient_multiplier: "\<not> NUMERIC_LITERAL_REGEX (rgMultiplier lenientGroup)"
  by code_simp

theorem read_rules_rebuilt_witness:
  "buildRuleGroupFactor lenientGroup = [] \<and> \<not> NUMERIC_LITERAL_REGEX (rgMultiplier lenientGroup)"
  using read_rules_rebuilt [OF lenient_read, of lenientGroup] lenient_multiplier by simp

text \<open>A disjunction of bounds within a day is read as a range and written as a conjunction.\<close>

lemma disjunction_changed:
  "tryParseRequestRuleExpr ''(hour(\"UTC\") >= 9 || hour(\"UTC\") < 12 ? 2 : 1)'' =
     Inr (Some [ruleGroup [TimeCondition (rangeCondition ''hour'' ''UTC'' ''9'' ''12'')] ''2'']) \<and>
   buildRequestRuleExpr [ruleGroup [TimeCondition (rangeCondition ''hour'' ''UTC'' ''9'' ''12'')] ''2''] =
     ''(hour(\"UTC\") >= 9 && hour(\"UTC\") < 12 ? 2 : 1)''"
  by code_simp

text \<open>A backslash in a path is written as an escape and read as two characters.\<close>

lemma backslash_doubled:
  "tryParseRequestRuleExpr (buildRequestRuleExpr [ruleGroup [phCond ''param'' [CHR ''a'', backslash, CHR ''.'', CHR ''b''] ''exists'' []] ''2'']) =
     Inr (Some [ruleGroup [phCond ''param'' [CHR ''a'', backslash, backslash, CHR ''.'', CHR ''b''] ''exists'' []] ''2''])"
  by code_simp

text \<open>A text that the pattern takes for a string, but that is no JSON string, throws.\<close>

lemma escape_throws:
  "tryParseRequestRuleExpr (''(has(header(\"a\"), \"'' @ [backslash] @ ''d\") ? 2 : 1)'') = Inl (JsError ''SyntaxError'')"
  by code_simp

end
