(* ===== verification/BxTaskExpr.thy ===== *)
theory BxTaskExpr
  imports BxRules BxTaskDisplay
begin

text \<open>
  Model of \<open>pricing/lib/task-expr.ts\<close>: the editors of task prices. One edits a list of tiers with
  conditions on enumerated usage fields, the other a matrix with one row for each combination of
  the enumerated values. Both are written as a chain of conditional tiers and read back from it.
  The collation \<open>localeCompare\<close> is a parameter. A schema is the list of its \<open>Object.entries\<close>, a
  record of prices the list of its own properties; a usage field is taken not to be called like
  a property that every object inherits.
\<close>

section \<open>Data\<close>

record taskVisualTier =
  tvLabel :: string
  tvConditions :: "(string \<times> string) list"
  tvConstant :: jsnum
  tvUnitPrices :: "(string \<times> jsnum) list"

type_synonym taskVisualConfig = "taskVisualTier list"

record taskMatrixRow =
  mrCombination :: "(string \<times> string) list"
  mrConstant :: jsnum
  mrUnitPrices :: "(string \<times> jsnum) list"

type_synonym taskMatrixConfig = "taskMatrixRow list"

datatype taskPart = ConstantPart jsnum | UsagePart string jsnum jsnum jsnum

record taskPreviewResult =
  tpTier :: taskVisualTier
  tpTotal :: jsnum
  tpParts :: "taskPart list"

text \<open>\<open>number | string\<close>.\<close>

datatype usageFact = FactNum jsnum | FactStr string

record usageExample =
  ueLabel :: string
  ueFacts :: "(string \<times> usageFact) list"

section \<open>Fields\<close>

text \<open>\<open>Array.prototype.sort\<close> with a comparison of the keys; it is stable.\<close>

type_synonym collation = "string \<Rightarrow> string \<Rightarrow> int"

fun insertKey :: "collation \<Rightarrow> string \<times> 'v \<Rightarrow> (string \<times> 'v) list \<Rightarrow> (string \<times> 'v) list" where
  "insertKey cmp x [] = [x]"
| "insertKey cmp x (y # ys) = (if cmp (fst x) (fst y) \<le> 0 then x # y # ys else y # insertKey cmp x ys)"

definition sortKeys :: "collation \<Rightarrow> (string \<times> 'v) list \<Rightarrow> (string \<times> 'v) list" where
  "sortKeys cmp xs = foldr (insertKey cmp) xs []"

text \<open>\<open>Boolean(unit)\<close> and \<open>Boolean(enum?.length)\<close>.\<close>

definition isTaskNumber :: "usageField \<Rightarrow> bool" where
  "isTaskNumber d \<longleftrightarrow> utype d = Some ''number'' \<and> uunit d \<noteq> None \<and> uunit d \<noteq> Some []"

definition enumValues :: "usageField \<Rightarrow> string list" where
  "enumValues d = (case uenum d of None \<Rightarrow> [] | Some vs \<Rightarrow> vs)"

definition getTaskNumberFields :: "collation \<Rightarrow> usageSchema \<Rightarrow> (string \<times> usageField) list" where
  "getTaskNumberFields cmp schema = sortKeys cmp (filter (\<lambda>entry. isTaskNumber (snd entry)) schema)"

definition getTaskEnumFields :: "collation \<Rightarrow> usageSchema \<Rightarrow> (string \<times> usageField) list" where
  "getTaskEnumFields cmp schema = sortKeys cmp (filter (\<lambda>entry. enumValues (snd entry) \<noteq> []) schema)"

text \<open>One round of the loop of \<open>getTaskEnumCombinations\<close>.\<close>

definition extendCombinations ::
    "string \<Rightarrow> string list \<Rightarrow> (string \<times> string) list list \<Rightarrow> (string \<times> string) list list" where
  "extendCombinations f vs combinations = concat (map (\<lambda>c. map (\<lambda>v. setProp f v c) vs) combinations)"

definition getTaskEnumCombinations :: "collation \<Rightarrow> usageSchema \<Rightarrow> (string \<times> string) list list" where
  "getTaskEnumCombinations cmp schema =
     foldl (\<lambda>combinations (f, d). extendCombinations f (enumValues d) combinations) [[]] (getTaskEnumFields cmp schema)"

definition createDefaultTaskVisualConfig :: "collation \<Rightarrow> usageSchema \<Rightarrow> taskVisualConfig" where
  "createDefaultTaskVisualConfig cmp schema =
     [\<lparr>tvLabel = ''base'', tvConditions = [], tvConstant = Fin 0,
       tvUnitPrices = map (\<lambda>(f, _). (f, Fin 0)) (getTaskNumberFields cmp schema)\<rparr>]"

definition createDefaultTaskMatrixConfig :: "collation \<Rightarrow> usageSchema \<Rightarrow> taskMatrixConfig" where
  "createDefaultTaskMatrixConfig cmp schema =
     map (\<lambda>combination.
       \<lparr>mrCombination = combination, mrConstant = Fin 0,
        mrUnitPrices = map (\<lambda>(f, _). (f, Fin 0)) (getTaskNumberFields cmp schema)\<rparr>)
       (getTaskEnumCombinations cmp schema)"

section \<open>The matrix\<close>

definition taskMatrixRowLabel :: "collation \<Rightarrow> (string \<times> string) list \<Rightarrow> string" where
  "taskMatrixRowLabel cmp combination =
     (let vs = map snd (sortKeys cmp (entriesOrder combination))
      in if vs \<noteq> [] then joinWith [CHR 0xB7] vs else ''base'')"

text \<open>\<open>prices[field] ?? 0\<close>, for all number fields; \<open>===\<close> of two prices that may be missing.\<close>

definition priceOrZero :: "(string \<times> jsnum) list \<Rightarrow> string \<Rightarrow> jsnum" where
  "priceOrZero prices f = (case map_of prices f of Some x \<Rightarrow> x | None \<Rightarrow> Fin 0)"

definition pricesFor :: "(string \<times> usageField) list \<Rightarrow> (string \<times> jsnum) list \<Rightarrow> (string \<times> jsnum) list" where
  "pricesFor numberFields prices = map (\<lambda>(f, _). (f, priceOrZero prices f)) numberFields"

fun samePrice :: "jsnum option \<Rightarrow> jsnum option \<Rightarrow> bool" where
  "samePrice (Some x) (Some y) = js_eq x y"
| "samePrice None None = True"
| "samePrice _ _ = False"

definition sameRow :: "(string \<times> usageField) list \<Rightarrow> taskMatrixRow \<Rightarrow> taskMatrixRow \<Rightarrow> bool" where
  "sameRow numberFields row first \<longleftrightarrow>
     js_eq (mrConstant row) (mrConstant first) \<and>
     list_all (\<lambda>(f, _). samePrice (map_of (mrUnitPrices row) f) (map_of (mrUnitPrices first) f)) numberFields"

definition rowTier :: "collation \<Rightarrow> (string \<times> usageField) list \<Rightarrow> bool \<Rightarrow> taskMatrixRow \<Rightarrow> taskVisualTier" where
  "rowTier cmp numberFields isLast row =
     \<lparr>tvLabel = taskMatrixRowLabel cmp (mrCombination row),
      tvConditions = (if isLast then [] else sortKeys cmp (entriesOrder (mrCombination row))),
      tvConstant = mrConstant row, tvUnitPrices = pricesFor numberFields (mrUnitPrices row)\<rparr>"

definition taskMatrixToTiers :: "collation \<Rightarrow> taskMatrixConfig \<Rightarrow> usageSchema \<Rightarrow> taskVisualTier list" where
  "taskMatrixToTiers cmp rows schema =
     (let numberFields = getTaskNumberFields cmp schema
      in case rows of
           [] \<Rightarrow> []
         | first # _ \<Rightarrow>
             if numberFields = [] then []
             else if list_all (\<lambda>row. sameRow numberFields row first) rows
             then [\<lparr>tvLabel = ''base'', tvConditions = [], tvConstant = mrConstant first,
                    tvUnitPrices = pricesFor numberFields (mrUnitPrices first)\<rparr>]
             else map (\<lambda>(i, row). rowTier cmp numberFields (i = length rows - 1) row) (enumerate 0 rows))"

text \<open>The tier a combination is priced by, and the rows that \<open>tryParseTaskMatrixConfig\<close> returns for tiers.\<close>

definition matchesTier :: "(string \<times> string) list \<Rightarrow> taskVisualTier \<Rightarrow> bool" where
  "matchesTier combination tier \<longleftrightarrow> list_all (\<lambda>(f, v). map_of combination f = Some v) (tvConditions tier)"

definition matrixRow ::
    "(string \<times> usageField) list \<Rightarrow> taskVisualTier list \<Rightarrow> taskVisualTier \<Rightarrow> (string \<times> string) list \<Rightarrow> taskMatrixRow" where
  "matrixRow numberFields tiers fallback combination =
     (let tier = (case find (matchesTier combination) tiers of Some t \<Rightarrow> t | None \<Rightarrow> fallback)
      in \<lparr>mrCombination = combination, mrConstant = tvConstant tier,
          mrUnitPrices = pricesFor numberFields (tvUnitPrices tier)\<rparr>)"

definition matrixFromTiers :: "collation \<Rightarrow> usageSchema \<Rightarrow> taskVisualTier list \<Rightarrow> taskMatrixConfig option" where
  "matrixFromTiers cmp schema tiers =
     (if tiers = [] then None
      else let numberFields = getTaskNumberFields cmp schema; combinations = getTaskEnumCombinations cmp schema;
               fallback = last tiers
           in if tvConditions fallback \<noteq> [] then None
              else if \<not> list_all (\<lambda>tier. distinct (map fst (tvConditions tier))) tiers then None
              else Some (map (matrixRow numberFields tiers fallback) combinations))"

definition visualTierOf :: "taskTierRow \<Rightarrow> taskVisualTier" where
  "visualTierOf t =
     \<lparr>tvLabel = klabel t, tvConditions = kconditions t, tvConstant = kconstant t, tvUnitPrices = kunitPrices t\<rparr>"

definition tryParseTaskMatrixConfig ::
    "collation \<Rightarrow> string option \<Rightarrow> usageSchema \<Rightarrow> compiledCache \<Rightarrow> taskMatrixConfig option bx \<times> compiledCache" where
  "tryParseTaskMatrixConfig cmp exprText schema cache =
     (case exprText of
        None \<Rightarrow> (Inr None, cache)
      | Some e \<Rightarrow>
          if e = [] then (Inr None, cache)
          else case parseTaskTiersFromExpr e (Some schema) False cache of
                 (found, cache') \<Rightarrow>
                   (rbind found (\<lambda>tiers. Inr (matrixFromTiers cmp schema (map visualTierOf tiers))), cache'))"

section \<open>Preview\<close>

definition TASK_TOKEN_PRICE_SCALE :: jsnum where
  "TASK_TOKEN_PRICE_SCALE = Fin 1000000"

text \<open>\<open>Number(sample[field])\<close>; a missing fact is undefined.\<close>

definition factNumber :: "(string \<times> usageFact) list \<Rightarrow> string \<Rightarrow> jsnum" where
  "factNumber sample f =
     (case map_of sample f of None \<Rightarrow> NaN | Some (FactNum x) \<Rightarrow> x | Some (FactStr s) \<Rightarrow> stringToNumber s)"

definition matchesSample :: "(string \<times> usageFact) list \<Rightarrow> taskVisualTier \<Rightarrow> bool" where
  "matchesSample sample tier \<longleftrightarrow> list_all (\<lambda>(f, v). map_of sample f = Some (FactStr v)) (tvConditions tier)"

definition previewTier :: "taskVisualConfig \<Rightarrow> (string \<times> usageFact) list \<Rightarrow> taskVisualTier" where
  "previewTier tiers sample =
     (case find (matchesSample sample) (butlast tiers) of Some t \<Rightarrow> t | None \<Rightarrow> last tiers)"

definition isTokenField :: "usageSchema option \<Rightarrow> string \<Rightarrow> bool" where
  "isTokenField schema f \<longleftrightarrow>
     (case schema of None \<Rightarrow> False | Some s \<Rightarrow> (case map_of s f of None \<Rightarrow> False | Some d \<Rightarrow> uunit d = Some ''token''))"

definition unusable :: "jsnum \<Rightarrow> bool" where
  "unusable x \<longleftrightarrow> \<not> isFinite x \<or> js_lt x (Fin 0)"

text \<open>The loop over the prices; the result is \<open>null\<close> as soon as a number is unusable.\<close>

fun usageParts ::
    "usageSchema option \<Rightarrow> (string \<times> usageFact) list \<Rightarrow> (string \<times> jsnum) list \<Rightarrow> taskPart list \<Rightarrow> taskPart list option" where
  "usageParts schema sample [] ps = Some ps"
| "usageParts schema sample ((f, unitPrice) # rest) ps =
     (if unusable unitPrice then None
      else if js_eq unitPrice (Fin 0) then usageParts schema sample rest ps
      else let quantity = factNumber sample f
           in if unusable quantity then None
              else let product = js_mul quantity unitPrice;
                       amount = (if isTokenField schema f then js_div product TASK_TOKEN_PRICE_SCALE else product)
                   in if \<not> isFinite amount then None
                      else usageParts schema sample rest (ps @ [UsagePart f amount quantity unitPrice]))"

definition partTerm :: "usageSchema option \<Rightarrow> taskPart \<Rightarrow> string list" where
  "partTerm schema part =
     (case part of
        ConstantPart _ \<Rightarrow> []
      | UsagePart f amount quantity unitPrice \<Rightarrow>
          if f = [] then []
          else [''u('' @ jsonString f @ '') * '' @ numString unitPrice @ (if isTokenField schema f then '' / 1000000'' else [])])"

text \<open>\<open>normalizedUsage[field] = quantity\<close>; a number is not accepted as a prototype.\<close>

definition storeQuantity :: "taskPart \<Rightarrow> (string \<times> usageFact) list \<Rightarrow> (string \<times> usageFact) list" where
  "storeQuantity part usage =
     (case part of
        ConstantPart _ \<Rightarrow> usage
      | UsagePart f amount quantity unitPrice \<Rightarrow>
          if f = [] \<or> f = ''__proto__'' \<and> f \<notin> fst ` set usage then usage else setProp f (FactNum quantity) usage)"

fun factValue :: "usageFact \<Rightarrow> jsval" where
  "factValue (FactNum x) = JNum x"
| "factValue (FactStr s) = JStr s"

definition evaluateTaskVisualConfig ::
    "host \<Rightarrow> taskVisualConfig \<Rightarrow> (string \<times> usageFact) list \<Rightarrow> usageSchema option \<Rightarrow> compiledCache \<Rightarrow>
     taskPreviewResult option \<times> compiledCache" where
  "evaluateTaskVisualConfig h tiers sample schema cache =
     (if tiers = [] then (None, cache)
      else let tier = previewTier tiers sample; constant = tvConstant tier
           in if unusable constant then (None, cache)
              else case usageParts schema sample (entriesOrder (tvUnitPrices tier))
                          (if js_lt (Fin 0) constant then [ConstantPart constant] else []) of
                     None \<Rightarrow> (None, cache)
                   | Some ps \<Rightarrow>
                       (let terms = numString constant # concat (map (partTerm schema) ps);
                            usage = fold storeQuantity ps sample;
                            src = ''tier('' @ jsonString (tvLabel tier) @ '', '' @ joinWith '' + '' terms @ '')''
                        in case evaluateBillingExpression h src
                                  (emptyContext\<lparr>xUsage := Some (map (\<lambda>(f, x). (f, factValue x)) usage)\<rparr>) cache of
                             (Success r, cache') \<Rightarrow> (Some \<lparr>tpTier = tier, tpTotal = cost r, tpParts = ps\<rparr>, cache')
                           | (EvaluationFailure _, cache') \<Rightarrow> (None, cache')))"

section \<open>Normalisation and generation\<close>

definition nonNegativeOrZero :: "jsnum \<Rightarrow> jsnum" where
  "nonNegativeOrZero x = (if isFinite x \<and> js_le (Fin 0) x then x else Fin 0)"

definition enumIncludes :: "(string \<times> usageField) list \<Rightarrow> string \<times> string \<Rightarrow> bool" where
  "enumIncludes enumFields condition \<longleftrightarrow>
     (case map_of enumFields (fst condition) of None \<Rightarrow> False | Some d \<Rightarrow> snd condition \<in> set (enumValues d))"

definition normalizeTaskTier ::
    "(string \<times> usageField) list \<Rightarrow> (string \<times> usageField) list \<Rightarrow> nat \<Rightarrow> taskVisualTier \<Rightarrow> taskVisualTier" where
  "normalizeTaskTier numberFields enumFields index tier =
     \<lparr>tvLabel = (if tvLabel tier \<noteq> [] then tvLabel tier
                else if index = 0 then ''base'' else ''tier_'' @ natString (int index + 1)),
      tvConditions = filter (enumIncludes enumFields) (tvConditions tier),
      tvConstant = nonNegativeOrZero (tvConstant tier),
      tvUnitPrices = map (\<lambda>(f, _).
        (f, case map_of (tvUnitPrices tier) f of Some x \<Rightarrow> nonNegativeOrZero x | None \<Rightarrow> Fin 0)) numberFields\<rparr>"

definition normalizeTaskVisualConfig :: "collation \<Rightarrow> taskVisualConfig option \<Rightarrow> usageSchema \<Rightarrow> taskVisualConfig" where
  "normalizeTaskVisualConfig cmp config schema =
     (case config of
        None \<Rightarrow> createDefaultTaskVisualConfig cmp schema
      | Some tiers \<Rightarrow>
          if tiers = [] then createDefaultTaskVisualConfig cmp schema
          else map (\<lambda>(i, tier). normalizeTaskTier (getTaskNumberFields cmp schema) (getTaskEnumFields cmp schema) i tier)
                 (enumerate 0 tiers))"

definition generateTaskTierBody :: "taskVisualTier \<Rightarrow> (string \<times> usageField) list \<Rightarrow> string" where
  "generateTaskTierBody tier numberFields =
     joinWith '' + ''
       ((if js_lt (Fin 0) (tvConstant tier) then [numString (tvConstant tier)] else []) @
        map (\<lambda>(f, d).
          ''u('' @ jsonString f @ '') * '' @ numString (priceOrZero (tvUnitPrices tier) f) @
          (if uunit d = Some ''token'' then '' / '' @ numString TASK_TOKEN_PRICE_SCALE else [])) numberFields)"

definition generateTaskTierCall :: "taskVisualTier \<Rightarrow> (string \<times> usageField) list \<Rightarrow> string" where
  "generateTaskTierCall tier numberFields =
     ''tier('' @ jsonString (tvLabel tier) @ '', '' @ generateTaskTierBody tier numberFields @ '')''"

definition generateTaskCondition :: "(string \<times> string) list \<Rightarrow> string" where
  "generateTaskCondition conditions =
     joinWith '' && '' (map (\<lambda>(f, v). ''u('' @ jsonString f @ '') == '' @ jsonString v) conditions)"

text \<open>The loop over the tiers; a tier before the last one needs a condition.\<close>

fun chainParts :: "(string \<times> usageField) list \<Rightarrow> taskVisualTier list \<Rightarrow> string list \<Rightarrow> string list option" where
  "chainParts numberFields [] ps = Some ps"
| "chainParts numberFields (tier # rest) ps =
     (let call = generateTaskTierCall tier numberFields
      in if rest = [] then Some (ps @ [call])
         else let condition = generateTaskCondition (tvConditions tier)
              in if condition = [] then None else chainParts numberFields rest (ps @ [condition @ '' ? '' @ call]))"

definition generateTaskExprFromConfig :: "collation \<Rightarrow> taskVisualConfig option \<Rightarrow> usageSchema \<Rightarrow> string" where
  "generateTaskExprFromConfig cmp config schema =
     (let numberFields = getTaskNumberFields cmp schema
      in if numberFields = [] then []
         else let tiers = normalizeTaskVisualConfig cmp config schema
              in if length tiers = 1 then generateTaskTierCall (hd tiers) numberFields
                 else case chainParts numberFields tiers [] of None \<Rightarrow> [] | Some ps \<Rightarrow> joinWith '' : '' ps)"

definition tryParseTaskVisualConfig ::
    "collation \<Rightarrow> string option \<Rightarrow> usageSchema \<Rightarrow> compiledCache \<Rightarrow> taskVisualConfig option bx \<times> compiledCache" where
  "tryParseTaskVisualConfig cmp exprText schema cache =
     (case exprText of
        None \<Rightarrow> (Inr None, cache)
      | Some e \<Rightarrow>
          if e = [] then (Inr None, cache)
          else case parseTaskTiersFromExpr e (Some schema) False cache of
                 (found, cache') \<Rightarrow>
                   (rbind found (\<lambda>tiers.
                      Inr (if tiers = [] then None
                           else Some (normalizeTaskVisualConfig cmp (Some (map visualTierOf tiers)) schema))),
                    cache'))"

fun exampleRows ::
    "host \<Rightarrow> taskVisualConfig \<Rightarrow> usageSchema \<Rightarrow> usageExample list \<Rightarrow> (string \<times> jsnum) list \<Rightarrow> compiledCache \<Rightarrow>
     (string \<times> jsnum) list \<times> compiledCache" where
  "exampleRows h config schema [] rows cache = (rows, cache)"
| "exampleRows h config schema (example # rest) rows cache =
     (case evaluateTaskVisualConfig h config (ueFacts example) (Some schema) cache of
        (None, cache') \<Rightarrow> exampleRows h config schema rest rows cache'
      | (Some r, cache') \<Rightarrow> exampleRows h config schema rest (rows @ [(ueLabel example, tpTotal r)]) cache')"

definition evaluateTaskUsageExamples ::
    "host \<Rightarrow> collation \<Rightarrow> string option \<Rightarrow> usageSchema option \<Rightarrow> usageExample list option \<Rightarrow> compiledCache \<Rightarrow>
     (string \<times> jsnum) list bx \<times> compiledCache" where
  "evaluateTaskUsageExamples h cmp exprText schema examples cache =
     (case (exprText, schema, examples) of
        (Some e, Some s, Some xs) \<Rightarrow>
          if e = [] \<or> xs = [] then (Inr [], cache)
          else (case splitBillingExprAndRequestRules e cache of
                  (Inl err, c1) \<Rightarrow> (Inl err, c1)
                | (Inr divided, c1) \<Rightarrow>
                    (case tryParseTaskVisualConfig cmp (Some (sbBillingExpr divided)) s c1 of
                       (Inl err, c2) \<Rightarrow> (Inl err, c2)
                     | (Inr None, c2) \<Rightarrow> (Inr [], c2)
                     | (Inr (Some config), c2) \<Rightarrow>
                         (case exampleRows h config s xs [] c2 of (rows, c3) \<Rightarrow> (Inr rows, c3))))
      | _ \<Rightarrow> (Inr [], cache))"

end
