(* ===== verification/BxTaskExprFacts.thy ===== *)
theory BxTaskExprFacts
  imports BxTaskExpr
begin

text \<open>
  The price matrix of the task editor: its rows are all combinations of the enumerated values,
  and writing it as a chain of tiers and reading the chain as a matrix gives the same prices.
\<close>

section \<open>Sorting and orders\<close>

lemma mset_insertKey [simp]: "mset (insertKey cmp x ys) = add_mset x (mset ys)"
  by (induction ys) auto

lemma mset_sortKeys [simp]: "mset (sortKeys cmp xs) = mset xs"
  unfolding sortKeys_def by (induction xs) auto

lemma set_sortKeys [simp]: "set (sortKeys cmp xs) = set xs"
  by (metis mset_sortKeys set_mset_mset)

lemma distinct_sortKeys [simp]: "distinct (map fst (sortKeys cmp xs)) = distinct (map fst xs)"
  by (metis mset_map mset_sortKeys mset_eq_imp_distinct_iff)

lemma mset_entriesOrder [simp]: "mset (entriesOrder kvs) = mset kvs"
  by (simp add: entriesOrder_def)

lemma set_entriesOrder [simp]: "set (entriesOrder kvs) = set kvs"
  by (metis mset_entriesOrder set_mset_mset)

lemma distinct_entriesOrder [simp]: "distinct (map fst (entriesOrder kvs)) = distinct (map fst kvs)"
  by (metis mset_map mset_entriesOrder mset_eq_imp_distinct_iff)

lemma distinct_fields:
  "distinct (map fst schema) \<Longrightarrow> distinct (map fst (getTaskEnumFields cmp schema)) \<and> distinct (map fst (getTaskNumberFields cmp schema))"
  by (simp add: getTaskEnumFields_def getTaskNumberFields_def distinct_map_filter)

section \<open>Combinations\<close>

text \<open>One value of its enumeration for every field, in the order of the fields.\<close>

definition assigns :: "(string \<times> string) list \<Rightarrow> (string \<times> usageField) list \<Rightarrow> bool" where
  "assigns c flds = list_all2 (\<lambda>(f, v) (g, d). f = g \<and> v \<in> set (enumValues d)) c flds"

lemma assigns_simps [simp]:
  "assigns c [] \<longleftrightarrow> c = []"
  "assigns c ((g, d) # flds) \<longleftrightarrow> (\<exists>v e. c = (g, v) # e \<and> v \<in> set (enumValues d) \<and> assigns e flds)"
  by (auto simp: assigns_def list_all2_Cons2)

lemma assigns_keys: "assigns c flds \<Longrightarrow> map fst c = map fst flds"
  unfolding assigns_def by (induction rule: list_all2_induct) auto

definition combinationsFrom :: "(string \<times> string) list list \<Rightarrow> (string \<times> usageField) list \<Rightarrow> (string \<times> string) list list" where
  "combinationsFrom = foldl (\<lambda>combinations (f, d). extendCombinations f (enumValues d) combinations)"

lemma combinationsFrom_simps [simp]:
  "combinationsFrom cs [] = cs"
  "combinationsFrom cs ((f, d) # flds) = combinationsFrom (extendCombinations f (enumValues d) cs) flds"
  by (simp_all add: combinationsFrom_def)

lemma extend_fresh:
  "\<forall>c\<in>set cs. f \<notin> fst ` set c \<Longrightarrow> extendCombinations f vs cs = concat (map (\<lambda>c. map (\<lambda>v. c @ [(f, v)]) vs) cs)"
  by (induction cs) (auto simp: extendCombinations_def setProp_new)

lemma combinationsFrom_set:
  "\<lbrakk>distinct (map fst flds); \<forall>c\<in>set cs. fst ` set c \<inter> fst ` set flds = {}\<rbrakk> \<Longrightarrow>
   set (combinationsFrom cs flds) = {c @ e | c e. c \<in> set cs \<and> assigns e flds}"
proof (induction flds arbitrary: cs)
  case (Cons fd flds)
  obtain f d where fd: "fd = (f, d)" by (cases fd)
  let ?ext = "concat (map (\<lambda>c. map (\<lambda>v. c @ [(f, v)]) (enumValues d)) cs)"
  have ext: "extendCombinations f (enumValues d) cs = ?ext"
    using Cons.prems(2) fd by (intro extend_fresh) auto
  have "set (combinationsFrom ?ext flds) = {c @ e | c e. c \<in> set ?ext \<and> assigns e flds}"
    using Cons.prems fd by (intro Cons.IH) (auto simp: image_iff)
  then show ?case unfolding fd combinationsFrom_simps ext
    by (auto simp: image_iff) (metis append.assoc append_Cons append_Nil)+
qed auto

lemma combinationsFrom_length:
  "length (combinationsFrom cs flds) = length cs * prod_list (map (\<lambda>fd. length (enumValues (snd fd))) flds)"
proof (induction flds arbitrary: cs)
  case (Cons fd flds)
  have "length (extendCombinations f vs cs) = length cs * length vs" for f vs
    by (induction cs) (auto simp: extendCombinations_def)
  with Cons show ?case by (cases fd) simp
qed simp

lemma combinationsFrom_distinct:
  "\<lbrakk>distinct (map fst flds); \<forall>c\<in>set cs. fst ` set c \<inter> fst ` set flds = {}; distinct cs;
    \<forall>fd\<in>set flds. distinct (enumValues (snd fd))\<rbrakk> \<Longrightarrow> distinct (combinationsFrom cs flds)"
proof (induction flds arbitrary: cs)
  case (Cons fd flds)
  obtain f d where fd: "fd = (f, d)" by (cases fd)
  let ?ext = "concat (map (\<lambda>c. map (\<lambda>v. c @ [(f, v)]) (enumValues d)) cs)"
  have ext: "extendCombinations f (enumValues d) cs = ?ext"
    using Cons.prems(2) fd by (intro extend_fresh) auto
  have "distinct ?ext"
    using Cons.prems(3,4) fd by (induction cs) (auto simp: distinct_map inj_on_def)
  moreover have "\<forall>c\<in>set ?ext. fst ` set c \<inter> fst ` set flds = {}" using Cons.prems(1,2) fd by auto
  ultimately have "distinct (combinationsFrom ?ext flds)" using Cons.prems(1,4) by (intro Cons.IH) auto
  then show ?case unfolding fd combinationsFrom_simps ext .
qed simp

lemma combinations_eq: "getTaskEnumCombinations cmp schema = combinationsFrom [[]] (getTaskEnumFields cmp schema)"
  by (simp add: getTaskEnumCombinations_def combinationsFrom_def)

lemma combinations_set:
  assumes "distinct (map fst schema)"
  shows "set (getTaskEnumCombinations cmp schema) = {c. assigns c (getTaskEnumFields cmp schema)}"
  using combinationsFrom_set [of "getTaskEnumFields cmp schema" "[[]]"] distinct_fields [OF assms, of cmp]
  by (simp add: combinations_eq)

lemma combinations_distinct:
  assumes "distinct (map fst schema)" "\<forall>fd\<in>set schema. distinct (enumValues (snd fd))"
  shows "distinct (getTaskEnumCombinations cmp schema)"
  using combinationsFrom_distinct [of "getTaskEnumFields cmp schema" "[[]]"] distinct_fields [OF assms(1), of cmp] assms(2)
  by (simp add: combinations_eq getTaskEnumFields_def)

section \<open>From the matrix to tiers and back\<close>

lemma same_keys_subset:
  "\<lbrakk>map fst c = map fst c'; distinct (map fst c); set c \<subseteq> set c'\<rbrakk> \<Longrightarrow> c = c'"
proof (induction c arbitrary: c')
  case (Cons x c)
  then obtain y e where c': "c' = y # e" "fst y = fst x" "map fst c = map fst e" by (cases c') auto
  then have xy: "x = y" using Cons.prems by (auto dest: image_eqI [of _ fst])
  have "set c \<subseteq> set e"
  proof
    fix z assume z: "z \<in> set c"
    then have "fst z \<noteq> fst x" using Cons.prems(2) by (metis distinct.simps(2) image_eqI list.set_map list.simps(9))
    then show "z \<in> set e" using z Cons.prems(3) c'(1,2) by auto
  qed
  then have "c = e" using Cons.prems(2) by (intro Cons.IH c'(3)) simp_all
  with xy c'(1) show ?case by blast
qed simp

lemma prices_idem:
  assumes "distinct (map fst nf)" "(f, d) \<in> set nf"
  shows "priceOrZero (pricesFor nf ps) f = priceOrZero ps f"
proof -
  have "map_of (map (\<lambda>(f, _). (f, priceOrZero ps f)) nf) f = Some (priceOrZero ps f)"
    using assms by (induction nf) auto
  then have "map_of (pricesFor nf ps) f = Some (priceOrZero ps f)" by (simp only: pricesFor_def)
  then show ?thesis by (simp add: priceOrZero_def [of "pricesFor nf ps"])
qed

lemma pricesFor_idem:
  assumes "distinct (map fst nf)"
  shows "pricesFor nf (pricesFor nf ps) = pricesFor nf ps"
proof -
  have "pricesFor nf (pricesFor nf ps) = map (\<lambda>(f, _). (f, priceOrZero (pricesFor nf ps) f)) nf" by (rule pricesFor_def)
  also have "\<dots> = map (\<lambda>(f, _). (f, priceOrZero ps f)) nf" using prices_idem [OF assms] by auto
  also have "\<dots> = pricesFor nf ps" by (simp add: pricesFor_def)
  finally show ?thesis .
qed

text \<open>The tiers of a matrix whose rows are not all the same.\<close>

definition rowTiers :: "collation \<Rightarrow> (string \<times> usageField) list \<Rightarrow> taskMatrixRow list \<Rightarrow> taskVisualTier list" where
  "rowTiers cmp nf rows = map (\<lambda>(i, row). rowTier cmp nf (i = length rows - 1) row) (enumerate 0 rows)"

lemma rowTiers_nth [simp]:
  "length (rowTiers cmp nf rows) = length rows"
  "i < length rows \<Longrightarrow> rowTiers cmp nf rows ! i = rowTier cmp nf (i = length rows - 1) (rows ! i)"
  by (simp_all add: rowTiers_def nth_enumerate_eq)

lemma matches_row:
  assumes "assigns (mrCombination row) flds" "assigns c flds" "distinct (map fst flds)"
  shows "matchesTier c (rowTier cmp nf False row) \<longleftrightarrow> mrCombination row = c"
proof
  have d: "distinct (map fst (mrCombination row))" "distinct (map fst c)" "map fst (mrCombination row) = map fst c"
    using assms assigns_keys by metis+
  assume "matchesTier c (rowTier cmp nf False row)"
  then have "set (mrCombination row) \<subseteq> set c"
    by (auto simp: matchesTier_def rowTier_def list_all_iff dest: map_of_SomeD)
  with d show "mrCombination row = c" by (intro same_keys_subset)
next
  assume "mrCombination row = c"
  moreover have "distinct (map fst c)" using assms(2,3) assigns_keys by metis
  ultimately show "matchesTier c (rowTier cmp nf False row)" by (auto simp: matchesTier_def rowTier_def list_all_iff)
qed

lemma find_row:
  assumes "\<forall>row\<in>set rows. assigns (mrCombination row) flds" "distinct (map fst flds)" "distinct (map mrCombination rows)"
    "i < length rows"
  shows "find (matchesTier (mrCombination (rows ! i))) (rowTiers cmp nf rows) = Some (rowTier cmp nf (i = length rows - 1) (rows ! i))"
proof -
  have match: "matchesTier (mrCombination (rows ! i)) (rowTiers cmp nf rows ! j) \<longleftrightarrow> j = i \<or> j = length rows - 1"
    if "j < length rows" for j
  proof (cases "j = length rows - 1")
    case True
    with that show ?thesis by (simp add: matchesTier_def rowTier_def)
  next
    case False
    then have "rowTiers cmp nf rows ! j = rowTier cmp nf False (rows ! j)" using that by simp
    then have "matchesTier (mrCombination (rows ! i)) (rowTiers cmp nf rows ! j) \<longleftrightarrow>
        mrCombination (rows ! j) = mrCombination (rows ! i)"
      using matches_row [of "rows ! j" flds "mrCombination (rows ! i)"] assms that by simp
    also have "\<dots> \<longleftrightarrow> j = i" using assms(3,4) that by (auto simp: distinct_conv_nth)
    finally show ?thesis using False by simp
  qed
  show ?thesis unfolding find_Some_iff using match assms(4) by (intro exI [of _ i]) auto
qed

text \<open>Equal, or equal for \<open>===\<close>, which does not tell zero from negative zero.\<close>

definition agree :: "jsnum \<Rightarrow> jsnum \<Rightarrow> bool" where
  "agree x y \<longleftrightarrow> x = y \<or> js_eq x y"

definition agreeingRows :: "(string \<times> usageField) list \<Rightarrow> taskMatrixRow \<Rightarrow> taskMatrixRow \<Rightarrow> bool" where
  "agreeingRows nf r r' \<longleftrightarrow> mrCombination r' = mrCombination r \<and> agree (mrConstant r) (mrConstant r') \<and>
     list_all (\<lambda>(f, _). agree (priceOrZero (mrUnitPrices r) f) (priceOrZero (mrUnitPrices r') f)) nf"

lemma sameRow_agrees:
  assumes "sameRow nf r first" "distinct (map fst nf)"
  shows "agreeingRows nf r \<lparr>mrCombination = mrCombination r, mrConstant = mrConstant first,
    mrUnitPrices = pricesFor nf (pricesFor nf (mrUnitPrices first))\<rparr>"
proof -
  have "agree (priceOrZero ps f) (priceOrZero qs f)" if "samePrice (map_of ps f) (map_of qs f)" for ps qs f
    using that by (cases "map_of ps f"; cases "map_of qs f") (auto simp: agree_def priceOrZero_def)
  then have "agree (priceOrZero (mrUnitPrices r) f) (priceOrZero (mrUnitPrices first) f)" if "(f, d) \<in> set nf" for f d
    using assms(1) that by (auto simp: sameRow_def list_all_iff)
  with assms show ?thesis
    by (auto simp: agreeingRows_def sameRow_def agree_def [of "mrConstant r"] list_all_iff pricesFor_idem prices_idem)
qed

lemma matrix_of_uniform:
  assumes "rows = first # others" "list_all (\<lambda>row. sameRow nf row first) rows" "distinct (map fst nf)"
  defines "t \<equiv> \<lparr>tvLabel = ''base'', tvConditions = [], tvConstant = mrConstant first, tvUnitPrices = pricesFor nf (mrUnitPrices first)\<rparr>"
  shows "list_all2 (agreeingRows nf) rows (map (matrixRow nf [t] t) (map mrCombination rows))"
  using assms(2) sameRow_agrees [OF _ assms(3)]
  by (auto simp: list_all2_conv_all_nth list_all_length matrixRow_def matchesTier_def t_def)

lemma matrix_of_rows:
  assumes "\<forall>row\<in>set rows. assigns (mrCombination row) flds" "distinct (map fst flds)" "distinct (map mrCombination rows)"
    "distinct (map fst nf)"
  shows "list_all2 (agreeingRows nf) rows
    (map (matrixRow nf (rowTiers cmp nf rows) fallback) (map mrCombination rows))"
  using find_row [OF assms(1-3), of _ cmp nf] assms(4)
  by (auto simp: list_all2_conv_all_nth matrixRow_def rowTier_def agreeingRows_def agree_def list_all_iff
      pricesFor_idem prices_idem)

lemma rowTiers_usable:
  assumes "rows \<noteq> []" "\<forall>row\<in>set rows. distinct (map fst (mrCombination row))"
  shows "rowTiers cmp nf rows \<noteq> []" "tvConditions (last (rowTiers cmp nf rows)) = []"
    "list_all (\<lambda>tier. distinct (map fst (tvConditions tier))) (rowTiers cmp nf rows)"
proof -
  show "rowTiers cmp nf rows \<noteq> []" using assms(1) rowTiers_nth(1) [of cmp nf rows] by (metis length_0_conv)
  then show "tvConditions (last (rowTiers cmp nf rows)) = []" using assms(1) by (simp add: last_conv_nth rowTier_def)
  show "list_all (\<lambda>tier. distinct (map fst (tvConditions tier))) (rowTiers cmp nf rows)"
    using assms(2) by (auto simp: list_all_length rowTier_def)
qed

lemma matrix_rows:
  assumes "distinct (map fst schema)" "list_all (\<lambda>fd. distinct (enumValues (snd fd))) schema"
    "map mrCombination rows = getTaskEnumCombinations cmp schema"
  shows "\<forall>row\<in>set rows. assigns (mrCombination row) (getTaskEnumFields cmp schema)" "distinct (map mrCombination rows)"
  using combinations_set [OF assms(1), of cmp] combinations_distinct [OF assms(1), of cmp] assms(2)
  unfolding assms(3) [symmetric] by (auto simp: list_all_iff)

lemma tiers_of_rows:
  assumes "rows = first # others" "getTaskNumberFields cmp schema \<noteq> []"
    "\<not> list_all (\<lambda>row. sameRow (getTaskNumberFields cmp schema) row first) rows"
  shows "taskMatrixToTiers cmp rows schema = rowTiers cmp (getTaskNumberFields cmp schema) rows"
  using assms(2,3) unfolding taskMatrixToTiers_def rowTiers_def Let_def assms(1) list.case by (simp only: if_False)

section \<open>Properties\<close>

text \<open>
  The matrix of a schema has exactly one row for each way to choose a value for every enumerated
  field: the combinations are all assignments, in the order of the fields, their number is the
  product of the numbers of values, and none is repeated when no enumeration repeats a value.
\<close>

theorem matrix_combinations:
  assumes "distinct (map fst schema)"
  shows "set (getTaskEnumCombinations cmp schema) = {c. assigns c (getTaskEnumFields cmp schema)} \<and>
    length (getTaskEnumCombinations cmp schema) =
      prod_list (map (\<lambda>fd. length (enumValues (snd fd))) (getTaskEnumFields cmp schema)) \<and>
    ((\<forall>fd\<in>set schema. distinct (enumValues (snd fd))) \<longrightarrow> distinct (getTaskEnumCombinations cmp schema))"
  using combinations_set [OF assms] combinations_distinct [OF assms] combinationsFrom_length [of "[[]]" "getTaskEnumFields cmp schema"]
  by (simp add: combinations_eq)

text \<open>
  C34. The price matrix survives its form as a chain of tiers. For a matrix with one row for each
  combination of the schema, the tiers written for it (one without conditions when all rows agree,
  otherwise one for each row, the last without conditions) are accepted as a matrix again, and
  the matrix read from them has the same combinations in the same order with the same prices.
\<close>

theorem matrix_roundtrip:
  assumes "distinct (map fst schema)" "list_all (\<lambda>fd. distinct (enumValues (snd fd))) schema"
    "map mrCombination rows = getTaskEnumCombinations cmp schema" "getTaskNumberFields cmp schema \<noteq> []" "rows \<noteq> []"
  shows "\<exists>rows'. matrixFromTiers cmp schema (taskMatrixToTiers cmp rows schema) = Some rows' \<and>
    list_all2 (agreeingRows (getTaskNumberFields cmp schema)) rows rows'"
proof -
  let ?nf = "getTaskNumberFields cmp schema" and ?flds = "getTaskEnumFields cmp schema"
  have d: "distinct (map fst ?nf)" "distinct (map fst ?flds)" using distinct_fields [OF assms(1)] by blast+
  note rows = matrix_rows [OF assms(1-3)]
  from rows(1) have keys: "\<forall>row\<in>set rows. distinct (map fst (mrCombination row))" using d(2) assigns_keys by metis
  obtain first others where first: "rows = first # others" using assms(5) by (cases rows) auto
  show ?thesis
  proof (cases "list_all (\<lambda>row. sameRow ?nf row first) rows")
    case True
    define t where "t = \<lparr>tvLabel = ''base'', tvConditions = [], tvConstant = mrConstant first,
      tvUnitPrices = pricesFor ?nf (mrUnitPrices first)\<rparr>"
    have "taskMatrixToTiers cmp rows schema = [t]" using True assms(4) first by (simp add: taskMatrixToTiers_def t_def)
    moreover have "matrixFromTiers cmp schema [t] = Some (map (matrixRow ?nf [t] t) (map mrCombination rows))"
      unfolding assms(3) by (simp add: matrixFromTiers_def t_def Let_def)
    ultimately show ?thesis using matrix_of_uniform [OF first True d(1)] unfolding t_def by auto
  next
    case False
    then have "taskMatrixToTiers cmp rows schema = rowTiers cmp ?nf rows" by (rule tiers_of_rows [OF first assms(4)])
    moreover have "matrixFromTiers cmp schema (rowTiers cmp ?nf rows) =
        Some (map (matrixRow ?nf (rowTiers cmp ?nf rows) (last (rowTiers cmp ?nf rows))) (map mrCombination rows))"
      unfolding assms(3) using rowTiers_usable [OF assms(5) keys] by (simp add: matrixFromTiers_def Let_def)
    ultimately show ?thesis using matrix_of_rows [OF rows(1) d(2) rows(2) d(1)] by auto
  qed
qed

section \<open>The preview of a matrix\<close>

lemma find_snoc: "P x \<Longrightarrow> find P (xs @ [x]) = Some (case find P xs of Some y \<Rightarrow> y | None \<Rightarrow> x)"
  by (induction xs) auto

lemma previewTier_find:
  assumes "tiers \<noteq> []" "tvConditions (last tiers) = []"
  shows "find (matchesSample sample) tiers = Some (previewTier tiers sample)"
proof -
  have "matchesSample sample (last tiers)" using assms(2) by (simp add: matchesSample_def)
  then have "find (matchesSample sample) (butlast tiers @ [last tiers]) = Some (previewTier tiers sample)"
    unfolding previewTier_def by (rule find_snoc)
  with assms(1) show ?thesis by simp
qed

lemma matchesSample_matchesTier:
  assumes "list_all (\<lambda>(f, v). map_of sample f = Some (FactStr v)) c" "distinct (map fst c)"
    "fst ` set (tvConditions t) \<subseteq> fst ` set c"
  shows "matchesSample sample t \<longleftrightarrow> matchesTier c t"
proof -
  have "map_of sample f = Some (FactStr v) \<longleftrightarrow> map_of c f = Some v" if "(f, v) \<in> set (tvConditions t)" for f v
  proof -
    have "f \<in> fst ` set c" using assms(3) that by (metis fst_conv image_eqI subsetD)
    then obtain w where "(f, w) \<in> set c" by auto
    with assms(1,2) have "map_of sample f = Some (FactStr w)" "map_of c f = Some w" by (auto simp: list_all_iff)
    then show ?thesis by auto
  qed
  then show ?thesis by (auto simp: matchesSample_def matchesTier_def list_all_iff)
qed

lemma preview_of_rows:
  assumes "\<forall>row\<in>set rows. assigns (mrCombination row) flds" "distinct (map fst flds)" "distinct (map mrCombination rows)"
    "i < length rows" "list_all (\<lambda>(f, v). map_of sample f = Some (FactStr v)) (mrCombination (rows ! i))"
  shows "previewTier (rowTiers cmp nf rows) sample = rowTier cmp nf (i = length rows - 1) (rows ! i)"
proof -
  let ?c = "mrCombination (rows ! i)"
  have keys: "map fst (mrCombination row) = map fst flds" if "row \<in> set rows" for row
    using assms(1) that assigns_keys by metis
  have c: "map fst ?c = map fst flds" using keys assms(4) by simp
  have "matchesSample sample t \<longleftrightarrow> matchesTier ?c t" if "t \<in> set (rowTiers cmp nf rows)" for t
  proof (rule matchesSample_matchesTier [OF assms(5)])
    show "distinct (map fst ?c)" using c assms(2) by simp
    obtain j where "j < length rows" "t = rowTier cmp nf (j = length rows - 1) (rows ! j)"
      using \<open>t \<in> _\<close> by (auto simp: in_set_conv_nth)
    moreover from this keys c have "fst ` set (mrCombination (rows ! j)) = fst ` set ?c"
      by (metis list.set_map nth_mem)
    ultimately show "fst ` set (tvConditions t) \<subseteq> fst ` set ?c" by (auto simp: rowTier_def)
  qed
  then have "find (matchesSample sample) (rowTiers cmp nf rows) = find (matchesTier ?c) (rowTiers cmp nf rows)"
    by (intro find_cong) auto
  moreover have "rows \<noteq> []" "\<forall>row\<in>set rows. distinct (map fst (mrCombination row))"
    using assms(2,4) keys by auto
  then have "find (matchesSample sample) (rowTiers cmp nf rows) = Some (previewTier (rowTiers cmp nf rows) sample)"
    by (intro previewTier_find rowTiers_usable)
  ultimately show ?thesis using find_row [OF assms(1-4), of cmp nf] by simp
qed

text \<open>
  C35. The preview bills the row of the matrix that the sample belongs to: when the facts of a sample
  choose the values of a row, the tier that the preview selects among the tiers written for the
  matrix has the constant and the prices of that row.
\<close>

theorem matrix_preview:
  assumes "distinct (map fst schema)" "list_all (\<lambda>fd. distinct (enumValues (snd fd))) schema"
    "map mrCombination rows = getTaskEnumCombinations cmp schema" "getTaskNumberFields cmp schema \<noteq> []"
    "i < length rows" "list_all (\<lambda>(f, v). map_of sample f = Some (FactStr v)) (mrCombination (rows ! i))"
  shows "agree (mrConstant (rows ! i)) (tvConstant (previewTier (taskMatrixToTiers cmp rows schema) sample)) \<and>
    list_all (\<lambda>(f, _). agree (priceOrZero (mrUnitPrices (rows ! i)) f)
        (priceOrZero (tvUnitPrices (previewTier (taskMatrixToTiers cmp rows schema) sample)) f))
      (getTaskNumberFields cmp schema)"
proof -
  let ?nf = "getTaskNumberFields cmp schema" and ?flds = "getTaskEnumFields cmp schema"
  have d: "distinct (map fst ?nf)" "distinct (map fst ?flds)" using distinct_fields [OF assms(1)] by blast+
  note rows = matrix_rows [OF assms(1-3)]
  obtain first others where first: "rows = first # others" using assms(5) by (cases rows) auto
  show ?thesis
  proof (cases "list_all (\<lambda>row. sameRow ?nf row first) rows")
    case True
    then have "sameRow ?nf (rows ! i) first" using assms(5) by (simp add: list_all_length)
    from sameRow_agrees [OF this d(1)] show ?thesis
      using True assms(4) first d(1)
      by (auto simp: taskMatrixToTiers_def previewTier_def agreeingRows_def list_all_iff pricesFor_idem prices_idem)
  next
    case False
    then have "taskMatrixToTiers cmp rows schema = rowTiers cmp ?nf rows" by (rule tiers_of_rows [OF first assms(4)])
    with preview_of_rows [OF rows(1) d(2) rows(2) assms(5,6), of cmp ?nf] show ?thesis
      using d(1) by (auto simp: rowTier_def agree_def list_all_iff prices_idem)
  qed
qed

section \<open>Normalisation\<close>

lemma nonNegativeOrZero_idem [simp]: "nonNegativeOrZero (nonNegativeOrZero x) = nonNegativeOrZero x"
  by (simp add: nonNegativeOrZero_def)

lemma natString_some: "natString n \<noteq> []"
  by (subst natString.simps) simp

lemma normalizeTier_idem:
  assumes "distinct (map fst nf)"
  shows "normalizeTaskTier nf ef i (normalizeTaskTier nf ef i t) = normalizeTaskTier nf ef i t"
proof -
  let ?price = "\<lambda>f. case map_of (tvUnitPrices t) f of Some x \<Rightarrow> nonNegativeOrZero x | None \<Rightarrow> Fin 0"
  have "map_of (map (\<lambda>(f, _). (f, ?price f)) nf) f = Some (?price f)" if "(f, d) \<in> set nf" for f d
    using assms that by (induction nf) auto
  moreover have "nonNegativeOrZero (?price f) = ?price f" for f
    by (auto simp: nonNegativeOrZero_def js_le_def split: option.splits)
  ultimately have "map (\<lambda>(f, _). (f, case map_of (map (\<lambda>(f, _). (f, ?price f)) nf) f of Some x \<Rightarrow> nonNegativeOrZero x | None \<Rightarrow> Fin 0)) nf =
      map (\<lambda>(f, _). (f, ?price f)) nf" by auto
  then show ?thesis by (simp add: normalizeTaskTier_def)
qed

text \<open>What the editor and the generator rely on.\<close>

definition normalTier :: "(string \<times> usageField) list \<Rightarrow> (string \<times> usageField) list \<Rightarrow> taskVisualTier \<Rightarrow> bool" where
  "normalTier nf ef t \<longleftrightarrow> tvLabel t \<noteq> [] \<and> list_all (enumIncludes ef) (tvConditions t) \<and>
     \<not> unusable (tvConstant t) \<and> map fst (tvUnitPrices t) = map fst nf \<and> list_all (\<lambda>(_, x). \<not> unusable x) (tvUnitPrices t)"

lemma nonNegativeOrZero_usable: "\<not> unusable (nonNegativeOrZero x)"
  by (cases x) (auto simp: nonNegativeOrZero_def unusable_def js_le_def js_eq_def)

lemma normalizeTier_normal: "normalTier nf ef (normalizeTaskTier nf ef i t)"
proof -
  have "\<not> unusable (Fin 0)" by (simp add: unusable_def)
  then show ?thesis using nonNegativeOrZero_usable
    by (auto simp: normalTier_def normalizeTaskTier_def list_all_iff split: option.splits)
qed

section \<open>Samples\<close>

definition sampleCollation :: collation where
  "sampleCollation a b = int (length a) - int (length b)"

definition sampleUsage :: usageSchema where
  "sampleUsage =
     [(''seconds'', \<lparr>utype = Some ''number'', uunit = Some ''second'', uenum = None\<rparr>),
      (''size'', \<lparr>utype = Some ''string'', uunit = None, uenum = Some [''small'', ''large'']\<rparr>),
      (''quality'', \<lparr>utype = Some ''string'', uunit = None, uenum = Some [''low'', ''high'']\<rparr>)]"

definition sampleRow :: "nat \<Rightarrow> (string \<times> string) list \<Rightarrow> taskMatrixRow" where
  "sampleRow i c = \<lparr>mrCombination = c, mrConstant = Fin 0, mrUnitPrices = [(''seconds'', Fin (of_nat i))]\<rparr>"

definition sampleMatrix :: taskMatrixConfig where
  "sampleMatrix = map (\<lambda>(i, c). sampleRow i c) (enumerate 1 (getTaskEnumCombinations sampleCollation sampleUsage))"

lemma sampleUsage_ok: "distinct (map fst sampleUsage)" "list_all (\<lambda>fd. distinct (enumValues (snd fd))) sampleUsage"
  "map mrCombination sampleMatrix = getTaskEnumCombinations sampleCollation sampleUsage"
  "getTaskNumberFields sampleCollation sampleUsage \<noteq> []" "sampleMatrix \<noteq> []"
  by code_simp+

definition sampleFacts :: "(string \<times> usageFact) list" where
  "sampleFacts = [(''seconds'', FactNum (Fin 5)), (''quality'', FactStr ''low''), (''size'', FactStr ''large'')]"

lemma sampleFacts_ok: "2 < length sampleMatrix"
  "list_all (\<lambda>(f, v). map_of sampleFacts f = Some (FactStr v)) (mrCombination (sampleMatrix ! 2))"
  by code_simp+

lemma sampleUsage_count:
  "prod_list (map (\<lambda>fd. length (enumValues (snd fd))) (getTaskEnumFields sampleCollation sampleUsage)) = 4"
  by code_simp

theorem matrix_combinations_witness:
  "length (getTaskEnumCombinations sampleCollation sampleUsage) = 4 \<and>
   distinct (getTaskEnumCombinations sampleCollation sampleUsage)"
  using matrix_combinations [OF sampleUsage_ok(1), of sampleCollation] sampleUsage_ok(2) sampleUsage_count
  by (simp add: list_all_iff)

theorem matrix_roundtrip_witness:
  "\<exists>rows'. matrixFromTiers sampleCollation sampleUsage (taskMatrixToTiers sampleCollation sampleMatrix sampleUsage) = Some rows' \<and>
    list_all2 (agreeingRows (getTaskNumberFields sampleCollation sampleUsage)) sampleMatrix rows'"
  by (rule matrix_roundtrip [OF sampleUsage_ok])

theorem matrix_preview_witness:
  "agree (mrConstant (sampleMatrix ! 2)) (tvConstant (previewTier (taskMatrixToTiers sampleCollation sampleMatrix sampleUsage) sampleFacts)) \<and>
    list_all (\<lambda>(f, _). agree (priceOrZero (mrUnitPrices (sampleMatrix ! 2)) f)
        (priceOrZero (tvUnitPrices (previewTier (taskMatrixToTiers sampleCollation sampleMatrix sampleUsage) sampleFacts)) f))
      (getTaskNumberFields sampleCollation sampleUsage)"
  by (rule matrix_preview [OF sampleUsage_ok(1-4) sampleFacts_ok])

lemma map_of_const: "(f, e) \<in> set nf \<Longrightarrow> map_of (map (\<lambda>(f, _). (f, c)) nf) f = Some c"
  by (induction nf) auto

text \<open>
  Normalising a task configuration gives usable tiers and is done once: every tier has a label,
  conditions on values of the schema's enumerations only, a finite non-negative constant and
  exactly one finite non-negative price for each number field; normalising again changes nothing.
\<close>

theorem task_config_normal:
  assumes "distinct (map fst schema)"
  shows "list_all (normalTier (getTaskNumberFields cmp schema) (getTaskEnumFields cmp schema)) (normalizeTaskVisualConfig cmp config schema) \<and>
    normalizeTaskVisualConfig cmp (Some (normalizeTaskVisualConfig cmp config schema)) schema = normalizeTaskVisualConfig cmp config schema"
proof -
  let ?nf = "getTaskNumberFields cmp schema" and ?ef = "getTaskEnumFields cmp schema"
  let ?default = "createDefaultTaskVisualConfig cmp schema"
  have d: "distinct (map fst ?nf)" using distinct_fields [OF assms] by blast
  have default: "?default = map (\<lambda>(i, t). normalizeTaskTier ?nf ?ef i t) (enumerate 0 ?default)"
  proof -
    show ?thesis
      by (auto simp: createDefaultTaskVisualConfig_def normalizeTaskTier_def nonNegativeOrZero_def map_of_const)
  qed
  obtain tiers where tiers: "tiers \<noteq> []"
    "normalizeTaskVisualConfig cmp config schema = map (\<lambda>(i, t). normalizeTaskTier ?nf ?ef i t) (enumerate 0 tiers)"
  proof (cases "config = None \<or> config = Some []")
    case True
    then have "normalizeTaskVisualConfig cmp config schema = ?default" by (auto simp: normalizeTaskVisualConfig_def)
    with default that [of ?default] show ?thesis by (simp add: createDefaultTaskVisualConfig_def)
  next
    case False
    then obtain ts where "config = Some ts" "ts \<noteq> []" by auto
    with that [of ts] show ?thesis by (simp add: normalizeTaskVisualConfig_def)
  qed
  have again: "map (\<lambda>(i, t). normalizeTaskTier ?nf ?ef i t) (enumerate 0 (map (\<lambda>(i, t). normalizeTaskTier ?nf ?ef i t) (enumerate 0 tiers))) =
      map (\<lambda>(i, t). normalizeTaskTier ?nf ?ef i t) (enumerate 0 tiers)"
    by (rule nth_equalityI) (simp_all add: nth_enumerate_eq normalizeTier_idem [OF d])
  then show ?thesis using tiers normalizeTier_normal
    by (auto simp: normalizeTaskVisualConfig_def list_all_length nth_enumerate_eq enumerate_eq_zip)
qed

theorem task_config_normal_witness:
  "list_all (normalTier (getTaskNumberFields sampleCollation sampleUsage) (getTaskEnumFields sampleCollation sampleUsage))
      (normalizeTaskVisualConfig sampleCollation (Some (taskMatrixToTiers sampleCollation sampleMatrix sampleUsage)) sampleUsage) \<and>
    normalizeTaskVisualConfig sampleCollation
      (Some (normalizeTaskVisualConfig sampleCollation (Some (taskMatrixToTiers sampleCollation sampleMatrix sampleUsage)) sampleUsage)) sampleUsage =
    normalizeTaskVisualConfig sampleCollation (Some (taskMatrixToTiers sampleCollation sampleMatrix sampleUsage)) sampleUsage"
  by (rule task_config_normal [OF sampleUsage_ok(1)])

end
