(* ===== verification/BxTaskMatrix.thy ===== *)
theory BxTaskMatrix
  imports BxTaskExprFacts
begin

text \<open>
  Model of \<open>pricing/lib/task-matrix-display.ts\<close> and \<open>pricing/lib/breakdown-tier-match.ts\<close>: the task
  table of the marketplace, in which the last row gets the conditions it stands for when they are
  unique, and the choice of the row that a settled request is shown to have hit. The properties:
  naming the last row does not change which row applies, and a matrix has at most one hit.
\<close>

section \<open>Tables for display\<close>

definition matrixDisplayRow :: "collation \<Rightarrow> taskMatrixRow \<Rightarrow> taskTierRow" where
  "matrixDisplayRow cmp row =
     \<lparr>kconditionText = None, klabel = taskMatrixRowLabel cmp (mrCombination row),
      kconditions = sortKeys cmp (entriesOrder (mrCombination row)),
      kconstant = mrConstant row, kunitPrices = mrUnitPrices row\<rparr>"

definition getTaskMatrixDisplayTiers ::
    "collation \<Rightarrow> string option \<Rightarrow> usageSchema option \<Rightarrow> compiledCache \<Rightarrow> taskTierRow list option bx \<times> compiledCache" where
  "getTaskMatrixDisplayTiers cmp exprText schema cache =
     (case schema of
        None \<Rightarrow> (Inr None, cache)
      | Some s \<Rightarrow>
          if getTaskEnumFields cmp s = [] then (Inr None, cache)
          else case tryParseTaskMatrixConfig cmp exprText s cache of
                 (found, cache') \<Rightarrow>
                   (rbind found (\<lambda>matrix. Inr (map_option (map (matrixDisplayRow cmp)) matrix)), cache'))"

text \<open>The values a condition may compare a field with.\<close>

definition fieldValues :: "usageSchema \<Rightarrow> string \<Rightarrow> string list" where
  "fieldValues schema f =
     (case map_of schema f of
        None \<Rightarrow> []
      | Some d \<Rightarrow> if utype d = Some ''boolean'' then [''false'', ''true''] else enumValues d)"

text \<open>The loop over the fields; it gives up on a field without values and above 256 combinations.\<close>

fun expandFields ::
    "usageSchema \<Rightarrow> string list \<Rightarrow> (string \<times> string) list list \<Rightarrow> (string \<times> string) list list option" where
  "expandFields schema [] combinations = Some combinations"
| "expandFields schema (f # fs) combinations =
     (let vs = fieldValues schema f
      in if vs = [] \<or> 256 < length combinations * length vs then None
         else expandFields schema fs (concat (map (\<lambda>c. map (\<lambda>v. c @ [(f, v)]) vs) combinations)))"

definition mentionedFields :: "taskTierRow list \<Rightarrow> string list" where
  "mentionedFields previous = sort (unique (concat (map (\<lambda>tier. map fst (kconditions tier)) previous)))"

definition coveredBy :: "(string \<times> string) list \<Rightarrow> taskTierRow \<Rightarrow> bool" where
  "coveredBy combination tier \<longleftrightarrow> list_all (\<lambda>c. c \<in> set combination) (kconditions tier)"

definition nameFallback :: "usageSchema \<Rightarrow> taskTierRow list \<Rightarrow> taskTierRow list" where
  "nameFallback schema tiers =
     (if length tiers < 2 then tiers
      else let previous = butlast tiers
           in case expandFields schema (mentionedFields previous) [[]] of
                None \<Rightarrow> tiers
              | Some combinations \<Rightarrow>
                  (case filter (\<lambda>c. \<not> list_ex (coveredBy c) previous) combinations of
                     [left] \<Rightarrow> previous @ [(last tiers)\<lparr>kconditions := left\<rparr>]
                   | _ \<Rightarrow> tiers))"

definition getTaskPricingDisplayTiers ::
    "string option \<Rightarrow> usageSchema option \<Rightarrow> compiledCache \<Rightarrow> taskTierRow list bx \<times> compiledCache" where
  "getTaskPricingDisplayTiers exprText schema cache =
     (let e = (case exprText of None \<Rightarrow> [] | Some e \<Rightarrow> e)
      in case parseTaskTiersFromExpr e schema True cache of
           (Inl err, c1) \<Rightarrow> (Inl err, c1)
         | (Inr tiers, c1) \<Rightarrow>
             (case schema of
                None \<Rightarrow> (Inr tiers, c1)
              | Some s \<Rightarrow>
                  if tiers = [] \<and> e \<noteq> []
                  then (case splitBillingExprAndRequestRules e c1 of
                          (Inl err, c2) \<Rightarrow> (Inl err, c2)
                        | (Inr divided, c2) \<Rightarrow>
                            (case readConditionalTaskPricing (sbBillingExpr divided) s c2 of
                               (found, c3) \<Rightarrow> (rbind found (\<lambda>rows. Inr (case rows of None \<Rightarrow> [] | Some ts \<Rightarrow> ts)), c3)))
                  else (Inr (nameFallback s tiers), c1)))"

section \<open>The row that was hit\<close>

text \<open>\<open>ParsedTier | ParsedTaskTier\<close>; only the latter has \<open>unitPrices\<close>, and only its conditions have a field.\<close>

datatype matchTier = TokenRow parsedTier | TaskRow taskTierRow

fun rowLabel :: "matchTier \<Rightarrow> string" where
  "rowLabel (TokenRow t) = ptLabel t"
| "rowLabel (TaskRow t) = klabel t"

definition tierMatchesNormalizedLabel :: "matchTier \<Rightarrow> string \<Rightarrow> bool" where
  "tierMatchesNormalizedLabel tier label \<longleftrightarrow> label \<noteq> [] \<and> normalizeTierLabel (Some (rowLabel tier)) = label"

text \<open>\<open>String(fact)\<close>.\<close>

fun factString :: "usageFact \<Rightarrow> string" where
  "factString (FactNum x) = numString x"
| "factString (FactStr s) = s"

definition factStringOr :: "(string \<times> usageFact) list option \<Rightarrow> string \<Rightarrow> string" where
  "factStringOr facts f = (case Option.bind facts (\<lambda>fs. map_of fs f) of None \<Rightarrow> ''undefined'' | Some x \<Rightarrow> factString x)"

text \<open>The guard on the billing unit and the fixed price of a token row.\<close>

fun unitDiffers :: "matchTier \<Rightarrow> billingUnit option \<Rightarrow> jsnum option \<Rightarrow> bool" where
  "unitDiffers (TokenRow t) (Some unit) price \<longleftrightarrow>
     (if ptFixed t = None then UToken else URequest) \<noteq> unit \<or>
     unit = URequest \<and> price \<noteq> None \<and> \<not> samePrice (Option.bind (ptFixed t) id) price"
| "unitDiffers _ _ _ \<longleftrightarrow> False"

definition timeText :: "taskTierRow \<Rightarrow> bool" where
  "timeText t \<longleftrightarrow> kconditionText t \<noteq> None \<and> kconditionText t \<noteq> Some []"

definition isBreakdownTierMatched ::
    "matchTier \<Rightarrow> matchTier list \<Rightarrow> string option \<Rightarrow> (string \<times> usageFact) list option \<Rightarrow> billingUnit option \<Rightarrow>
     jsnum option \<Rightarrow> bool" where
  "isBreakdownTierMatched tier tiers matchedTierLabel usageFacts unit price =
     (let label = normalizeTierLabel matchedTierLabel
      in if unitDiffers tier unit price then False
         else if tierMatchesNormalizedLabel tier label
         then (case tier of
                 TokenRow _ \<Rightarrow> True
               | TaskRow t \<Rightarrow>
                   if 1 < length (filter (\<lambda>candidate. tierMatchesNormalizedLabel candidate label) tiers)
                   then \<not> timeText t \<and> usageFacts \<noteq> None \<and> kconditions t \<noteq> [] \<and>
                     list_all (\<lambda>(f, v). factStringOr usageFacts f = v) (kconditions t)
                   else True)
         else if list_ex (\<lambda>candidate. tierMatchesNormalizedLabel candidate label) tiers then False
         else (case usageFacts of
                 None \<Rightarrow> False
               | Some facts \<Rightarrow>
                   (case tier of
                      TokenRow _ \<Rightarrow> False
                    | TaskRow t \<Rightarrow>
                        kconditions t \<noteq> [] \<and> \<not> timeText t \<and>
                        list_all (\<lambda>(f, v). map_option factString (map_of facts f) = Some v) (kconditions t))))"

section \<open>Naming the last row\<close>

lemma expandFields_keys:
  "\<lbrakk>expandFields schema fs cs = Some ds; d \<in> set ds\<rbrakk> \<Longrightarrow> \<exists>c\<in>set cs. \<exists>e. d = c @ e \<and> map fst e = fs"
proof (induction fs arbitrary: cs)
  case (Cons f fs)
  from Cons.prems(1) have "expandFields schema fs (concat (map (\<lambda>c. map (\<lambda>v. c @ [(f, v)]) (fieldValues schema f)) cs)) = Some ds"
    by (simp add: Let_def split: if_splits)
  from Cons.IH [OF this Cons.prems(2)] obtain c v e where "c \<in> set cs" "d = (c @ [(f, v)]) @ e" "map fst e = fs" by auto
  then show ?case by (intro bexI [of _ c] exI [of _ "(f, v) # e"]) auto
qed auto

lemma expandFields_choice:
  "\<lbrakk>expandFields schema fs cs = Some ds; \<forall>f\<in>set fs. g f \<in> set (fieldValues schema f); c \<in> set cs\<rbrakk> \<Longrightarrow>
   c @ map (\<lambda>f. (f, g f)) fs \<in> set ds"
proof (induction fs arbitrary: cs c)
  case (Cons f fs)
  let ?next = "concat (map (\<lambda>c. map (\<lambda>v. c @ [(f, v)]) (fieldValues schema f)) cs)"
  have expand: "expandFields schema fs ?next = Some ds" using Cons.prems(1) by (simp add: Let_def split: if_splits)
  have "c @ [(f, g f)] \<in> set ?next" using Cons.prems(2,3) by auto
  from Cons.IH [OF expand _ this] Cons.prems(2) show ?case by simp
qed auto

lemma nameFallback_cases:
  obtains (same) "nameFallback schema ts = ts"
  | (named) ds left where "ts \<noteq> []" "expandFields schema (mentionedFields (butlast ts)) [[]] = Some ds"
      "filter (\<lambda>c. \<not> list_ex (coveredBy c) (butlast ts)) ds = [left]"
      "nameFallback schema ts = butlast ts @ [(last ts)\<lparr>kconditions := left\<rparr>]"
proof (cases "length ts < 2")
  case False
  then have "ts \<noteq> []" by auto
  show ?thesis
  proof (cases "expandFields schema (mentionedFields (butlast ts)) [[]]")
    case (Some ds)
    show ?thesis
    proof (cases "\<exists>left. filter (\<lambda>c. \<not> list_ex (coveredBy c) (butlast ts)) ds = [left]")
      case True
      with False Some \<open>ts \<noteq> []\<close> show ?thesis by (auto simp: nameFallback_def intro!: named)
    next
      case other: False
      then have "nameFallback schema ts = ts"
        using False Some by (auto simp: nameFallback_def Let_def split: list.splits)
      then show ?thesis by (rule same)
    qed
  qed (use False in \<open>simp add: nameFallback_def same\<close>)
qed (simp add: nameFallback_def same)

text \<open>Every fact that a row of a table asks for is reported, with a value the schema declares.\<close>

definition declaredFacts :: "usageSchema \<Rightarrow> simulationContext \<Rightarrow> taskTierRow list \<Rightarrow> bool" where
  "declaredFacts schema ctx ts \<longleftrightarrow>
     list_all (\<lambda>t. list_all (\<lambda>(f, _). list_ex (\<lambda>w. factText (factOf ctx f) = Some w) (fieldValues schema f)) (kconditions t)) ts"

lemma set_mentionedFields: "set (mentionedFields ts) = (\<Union>t\<in>set ts. fst ` set (kconditions t))"
  by (auto simp: mentionedFields_def)

lemma declaredFacts_choice:
  assumes "declaredFacts schema ctx ts" "f \<in> set (mentionedFields ts)"
  shows "\<exists>w\<in>set (fieldValues schema f). factText (factOf ctx f) = Some w"
  using assms by (fastforce simp: declaredFacts_def set_mentionedFields list_all_iff list_ex_iff)

lemma named_last:
  assumes "declaredFacts schema ctx ts" "expandFields schema (mentionedFields ts) [[]] = Some ds"
    "filter (\<lambda>c. \<not> list_ex (coveredBy c) ts) ds = [left]"
  shows "list_all (factHolds ctx) left \<longleftrightarrow> \<not> list_ex (taskRowApplies ctx) ts"
proof -
  define g where "g f = the (factText (factOf ctx f))" for f
  define choice where "choice = map (\<lambda>f. (f, g f)) (mentionedFields ts)"
  have g: "factText (factOf ctx f) = Some (g f)" "g f \<in> set (fieldValues schema f)" if "f \<in> set (mentionedFields ts)" for f
    using declaredFacts_choice [OF assms(1) that] by (auto simp: g_def)
  have choice: "choice \<in> set ds" using expandFields_choice [OF assms(2), of g "[]"] g(2) by (simp add: choice_def)
  have "coveredBy choice t \<longleftrightarrow> taskRowApplies ctx t" if "t \<in> set ts" for t
  proof -
    have "c \<in> set choice \<longleftrightarrow> factHolds ctx c" if "c \<in> set (kconditions t)" for c
    proof -
      have "fst c \<in> set (mentionedFields ts)" using that \<open>t \<in> set ts\<close> by (auto simp: set_mentionedFields)
      with g(1) [OF this] show ?thesis by (cases c) (auto simp: choice_def factHolds_def)
    qed
    then show ?thesis by (auto simp: coveredBy_def taskRowApplies_def list_all_iff)
  qed
  then have uncovered: "list_ex (coveredBy choice) ts \<longleftrightarrow> list_ex (taskRowApplies ctx) ts" by (auto simp: list_ex_iff)
  have left: "left \<in> set ds" "\<not> list_ex (coveredBy left) ts" using assms(3) by (auto simp: filter_eq_Cons_iff)
  have "left = choice" if "list_all (factHolds ctx) left"
  proof -
    have "map fst left = mentionedFields ts" using expandFields_keys [OF assms(2) left(1)] by auto
    moreover have "map (\<lambda>c. (fst c, g (fst c))) left = left"
      using that by (intro map_idI) (auto simp: list_all_iff factHolds_def g_def)
    then have "left = map (\<lambda>f. (f, g f)) (map fst left)" by (simp add: comp_def)
    ultimately show ?thesis by (simp add: choice_def)
  qed
  moreover have "left = choice" if "\<not> list_ex (taskRowApplies ctx) ts"
  proof -
    have "choice \<in> set (filter (\<lambda>c. \<not> list_ex (coveredBy c) ts) ds)" using choice uncovered that by simp
    with assms(3) show ?thesis by simp
  qed
  moreover have "list_all (factHolds ctx) choice" using g(1) by (auto simp: choice_def list_all_iff factHolds_def)
  ultimately show ?thesis using left(2) uncovered by metis
qed

lemma find_last: "find P (xs @ [x]) = (if list_ex P xs then find P xs else if P x then Some x else None)"
  by (induction xs) auto

lemma parseTask_last:
  assumes "parseTaskTiersFromExpr e schema b cache = (Inr ts, cache')" "ts \<noteq> []"
  shows "kconditions (last ts) = []"
proof -
  obtain s n where "readTaskTierChain s b n = Inr (Some ts)"
    using assms by (auto simp: parseTaskTiersFromExpr_def rbind_eq_Inr_iff split: if_splits prod.splits sum.splits
        compilationResult.splits option.splits)
  then show ?thesis using readTaskChain_ok [of s b n "[]" ts] by (simp add: readTaskTierChain_def rowsOk_def tableOk_def)
qed

text \<open>
  C36. The table of the marketplace shows the prices of the tiers: for reported facts with declared
  values, the first displayed row whose conditions hold has the label and the prices of the first
  tier that applies, and the row that stands for all remaining cases, if it is given conditions,
  has conditions that hold exactly when no other row applies.
\<close>

theorem displayed_fallback_exact:
  assumes "parseTaskTiersFromExpr e (Some schema) True cache = (Inr ts, cache')" "ts \<noteq> []"
    "declaredFacts schema ctx ts" "getTaskPricingDisplayTiers (Some e) (Some schema) cache = (Inr rows, cache'')"
  shows "map_option (\<lambda>t. (klabel t, kconstant t, kunitPrices t)) (find (taskRowApplies ctx) rows) =
      map_option (\<lambda>t. (klabel t, kconstant t, kunitPrices t)) (find (taskRowApplies ctx) ts) \<and>
    (kconditions (last rows) \<noteq> [] \<longrightarrow>
      (taskRowApplies ctx (last rows) \<longleftrightarrow> \<not> list_ex (taskRowApplies ctx) (butlast rows)))"
proof -
  have last: "kconditions (last ts) = []" using parseTask_last [OF assms(1,2)] .
  have rows: "rows = nameFallback schema ts" using assms by (simp add: getTaskPricingDisplayTiers_def)
  have declared: "declaredFacts schema ctx (butlast ts)"
    using assms(3) by (auto simp: declaredFacts_def list_all_iff dest: in_set_butlastD)
  show ?thesis
  proof (cases schema ts rule: nameFallback_cases)
    case same
    with last rows show ?thesis by simp
  next
    case (named ds left)
    let ?named = "(last ts)\<lparr>kconditions := left\<rparr>"
    have iff: "taskRowApplies ctx ?named \<longleftrightarrow> \<not> list_ex (taskRowApplies ctx) (butlast ts)"
      using named_last [OF declared named(2,3)] by (simp add: taskRowApplies_def)
    have "taskRowApplies ctx (last ts)" using last by (simp add: taskRowApplies_def)
    moreover have "find (taskRowApplies ctx) ts = find (taskRowApplies ctx) (butlast ts @ [last ts])" using named(1) by simp
    ultimately show ?thesis using iff named(4) rows by (auto simp: find_last)
  qed
qed


lemma fallback_sample:
  "case parseTaskTiersFromExpr taskSource (Some taskSchema) True [] of
     (Inl _, _) \<Rightarrow> False
   | (Inr ts, _) \<Rightarrow> ts \<noteq> [] \<and> declaredFacts taskSchema taskContext ts"
  "case getTaskPricingDisplayTiers (Some taskSource) (Some taskSchema) [] of
     (Inl _, _) \<Rightarrow> False
   | (Inr rows, _) \<Rightarrow> kconditions (last rows) = [(''m'', ''s'')]"
  by code_simp+

theorem displayed_fallback_exact_witness:
  "\<exists>ts rows. fst (parseTaskTiersFromExpr taskSource (Some taskSchema) True []) = Inr ts \<and>
     fst (getTaskPricingDisplayTiers (Some taskSource) (Some taskSchema) []) = Inr rows \<and>
     map_option (\<lambda>t. (klabel t, kconstant t, kunitPrices t)) (find (taskRowApplies taskContext) rows) =
       map_option (\<lambda>t. (klabel t, kconstant t, kunitPrices t)) (find (taskRowApplies taskContext) ts) \<and>
     kconditions (last rows) = [(''m'', ''s'')] \<and>
     (taskRowApplies taskContext (last rows) \<longleftrightarrow> \<not> list_ex (taskRowApplies taskContext) (butlast rows))"
proof -
  obtain ts c1 rows c2 where parse: "parseTaskTiersFromExpr taskSource (Some taskSchema) True [] = (Inr ts, c1)"
      "ts \<noteq> []" "declaredFacts taskSchema taskContext ts"
    and shown: "getTaskPricingDisplayTiers (Some taskSource) (Some taskSchema) [] = (Inr rows, c2)"
      "kconditions (last rows) = [(''m'', ''s'')]"
    using fallback_sample by (auto split: prod.splits sum.splits)
  from displayed_fallback_exact [OF parse shown(1)] parse(1) shown show ?thesis by auto
qed

section \<open>The hit of a settled request\<close>

lemma filter_at_most_one:
  assumes "\<And>i j. \<lbrakk>i < length xs; j < length xs; P (xs ! i); P (xs ! j)\<rbrakk> \<Longrightarrow> i = j"
  shows "length (filter P xs) \<le> 1"
  unfolding length_filter_conv_card using assms by (auto simp: card_le_Suc0_iff_eq)

lemma filter_only:
  assumes "length (filter P xs) \<le> 1" "x \<in> set xs" "P x"
  shows "filter P xs = [x]"
proof -
  have "x \<in> set (filter P xs)" using assms(2,3) by simp
  with assms(1) show ?thesis by (cases "filter P xs" rule: remdups_adj.cases) auto
qed

lemma displayed_matrix:
  assumes "getTaskMatrixDisplayTiers cmp e (Some schema) cache = (Inr (Some rows), cache')"
  obtains ms where "rows = map (matrixDisplayRow cmp) ms" "map mrCombination ms = getTaskEnumCombinations cmp schema"
    "getTaskEnumFields cmp schema \<noteq> []"
proof -
  obtain ms tiers where ms: "rows = map (matrixDisplayRow cmp) ms" "matrixFromTiers cmp schema tiers = Some ms"
      "getTaskEnumFields cmp schema \<noteq> []"
    using assms by (auto simp: getTaskMatrixDisplayTiers_def tryParseTaskMatrixConfig_def rbind_eq_Inr_iff
        split: if_splits option.splits prod.splits)
  moreover have "map mrCombination ms = getTaskEnumCombinations cmp schema"
    using ms(2) by (auto simp: matrixFromTiers_def Let_def matrixRow_def comp_def split: if_splits)
  ultimately show thesis using that by blast
qed

lemma chosen_once:
  assumes "distinct cs" "\<forall>c\<in>set cs. map fst c = ks" "i < length cs" "j < length cs"
    "list_all (\<lambda>(f, v). h f = v) (cs ! i)" "list_all (\<lambda>(f, v). h f = v) (cs ! j)"
  shows "i = j"
proof -
  have "c = map (\<lambda>k. (k, h k)) ks" if "c \<in> set cs" "list_all (\<lambda>(f, v). h f = v) c" for c
  proof -
    have "map (\<lambda>x. (fst x, h (fst x))) c = c" using that(2) by (intro map_idI) (auto simp: list_all_iff)
    moreover have "map fst c = ks" using that(1) assms(2) by blast
    ultimately show ?thesis by (auto simp: comp_def)
  qed
  then have "cs ! i = cs ! j" using assms by (metis nth_mem)
  with assms(1,3,4) show ?thesis by (simp add: nth_eq_iff_index_eq)
qed

text \<open>A task row that is matched is the only row with the label, or the facts choose its values.\<close>

lemma matched_task_row:
  assumes "isBreakdownTierMatched (TaskRow t) tiers label facts unit price"
  shows "list_all (\<lambda>(f, v). factStringOr facts f = v) (kconditions t) \<or>
    tierMatchesNormalizedLabel (TaskRow t) (normalizeTierLabel label) \<and>
    length (filter (\<lambda>candidate. tierMatchesNormalizedLabel candidate (normalizeTierLabel label)) tiers) \<le> 1"
  using assms
  by (auto simp: isBreakdownTierMatched_def Let_def factStringOr_def list_all_iff split: if_splits option.splits)

lemma label_carriers:
  assumes "isBreakdownTierMatched (TaskRow t) tiers label facts unit price"
    "\<not> list_all (\<lambda>(f, v). factStringOr facts f = v) (kconditions t)"
    "isBreakdownTierMatched (TaskRow u) tiers label facts unit price"
    "TaskRow t \<in> set tiers"
  shows "tierMatchesNormalizedLabel (TaskRow u) (normalizeTierLabel label)"
  using assms matched_task_row [OF assms(1)]
  by (auto simp: isBreakdownTierMatched_def Let_def list_ex_iff split: if_splits)


lemma matched_once:
  assumes "distinct (map mrCombination ms)" "\<forall>m\<in>set ms. map fst (mrCombination m) = ks"
    "rows = map (matrixDisplayRow cmp) ms"
  shows "length (filter (\<lambda>t. isBreakdownTierMatched (TaskRow t) (map TaskRow rows) label facts unit price) rows) \<le> 1"
    (is "length (filter ?hit rows) \<le> 1")
proof -
  let ?carries = "\<lambda>t. tierMatchesNormalizedLabel (TaskRow t) (normalizeTierLabel label)"
  let ?chosen = "\<lambda>t. list_all (\<lambda>(f, v). factStringOr facts f = v) (kconditions t)"
  show ?thesis
  proof (cases "\<exists>t\<in>set rows. ?hit t \<and> \<not> ?chosen t")
    case True
    then obtain t where t: "t \<in> set rows" "?hit t" "\<not> ?chosen t" by blast
    have "filter ?hit rows = filter ?hit (filter ?carries rows)"
      using label_carriers [OF t(2,3)] t(1) by (auto intro!: filter_cong)
    also have "length \<dots> \<le> length (filter ?carries rows)" by (rule length_filter_le)
    also have "\<dots> \<le> 1" using matched_task_row [OF t(2)] t(3) by (simp add: filter_map comp_def)
    finally show ?thesis .
  next
    case False
    have conditions: "?chosen (matrixDisplayRow cmp m) \<longleftrightarrow> list_all (\<lambda>(f, v). factStringOr facts f = v) (mrCombination m)" for m
      by (auto simp: matrixDisplayRow_def list_all_iff)
    show ?thesis
    proof (rule filter_at_most_one)
      fix i j assume *: "i < length rows" "j < length rows" "?hit (rows ! i)" "?hit (rows ! j)"
      with False have "?chosen (rows ! i)" "?chosen (rows ! j)" by (meson nth_mem)+
      with * show "i = j" using chosen_once [OF assms(1), of ks i j "factStringOr facts"] assms(2)
        by (auto simp: assms(3) conditions)
    qed
  qed
qed

text \<open>
  C37. A settled request hits one row of a price matrix: at most one displayed row is marked, and
  when the reported facts choose the values of a row, and the label of the settlement is that of
  this row or of no row, exactly this row is marked.
\<close>

theorem matrix_hit_unique:
  assumes "distinct (map fst schema)" "list_all (\<lambda>fd. distinct (enumValues (snd fd))) schema"
    "getTaskMatrixDisplayTiers cmp e (Some schema) cache = (Inr (Some rows), cache')"
  shows "length (filter (\<lambda>t. isBreakdownTierMatched (TaskRow t) (map TaskRow rows) label facts unit price) rows) \<le> 1 \<and>
    (i < length rows \<and> facts = Some fs \<and>
     list_all (\<lambda>(f, v). map_option factString (map_of fs f) = Some v) (kconditions (rows ! i)) \<and>
     normalizeTierLabel label \<notin> (\<lambda>t. normalizeTierLabel (Some (klabel t))) ` (set rows - {rows ! i}) \<longrightarrow>
     filter (\<lambda>t. isBreakdownTierMatched (TaskRow t) (map TaskRow rows) label facts unit price) rows = [rows ! i])"
    (is "length (filter ?hit rows) \<le> 1 \<and> (?chosen \<longrightarrow> _)")
proof -
  obtain ms where ms: "rows = map (matrixDisplayRow cmp) ms" "map mrCombination ms = getTaskEnumCombinations cmp schema"
      "getTaskEnumFields cmp schema \<noteq> []"
    using assms(3) by (rule displayed_matrix)
  note combos = matrix_rows [OF assms(1,2) ms(2)]
  have keys: "\<forall>m\<in>set ms. map fst (mrCombination m) = map fst (getTaskEnumFields cmp schema)"
    using combos(1) assigns_keys by metis
  have once: "length (filter ?hit rows) \<le> 1" by (rule matched_once [OF combos(2) keys ms(1)])
  have "?hit (rows ! i)" if ?chosen
  proof -
    have "\<exists>m\<in>set ms. rows ! i = matrixDisplayRow cmp m" using that ms(1) by auto
    then have row: "kconditions (rows ! i) \<noteq> []" "kconditionText (rows ! i) = None"
      using keys ms(3) by (auto simp: matrixDisplayRow_def) (metis set_empty set_sortKeys set_entriesOrder list.map_disc_iff)+
    have facts: "list_all (\<lambda>(f, v). factStringOr facts f = v) (kconditions (rows ! i))"
      using that by (auto simp: factStringOr_def list_all_iff)
    show ?thesis
    proof (cases "tierMatchesNormalizedLabel (TaskRow (rows ! i)) (normalizeTierLabel label)")
      case True
      with row facts that show ?thesis by (simp add: isBreakdownTierMatched_def timeText_def)
    next
      case False
      have "\<not> tierMatchesNormalizedLabel (TaskRow t) (normalizeTierLabel label)" if t: "t \<in> set rows" for t
      proof (cases "t = rows ! i")
        case other: False
        with t have "normalizeTierLabel (Some (klabel t)) \<in> (\<lambda>t. normalizeTierLabel (Some (klabel t))) ` (set rows - {rows ! i})"
          by blast
        with \<open>?chosen\<close> show ?thesis by (auto simp: tierMatchesNormalizedLabel_def)
      qed (use False in simp)
      then have "\<not> list_ex (\<lambda>c. tierMatchesNormalizedLabel c (normalizeTierLabel label)) (map TaskRow rows)"
        by (simp add: list_ex_iff)
      with False row that show ?thesis by (simp add: isBreakdownTierMatched_def timeText_def)
    qed
  qed
  then have "filter ?hit rows = [rows ! i]" if ?chosen
    using that by (intro filter_only once nth_mem) auto
  with once show ?thesis by blast
qed

definition hitSource :: string where
  "hitSource = ''u(\"m\")==\"f\"?tier(\"f\",u(\"n\")*2):tier(\"z\",u(\"n\")*1)''"

lemma hit_sample:
  "case getTaskMatrixDisplayTiers sampleCollation (Some hitSource) (Some taskSchema) [] of
     (Inr (Some rows), _) \<Rightarrow> length rows = 2 \<and> kconditions (rows ! 1) = [(''m'', ''s'')] \<and>
       normalizeTierLabel (Some ''z'') \<notin> set (map (\<lambda>t. normalizeTierLabel (Some (klabel t))) rows)
   | _ \<Rightarrow> False"
  "distinct (map fst taskSchema)" "list_all (\<lambda>fd. distinct (enumValues (snd fd))) taskSchema"
  by code_simp+

theorem matrix_hit_unique_witness:
  "\<exists>rows. fst (getTaskMatrixDisplayTiers sampleCollation (Some hitSource) (Some taskSchema) []) = Inr (Some rows) \<and>
     filter (\<lambda>t. isBreakdownTierMatched (TaskRow t) (map TaskRow rows) (Some ''z'') (Some [(''m'', FactStr ''s'')]) None None) rows =
       [rows ! 1]"
proof -
  obtain rows c where rows: "getTaskMatrixDisplayTiers sampleCollation (Some hitSource) (Some taskSchema) [] = (Inr (Some rows), c)"
      "length rows = 2" "kconditions (rows ! 1) = [(''m'', ''s'')]"
      "normalizeTierLabel (Some ''z'') \<notin> set (map (\<lambda>t. normalizeTierLabel (Some (klabel t))) rows)"
    using hit_sample(1) by (auto split: prod.splits sum.splits option.splits)
  from matrix_hit_unique [OF hit_sample(2,3) rows(1), of "Some ''z''" "Some [(''m'', FactStr ''s'')]" None None 1
      "[(''m'', FactStr ''s'')]"] rows(2-4)
  have "filter (\<lambda>t. isBreakdownTierMatched (TaskRow t) (map TaskRow rows) (Some ''z'') (Some [(''m'', FactStr ''s'')]) None None) rows =
      [rows ! 1]" by auto
  with rows(1) show ?thesis by simp
qed

end
