(* ===== verification/BxTierExpr.thy ===== *)
theory BxTierExpr
  imports BxRules
begin

text \<open>
  Model of \<open>pricing/lib/tier-expr.ts\<close>: the list of token tiers as text, read back by regular
  expressions, and the estimator, which evaluates an expression for given token counts. The
  number class \<open>[\d.eE+-]\<close> contains the operator that follows it, so the patterns of this file are
  matchers with all their matches, in the order in which backtracking finds them.
\<close>

section \<open>Data\<close>

datatype cacheMode = Timed | Generic

datatype conditionValue = CondNum jsnum | CondStr string

record tierConditionInput =
  ciVar :: string
  ciOp :: string
  ciValue :: conditionValue

text \<open>
  \<open>VisualTier\<close>; the costs with an optional field are the list of those present. A
  \<open>Partial<VisualTier>\<close> has options for the fields that a tier must have.
\<close>

record tokenVisualTier =
  vtUnit :: "billingUnit option"
  vtFixedPrice :: "string option"
  vtLabel :: string
  vtConditions :: "tierConditionInput list"
  vtInput :: jsnum
  vtOutput :: jsnum
  vtCacheMode :: cacheMode
  vtCosts :: "(string \<times> jsnum) list"

record partialTier =
  paUnit :: "billingUnit option"
  paFixedPrice :: "string option"
  paLabel :: "string option"
  paConditions :: "tierConditionInput list option"
  paInput :: "jsnum option"
  paOutput :: "jsnum option"
  paCacheMode :: "cacheMode option"
  paCosts :: "(string \<times> jsnum) list"

type_synonym visualConfig = "tokenVisualTier list"

section \<open>Normalisation\<close>

text \<open>\<open>Number(x) || 0\<close> for a number that may be missing.\<close>

definition numberOrZero :: "jsnum option \<Rightarrow> jsnum" where
  "numberOrZero x = (case x of None \<Rightarrow> Fin 0 | Some n \<Rightarrow> if n = NaN \<or> js_eq n (Fin 0) then Fin 0 else n)"

definition getTierCacheMode :: "partialTier \<Rightarrow> cacheMode" where
  "getTierCacheMode tier =
     (case paCacheMode tier of
        Some mode \<Rightarrow> mode
      | None \<Rightarrow>
          (case map_of (paCosts tier) ''cache_create_1h_unit_cost'' of
             Some x \<Rightarrow> if js_lt (Fin 0) x then Timed else Generic
           | None \<Rightarrow> Generic))"

definition normalizedCosts :: "string list" where
  "normalizedCosts =
     [''cache_read_unit_cost'', ''cache_create_unit_cost'', ''cache_create_1h_unit_cost'', ''image_unit_cost'',
      ''image_output_unit_cost'', ''audio_input_unit_cost'', ''audio_output_unit_cost'']"

text \<open>The properties of \<open>...tier\<close> that are present replace the defaults written before it.\<close>

definition normalizeVisualTier :: "partialTier \<Rightarrow> tokenVisualTier" where
  "normalizeVisualTier tier =
     \<lparr>vtUnit = paUnit tier, vtFixedPrice = paFixedPrice tier,
      vtLabel = (case paLabel tier of Some l \<Rightarrow> l | None \<Rightarrow> []),
      vtConditions = (case paConditions tier of Some cs \<Rightarrow> cs | None \<Rightarrow> []),
      vtInput = (case paInput tier of Some x \<Rightarrow> x | None \<Rightarrow> Fin 0),
      vtOutput = (case paOutput tier of Some x \<Rightarrow> x | None \<Rightarrow> Fin 0),
      vtCacheMode = getTierCacheMode tier,
      vtCosts = fold (\<lambda>f. setProp f (numberOrZero (map_of (paCosts tier) f))) normalizedCosts (paCosts tier)\<rparr>"

definition asPartial :: "tokenVisualTier \<Rightarrow> partialTier" where
  "asPartial t =
     \<lparr>paUnit = vtUnit t, paFixedPrice = vtFixedPrice t, paLabel = Some (vtLabel t),
      paConditions = Some (vtConditions t), paInput = Some (vtInput t), paOutput = Some (vtOutput t),
      paCacheMode = Some (vtCacheMode t), paCosts = vtCosts t\<rparr>"

definition createDefaultVisualConfig :: visualConfig where
  "createDefaultVisualConfig =
     [normalizeVisualTier
       \<lparr>paUnit = None, paFixedPrice = None, paLabel = Some ''base'', paConditions = Some [], paInput = Some (Fin 0),
        paOutput = Some (Fin 0), paCacheMode = Some Generic, paCosts = []\<rparr>]"

definition normalizeVisualConfig :: "visualConfig option \<Rightarrow> visualConfig" where
  "normalizeVisualConfig config =
     (case config of
        None \<Rightarrow> createDefaultVisualConfig
      | Some tiers \<Rightarrow>
          if tiers = [] then createDefaultVisualConfig else map (\<lambda>t. normalizeVisualTier (asPartial t)) tiers)"

section \<open>Writing\<close>

fun conditionValueText :: "conditionValue \<Rightarrow> string" where
  "conditionValueText (CondNum x) = numString x"
| "conditionValueText (CondStr s) = s"

definition buildConditionStr :: "tierConditionInput list \<Rightarrow> string" where
  "buildConditionStr conditions =
     joinWith '' && ''
       (map (\<lambda>c. ciVar c @ '' '' @ ciOp c @ '' '' @ conditionValueText (ciValue c))
         (filter (\<lambda>c. ciVar c \<noteq> [] \<and> ciOp c \<noteq> [] \<and> ciValue c \<noteq> CondStr []) conditions))"

definition costTerms :: "tokenVisualTier \<Rightarrow> (string \<times> string) list \<Rightarrow> string list" where
  "costTerms tier vars =
     concat (map (\<lambda>(f, v).
       let x = numberOrZero (map_of (vtCosts tier) f)
       in if js_eq x (Fin 0) then [] else [v @ '' * '' @ numString x]) vars)"

definition buildTierBodyExpr :: "tokenVisualTier \<Rightarrow> string" where
  "buildTierBodyExpr tier =
     (if vtUnit tier = Some URequest
      then ''fixed('' @ (case vtFixedPrice tier of Some s \<Rightarrow> s | None \<Rightarrow> []) @ '')''
      else joinWith '' + ''
        ((''p * '' @ numString (numberOrZero (Some (vtInput tier)))) #
         (''c * '' @ numString (numberOrZero (Some (vtOutput tier)))) #
         costTerms tier BILLING_CACHE_VAR_MAP))"

definition tierText :: "string \<Rightarrow> tokenVisualTier \<Rightarrow> string" where
  "tierText label tier = ''tier(\"'' @ label @ ''\", '' @ buildTierBodyExpr tier @ '')''"

definition generateExprFromVisualConfig :: "visualConfig option \<Rightarrow> string" where
  "generateExprFromVisualConfig config =
     (case config of
        None \<Rightarrow> ''p * 0 + c * 0''
      | Some [] \<Rightarrow> ''p * 0 + c * 0''
      | Some [tier] \<Rightarrow>
          (let body = tierText (if vtLabel tier = [] then ''default'' else vtLabel tier) tier;
               cond = buildConditionStr (vtConditions tier)
           in if cond \<noteq> [] then cond @ '' ? '' @ body @ '' : p * 0 + c * 0'' else body)
      | Some tiers \<Rightarrow>
          joinWith '' : ''
            (map (\<lambda>(i, tier).
               let body = tierText (if vtLabel tier = [] then ''tier_'' @ natString (int i + 1) else vtLabel tier) tier;
                   cond = buildConditionStr (vtConditions tier)
               in if i < length tiers - 1 \<and> cond \<noteq> [] then cond @ '' ? '' @ body else body)
             (enumerate 0 tiers)))"

section \<open>Reading\<close>

type_synonym 'a branching = "string \<Rightarrow> ('a \<times> string) list"

definition bthen :: "'a branching \<Rightarrow> ('a \<Rightarrow> 'b branching) \<Rightarrow> 'b branching" where
  "bthen m f s = concat (map (\<lambda>(a, r). f a r) (m s))"

definition bret :: "'a \<Rightarrow> 'a branching" where
  "bret a s = [(a, s)]"

text \<open>A matcher with at most one match.\<close>

definition bone :: "'a matcher \<Rightarrow> 'a branching" where
  "bone m s = (case m s of None \<Rightarrow> [] | Some x \<Rightarrow> [x])"

text \<open>White space, always followed by something else; \<open>[...]+\<close>, the longest run first.\<close>

definition mspace :: "unit matcher" where
  "mspace s = Some ((), dropWhile isSpace s)"

definition numberRuns :: "(char \<Rightarrow> bool) \<Rightarrow> string branching" where
  "numberRuns P s = map (\<lambda>n. (take n s, drop n s)) (rev [1..<Suc (length (takeWhile P s))])"

text \<open>\<open>v\s*\*\s*\<close>, and \<open>\s*\+\s*\<close> before it.\<close>

definition timesVar :: "string \<Rightarrow> unit matcher" where
  "timesVar v = mthen (mtext v) (\<lambda>_. mthen mspace (\<lambda>_. mthen (mtext ''*'') (\<lambda>_. mspace)))"

definition plusVar :: "string \<Rightarrow> unit matcher" where
  "plusVar v = mthen mspace (\<lambda>_. mthen (mtext ''+'') (\<lambda>_. mthen mspace (\<lambda>_. timesVar v)))"

fun optionalTerms :: "string list \<Rightarrow> string option list branching" where
  "optionalTerms [] s = [([], s)]"
| "optionalTerms (v # vs) s =
     bthen (bone (plusVar v)) (\<lambda>_.
     bthen (numberRuns numeralChar) (\<lambda>n.
     bthen (optionalTerms vs) (\<lambda>ns. bret (Some n # ns)))) s @
     bthen (optionalTerms vs) (\<lambda>ns. bret (None # ns)) s"

definition bodyPat :: "(string \<times> string \<times> string option list) branching" where
  "bodyPat =
     bthen (bone (timesVar ''p'')) (\<lambda>_.
     bthen (numberRuns numeralChar) (\<lambda>ic.
     bthen (bone (plusVar ''c'')) (\<lambda>_.
     bthen (numberRuns numeralChar) (\<lambda>oc.
     bthen (optionalTerms (map snd BILLING_CACHE_VAR_MAP)) (\<lambda>ns. bret (ic, oc, ns))))))"

text \<open>\<open>tier\("([^"]*)",\s*BODY\)\<close>.\<close>

definition tierPat :: "(string \<times> string \<times> string \<times> string option list) branching" where
  "tierPat =
     bthen (bone (mtext ''tier(\"'')) (\<lambda>_.
     bthen (\<lambda>s. [(takeWhile (\<lambda>c. c \<noteq> quoteDbl) s, dropWhile (\<lambda>c. c \<noteq> quoteDbl) s)]) (\<lambda>label.
     bthen (bone (mtext ''\",'')) (\<lambda>_.
     bthen (bone mspace) (\<lambda>_.
     bthen bodyPat (\<lambda>(ic, oc, ns).
     bthen (bone (mtext '')'')) (\<lambda>_. bret (label, ic, oc, ns)))))))"

text \<open>\<open>^...$\<close>: the first match that ends with the text.\<close>

definition fullMatch :: "'a branching \<Rightarrow> string \<Rightarrow> 'a option" where
  "fullMatch m s = map_option fst (find (\<lambda>(_, r). r = []) (m s))"

text \<open>
  One condition \<open>(p|c|len)\s*(<|<=|>|>=)\s*[\d.eE+]+\<close>; of two operators the longer one is the one
  that a number can follow. The text of the conditions is split and matched again by the code,
  which gives the same parts.
\<close>

definition conditionPat :: "(string \<times> string \<times> string) matcher" where
  "conditionPat =
     mthen (moneOf [''p'', ''c'', ''len'']) (\<lambda>v.
     mthen mspace (\<lambda>_.
     mthen (moneOf [''<='', ''>='', ''<'', ''>'']) (\<lambda>op.
     mthen mspace (\<lambda>_.
     mthen (mrun (\<lambda>c. numeralChar c \<and> c \<noteq> CHR ''-'')) (\<lambda>n. mret (v, op, n))))))"

definition andCondition :: "(string \<times> string \<times> string) matcher" where
  "andCondition = mthen mspace (\<lambda>_. mthen (mtext ''&&'') (\<lambda>_. mthen mspace (\<lambda>_. conditionPat)))"

function moreConditions :: "(string \<times> string \<times> string) list matcher" where
  "moreConditions s =
     (case andCondition s of
        None \<Rightarrow> Some ([], s)
      | Some (c, r) \<Rightarrow>
          if length r < length s then map_option (\<lambda>(cs, q). (c # cs, q)) (moreConditions r) else Some ([], s))"
  by pat_completeness auto

termination
  by (relation "measure length") auto

definition condGroup :: "(string \<times> string \<times> string) list matcher" where
  "condGroup =
     mthen conditionPat (\<lambda>c.
     mthen moreConditions (\<lambda>cs.
     mthen mspace (\<lambda>_.
     mthen (mtext ''?'') (\<lambda>_.
     mthen mspace (\<lambda>_. mret (c # cs))))))"

definition tierRe :: "((string \<times> string \<times> string) list \<times> string \<times> string \<times> string \<times> string option list) branching" where
  "tierRe s =
     bthen (bone condGroup) (\<lambda>cs. bthen tierPat (\<lambda>t. bret (cs, t))) s @ bthen tierPat (\<lambda>t. bret ([], t)) s"

text \<open>The loop over \<open>exec\<close>: the first match at the first position that has one, then on from its end.\<close>

fun matchesFrom :: "string \<Rightarrow> ((string \<times> string \<times> string) list \<times> string \<times> string \<times> string \<times> string option list) list" where
  "matchesFrom [] = []"
| "matchesFrom (c # s) =
     (case tierRe (c # s) of
        [] \<Rightarrow> matchesFrom s
      | (m, r) # _ \<Rightarrow> if length r < length (c # s) then m # matchesFrom r else m # matchesFrom s)"

definition readTierMatch :: "(string \<times> string \<times> string) list \<times> string \<times> string \<times> string \<times> string option list \<Rightarrow> tokenVisualTier" where
  "readTierMatch m =
     (case m of (cs, label, ic, oc, ns) \<Rightarrow>
        normalizeVisualTier
          \<lparr>paUnit = None, paFixedPrice = None, paLabel = Some label,
           paConditions = Some (map (\<lambda>(v, op, n). \<lparr>ciVar = v, ciOp = op, ciValue = CondNum (stringToNumber n)\<rparr>) cs),
           paInput = Some (stringToNumber ic), paOutput = Some (stringToNumber oc), paCacheMode = None,
           paCosts = concat (map (\<lambda>((f, _), n). case n of None \<Rightarrow> [] | Some t \<Rightarrow> [(f, stringToNumber t)])
             (zip BILLING_CACHE_VAR_MAP ns))\<rparr>)"

text \<open>\<open>/^v\d+:([\s\S]*)$/\<close>.\<close>

definition withoutVersion :: "string \<Rightarrow> string" where
  "withoutVersion s =
     (case mthen (mtext ''v'') (\<lambda>_. mthen (mrun isDigit) (\<lambda>_. mtext '':'')) s of Some (_, r) \<Rightarrow> r | None \<Rightarrow> s)"

definition withoutSpaces :: "string \<Rightarrow> string" where
  "withoutSpaces s = filter (\<lambda>c. \<not> isSpace c) s"

definition tryParseVisualConfig :: "string option \<Rightarrow> visualConfig option" where
  "tryParseVisualConfig exprStr =
     (case exprStr of
        None \<Rightarrow> None
      | Some e \<Rightarrow>
          if e = [] then None
          else let body = withoutVersion e
               in case fullMatch tierPat body of
                    Some t \<Rightarrow> Some (normalizeVisualConfig (Some [readTierMatch ([], t)]))
                  | None \<Rightarrow>
                      (let tiers = map readTierMatch (matchesFrom body)
                       in if tiers = [] then None
                          else let cfg = normalizeVisualConfig (Some tiers)
                               in if withoutSpaces (generateExprFromVisualConfig (Some cfg)) \<noteq> withoutSpaces body
                                  then None else Some cfg))"

section \<open>The estimator\<close>

definition ESTIMATOR_VARS :: "(string \<times> string) list" where
  "ESTIMATOR_VARS =
     [(''cr'', ''cacheReadTokens''), (''cc'', ''cacheCreateTokens''), (''cc1h'', ''cacheCreate1hTokens''),
      (''img'', ''imageTokens''), (''img_cr'', ''imageCacheTokens''), (''img_o'', ''imageOutputTokens''),
      (''ai'', ''audioInputTokens''), (''ao'', ''audioOutputTokens'')]"

record evalResult =
  erCost :: jsnum
  erMatchedTier :: string
  erError :: "string option"
  erUnit :: "billingUnit option"

text \<open>\<open>ExtraTokenValues\<close> has all of its keys.\<close>

type_synonym extraTokenValues = "string \<Rightarrow> jsnum"

definition buildEstimatorTokens :: "jsnum \<Rightarrow> jsnum \<Rightarrow> extraTokenValues \<Rightarrow> (string \<times> jsnum) list" where
  "buildEstimatorTokens promptTokens completionTokens extra =
     [(''p'', promptTokens), (''c'', completionTokens),
      (''len'', foldl (\<lambda>sum k. js_add sum (extra k)) promptTokens
         [''cacheReadTokens'', ''imageCacheTokens'', ''imageTokens'', ''audioInputTokens'', ''cacheCreateTokens'',
          ''cacheCreate1hTokens''])] @
     map (\<lambda>(v, k). (v, extra k)) ESTIMATOR_VARS"

definition evalExprLocally ::
    "host \<Rightarrow> string \<Rightarrow> jsnum \<Rightarrow> jsnum \<Rightarrow> extraTokenValues \<Rightarrow> simulationContext option \<Rightarrow> compiledCache \<Rightarrow>
     evalResult \<times> compiledCache" where
  "evalExprLocally h exprStr promptTokens completionTokens extra context cache =
     (if trim exprStr = [] then (\<lparr>erCost = Fin 0, erMatchedTier = [], erError = None, erUnit = None\<rparr>, cache)
      else let ctx = (case context of None \<Rightarrow> emptyContext | Some c \<Rightarrow> c);
               built = map (\<lambda>(v, x). (v, JNum x)) (buildEstimatorTokens promptTokens completionTokens extra);
               tokens = fold (\<lambda>(v, x). setProp v x) (case xTokens ctx of None \<Rightarrow> [] | Some ts \<Rightarrow> ts) built
           in case evaluateBillingExpression h exprStr (ctx\<lparr>xTokens := Some tokens\<rparr>) cache of
                (EvaluationFailure f, cache') \<Rightarrow>
                  (\<lparr>erCost = Fin 0, erMatchedTier = [], erError = Some (detail (fdiagnostic f)), erUnit = None\<rparr>, cache')
              | (Success r, cache') \<Rightarrow>
                  (\<lparr>erCost = cost r, erMatchedTier = eTier r, erError = None,
                    erUnit = (if eunit r = URequest then Some URequest else None)\<rparr>, cache'))"

definition exprUsesExtraVars :: "string \<Rightarrow> compiledCache \<Rightarrow> bool \<times> compiledCache" where
  "exprUsesExtraVars exprStr cache =
     (if exprStr = [] then (False, cache)
      else case compileBillingExpression exprStr cache of
             (CompileFailure _, cache') \<Rightarrow> (False, cache')
           | (Ready compiled, cache') \<Rightarrow>
               (list_ex (\<lambda>(v, _). v \<in> set (cvariables compiled)) ESTIMATOR_VARS, cache'))"

end
