(* ===== verification/BxTierExprFacts.thy ===== *)
theory BxTierExprFacts
  imports BxTierExpr BxRulesFacts
begin

text \<open>
  Token tiers survive their text: what \<open>generateExprFromVisualConfig\<close> writes for tiers with usable
  prices is read by \<open>tryParseVisualConfig\<close> as the same tiers, although the pattern of a number
  overlaps the operators around it. The proofs follow the first match of each pattern.
\<close>

section \<open>The first match\<close>

definition leads :: "'a branching \<Rightarrow> string \<Rightarrow> 'a \<Rightarrow> string \<Rightarrow> bool" where
  "leads m s a r \<longleftrightarrow> (\<exists>others. m s = (a, r) # others)"

named_theorems leading

lemma leads_bthen [leading]: "\<lbrakk>leads m s a r; leads (f a) r b q\<rbrakk> \<Longrightarrow> leads (bthen m f) s b q"
  by (auto simp: leads_def bthen_def)

lemma leads_bret [leading]: "leads (bret a) s a s"
  by (simp add: leads_def bret_def)

lemma leads_bone: "m s = Some (a, r) \<Longrightarrow> leads (bone m) s a r"
  by (simp add: leads_def bone_def)

lemma leads_full: "leads m s a [] \<Longrightarrow> fullMatch m s = Some a"
  by (auto simp: leads_def fullMatch_def)

lemma leads_number:
  assumes "n \<noteq> []" "list_all P n" "r = [] \<or> \<not> P (hd r)"
  shows "leads (numberRuns P) (n @ r) n r"
proof -
  have "takeWhile P (n @ r) = n" using assms(2,3) by (cases r) (auto simp: list_all_iff takeWhile_append)
  moreover have "rev [1..<Suc (length n)] = length n # rev [1..<length n]" using assms(1) by (cases n) auto
  ultimately show ?thesis by (simp add: leads_def numberRuns_def)
qed

section \<open>Numbers and terms\<close>

definition usablePrice :: "jsnum \<Rightarrow> bool" where
  "usablePrice x \<longleftrightarrow> isDouble x \<and> isFinite x \<and> nonNeg x"

lemma usable_text:
  assumes "usablePrice x"
  shows "numString x \<noteq> []" "list_all numeralChar (numString x)" "js_eq (stringToNumber (numString x)) x"
proof -
  note n = numString_reads [of x] assms [unfolded usablePrice_def]
  then show "numString x \<noteq> []" "js_eq (stringToNumber (numString x)) x" by blast+
  have "scanNumber (numString x) = numString x" using n by blast
  then show "list_all numeralChar (numString x)" using scanNumber_chars [of _ "numString x"] by (auto simp: list_all_iff)
qed

lemma usable_zero [simp]: "usablePrice (Fin 0)"
  by (simp add: usablePrice_def)

lemma usable_numberOrZero: "(\<And>y. x = Some y \<Longrightarrow> usablePrice y) \<Longrightarrow> usablePrice (numberOrZero x)"
  by (auto simp: numberOrZero_def split: option.splits)

abbreviation costNames :: "string list" where
  "costNames \<equiv> [''cr'', ''cc'', ''img_cr'', ''cc1h'', ''img'', ''img_o'', ''ai'', ''ao'']"

lemma cacheVars: "map snd BILLING_CACHE_VAR_MAP = costNames" "distinct (map fst BILLING_CACHE_VAR_MAP)"
  by code_simp+

lemmas term_defs = timesVar_def plusVar_def mthen_def mtext_def mspace_def startsWith_def

lemma space_simps [simp]: "isSpace CHR '' ''" "\<not> isSpace CHR ''+''" "\<not> isSpace CHR ''*''" "\<not> isSpace CHR '')''"
  "\<not> isSpace CHR ''p''" "\<not> isSpace CHR ''c''" "\<not> isSpace CHR ''i''" "\<not> isSpace CHR ''a''" "\<not> isSpace CHR ''1''"
  "\<not> isSpace CHR ''_''" "\<not> isSpace CHR ''r''" "\<not> isSpace CHR ''o''"
  by (simp_all add: isSpace_def)

lemma unspaced: "\<lbrakk>n \<noteq> []; list_all numeralChar n\<rbrakk> \<Longrightarrow> dropWhile isSpace (n @ r) = n @ r"
  using numeralChar_plain by (cases n) auto

lemma plusVar_text: "\<lbrakk>v \<in> set (''c'' # costNames); dropWhile isSpace y = y\<rbrakk> \<Longrightarrow> plusVar v ('' + '' @ v @ '' * '' @ y) = Some ((), y)"
  by (auto simp: term_defs)

lemma plusVar_other: "\<lbrakk>v \<in> set costNames; w \<in> set costNames; v \<noteq> w\<rbrakk> \<Longrightarrow> plusVar v ('' + '' @ w @ '' * '' @ y) = None"
  by (auto simp: term_defs)

lemma plusVar_close: "plusVar v ('')'' @ y) = None"
  by (simp add: term_defs)

definition costOf :: "tokenVisualTier \<Rightarrow> string \<Rightarrow> jsnum" where
  "costOf t f = numberOrZero (map_of (vtCosts t) f)"

lemma usable_cost: "\<forall>x\<in>snd ` set (vtCosts t). usablePrice x \<Longrightarrow> usablePrice (costOf t f)"
  unfolding costOf_def by (rule usable_numberOrZero) (metis imageI map_of_SomeD snd_conv)

definition costTail :: "tokenVisualTier \<Rightarrow> (string \<times> string) list \<Rightarrow> string" where
  "costTail t vars = concat (map (\<lambda>e. '' + '' @ e) (costTerms t vars))"

definition costTexts :: "tokenVisualTier \<Rightarrow> (string \<times> string) list \<Rightarrow> string option list" where
  "costTexts t vars = map (\<lambda>(f, _). if js_eq (costOf t f) (Fin 0) then None else Some (numString (costOf t f))) vars"

lemma costTail_Cons:
  "costTail t ((f, v) # vars) =
     (if js_eq (costOf t f) (Fin 0) then [] else '' + '' @ v @ '' * '' @ numString (costOf t f)) @ costTail t vars"
  by (simp add: costTail_def costTerms_def costOf_def Let_def)

lemma costTail_start:
  "costTail t vars = [] \<or> (\<exists>w x. w \<in> snd ` set vars \<and> costTail t vars = '' + '' @ w @ '' * '' @ x)"
proof (induction vars)
  case (Cons fv vars)
  obtain f v where fv: "fv = (f, v)" by (cases fv)
  show ?case
  proof (cases "js_eq (costOf t f) (Fin 0)")
    case True
    with Cons show ?thesis by (auto simp: fv costTail_Cons)
  next
    case False
    then have "costTail t (fv # vars) = '' + '' @ v @ '' * '' @ (numString (costOf t f) @ costTail t vars)"
      by (simp add: fv costTail_Cons)
    then show ?thesis unfolding fv by (intro disjI2 exI conjI) auto
  qed
qed (simp add: costTail_def costTerms_def)

lemma leads_terms:
  assumes "\<forall>x\<in>snd ` set (vtCosts t). usablePrice x" "snd ` set vars \<subseteq> set costNames" "distinct (map snd vars)"
  shows "leads (optionalTerms (map snd vars)) (costTail t vars @ '')'' @ q) (costTexts t vars) ('')'' @ q)"
  using assms(2,3)
proof (induction vars)
  case (Cons fv vars)
  obtain f v where fv: "fv = (f, v)" by (cases fv)
  let ?r = "costTail t vars @ '')'' @ q"
  have IH: "leads (optionalTerms (map snd vars)) ?r (costTexts t vars) ('')'' @ q)" using Cons by simp
  have start: "costTail t vars = [] \<or> (\<exists>w x. w \<in> snd ` set vars \<and> costTail t vars = '' + '' @ w @ '' * '' @ x)"
    by (rule costTail_start)
  show ?case
  proof (cases "js_eq (costOf t f) (Fin 0)")
    case True
    from start have "plusVar v ?r = None"
    proof
      assume "\<exists>w x. w \<in> snd ` set vars \<and> costTail t vars = '' + '' @ w @ '' * '' @ x"
      then obtain w x where w: "w \<in> snd ` set vars" "costTail t vars = '' + '' @ w @ '' * '' @ x" by blast
      then have "plusVar v ('' + '' @ w @ '' * '' @ (x @ '')'' @ q)) = None"
        using Cons.prems fv by (intro plusVar_other) auto
      with w(2) show ?thesis by simp
    qed (use plusVar_close in simp)
    moreover have "leads (bthen (optionalTerms (map snd vars)) (\<lambda>ns. bret (None # ns))) ?r (None # costTexts t vars) ('')'' @ q)"
      by (intro leads_bthen [OF IH] leading)
    ultimately show ?thesis using True fv by (simp add: leads_def costTail_Cons costTexts_def bthen_def bone_def)
  next
    case False
    let ?n = "numString (costOf t f)"
    have n: "?n \<noteq> []" "list_all numeralChar ?n"
      using usable_text [OF usable_cost [OF assms(1)]] by blast+
    let ?last = "\<lambda>n. bthen (optionalTerms (map snd vars)) (\<lambda>ns. bret (Some n # ns))"
    have plus: "leads (bone (plusVar v)) ('' + '' @ v @ '' * '' @ ?n @ ?r) () (?n @ ?r)"
      using Cons.prems fv n by (intro leads_bone plusVar_text unspaced) auto
    have number: "leads (numberRuns numeralChar) (?n @ ?r) ?n ?r"
      using n start by (intro leads_number) (auto simp: numeralChar_def isDigit_def)
    have "leads (?last ?n) ?r (Some ?n # costTexts t vars) ('')'' @ q)"
      by (intro leads_bthen [OF IH] leads_bret)
    then have "leads (bthen (numberRuns numeralChar) ?last) (?n @ ?r) (Some ?n # costTexts t vars) ('')'' @ q)"
      by (rule leads_bthen [OF number])
    then have "leads (bthen (bone (plusVar v)) (\<lambda>_. bthen (numberRuns numeralChar) ?last)) ('' + '' @ v @ '' * '' @ ?n @ ?r)
        (Some ?n # costTexts t vars) ('')'' @ q)"
      by (rule leads_bthen [OF plus])
    then show ?thesis using False fv by (auto simp: leads_def costTail_Cons costTexts_def)
  qed
qed (simp add: leads_def costTail_def costTerms_def costTexts_def)

section \<open>One tier\<close>

lemma joinWith_tail: "joinWith sep (a # es) = a @ concat (map (\<lambda>e. sep @ e) es)"
  by (induction es arbitrary: a) simp_all

definition readableTier :: "tokenVisualTier \<Rightarrow> bool" where
  "readableTier t \<longleftrightarrow> vtUnit t \<noteq> Some URequest \<and> quoteDbl \<notin> set (vtLabel t) \<and>
     list_all usablePrice (vtInput t # vtOutput t # map snd (vtCosts t))"

abbreviation costText :: "jsnum \<Rightarrow> string" where
  "costText x \<equiv> numString (numberOrZero (Some x))"

lemma body_text:
  "readableTier t \<Longrightarrow> buildTierBodyExpr t =
     ''p * '' @ costText (vtInput t) @ '' + c * '' @ costText (vtOutput t) @ costTail t BILLING_CACHE_VAR_MAP"
  by (simp add: readableTier_def buildTierBodyExpr_def joinWith_tail costTail_def)

lemma costText_ok: "usablePrice x \<Longrightarrow> costText x \<noteq> [] \<and> list_all numeralChar (costText x)"
  using usable_text usable_numberOrZero [of "Some x"] by simp

lemma leads_body:
  assumes "readableTier t"
  shows "leads bodyPat (buildTierBodyExpr t @ '')'' @ q)
    (costText (vtInput t), costText (vtOutput t), costTexts t BILLING_CACHE_VAR_MAP) ('')'' @ q)"
proof -
  let ?r = "costTail t BILLING_CACHE_VAR_MAP @ '')'' @ q"
  let ?i = "costText (vtInput t)" and ?o = "costText (vtOutput t)"
  have i: "?i \<noteq> [] \<and> list_all numeralChar ?i" and op: "?o \<noteq> [] \<and> list_all numeralChar ?o"
    using assms by (auto simp: readableTier_def intro!: costText_ok)
  have times: "leads (bone (timesVar ''p'')) (''p * '' @ ?i @ '' + c * '' @ ?o @ ?r) () (?i @ '' + c * '' @ ?o @ ?r)"
    using i unspaced [of ?i] by (intro leads_bone) (simp add: term_defs)
  have inp: "leads (numberRuns numeralChar) (?i @ '' + c * '' @ ?o @ ?r) ?i ('' + c * '' @ ?o @ ?r)"
    using i by (intro leads_number) (auto simp: numeralChar_def isDigit_def)
  have plus: "leads (bone (plusVar ''c'')) ('' + c * '' @ ?o @ ?r) () (?o @ ?r)"
    using plusVar_text [of "''c''" "?o @ ?r"] op unspaced [of ?o] by (intro leads_bone) simp
  have outp: "leads (numberRuns numeralChar) (?o @ ?r) ?o ?r"
    using op costTail_start [of t BILLING_CACHE_VAR_MAP] by (intro leads_number) (auto simp: numeralChar_def isDigit_def)
  have costs: "leads (optionalTerms (map snd BILLING_CACHE_VAR_MAP)) ?r (costTexts t BILLING_CACHE_VAR_MAP) ('')'' @ q)"
  proof (rule leads_terms)
    show "\<forall>x\<in>snd ` set (vtCosts t). usablePrice x" using assms by (simp add: readableTier_def list_all_iff)
    show "snd ` set BILLING_CACHE_VAR_MAP \<subseteq> set costNames" by (metis cacheVars(1) list.set_map order_refl)
    show "distinct (map snd BILLING_CACHE_VAR_MAP)" unfolding cacheVars(1) by simp
  qed
  show ?thesis unfolding bodyPat_def body_text [OF assms] append_assoc
    by (rule leads_bthen [OF times], rule leads_bthen [OF inp], rule leads_bthen [OF plus], rule leads_bthen [OF outp],
        rule leads_bthen [OF costs], rule leads_bret)
qed

lemma leads_tier:
  assumes "readableTier t" "quoteDbl \<notin> set label"
  shows "leads tierPat (tierText label t @ q)
    (label, costText (vtInput t), costText (vtOutput t), costTexts t BILLING_CACHE_VAR_MAP) q"
proof -
  let ?b = "buildTierBodyExpr t @ '')'' @ q"
  have head: "leads (bone (mtext ''tier(\"'')) (''tier(\"'' @ label @ ''\", '' @ ?b) () (label @ ''\", '' @ ?b)"
    by (intro leads_bone) (simp add: mtext_def startsWith_def)
  have lab: "leads (\<lambda>s. [(takeWhile (\<lambda>c. c \<noteq> quoteDbl) s, dropWhile (\<lambda>c. c \<noteq> quoteDbl) s)]) (label @ ''\", '' @ ?b) label (''\", '' @ ?b)"
    using assms(2) by (auto simp: leads_def takeWhile_append dropWhile_append)
  have comma: "leads (bone (mtext ''\",'')) (''\", '' @ ?b) () ('' '' @ ?b)"
    by (intro leads_bone) (simp add: mtext_def startsWith_def)
  have space: "leads (bone mspace) ('' '' @ ?b) () ?b"
    by (intro leads_bone) (simp add: mspace_def body_text [OF assms(1)])
  have close: "leads (bone (mtext '')'')) ('')'' @ q) () q"
    by (intro leads_bone) (simp add: mtext_def startsWith_def)
  have "leads (bthen bodyPat (\<lambda>(ic, oc, ns). bthen (bone (mtext '')'')) (\<lambda>_. bret (label, ic, oc, ns)))) ?b
      (label, costText (vtInput t), costText (vtOutput t), costTexts t BILLING_CACHE_VAR_MAP) q"
    by (rule leads_bthen [OF leads_body [OF assms(1)]], simp only: prod.case, rule leads_bthen [OF close], rule leads_bret)
  then show ?thesis unfolding tierPat_def tierText_def append_assoc
    by - (rule leads_bthen [OF head], rule leads_bthen [OF lab], rule leads_bthen [OF comma], rule leads_bthen [OF space])
qed

section \<open>What is read\<close>

lemma numberOrZero_eq: "js_eq z y \<Longrightarrow> numberOrZero (Some z) = numberOrZero (Some y)"
  by (cases z; cases y) (auto simp: numberOrZero_def js_eq_def split: if_splits)

lemma numberOrZero_idem [simp]: "numberOrZero (Some (numberOrZero x)) = numberOrZero x"
  by (auto simp: numberOrZero_def js_eq_def split: option.splits)

lemma numString_eq: "js_eq z y \<Longrightarrow> numString z = numString y"
  by (cases z; cases y) (auto simp: js_eq_def split: if_splits)

lemma readNumber: "usablePrice x \<Longrightarrow> numberOrZero (Some (stringToNumber (numString x))) = numberOrZero (Some x)"
  using usable_text(3) by (rule numberOrZero_eq)

definition samePrices :: "tokenVisualTier \<Rightarrow> tokenVisualTier \<Rightarrow> bool" where
  "samePrices t t' \<longleftrightarrow> numberOrZero (Some (vtInput t')) = numberOrZero (Some (vtInput t)) \<and>
     numberOrZero (Some (vtOutput t')) = numberOrZero (Some (vtOutput t)) \<and>
     list_all (\<lambda>(f, _). costOf t' f = costOf t f) BILLING_CACHE_VAR_MAP"

lemma map_of_fold_setProp:
  "map_of (fold (\<lambda>f. setProp f (g f)) fs kvs) f = (if f \<in> set fs then Some (g f) else map_of kvs f)"
  by (induction fs arbitrary: kvs) (auto simp: map_of_setProp)

lemma normalized_cost: "costOf (normalizeVisualTier p) f = numberOrZero (map_of (paCosts p) f)"
  by (simp add: costOf_def normalizeVisualTier_def map_of_fold_setProp)

lemma map_of_texts:
  "distinct (map fst vars) \<Longrightarrow>
   map_of (concat (map (\<lambda>((f, _), n). case n of None \<Rightarrow> [] | Some s \<Rightarrow> [(f, stringToNumber s)]) (zip vars (costTexts t vars)))) f =
     (if f \<in> fst ` set vars \<and> \<not> js_eq (costOf t f) (Fin 0) then Some (stringToNumber (numString (costOf t f))) else None)"
proof (induction vars)
  case (Cons fv vars)
  obtain g v where "fv = (g, v)" by (cases fv)
  with Cons show ?case by (auto simp: costTexts_def map_add_def image_iff split: option.splits)
qed (simp add: costTexts_def)

definition readTriple :: "tierConditionInput \<Rightarrow> string \<times> string \<times> string" where
  "readTriple c = (ciVar c, ciOp c, conditionValueText (ciValue c))"

definition matchOf :: "tokenVisualTier \<Rightarrow> (string \<times> string \<times> string) list \<times> string \<times> string \<times> string \<times> string option list" where
  "matchOf t = (map readTriple (vtConditions t), vtLabel t, costText (vtInput t), costText (vtOutput t),
     costTexts t BILLING_CACHE_VAR_MAP)"

definition readBack :: "tokenVisualTier \<Rightarrow> tokenVisualTier" where
  "readBack t = normalizeVisualTier (asPartial (readTierMatch (matchOf t)))"

lemma readBack_fields [simp]:
  "vtLabel (readBack t) = vtLabel t" "vtUnit (readBack t) = None"
  "vtConditions (readBack t) =
     map (\<lambda>c. \<lparr>ciVar = ciVar c, ciOp = ciOp c, ciValue = CondNum (stringToNumber (conditionValueText (ciValue c)))\<rparr>) (vtConditions t)"
  by (simp_all add: readBack_def normalizeVisualTier_def asPartial_def readTierMatch_def matchOf_def readTriple_def)

lemma readBack_prices:
  assumes "readableTier t"
  shows "samePrices t (readBack t)"
proof -
  have ok: "usablePrice (numberOrZero (Some (vtInput t)))" "usablePrice (numberOrZero (Some (vtOutput t)))"
    "usablePrice (costOf t f)" for f
    using assms usable_cost [of t f] by (auto simp: readableTier_def list_all_iff intro!: usable_numberOrZero)
  have "vtInput (readBack t) = stringToNumber (costText (vtInput t))" "vtOutput (readBack t) = stringToNumber (costText (vtOutput t))"
    by (simp_all add: readBack_def normalizeVisualTier_def asPartial_def readTierMatch_def matchOf_def)
  moreover have "costOf (readBack t) f = costOf t f" if "(f, v) \<in> set BILLING_CACHE_VAR_MAP" for f v
  proof -
    have "f \<in> fst ` set BILLING_CACHE_VAR_MAP" using that by force
    have "costOf (readBack t) f = costOf (readTierMatch (matchOf t)) f"
      unfolding readBack_def normalized_cost by (simp add: costOf_def asPartial_def)
    also have "\<dots> = numberOrZero (if js_eq (costOf t f) (Fin 0) then None else Some (stringToNumber (numString (costOf t f))))"
      using \<open>f \<in> fst ` _\<close> map_of_texts [OF cacheVars(2), of t f] by (simp add: readTierMatch_def matchOf_def normalized_cost)
    also have "\<dots> = costOf t f"
    proof (cases "js_eq (costOf t f) (Fin 0)")
      case True
      then show ?thesis using numberOrZero_eq [OF True] by (simp add: costOf_def) (simp add: numberOrZero_def js_eq_def)
    qed (use readNumber [OF ok(3)] in \<open>simp add: costOf_def\<close>)
    finally show ?thesis .
  qed
  ultimately show ?thesis using readNumber [OF ok(1)] readNumber [OF ok(2)]
    by (auto simp: samePrices_def list_all_iff)
qed

lemma samePrices_body:
  assumes "samePrices t t'" "vtUnit t \<noteq> Some URequest" "vtUnit t' \<noteq> Some URequest"
  shows "buildTierBodyExpr t' = buildTierBodyExpr t"
proof -
  have "costTerms t' BILLING_CACHE_VAR_MAP = costTerms t BILLING_CACHE_VAR_MAP"
    unfolding costTerms_def costOf_def [symmetric]
    using assms(1) by (intro arg_cong [where f = concat] map_cong) (auto simp: samePrices_def list_all_iff)
  with assms show ?thesis by (simp add: buildTierBodyExpr_def samePrices_def)
qed


section \<open>Conditions\<close>

definition readableCondition :: "tierConditionInput \<Rightarrow> bool" where
  "readableCondition c \<longleftrightarrow> ciVar c \<in> {''p'', ''c'', ''len''} \<and> ciOp c \<in> {''<'', ''<='', ''>'', ''>=''} \<and>
     (case ciValue c of CondNum x \<Rightarrow> usablePrice x \<and> CHR ''-'' \<notin> set (numString x) | CondStr _ \<Rightarrow> False)"

definition conditionText1 :: "tierConditionInput \<Rightarrow> string" where
  "conditionText1 c = ciVar c @ '' '' @ ciOp c @ '' '' @ conditionValueText (ciValue c)"

abbreviation plainNumeral :: "char \<Rightarrow> bool" where
  "plainNumeral c \<equiv> numeralChar c \<and> c \<noteq> CHR ''-''"

lemma readable_value:
  assumes "readableCondition c"
  shows "conditionValueText (ciValue c) \<noteq> []" "list_all plainNumeral (conditionValueText (ciValue c))"
    "numString (stringToNumber (conditionValueText (ciValue c))) = conditionValueText (ciValue c)"
proof -
  obtain x where "ciValue c = CondNum x" "usablePrice x" "CHR ''-'' \<notin> set (numString x)"
    using assms by (auto simp: readableCondition_def split: conditionValue.splits)
  with usable_text [of x] show "conditionValueText (ciValue c) \<noteq> []" "list_all plainNumeral (conditionValueText (ciValue c))"
    "numString (stringToNumber (conditionValueText (ciValue c))) = conditionValueText (ciValue c)"
    by (auto simp: list_all_iff intro: numString_eq)
qed

lemma readable_kept: "list_all readableCondition cs \<Longrightarrow>
    filter (\<lambda>c. ciVar c \<noteq> [] \<and> ciOp c \<noteq> [] \<and> ciValue c \<noteq> CondStr []) cs = cs"
  by (induction cs) (auto simp: readableCondition_def)

lemma condition_text: "list_all readableCondition cs \<Longrightarrow> buildConditionStr cs = joinWith '' && '' (map conditionText1 cs)"
  unfolding buildConditionStr_def readable_kept by (simp add: conditionText1_def cong: map_cong)

lemma mrun_plain:
  "\<lbrakk>n \<noteq> []; list_all plainNumeral n; r = [] \<or> \<not> numeralChar (hd r)\<rbrakk> \<Longrightarrow> mrun plainNumeral (n @ r) = Some (n, r)"
  by (intro mrun_append) auto

lemma condition_tokens:
  "v \<in> {''p'', ''c'', ''len''} \<Longrightarrow> moneOf [''p'', ''c'', ''len''] (v @ '' '' @ y) = Some (v, '' '' @ y)"
  "op \<in> {''<'', ''<='', ''>'', ''>=''} \<Longrightarrow> moneOf [''<='', ''>='', ''<'', ''>''] (op @ '' '' @ y) = Some (op, '' '' @ y)"
  "op \<in> {''<'', ''<='', ''>'', ''>=''} \<Longrightarrow> mspace ('' '' @ op @ y) = Some ((), op @ y)"
  by (auto simp: moneOf_def startsWith_def mspace_def isSpace_def)

lemma conditionPat_text:
  assumes "readableCondition c" "r = [] \<or> \<not> numeralChar (hd r)"
  shows "conditionPat (conditionText1 c @ r) = Some (readTriple c, r)"
proof -
  let ?n = "conditionValueText (ciValue c)"
  note n = readable_value(1,2) [OF assms(1)]
  have c: "ciVar c \<in> {''p'', ''c'', ''len''}" "ciOp c \<in> {''<'', ''<='', ''>'', ''>=''}"
    using assms(1) by (auto simp: readableCondition_def)
  have "list_all numeralChar ?n" using n(2) by (auto simp: list_all_iff)
  then have "mspace ('' '' @ ?n @ r) = Some ((), ?n @ r)" using unspaced [OF n(1)] by (simp add: mspace_def)
  moreover have "mrun plainNumeral (?n @ r) = Some (?n, r)" using n assms(2) by (rule mrun_plain)
  ultimately show ?thesis
    unfolding conditionPat_def conditionText1_def mthen_def append_assoc
      condition_tokens(1) [OF c(1)] condition_tokens(2) [OF c(2)] condition_tokens(3) [OF c(2)] option.case prod.case
    by (simp add: mret_def readTriple_def)
qed

lemma andCondition_text:
  assumes "readableCondition c" "r = [] \<or> \<not> numeralChar (hd r)"
  shows "andCondition ('' && '' @ conditionText1 c @ r) = Some (readTriple c, r)"
proof -
  have "dropWhile isSpace (conditionText1 c @ r) = conditionText1 c @ r"
    using assms(1) by (auto simp: readableCondition_def conditionText1_def isSpace_def)
  with conditionPat_text [OF assms] show ?thesis
    by (simp add: andCondition_def mthen_def mtext_def mspace_def startsWith_def isSpace_def)
qed

lemma andCondition_none: "andCondition ('' ? '' @ r) = None"
  by (simp add: andCondition_def mthen_def mtext_def mspace_def startsWith_def isSpace_def)

lemma moreConditions_text:
  "list_all readableCondition cs \<Longrightarrow>
   moreConditions (concat (map (\<lambda>c. '' && '' @ conditionText1 c) cs) @ '' ? '' @ r) = Some (map readTriple cs, '' ? '' @ r)"
proof (induction cs)
  case Nil
  then show ?case by (subst moreConditions.simps) (use andCondition_none in simp)
next
  case (Cons c cs)
  let ?r = "concat (map (\<lambda>c. '' && '' @ conditionText1 c) cs) @ '' ? '' @ r"
  have "\<not> numeralChar (hd ?r)" by (cases cs) (auto simp: numeralChar_def isDigit_def)
  then have "andCondition ('' && '' @ conditionText1 c @ ?r) = Some (readTriple c, ?r)"
    using Cons.prems by (intro andCondition_text) auto
  with Cons show ?case by (subst moreConditions.simps) simp
qed

lemma condGroup_text:
  assumes "list_all readableCondition cs" "cs \<noteq> []" "dropWhile isSpace r = r"
  shows "condGroup (buildConditionStr cs @ '' ? '' @ r) = Some (map readTriple cs, r)"
proof -
  obtain c cs' where cs: "cs = c # cs'" using assms(2) by (cases cs) auto
  let ?r = "concat (map (\<lambda>c. '' && '' @ conditionText1 c) cs') @ '' ? '' @ r"
  have "\<not> numeralChar (hd ?r)" by (cases cs') (auto simp: numeralChar_def isDigit_def)
  then have "conditionPat (conditionText1 c @ ?r) = Some (readTriple c, ?r)"
    using assms(1) cs by (intro conditionPat_text) auto
  moreover have "buildConditionStr cs @ '' ? '' @ r = conditionText1 c @ ?r"
    using condition_text [OF assms(1)] by (simp add: cs joinWith_tail comp_def)
  ultimately show ?thesis
    using moreConditions_text [of cs' r] assms cs by (simp add: condGroup_def mthen_def mtext_def mspace_def mret_def startsWith_def isSpace_def)
qed

section \<open>Chains\<close>

definition partText :: "tokenVisualTier \<Rightarrow> string" where
  "partText t = (let cond = buildConditionStr (vtConditions t)
     in if cond = [] then tierText (vtLabel t) t else cond @ '' ? '' @ tierText (vtLabel t) t)"

lemma generate_parts:
  assumes "tiers \<noteq> []" "list_all (\<lambda>t. vtLabel t \<noteq> []) tiers" "buildConditionStr (vtConditions (last tiers)) = []"
  shows "generateExprFromVisualConfig (Some tiers) = joinWith '' : '' (map partText tiers)"
proof (cases "\<exists>t. tiers = [t]")
  case True
  with assms show ?thesis by (auto simp: generateExprFromVisualConfig_def partText_def)
next
  case False
  then obtain t u ts where ts: "tiers = t # u # ts" using assms(1) by (cases tiers rule: remdups_adj.cases) auto
  have "map (\<lambda>(i, tier).
      let body = tierText (if vtLabel tier = [] then ''tier_'' @ natString (int i + 1) else vtLabel tier) tier;
          cond = buildConditionStr (vtConditions tier)
      in if i < length tiers - 1 \<and> cond \<noteq> [] then cond @ '' ? '' @ body else body) (enumerate 0 tiers) = map partText tiers"
  proof (rule nth_equalityI)
    fix i assume "i < length (map (\<lambda>(i, tier).
      let body = tierText (if vtLabel tier = [] then ''tier_'' @ natString (int i + 1) else vtLabel tier) tier;
          cond = buildConditionStr (vtConditions tier)
      in if i < length tiers - 1 \<and> cond \<noteq> [] then cond @ '' ? '' @ body else body) (enumerate 0 tiers))"
    then have i: "i < length tiers" by simp
    have "buildConditionStr (vtConditions (tiers ! i)) = []" if "\<not> i < length tiers - 1"
    proof -
      have "i = length tiers - 1" using that i by linarith
      with assms(1,3) show ?thesis by (simp add: last_conv_nth)
    qed
    with i assms(2) show "map (\<lambda>(i, tier).
      let body = tierText (if vtLabel tier = [] then ''tier_'' @ natString (int i + 1) else vtLabel tier) tier;
          cond = buildConditionStr (vtConditions tier)
      in if i < length tiers - 1 \<and> cond \<noteq> [] then cond @ '' ? '' @ body else body) (enumerate 0 tiers) ! i = map partText tiers ! i"
      by (auto simp: nth_enumerate_eq partText_def list_all_length Let_def)
  qed simp
  then show ?thesis unfolding ts by (simp add: generateExprFromVisualConfig_def)
qed


definition readableConfigTier :: "tokenVisualTier \<Rightarrow> bool" where
  "readableConfigTier t \<longleftrightarrow> readableTier t \<and> vtLabel t \<noteq> [] \<and> list_all readableCondition (vtConditions t)"

lemma tierText_start: "tierText label t @ q = ''tier(\"'' @ (label @ ''\", '' @ buildTierBodyExpr t @ '')'' @ q)"
  by (simp add: tierText_def)

lemma condition_nonempty: "\<lbrakk>list_all readableCondition cs; cs \<noteq> []\<rbrakk> \<Longrightarrow> buildConditionStr cs \<noteq> []"
  using condition_text [of cs] by (cases cs) (auto simp: joinWith_tail conditionText1_def)

lemma condGroup_tier: "condGroup (''tier(\"'' @ q) = None"
  by (simp add: condGroup_def conditionPat_def mthen_def moneOf_def startsWith_def)

lemma leads_part:
  assumes "readableConfigTier t"
  shows "leads tierRe (partText t @ q) (matchOf t) q"
proof -
  have t: "readableTier t" "quoteDbl \<notin> set (vtLabel t)" "list_all readableCondition (vtConditions t)"
    using assms by (auto simp: readableConfigTier_def readableTier_def)
  let ?m = "(vtLabel t, costText (vtInput t), costText (vtOutput t), costTexts t BILLING_CACHE_VAR_MAP)"
  have tier: "leads (bthen tierPat (\<lambda>m. bret (cs, m))) (tierText (vtLabel t) t @ q) (cs, ?m) q" for cs
    by (rule leads_bthen [OF leads_tier [OF t(1,2)]]) (rule leads_bret)
  show ?thesis
  proof (cases "vtConditions t = []")
    case True
    then have "partText t = tierText (vtLabel t) t" by (simp add: partText_def buildConditionStr_def)
    moreover have "bthen (bone condGroup) (\<lambda>cs. bthen tierPat (\<lambda>m. bret (cs, m))) (tierText (vtLabel t) t @ q) = []"
      unfolding tierText_start by (simp only: bthen_def bone_def condGroup_tier option.case list.map concat.simps)
    ultimately show ?thesis using tier [of "[]"] True by (simp add: leads_def tierRe_def matchOf_def)
  next
    case False
    let ?r = "tierText (vtLabel t) t @ q"
    have "dropWhile isSpace ?r = ?r" unfolding tierText_start by (simp add: isSpace_def)
    then have "condGroup (buildConditionStr (vtConditions t) @ '' ? '' @ ?r) = Some (map readTriple (vtConditions t), ?r)"
      using t(3) False by (intro condGroup_text)
    then have "leads (bthen (bone condGroup) (\<lambda>cs. bthen tierPat (\<lambda>m. bret (cs, m))))
        (buildConditionStr (vtConditions t) @ '' ? '' @ ?r) (matchOf t) q"
      unfolding matchOf_def by (intro leads_bthen [OF leads_bone tier])
    then show ?thesis using condition_nonempty [OF t(3) False] by (auto simp: leads_def tierRe_def partText_def)
  qed
qed

lemma matchesFrom_leads:
  assumes "leads tierRe s m r" "length r < length s"
  shows "matchesFrom s = m # matchesFrom r"
  using assms by (cases s) (auto simp: leads_def)

lemma tierRe_colon: "c \<in> {CHR '' '', CHR '':''} \<Longrightarrow> tierRe (c # s) = []"
  by (auto simp: tierRe_def bthen_def bone_def condGroup_def conditionPat_def tierPat_def mthen_def moneOf_def mtext_def startsWith_def)

lemma matchesFrom_separator: "matchesFrom ('' : '' @ s) = matchesFrom s"
  by (simp add: tierRe_colon)

lemma matches_parts:
  "\<lbrakk>tiers \<noteq> []; list_all readableConfigTier tiers\<rbrakk> \<Longrightarrow>
   matchesFrom (joinWith '' : '' (map partText tiers)) = map matchOf tiers"
proof (induction tiers)
  case (Cons t ts)
  have part: "leads tierRe (partText t @ q) (matchOf t) q" for q using Cons.prems by (intro leads_part) simp
  have "partText t \<noteq> []" by (auto simp: partText_def tierText_def Let_def)
  then have first: "matchesFrom (partText t @ q) = matchOf t # matchesFrom q" for q
    by (intro matchesFrom_leads [OF part]) simp
  show ?case
  proof (cases ts)
    case Nil
    with first [of "[]"] show ?thesis by simp
  next
    case (Cons u us)
    with Cons.IH Cons.prems first [of "'' : '' @ joinWith '' : '' (map partText ts)"] matchesFrom_separator show ?thesis by simp
  qed
qed simp

lemma readBack_part:
  assumes "readableConfigTier t"
  shows "partText (readBack t) = partText t"
proof -
  have t: "readableTier t" "list_all readableCondition (vtConditions t)"
    using assms by (auto simp: readableConfigTier_def)
  have "buildTierBodyExpr (readBack t) = buildTierBodyExpr t"
    using samePrices_body [OF readBack_prices [OF t(1)]] t(1) by (simp add: readableTier_def)
  moreover have "buildConditionStr (vtConditions (readBack t)) = buildConditionStr (vtConditions t)"
  proof -
    let ?read = "\<lambda>c. \<lparr>ciVar = ciVar c, ciOp = ciOp c, ciValue = CondNum (stringToNumber (conditionValueText (ciValue c)))\<rparr>"
    have "filter (\<lambda>c. ciVar c \<noteq> [] \<and> ciOp c \<noteq> [] \<and> ciValue c \<noteq> CondStr []) (map ?read (vtConditions t)) = map ?read (vtConditions t)"
      using t(2) by (auto simp: filter_id_conv list_all_iff readableCondition_def)
    then show ?thesis unfolding buildConditionStr_def readBack_fields readable_kept [OF t(2)]
      using readable_value(3) t(2) by (auto simp: list_all_iff intro!: arg_cong [where f = "joinWith '' && ''"])
  qed
  ultimately show ?thesis by (simp add: partText_def tierText_def Let_def)
qed


section \<open>Properties\<close>

text \<open>The label, the conditions up to the sign of zero, and the prices of a tier.\<close>

definition sameCondition :: "tierConditionInput \<Rightarrow> tierConditionInput \<Rightarrow> bool" where
  "sameCondition c d \<longleftrightarrow> ciVar d = ciVar c \<and> ciOp d = ciOp c \<and>
     (case (ciValue c, ciValue d) of (CondNum x, CondNum y) \<Rightarrow> js_eq y x | _ \<Rightarrow> False)"

definition sameTier :: "tokenVisualTier \<Rightarrow> tokenVisualTier \<Rightarrow> bool" where
  "sameTier t t' \<longleftrightarrow> vtLabel t' = vtLabel t \<and> list_all2 sameCondition (vtConditions t) (vtConditions t') \<and> samePrices t t'"

lemma sameTier_readBack:
  assumes "readableConfigTier t"
  shows "sameTier t (readBack t)"
proof -
  have "sameCondition c \<lparr>ciVar = ciVar c, ciOp = ciOp c, ciValue = CondNum (stringToNumber (conditionValueText (ciValue c)))\<rparr>"
    if "readableCondition c" for c
    using that usable_text(3) by (auto simp: sameCondition_def readableCondition_def split: conditionValue.splits)
  then have "list_all2 sameCondition (vtConditions t) (vtConditions (readBack t))"
    using assms by (auto simp: readableConfigTier_def list_all_iff list_all2_conv_all_nth)
  with assms readBack_prices show ?thesis by (simp add: sameTier_def readableConfigTier_def)
qed

lemma condition_start:
  assumes "list_all readableCondition cs" "cs \<noteq> []"
  obtains c s where "buildConditionStr cs = c # s" "c \<in> {CHR ''p'', CHR ''c'', CHR ''l''}"
proof -
  obtain d ds where "cs = d # ds" using assms(2) by (cases cs) auto
  with assms(1) that condition_text [OF assms(1)] show thesis
    by (auto simp: joinWith_tail conditionText1_def readableCondition_def)
qed

lemma withoutVersion_other: "c \<noteq> CHR ''v'' \<Longrightarrow> withoutVersion (c # s) = c # s"
  by (simp add: withoutVersion_def mthen_def mtext_def startsWith_def)

lemma fullMatch_other: "c \<noteq> CHR ''t'' \<Longrightarrow> fullMatch tierPat (c # s) = None"
  by (simp add: fullMatch_def tierPat_def bthen_def bone_def mtext_def startsWith_def)

text \<open>
  C14. Token tiers survive their text: for tiers with labels without quotes and usable prices, each
  but the last with conditions on token counts and the last with none, the text that is written
  is read back as tiers with the same labels, conditions and prices, up to the sign of zero.
\<close>

theorem tiers_roundtrip:
  assumes "tiers \<noteq> []" "list_all readableConfigTier tiers" "list_all (\<lambda>t. vtConditions t \<noteq> []) (butlast tiers)"
    "vtConditions (last tiers) = []"
  shows "\<exists>tiers'. tryParseVisualConfig (Some (generateExprFromVisualConfig (Some tiers))) = Some tiers' \<and>
    list_all2 sameTier tiers tiers'"
proof -
  let ?s = "joinWith '' : '' (map partText tiers)"
  have labels: "list_all (\<lambda>t. vtLabel t \<noteq> []) tiers" using assms(2) by (auto simp: readableConfigTier_def list_all_iff)
  have written: "generateExprFromVisualConfig (Some tiers) = ?s"
    using assms(4) by (intro generate_parts assms(1) labels) (simp add: buildConditionStr_def)
  have again: "map partText (map readBack tiers) = map partText tiers"
    using assms(2) by (auto simp: list_all_iff readBack_part)
  have regenerated: "generateExprFromVisualConfig (Some (map readBack tiers)) = ?s"
    using generate_parts [of "map readBack tiers"] assms(1,4) labels
    unfolding again by (simp add: list_all_iff last_map buildConditionStr_def)
  have same: "list_all2 sameTier tiers (map readBack tiers)"
    using assms(2) sameTier_readBack by (auto simp: list_all2_conv_all_nth list_all_length)
  have config: "normalizeVisualConfig (Some (map readTierMatch (map matchOf ts))) = map readBack ts" if "ts \<noteq> []" for ts
    using that by (simp add: normalizeVisualConfig_def readBack_def)
  have "tryParseVisualConfig (Some ?s) = Some (map readBack tiers)"
  proof (cases "butlast tiers")
    case Nil
    then obtain t where t: "tiers = [t]" using assms(1) by (cases tiers rule: rev_cases) auto
    then have s: "?s = tierText (vtLabel t) t @ []" using assms(4) by (simp add: partText_def buildConditionStr_def)
    have "fullMatch tierPat ?s = Some (vtLabel t, costText (vtInput t), costText (vtOutput t), costTexts t BILLING_CACHE_VAR_MAP)"
      unfolding s using assms(2) t by (intro leads_full leads_tier) (auto simp: readableConfigTier_def readableTier_def)
    moreover have "withoutVersion ?s = ?s" "?s \<noteq> []"
      unfolding s by (simp_all add: tierText_def withoutVersion_other)
    moreover have "matchOf t = ([], vtLabel t, costText (vtInput t), costText (vtOutput t), costTexts t BILLING_CACHE_VAR_MAP)"
      using assms(4) t by (simp add: matchOf_def)
    ultimately show ?thesis using config [of "[t]"] t by (simp add: tryParseVisualConfig_def)
  next
    case (Cons t ts)
    then obtain us where us: "tiers = t # us" using assms(1) by (cases tiers) (auto split: if_splits)
    have t: "vtConditions t \<noteq> []" "list_all readableCondition (vtConditions t)"
      using Cons assms(2,3) us by (auto simp: readableConfigTier_def)
    obtain c s where c: "buildConditionStr (vtConditions t) = c # s" "c \<in> {CHR ''p'', CHR ''c'', CHR ''l''}"
      using condition_start [OF t(2,1)] by blast
    then obtain q where q: "?s = c # q" by (simp add: us joinWith_tail partText_def)
    have "withoutVersion ?s = ?s" "fullMatch tierPat ?s = None" "?s \<noteq> []"
      using c(2) unfolding q by (auto intro!: withoutVersion_other fullMatch_other)
    then show ?thesis
      using matches_parts [OF assms(1,2)] config [OF assms(1)] regenerated assms(1)
      by (simp add: tryParseVisualConfig_def Let_def del: map_map)
  qed
  with written same show ?thesis by auto
qed

text \<open>A chain that is accepted regenerates the text it was read from, up to white space.\<close>

lemma accepted_chain:
  assumes "tryParseVisualConfig (Some e) = Some cfg" "fullMatch tierPat (withoutVersion e) = None"
  shows "withoutSpaces (generateExprFromVisualConfig (Some cfg)) = withoutSpaces (withoutVersion e)"
  using assms by (auto simp: tryParseVisualConfig_def Let_def split: if_splits)

text \<open>
  A single tier is not checked in this way: the number class takes the whole of \<open>1-2\<close>, the price is
  no number, and the text written for the tier that was read has the price zero.
\<close>

lemma single_unchecked:
  "map_option (generateExprFromVisualConfig \<circ> Some) (tryParseVisualConfig (Some ''tier(\"a\", p * 1-2 + c * 3)'')) =
     Some ''tier(\"a\", p * 0 + c * 3)''"
  by code_simp


definition sampleTiers :: visualConfig where
  "sampleTiers =
     [\<lparr>vtUnit = None, vtFixedPrice = None, vtLabel = ''short'',
       vtConditions = [\<lparr>ciVar = ''len'', ciOp = ''<='', ciValue = CondNum (Fin 2000)\<rparr>,
         \<lparr>ciVar = ''c'', ciOp = ''<'', ciValue = CondNum (Fin 50)\<rparr>],
       vtInput = Fin (5 / 2), vtOutput = Fin 10, vtCacheMode = Generic, vtCosts = [(''cache_read_unit_cost'', Fin (1 / 4))]\<rparr>,
      \<lparr>vtUnit = None, vtFixedPrice = None, vtLabel = ''long'', vtConditions = [],
       vtInput = Fin 5, vtOutput = Fin 0, vtCacheMode = Timed,
       vtCosts = [(''audio_input_unit_cost'', Fin 3), (''cache_create_1h_unit_cost'', Fin 1)]\<rparr>]"

lemma sampleTiers_ok:
  "sampleTiers \<noteq> []" "list_all readableConfigTier sampleTiers" "list_all (\<lambda>t. vtConditions t \<noteq> []) (butlast sampleTiers)"
  "vtConditions (last sampleTiers) = []"
  by code_simp+

theorem tiers_roundtrip_witness:
  "\<exists>tiers'. tryParseVisualConfig (Some (generateExprFromVisualConfig (Some sampleTiers))) = Some tiers' \<and>
    list_all2 sameTier sampleTiers tiers'"
  by (rule tiers_roundtrip [OF sampleTiers_ok])

end
