(* ===== verification/StatusRules.thy ===== *)
theory StatusRules
  imports JsUnits
begin

text \<open>
  Model of \<open>lib/http-status-code-rules.ts\<close>: a list of HTTP status codes and ranges of codes is
  parsed, merged into disjoint ranges and printed in a normal form. Texts are lists of UTF-16
  code units here, since the parser also accepts the full-width comma U+FF0C. The properties
  show that merging keeps the set of codes, that the normal form reads back as itself and
  that it depends on the set of codes only.
\<close>

section \<open>Ranges\<close>

datatype statusCodeRange = Range (rangeStart: nat) (rangeEnd: nat)

text \<open>The order of the comparator of \<open>mergeRanges\<close>.\<close>

instantiation statusCodeRange :: linorder
begin

definition less_eq_statusCodeRange :: "statusCodeRange \<Rightarrow> statusCodeRange \<Rightarrow> bool" where
  "a \<le> b \<longleftrightarrow> (if rangeStart a \<noteq> rangeStart b then rangeStart a < rangeStart b else rangeEnd a \<le> rangeEnd b)"

definition less_statusCodeRange :: "statusCodeRange \<Rightarrow> statusCodeRange \<Rightarrow> bool" where
  "a < b \<longleftrightarrow> (if rangeStart a \<noteq> rangeStart b then rangeStart a < rangeStart b else rangeEnd a < rangeEnd b)"

instance
  by standard (auto simp: less_eq_statusCodeRange_def less_statusCodeRange_def statusCodeRange.expand split: if_splits)

end

definition COMMA :: nat where "COMMA = 44"
definition DASH :: nat where "DASH = 45"
definition FULLWIDTH_COMMA :: nat where "FULLWIDTH_COMMA = 0xFF0C"

definition isValidCode :: "nat \<Rightarrow> bool" where
  "isValidCode n \<longleftrightarrow> 100 \<le> n \<and> n \<le> 599"

definition parseToken :: "units \<Rightarrow> statusCodeRange option" where
  "parseToken token =
     (let cleaned = filter (\<lambda>c. \<not> isSpaceUnit c) (trimUnits token)
      in if cleaned = [] then None
         else if DASH \<in> set cleaned then
           (case splitOn DASH cleaned of
              a # b # _ \<Rightarrow>
                if \<not> isNumber a \<or> \<not> isNumber b then None
                else if \<not> isValidCode (parseDigits a) \<or> \<not> isValidCode (parseDigits b) \<or>
                        parseDigits a > parseDigits b then None
                else Some (Range (parseDigits a) (parseDigits b))
            | _ \<Rightarrow> None)
         else if \<not> isNumber cleaned then None
         else if \<not> isValidCode (parseDigits cleaned) then None
         else Some (Range (parseDigits cleaned) (parseDigits cleaned)))"

text \<open>The callback of \<open>reduce\<close>.\<close>

definition mergeStep :: "statusCodeRange list \<Rightarrow> statusCodeRange \<Rightarrow> statusCodeRange list" where
  "mergeStep merged current =
     (if merged = [] \<or> rangeStart current > rangeEnd (last merged) + 1 then merged @ [current]
      else butlast merged @ [Range (rangeStart (last merged)) (max (rangeEnd (last merged)) (rangeEnd current))])"

definition mergeRanges :: "statusCodeRange list \<Rightarrow> statusCodeRange list" where
  "mergeRanges ranges = (if ranges = [] then [] else foldl mergeStep [] (sort ranges))"

definition rangeToken :: "statusCodeRange \<Rightarrow> units" where
  "rangeToken r =
     (if rangeStart r = rangeEnd r then codeText (rangeStart r)
      else codeText (rangeStart r) @ [DASH] @ codeText (rangeEnd r))"

record parsedRules =
  parsedOk :: bool
  ranges :: "statusCodeRange list"
  tokens :: "units list"
  normalized :: units
  invalidTokens :: "units list"

definition segmentsOf :: "units \<Rightarrow> units list" where
  "segmentsOf raw =
     filter (\<lambda>s. s \<noteq> []) (map trimUnits (splitOn COMMA (map (\<lambda>c. if c = FULLWIDTH_COMMA then COMMA else c) raw)))"

text \<open>The argument is the text of the input, none for \<open>null\<close> and \<open>undefined\<close>.\<close>

definition parseHttpStatusCodeRules :: "units option \<Rightarrow> parsedRules" where
  "parseHttpStatusCodeRules input =
     (let raw = trimUnits (case input of Some t \<Rightarrow> t | None \<Rightarrow> [])
      in if raw = [] then \<lparr>parsedOk = True, ranges = [], tokens = [], normalized = [], invalidTokens = []\<rparr>
         else
           let segments = segmentsOf raw;
               invalid = filter (\<lambda>s. parseToken s = None) segments
           in if invalid \<noteq> []
              then \<lparr>parsedOk = False, ranges = [], tokens = [], normalized = raw, invalidTokens = invalid\<rparr>
              else
                let merged = mergeRanges (List.map_filter parseToken segments);
                    ts = map rangeToken merged
                in \<lparr>parsedOk = True, ranges = merged, tokens = ts, normalized = joinWith [COMMA] ts,
                    invalidTokens = []\<rparr>)"

section \<open>Merging\<close>

definition codesOf :: "statusCodeRange list \<Rightarrow> nat set" where
  "codesOf rs = (\<Union>r\<in>set rs. {rangeStart r..rangeEnd r})"

text \<open>Proper ranges in order with a gap of at least one code between them.\<close>

fun separated :: "statusCodeRange list \<Rightarrow> bool" where
  "separated [] \<longleftrightarrow> True"
| "separated [r] \<longleftrightarrow> rangeStart r \<le> rangeEnd r"
| "separated (r # q # rs) \<longleftrightarrow> rangeStart r \<le> rangeEnd r \<and> rangeEnd r + 1 < rangeStart q \<and> separated (q # rs)"

lemma codesOf_simps [simp]:
  "codesOf [] = {}" "codesOf (r # rs) = {rangeStart r..rangeEnd r} \<union> codesOf rs"
  "codesOf (rs @ qs) = codesOf rs \<union> codesOf qs"
  by (auto simp: codesOf_def)

lemma separated_append:
  "separated (rs @ [r, q]) \<longleftrightarrow> separated (rs @ [r]) \<and> rangeEnd r + 1 < rangeStart q \<and> rangeStart q \<le> rangeEnd q"
  by (induction rs rule: separated.induct) auto

lemma separated_last:
  "\<lbrakk>separated (rs @ [r]); rangeStart q = rangeStart r; rangeEnd r \<le> rangeEnd q\<rbrakk> \<Longrightarrow> separated (rs @ [q])"
  by (induction rs rule: separated.induct) auto

lemma separated_snoc_proper: "separated (rs @ [r]) \<Longrightarrow> rangeStart r \<le> rangeEnd r"
  by (induction rs rule: separated.induct) auto

lemma mergeStep_cases:
  assumes "separated merged" "rangeStart r \<le> rangeEnd r"
    "merged \<noteq> [] \<Longrightarrow> rangeStart (last merged) \<le> rangeStart r"
  shows "separated (mergeStep merged r) \<and> codesOf (mergeStep merged r) = codesOf merged \<union> {rangeStart r..rangeEnd r} \<and>
    mergeStep merged r \<noteq> [] \<and> rangeStart (last (mergeStep merged r)) \<le> rangeStart r"
proof (cases merged rule: rev_cases)
  case Nil
  with assms(2) show ?thesis by (simp add: mergeStep_def)
next
  case (snoc ms m)
  show ?thesis
  proof (cases "rangeEnd m + 1 < rangeStart r")
    case True
    with snoc assms show ?thesis by (simp add: mergeStep_def separated_append Un_assoc)
  next
    case False
    let ?q = "Range (rangeStart m) (max (rangeEnd m) (rangeEnd r))"
    from False snoc have step: "mergeStep merged r = ms @ [?q]" by (simp add: mergeStep_def)
    have "separated (ms @ [?q])" using assms(1) snoc by (auto intro: separated_last)
    moreover have "rangeStart m \<le> rangeEnd m"
      using assms(1) snoc separated_snoc_proper by blast
    ultimately show ?thesis using False snoc assms(2,3) step by (auto simp: max_def)
  qed
qed

lemma merge_loop:
  "\<lbrakk>separated merged; sorted rs; \<forall>r\<in>set rs. rangeStart r \<le> rangeEnd r;
    \<forall>r\<in>set rs. merged \<noteq> [] \<longrightarrow> rangeStart (last merged) \<le> rangeStart r\<rbrakk> \<Longrightarrow>
   separated (foldl mergeStep merged rs) \<and> codesOf (foldl mergeStep merged rs) = codesOf merged \<union> codesOf rs"
proof (induction rs arbitrary: merged)
  case (Cons r rs)
  have step: "separated (mergeStep merged r)" "codesOf (mergeStep merged r) = codesOf merged \<union> {rangeStart r..rangeEnd r}"
    "rangeStart (last (mergeStep merged r)) \<le> rangeStart r"
    using mergeStep_cases [of merged r] Cons.prems by auto
  have "rangeStart r \<le> rangeStart q" if "q \<in> set rs" for q
    using Cons.prems(2) that by (auto simp: less_eq_statusCodeRange_def split: if_splits)
  with step(3) have "\<forall>q\<in>set rs. mergeStep merged r \<noteq> [] \<longrightarrow> rangeStart (last (mergeStep merged r)) \<le> rangeStart q"
    by (meson le_trans)
  from Cons.IH [OF step(1) _ _ this] Cons.prems step(2) show ?case by auto
qed simp

lemma mergeRanges_correct:
  assumes "\<forall>r\<in>set rs. rangeStart r \<le> rangeEnd r"
  shows "separated (mergeRanges rs) \<and> codesOf (mergeRanges rs) = codesOf rs"
  using merge_loop [of "[]" "sort rs"] assms by (auto simp: mergeRanges_def codesOf_def)

section \<open>The normal form\<close>

lemma separated_tail:
  "separated (r # rs) \<Longrightarrow> separated rs \<and> rangeStart r \<le> rangeEnd r \<and> (\<forall>x\<in>codesOf rs. rangeEnd r + 1 < x)"
proof (induction rs arbitrary: r)
  case (Cons q rs)
  from Cons.prems Cons.IH [of q] show ?case by fastforce
qed simp

lemma separated_head:
  assumes "separated (r # rs)" "separated (q # qs)" "codesOf (r # rs) = codesOf (q # qs)"
  shows "rangeStart q \<le> rangeStart r \<and> rangeEnd q \<le> rangeEnd r"
proof -
  note r = separated_tail [OF assms(1)] and q = separated_tail [OF assms(2)]
  have "rangeStart r \<in> codesOf (q # qs)" using r assms(3) by auto
  with q have start: "rangeStart q \<le> rangeStart r" by auto
  have "rangeStart q \<in> codesOf (r # rs)" using q assms(3) by auto
  with r have "rangeStart r \<le> rangeStart q" by auto
  moreover have "rangeEnd r + 1 \<notin> codesOf (r # rs)" using r by auto
  then have "rangeEnd r + 1 \<notin> codesOf (q # qs)" unfolding assms(3) .
  ultimately show ?thesis using start r by auto
qed

lemma separated_unique:
  "\<lbrakk>separated rs; separated qs; codesOf rs = codesOf qs\<rbrakk> \<Longrightarrow> rs = qs"
proof (induction rs arbitrary: qs)
  case Nil
  then show ?case by (cases qs) (auto dest: separated_tail)
next
  case (Cons r rs)
  then obtain q qs' where qs: "qs = q # qs'" by (cases qs) (auto dest: separated_tail)
  have "r = q"
    using separated_head [of r rs q qs'] separated_head [of q qs' r rs] Cons.prems qs
    by (auto intro: statusCodeRange.expand)
  moreover have rest: "codesOf ps = codesOf (p # ps) - {rangeStart p..rangeEnd p}" if "separated (p # ps)" for p ps
    using separated_tail [OF that] by auto
  have "codesOf rs = codesOf (r # rs) - {rangeStart r..rangeEnd r}"
    "codesOf qs' = codesOf (q # qs') - {rangeStart q..rangeEnd q}"
    using rest [of r rs] rest [of q qs'] Cons.prems(1,2) qs by blast+
  ultimately have "codesOf rs = codesOf qs'" using Cons.prems(3) qs by simp
  with Cons.IH [of qs'] Cons.prems(1,2) qs \<open>r = q\<close> show ?case by (auto dest: separated_tail)
qed

section \<open>Printing and reading\<close>

lemma digit_not_space: "isDigitUnit c \<Longrightarrow> \<not> isSpaceUnit c \<and> c \<noteq> DASH \<and> c \<noteq> COMMA \<and> c \<noteq> FULLWIDTH_COMMA"
  by (auto simp: isDigitUnit_def isSpaceUnit_def DASH_def COMMA_def FULLWIDTH_COMMA_def)

definition validRange :: "statusCodeRange \<Rightarrow> bool" where
  "validRange r \<longleftrightarrow> isValidCode (rangeStart r) \<and> isValidCode (rangeEnd r) \<and> rangeStart r \<le> rangeEnd r"

lemma parseToken_valid: "parseToken t = Some r \<Longrightarrow> validRange r"
  by (auto simp: parseToken_def validRange_def Let_def split: if_splits list.splits)

lemma rangeToken_units: "c \<in> set (rangeToken r) \<Longrightarrow> isDigitUnit c \<or> c = DASH"
  using codeText_digits by (auto simp: rangeToken_def isNumber_def list_all_iff split: if_splits)

lemma rangeToken_clean:
  "c \<in> set (rangeToken r) \<Longrightarrow> \<not> isSpaceUnit c \<and> c \<noteq> COMMA \<and> c \<noteq> FULLWIDTH_COMMA"
  using rangeToken_units digit_not_space
  by (fastforce simp: DASH_def isSpaceUnit_def COMMA_def FULLWIDTH_COMMA_def)

lemma rangeToken_nonempty: "rangeToken r \<noteq> []"
  using codeText_digits by (auto simp: rangeToken_def isNumber_def)

definition cleaned :: "units \<Rightarrow> units" where
  "cleaned token = filter (\<lambda>c. \<not> isSpaceUnit c) (trimUnits token)"

lemma cleaned_range: "cleaned (rangeToken r) = rangeToken r"
  using rangeToken_clean by (auto simp: cleaned_def trim_clean filter_id_conv)

lemma codeText_no_dash: "DASH \<notin> set (codeText n)" and codeText_nonempty: "codeText n \<noteq> []"
  using codeText_digits [of n] digit_not_space by (auto simp: isNumber_def list_all_iff)

lemma parse_rangeToken:
  assumes "validRange r"
  shows "parseToken (rangeToken r) = Some r"
proof (cases "rangeStart r = rangeEnd r")
  case True
  then have "rangeToken r = codeText (rangeStart r)" by (simp add: rangeToken_def)
  then have "cleaned (rangeToken r) = codeText (rangeStart r)" using cleaned_range [of r] by simp
  with True assms codeText_digits [of "rangeStart r"] show ?thesis
    unfolding parseToken_def cleaned_def [symmetric]
    by (simp add: Let_def validRange_def codeText_no_dash codeText_nonempty statusCodeRange.expand)
next
  case False
  then have "cleaned (rangeToken r) = codeText (rangeStart r) @ DASH # codeText (rangeEnd r)"
    by (simp add: cleaned_range) (simp add: rangeToken_def)
  with assms codeText_digits show ?thesis
    unfolding parseToken_def cleaned_def [symmetric]
    by (simp add: Let_def validRange_def splitOn_cons splitOn_segment codeText_no_dash statusCodeRange.expand)
qed

lemma parse_tokens: "\<forall>r\<in>set rs. validRange r \<Longrightarrow> List.map_filter parseToken (map rangeToken rs) = rs"
  by (induction rs) (simp_all add: parse_rangeToken)

text \<open>The segments of a printed list are its tokens.\<close>

lemma segments_of_tokens:
  assumes "rs \<noteq> []"
  shows "segmentsOf (joinWith [COMMA] (map rangeToken rs)) = map rangeToken rs"
proof -
  let ?ts = "map rangeToken rs"
  have units: "set (joinWith [COMMA] ts) \<subseteq> insert COMMA (\<Union>t\<in>set ts. set t)" for ts
    by (induction "[COMMA]" ts rule: joinWith.induct) auto
  have "c \<noteq> FULLWIDTH_COMMA" if c: "c \<in> set (joinWith [COMMA] ?ts)" for c
  proof -
    consider "c = COMMA" | r where "c \<in> set (rangeToken r)" using units [of ?ts] c by auto
    then show ?thesis by cases (simp_all add: COMMA_def FULLWIDTH_COMMA_def rangeToken_clean [unfolded FULLWIDTH_COMMA_def])
  qed
  then have "map (\<lambda>c. if c = FULLWIDTH_COMMA then COMMA else c) (joinWith [COMMA] ?ts) = joinWith [COMMA] ?ts"
    by (intro map_idI) auto
  moreover have "splitOn COMMA (joinWith [COMMA] ?ts) = ?ts"
    using assms rangeToken_clean by (intro splitOn_joinWith) auto
  moreover have "filter (\<lambda>s. s \<noteq> []) (map trimUnits ?ts) = ?ts"
    using rangeToken_clean rangeToken_nonempty by (auto simp: trim_clean o_def filter_id_conv)
  ultimately show ?thesis unfolding segmentsOf_def by simp
qed

lemma printed_trim: "trimUnits (joinWith [COMMA] (map rangeToken rs)) = joinWith [COMMA] (map rangeToken rs)"
proof (rule trim_clean)
  have "set (joinWith [COMMA] ts) \<subseteq> insert COMMA (\<Union>t\<in>set ts. set t)" for ts
    by (induction "[COMMA]" ts rule: joinWith.induct) auto
  with rangeToken_clean show "\<forall>c\<in>set (joinWith [COMMA] (map rangeToken rs)). \<not> isSpaceUnit c"
    by (fastforce simp: COMMA_def isSpaceUnit_def)
qed

lemma parse_printed:
  assumes "separated rs" "\<forall>r\<in>set rs. validRange r"
  shows "parseHttpStatusCodeRules (Some (joinWith [COMMA] (map rangeToken rs))) =
    \<lparr>parsedOk = True, ranges = rs, tokens = map rangeToken rs,
     normalized = joinWith [COMMA] (map rangeToken rs), invalidTokens = []\<rparr>"
proof (cases "rs = []")
  case False
  have "joinWith [COMMA] (map rangeToken rs) \<noteq> []"
    using False rangeToken_nonempty by (cases rs rule: separated.cases) auto
  moreover have "filter (\<lambda>s. parseToken s = None) (map rangeToken rs) = []"
    using assms(2) parse_rangeToken by (auto simp: filter_empty_conv)
  moreover have "mergeRanges rs = rs"
    using mergeRanges_correct [of rs] assms by (intro separated_unique) (auto simp: validRange_def)
  ultimately show ?thesis
    using False assms(2) by (simp add: parseHttpStatusCodeRules_def printed_trim segments_of_tokens parse_tokens Let_def)
qed (simp add: parseHttpStatusCodeRules_def trimUnits_def)

section \<open>Properties\<close>

text \<open>The codes a text names: those of the ranges of its segments.\<close>

definition namedCodes :: "units \<Rightarrow> nat set" where
  "namedCodes text = codesOf (List.map_filter parseToken (segmentsOf (trimUnits text)))"

lemma segment_ranges:
  "\<forall>r\<in>set (List.map_filter parseToken segs). validRange r"
  by (induction segs) (auto dest: parseToken_valid split: option.splits)

lemma separated_proper: "\<lbrakk>separated rs; r \<in> set rs\<rbrakk> \<Longrightarrow> rangeStart r \<le> rangeEnd r"
  by (induction rs rule: separated.induct) auto

lemma valid_merged:
  assumes "\<forall>r\<in>set rs. validRange r"
  shows "\<forall>r\<in>set (mergeRanges rs). validRange r"
proof
  fix r assume r: "r \<in> set (mergeRanges rs)"
  have "separated (mergeRanges rs)" and codes: "codesOf (mergeRanges rs) = codesOf rs"
    using mergeRanges_correct [of rs] assms by (auto simp: validRange_def)
  from separated_proper [OF this(1) r] have proper: "rangeStart r \<le> rangeEnd r" .
  then have "rangeStart r \<in> codesOf (mergeRanges rs)" "rangeEnd r \<in> codesOf (mergeRanges rs)"
    using r by (auto simp: codesOf_def intro!: bexI [of _ r])
  moreover have "isValidCode x" if "x \<in> codesOf rs" for x
    using that assms by (auto simp: codesOf_def validRange_def isValidCode_def)
  ultimately show "validRange r" using proper codes by (simp add: validRange_def)
qed

lemma parsed_ok:
  assumes "parsedOk (parseHttpStatusCodeRules (Some text))"
  defines "p \<equiv> parseHttpStatusCodeRules (Some text)"
  shows "separated (ranges p) \<and> codesOf (ranges p) = namedCodes text \<and> (\<forall>r\<in>set (ranges p). validRange r) \<and>
    normalized p = joinWith [COMMA] (map rangeToken (ranges p))"
proof (cases "trimUnits text = []")
  case True
  moreover have "segmentsOf [] = []" by (simp add: segmentsOf_def trimUnits_def)
  ultimately show ?thesis by (simp add: p_def parseHttpStatusCodeRules_def namedCodes_def)
next
  case False
  let ?rs = "List.map_filter parseToken (segmentsOf (trimUnits text))"
  have "filter (\<lambda>s. parseToken s = None) (segmentsOf (trimUnits text)) = []"
    using assms(1) False by (auto simp: parseHttpStatusCodeRules_def Let_def split: if_splits)
  with False have "ranges p = mergeRanges ?rs" "normalized p = joinWith [COMMA] (map rangeToken (mergeRanges ?rs))"
    by (simp_all add: p_def parseHttpStatusCodeRules_def Let_def)
  moreover have valid: "\<forall>r\<in>set ?rs. validRange r" by (rule segment_ranges)
  then have "\<forall>r\<in>set ?rs. rangeStart r \<le> rangeEnd r" by (simp add: validRange_def)
  ultimately show ?thesis
    using valid_merged [OF valid] mergeRanges_correct [of ?rs] by (simp add: namedCodes_def)
qed

text \<open>
  C33. An accepted list of status rules names exactly the codes it was written with: the
  merged ranges are in ascending order, disjoint and not adjacent, lie between 100 and 599,
  and together hold precisely the codes of the ranges of the segments.
\<close>

theorem status_rules_codes:
  assumes "parsedOk (parseHttpStatusCodeRules (Some text))"
  shows "separated (ranges (parseHttpStatusCodeRules (Some text))) \<and>
    codesOf (ranges (parseHttpStatusCodeRules (Some text))) = namedCodes text \<and>
    namedCodes text \<subseteq> {100..599}"
proof -
  have "x \<in> {100..599}" if "x \<in> namedCodes text" for x
    using that segment_ranges by (fastforce simp: namedCodes_def codesOf_def validRange_def isValidCode_def)
  with parsed_ok [OF assms] show ?thesis by auto
qed

definition sampleRules :: units where
  "sampleRules = [0x35, 0x30, 0x33, 44, 32, 0x34, 0x30, 0x30, 45, 0x34, 0x39, 0x39, FULLWIDTH_COMMA, 0x35, 0x30, 0x30, 45, 0x35, 0x30, 0x32]"

theorem status_rules_codes_witness:
  "ranges (parseHttpStatusCodeRules (Some sampleRules)) = [Range 400 503] \<and>
   separated (ranges (parseHttpStatusCodeRules (Some sampleRules))) \<and>
   codesOf (ranges (parseHttpStatusCodeRules (Some sampleRules))) = namedCodes sampleRules \<and>
   namedCodes sampleRules \<subseteq> {100..599}"
proof -
  have "parsedOk (parseHttpStatusCodeRules (Some sampleRules))" by code_simp
  moreover have "ranges (parseHttpStatusCodeRules (Some sampleRules)) = [Range 400 503]" by code_simp
  ultimately show ?thesis using status_rules_codes [of sampleRules] by blast
qed

text \<open>
  C32. The normal form is canonical: parsing the normal form of an accepted list gives the same
  ranges and the same normal form again, and two accepted lists have the same normal form
  whenever they name the same codes.
\<close>

theorem status_rules_normal_form:
  assumes "parsedOk (parseHttpStatusCodeRules (Some a))" "parsedOk (parseHttpStatusCodeRules (Some b))"
    and "namedCodes a = namedCodes b"
  shows "normalized (parseHttpStatusCodeRules (Some a)) = normalized (parseHttpStatusCodeRules (Some b)) \<and>
    parseHttpStatusCodeRules (Some (normalized (parseHttpStatusCodeRules (Some a)))) =
      parseHttpStatusCodeRules (Some (normalized (parseHttpStatusCodeRules (Some b)))) \<and>
    ranges (parseHttpStatusCodeRules (Some (normalized (parseHttpStatusCodeRules (Some a))))) =
      ranges (parseHttpStatusCodeRules (Some a)) \<and>
    normalized (parseHttpStatusCodeRules (Some (normalized (parseHttpStatusCodeRules (Some a))))) =
      normalized (parseHttpStatusCodeRules (Some a))"
proof -
  have "ranges (parseHttpStatusCodeRules (Some a)) = ranges (parseHttpStatusCodeRules (Some b))"
    using parsed_ok [OF assms(1)] parsed_ok [OF assms(2)] assms(3) by (simp add: separated_unique)
  with parsed_ok [OF assms(1)] parsed_ok [OF assms(2)] show ?thesis by (simp add: parse_printed)
qed

definition otherRules :: units where
  "otherRules = [0x34, 0x30, 0x30, 45, 0x35, 0x30, 0x33]"

theorem status_rules_normal_form_witness:
  "normalized (parseHttpStatusCodeRules (Some sampleRules)) = normalized (parseHttpStatusCodeRules (Some otherRules)) \<and>
   normalized (parseHttpStatusCodeRules (Some otherRules)) = otherRules"
proof -
  have ok: "parsedOk (parseHttpStatusCodeRules (Some sampleRules))" "parsedOk (parseHttpStatusCodeRules (Some otherRules))"
    by code_simp+
  have "ranges (parseHttpStatusCodeRules (Some sampleRules)) = ranges (parseHttpStatusCodeRules (Some otherRules))"
    by code_simp
  then have "namedCodes sampleRules = namedCodes otherRules" using parsed_ok [OF ok(1)] parsed_ok [OF ok(2)] by auto
  from status_rules_normal_form [OF ok this] show ?thesis by (simp) code_simp
qed

text \<open>
  A range with further dashes is accepted and everything after the second number is
  ignored: \<open>400-499-x\<close> is read as \<open>400-499\<close>.
\<close>

theorem trailing_parts_ignored:
  assumes "validRange r" "rangeStart r \<noteq> rangeEnd r" "\<forall>c\<in>set junk. \<not> isSpaceUnit c"
  shows "parseToken (rangeToken r @ DASH # junk) = Some r"
proof -
  let ?t = "rangeToken r @ DASH # junk"
  have "\<not> isSpaceUnit DASH" by (simp add: DASH_def isSpaceUnit_def)
  with assms(3) rangeToken_clean have "\<forall>c\<in>set ?t. \<not> isSpaceUnit c" by auto
  then have "cleaned ?t = ?t" by (auto simp: cleaned_def trim_clean filter_id_conv)
  moreover have "splitOn DASH ?t = codeText (rangeStart r) # codeText (rangeEnd r) # splitOn DASH junk"
    using assms(2) by (simp add: rangeToken_def splitOn_cons codeText_no_dash)
  ultimately show ?thesis
    using assms(1) codeText_digits unfolding parseToken_def cleaned_def [symmetric]
    by (simp add: Let_def validRange_def statusCodeRange.expand)
qed

theorem trailing_parts_ignored_witness:
  "parseToken (rangeToken (Range 400 499) @ DASH # [0x78]) = Some (Range 400 499)"
  by (rule trailing_parts_ignored) (simp_all add: validRange_def isValidCode_def isSpaceUnit_def)

end
