(* ===== verification/ModelMapping.thy ===== *)
theory ModelMapping
  imports Json
begin

text \<open>
  Model of \<open>features/channels/lib/model-mapping-validation.ts\<close> and \<open>model-mapping-rules.ts\<close>:
  a channel stores a list of model names and a JSON object that maps request names to
  upstream names; the editor lists names that are missing or exposed, derives pairs from a
  naming rule and merges them into the document. Arguments have the types the signatures
  declare, so the \<open>typeof\<close> guards on strings always pass. A \<open>Set\<close> is the list of its elements in
  insertion order.
\<close>

section \<open>Lists of models and the mapping document\<close>

definition parseModelsString :: "units \<Rightarrow> units list" where
  "parseModelsString s = (if s = [] then [] else filter (\<lambda>m. m \<noteq> []) (map trimUnits (splitOn 44 s)))"

definition formatModelsArray :: "units list \<Rightarrow> units" where
  "formatModelsArray models = joinWith [44] (unique models)"

definition normalizeModelName :: "units \<Rightarrow> units" where
  "normalizeModelName model = trimUnits model"

text \<open>The entries of a text that parses to an object that is neither null nor an array.\<close>

definition mappingEntries :: "units \<Rightarrow> (units \<times> json) list option" where
  "mappingEntries s = (case parseJson s of Inr (JsonObj kvs) \<Rightarrow> Some (objectEntries kvs) | _ \<Rightarrow> None)"

definition extractMappingSourceModels :: "units \<Rightarrow> units list" where
  "extractMappingSourceModels modelMapping =
     (let trimmed = trimUnits modelMapping
      in if trimmed = [] then []
         else case mappingEntries trimmed of
                None \<Rightarrow> []
              | Some es \<Rightarrow> unique (filter (\<lambda>k. k \<noteq> []) (map (\<lambda>e. trimUnits (fst e)) es)))"

fun redirectValue :: "json \<Rightarrow> units list" where
  "redirectValue (JsonStr s) = (if trimUnits s = [] then [] else [trimUnits s])"
| "redirectValue _ = []"

definition extractRedirectModels :: "units \<Rightarrow> units list" where
  "extractRedirectModels modelMapping =
     (let trimmed = trimUnits modelMapping
      in if trimmed = [] then []
         else case mappingEntries trimmed of
                None \<Rightarrow> []
              | Some es \<Rightarrow> unique (concat (map (\<lambda>e. redirectValue (snd e)) es)))"

definition hasModelConfigChanged :: "units list \<Rightarrow> units \<Rightarrow> units list \<Rightarrow> units \<Rightarrow> bool" where
  "hasModelConfigChanged currentModels currentModelMapping initialModels initialModelMapping \<longleftrightarrow>
     (if initialModels = [] \<and> initialModelMapping = [] then True
      else if length currentModels \<noteq> length initialModels then True
      else if list_ex (\<lambda>(c, i). c \<noteq> i) (zip currentModels initialModels) then True
      else trimUnits currentModelMapping \<noteq> trimUnits initialModelMapping)"

definition findMissingModelsInMapping :: "units \<Rightarrow> units list \<Rightarrow> units list" where
  "findMissingModelsInMapping modelMapping currentModels =
     (if trimUnits modelMapping = [] then []
      else case mappingEntries modelMapping of
             None \<Rightarrow> []
           | Some es \<Rightarrow>
               let modelSet = unique (map normalizeModelName currentModels)
               in unique (filter (\<lambda>k. k \<noteq> [] \<and> k \<notin> set modelSet) (map (\<lambda>e. normalizeModelName (fst e)) es)))"

record validation =
  valid :: bool
  verror :: "string option"

fun isJsonString :: "json \<Rightarrow> bool" where
  "isJsonString (JsonStr _) = True"
| "isJsonString _ = False"

definition validateModelMappingJson :: "units \<Rightarrow> validation" where
  "validateModelMappingJson modelMapping =
     (if trimUnits modelMapping = [] then \<lparr>valid = True, verror = None\<rparr>
      else case parseJson modelMapping of
             Inl _ \<Rightarrow> \<lparr>valid = False, verror = Some ''Model mapping must be valid JSON format''\<rparr>
           | Inr (JsonObj kvs) \<Rightarrow>
               if list_ex (\<lambda>e. \<not> isJsonString (snd e)) (objectEntries kvs)
               then \<lparr>valid = False, verror = Some ''Model mapping values must be strings''\<rparr>
               else \<lparr>valid = True, verror = None\<rparr>
           | Inr _ \<Rightarrow> \<lparr>valid = False, verror = Some ''Model mapping must be a valid JSON object''\<rparr>)"

definition findExposedTargetModels :: "units \<Rightarrow> units list \<Rightarrow> units list" where
  "findExposedTargetModels modelMapping currentModels =
     (let redirectModels = extractRedirectModels modelMapping
      in if redirectModels = [] then []
         else let modelSet = unique (map normalizeModelName currentModels)
              in filter (\<lambda>m. normalizeModelName m \<in> set modelSet) redirectModels)"

record modelCategories =
  normalizedCurrentModels :: "units list"
  normalizedRedirectModels :: "units list"
  classificationSet :: "units list"
  redirectOnlySet :: "units list"

definition categorizeModelsWithRedirect :: "units list \<Rightarrow> units list \<Rightarrow> modelCategories" where
  "categorizeModelsWithRedirect currentModels redirectModels =
     (let current = unique (filter (\<lambda>m. m \<noteq> []) (map normalizeModelName currentModels));
          redirect = unique (filter (\<lambda>m. m \<noteq> []) (map normalizeModelName redirectModels))
      in \<lparr>normalizedCurrentModels = current, normalizedRedirectModels = redirect,
          classificationSet = unique (current @ redirect),
          redirectOnlySet = unique (filter (\<lambda>m. m \<notin> set current) redirect)\<rparr>)"

section \<open>Deriving pairs from a rule\<close>

record mappingPair =
  mfrom :: units
  mto :: units

datatype direction = Upstream | Request

datatype mappingRule = StripPrefix units | StripSuffix units | AddPrefix units | AddSuffix units
  | Replace units units

record derivation =
  dpairs :: "mappingPair list"
  unchanged :: "units list"
  conflicts :: "units list"

definition affixesOf :: "mappingRule \<Rightarrow> units list" where
  "affixesOf rule =
     (case rule of
        StripPrefix values \<Rightarrow> filter (\<lambda>v. v \<noteq> []) (map trimUnits (splitOn 44 values))
      | StripSuffix values \<Rightarrow> filter (\<lambda>v. v \<noteq> []) (map trimUnits (splitOn 44 values))
      | _ \<Rightarrow> [])"

text \<open>
  The replacement template of \<open>replaceAll\<close> with a string pattern: \<open>$$\<close> is a dollar, \<open>$&\<close> the
  match, \<open>$`\<close> and \<open>$'\<close> the text before and after it; other dollars stand for themselves.
\<close>

fun substitution :: "units \<Rightarrow> units \<Rightarrow> units \<Rightarrow> units \<Rightarrow> units" where
  "substitution before matched after [] = []"
| "substitution before matched after [c] = [c]"
| "substitution before matched after (c # d # r) =
     (if c = 36 \<and> d = 36 then 36 # substitution before matched after r
      else if c = 36 \<and> d = 38 then matched @ substitution before matched after r
      else if c = 36 \<and> d = 96 then before @ substitution before matched after r
      else if c = 36 \<and> d = 39 then after @ substitution before matched after r
      else c # substitution before matched after (d # r))"

text \<open>\<open>replaceAll\<close> for a non-empty pattern; \<open>before\<close> is the part of the text already passed.\<close>

function replaceFrom :: "units \<Rightarrow> units \<Rightarrow> units \<Rightarrow> units \<Rightarrow> units" where
  "replaceFrom pattern template before s =
     (if s = [] \<or> pattern = [] then s
      else if startsWithUnits s pattern
        then substitution before pattern (drop (length pattern) s) template @
          replaceFrom pattern template (before @ pattern) (drop (length pattern) s)
      else hd s # replaceFrom pattern template (before @ [hd s]) (tl s))"
  by pat_completeness auto

termination replaceFrom by (relation "measure (\<lambda>(_, _, _, s). length s)") auto

declare replaceFrom.simps [simp del]

definition applyRule :: "mappingRule \<Rightarrow> units list \<Rightarrow> units \<Rightarrow> units" where
  "applyRule rule affixes model =
     (case rule of
        StripPrefix _ \<Rightarrow>
          (case find (startsWithUnits model) affixes of
             Some prefix \<Rightarrow> drop (length prefix) model | None \<Rightarrow> model)
      | StripSuffix _ \<Rightarrow>
          (case find (endsWithUnits model) affixes of
             Some suffix \<Rightarrow> take (length model - length suffix) model | None \<Rightarrow> model)
      | AddPrefix v \<Rightarrow> v @ model
      | AddSuffix v \<Rightarrow> model @ v
      | Replace pattern replaceWith \<Rightarrow>
          if pattern \<noteq> [] then replaceFrom pattern replaceWith [] model else model)"

record deriveState =
  seen :: "units list"
  requestNames :: "units list"
  dresult :: derivation

definition pairOf :: "direction \<Rightarrow> units \<Rightarrow> units \<Rightarrow> mappingPair" where
  "pairOf dir model derived =
     (if dir = Upstream then \<lparr>mfrom = derived, mto = model\<rparr> else \<lparr>mfrom = model, mto = derived\<rparr>)"

text \<open>One round of the loop over the models.\<close>

definition deriveStep :: "direction \<Rightarrow> mappingRule \<Rightarrow> units \<Rightarrow> deriveState \<Rightarrow> deriveState" where
  "deriveStep dir rule raw st =
     (let model = trimUnits raw
      in if model = [] \<or> model \<in> set (seen st) then st
         else
           let st = st\<lparr>seen := seen st @ [model]\<rparr>;
               derived = trimUnits (applyRule rule (affixesOf rule) model);
               pair = pairOf dir model derived;
               r = dresult st
           in if derived = [] \<or> derived = model
              then st\<lparr>dresult := r\<lparr>unchanged := unchanged r @ [model]\<rparr>\<rparr>
              else if mfrom pair \<in> set (requestNames st)
              then st\<lparr>dresult := r\<lparr>conflicts := conflicts r @ [model]\<rparr>\<rparr>
              else st\<lparr>requestNames := requestNames st @ [mfrom pair],
                      dresult := r\<lparr>dpairs := dpairs r @ [pair]\<rparr>\<rparr>)"

definition deriveStart :: deriveState where
  "deriveStart = \<lparr>seen = [], requestNames = [], dresult = \<lparr>dpairs = [], unchanged = [], conflicts = []\<rparr>\<rparr>"

definition deriveModelMappingPairs :: "units list \<Rightarrow> direction \<Rightarrow> mappingRule \<Rightarrow> derivation" where
  "deriveModelMappingPairs models dir rule = dresult (fold (deriveStep dir rule) models deriveStart)"

section \<open>Merging pairs into the document\<close>

text \<open>Assigning a string to a property of a plain object; to \<open>__proto__\<close> it has no effect.\<close>

definition assignProp :: "units \<Rightarrow> units \<Rightarrow> (units \<times> units) list \<Rightarrow> (units \<times> units) list" where
  "assignProp k v m = (if k = unitsOf ''__proto__'' then m else setProp k v m)"

fun stringEntry :: "units \<times> json \<Rightarrow> (units \<times> units) option" where
  "stringEntry (k, JsonStr s) = Some (k, s)"
| "stringEntry _ = None"

definition currentMapping :: "units \<Rightarrow> (units \<times> units) list option" where
  "currentMapping current =
     (let trimmed = trimUnits current
      in if trimmed = [] then Some []
         else case mappingEntries trimmed of
                None \<Rightarrow> None
              | Some es \<Rightarrow> map_option (\<lambda>kvs. fold (\<lambda>e. assignProp (fst e) (snd e)) kvs []) (those (map stringEntry es)))"

definition mergeModelMappingPairs :: "units \<Rightarrow> mappingPair list \<Rightarrow> units option" where
  "mergeModelMappingPairs current pairs =
     (case currentMapping current of
        None \<Rightarrow> None
      | Some m \<Rightarrow>
          let mapping = fold (\<lambda>p. assignProp (mfrom p) (mto p)) pairs m
          in Some (if mapping = [] then [] else stringifyMapping mapping))"

section \<open>Facts\<close>

lemma distinct_assignProp [simp]: "distinct (map fst (assignProp k v m)) = distinct (map fst m)"
  by (simp add: assignProp_def)

lemma distinct_fold_assign:
  "distinct (map fst (fold (\<lambda>x. assignProp (f x) (g x)) xs m)) = distinct (map fst m)"
  by (induction xs arbitrary: m) simp_all

definition protoKey :: units where "protoKey = unitsOf ''__proto__''"

text \<open>The mapping after a sequence of assignments.\<close>

lemma map_of_fold_assign:
  "map_of (fold (\<lambda>x. assignProp (f x) (g x)) xs m) =
   map_of m ++ map_of (rev (map (\<lambda>x. (f x, g x)) (filter (\<lambda>x. f x \<noteq> protoKey) xs)))"
proof (induction xs arbitrary: m)
  case (Cons x xs)
  then show ?case
    by (auto simp: assignProp_def protoKey_def fun_eq_iff map_add_def split: option.splits)
qed simp

lemma currentMapping_distinct: "currentMapping current = Some m \<Longrightarrow> distinct (map fst m)"
  using distinct_fold_assign [where f = fst and g = snd and m = "[]"]
  by (auto simp: currentMapping_def Let_def case_prod_beta split: if_splits option.splits)

text \<open>What a document maps, as a partial function; the property \<open>__proto__\<close> cannot be assigned.\<close>

definition documentMap :: "units \<Rightarrow> units \<rightharpoonup> units" where
  "documentMap text =
     (if trimUnits text = [] then Map.empty
      else case mappingEntries (trimUnits text) of
             None \<Rightarrow> Map.empty
           | Some es \<Rightarrow> map_of (List.map_filter stringEntry es))"

definition pairsMap :: "mappingPair list \<Rightarrow> units \<rightharpoonup> units" where
  "pairsMap pairs = map_of (rev (map (\<lambda>p. (mfrom p, mto p)) pairs))"

lemma those_map_filter: "those (map f xs) = Some ys \<Longrightarrow> List.map_filter f xs = ys"
  by (induction xs arbitrary: ys) (auto split: option.splits)

lemma stringEntries_keys: "those (map stringEntry es) = Some kvs \<Longrightarrow> es = jsonEntries kvs"
proof (induction es arbitrary: kvs)
  case (Cons e es)
  then show ?case by (cases e rule: stringEntry.cases) (auto simp: jsonEntries_def)
qed (simp add: jsonEntries_def)

lemma stringEntry_json [simp]: "stringEntry (k, JsonStr v) = Some (k, v)" by simp

lemma those_jsonEntries: "those (map stringEntry (jsonEntries kvs)) = Some kvs"
  by (induction kvs) (auto simp: jsonEntries_def)

lemma map_fst_jsonEntries [simp]: "map fst (jsonEntries kvs) = map fst kvs"
  by (simp add: jsonEntries_def case_prod_beta o_def)

lemma objectEntries_jsonEntries: "objectEntries (jsonEntries kvs) = jsonEntries (objectEntries kvs)"
proof -
  have filt: "filter (\<lambda>kv. P (fst kv)) (jsonEntries xs) = jsonEntries (filter (\<lambda>kv. P (fst kv)) xs)" for P xs
    by (induction xs) (auto simp: jsonEntries_def)
  have "sort_key (\<lambda>kv. f (fst kv)) (jsonEntries xs) = jsonEntries (sort_key (\<lambda>kv. f (fst kv)) xs)"
    for f :: "units \<Rightarrow> nat" and xs
  proof (induction xs)
    case (Cons x xs)
    have "insort_key (\<lambda>kv. f (fst kv)) (fst x, JsonStr (snd x)) (jsonEntries ys) =
        jsonEntries (insort_key (\<lambda>kv. f (fst kv)) x ys)" for ys
      by (induction ys) (auto simp: jsonEntries_def case_prod_beta)
    with Cons show ?case by (cases x) (auto simp: jsonEntries_def)
  qed (simp add: jsonEntries_def)
  then have "objectEntries (jsonEntries kvs) =
      jsonEntries (sort_key (\<lambda>kv. parseDigits (fst kv)) (filter (\<lambda>kv. isArrayIndex (fst kv)) kvs)) @
      jsonEntries (filter (\<lambda>kv. \<not> isArrayIndex (fst kv)) kvs)"
    unfolding objectEntries_def using filt [of isArrayIndex kvs] filt [of "\<lambda>k. \<not> isArrayIndex k" kvs] by simp
  then show ?thesis by (simp add: objectEntries_def) (simp add: jsonEntries_def)
qed

text \<open>A printed mapping is trimmed and reads back.\<close>

lemma trim_braces: "trimUnits (123 # s @ [125]) = 123 # s @ [125]"
  by (simp add: trimUnits_def isSpaceUnit_def)

lemma printed_trimmed: "trimUnits (stringifyMapping m) = stringifyMapping m \<and> stringifyMapping m \<noteq> []"
proof -
  obtain s where "stringifyMapping m = 123 # s @ [125]"
  proof (cases "m = []")
    case True
    then show ?thesis using that [of "[]"] by (simp add: stringifyMapping_def)
  next
    case False
    then show ?thesis
      using that [of "10 # joinWith [44, 10] (map stringifyMember (objectEntries m)) @ [10]"]
      by (simp add: stringifyMapping_def)
  qed
  then show ?thesis using trim_braces by simp
qed

lemma printed_entries:
  assumes "distinct (map fst m)"
  shows "mappingEntries (stringifyMapping m) = Some (jsonEntries (objectEntries m))"
  using assms by (simp add: mappingEntries_def parse_stringify objectEntries_jsonEntries)

lemma documentMap_printed:
  assumes "distinct (map fst m)"
  shows "documentMap (stringifyMapping m) = map_of m"
proof -
  have "List.map_filter stringEntry (jsonEntries (objectEntries m)) = objectEntries m"
    by (rule those_map_filter [OF those_jsonEntries])
  with assms printed_trimmed show ?thesis
    by (simp add: documentMap_def printed_entries map_of_objectEntries)
qed

lemma map_of_restricted:
  assumes "distinct (map fst kvs)"
  shows "map_of (rev (filter (\<lambda>e. fst e \<noteq> k) kvs)) = map_of kvs |` (- {k})"
proof -
  have "distinct (map fst (filter (\<lambda>e. fst e \<noteq> k) kvs))" using assms by (rule distinct_map_filter)
  then have "map_of (rev (filter (\<lambda>e. fst e \<noteq> k) kvs)) = map_of (filter (\<lambda>e. fst e \<noteq> k) kvs)"
    by (subst map_of_inject_set) (auto simp: rev_map [symmetric])
  also have "\<dots> = map_of kvs |` (- {k})"
    by (induction kvs) (auto simp: restrict_map_def fun_eq_iff)
  finally show ?thesis .
qed

lemma documentMap_current:
  assumes "currentMapping current = Some m"
  shows "map_of m = documentMap current |` (- {protoKey})"
proof (cases "trimUnits current = []")
  case True
  with assms show ?thesis by (simp add: currentMapping_def documentMap_def)
next
  case False
  with assms obtain es kvs where es: "mappingEntries (trimUnits current) = Some es"
    "those (map stringEntry es) = Some kvs" and m: "m = fold (\<lambda>e. assignProp (fst e) (snd e)) kvs []"
    by (auto simp: currentMapping_def Let_def split: option.splits)
  have "distinct (map fst es)"
    using es(1) by (auto simp: mappingEntries_def distinct_objectEntries parseJson_distinct
        split: sum.splits json.splits)
  then have dist: "distinct (map fst kvs)" using stringEntries_keys [OF es(2)] by simp
  have "map_of m = map_of (rev (filter (\<lambda>e. fst e \<noteq> protoKey) kvs))"
    by (simp add: m map_of_fold_assign)
  with dist False es those_map_filter [OF es(2)] show ?thesis
    by (simp add: map_of_restricted documentMap_def)
qed

lemma pairsMap_assign:
  "map_of (fold (\<lambda>p. assignProp (mfrom p) (mto p)) pairs m) = map_of m ++ pairsMap pairs |` (- {protoKey})"
proof -
  have "map_of (rev (map (\<lambda>x. (mfrom x, mto x)) (filter (\<lambda>x. mfrom x \<noteq> protoKey) ps))) = pairsMap ps |` (- {protoKey})" for ps
    by (induction ps) (auto simp: pairsMap_def restrict_map_def map_add_def fun_eq_iff split: option.splits)
  then show ?thesis by (simp add: map_of_fold_assign)
qed

lemma currentMapping_None:
  "currentMapping current = None \<longleftrightarrow> \<not> valid (validateModelMappingJson (trimUnits current))"
proof (cases "trimUnits current = []")
  case False
  have "those (map stringEntry es) = None \<longleftrightarrow> list_ex (\<lambda>e. \<not> isJsonString (snd e)) es" for es
  proof (induction es)
    case (Cons e es)
    then show ?case by (cases e rule: stringEntry.cases) auto
  qed simp
  with False show ?thesis
    by (auto simp: currentMapping_def validateModelMappingJson_def mappingEntries_def Let_def
        split: sum.splits json.splits)
qed (simp add: currentMapping_def validateModelMappingJson_def)

section \<open>What a derivation promises\<close>

definition modelOf :: "direction \<Rightarrow> mappingPair \<Rightarrow> units" where
  "modelOf dir p = (if dir = Upstream then mto p else mfrom p)"

definition derivedName :: "mappingRule \<Rightarrow> units \<Rightarrow> units" where
  "derivedName rule model = trimUnits (applyRule rule (affixesOf rule) model)"

definition derivedPair :: "direction \<Rightarrow> mappingRule \<Rightarrow> units \<Rightarrow> mappingPair" where
  "derivedPair dir rule model = pairOf dir model (derivedName rule model)"

text \<open>The invariant of the loop over the models; \<open>ms\<close> are the names taken so far.\<close>

definition derivationOk :: "direction \<Rightarrow> mappingRule \<Rightarrow> units list \<Rightarrow> derivation \<Rightarrow> bool" where
  "derivationOk dir rule ms d \<longleftrightarrow>
     mset (map (modelOf dir) (dpairs d) @ unchanged d @ conflicts d) = mset ms \<and> distinct ms \<and>
     distinct (map mfrom (dpairs d)) \<and>
     (\<forall>p\<in>set (dpairs d). p = derivedPair dir rule (modelOf dir p) \<and>
        derivedName rule (modelOf dir p) \<notin> {[], modelOf dir p}) \<and>
     (\<forall>m\<in>set (unchanged d). derivedName rule m \<in> {[], m}) \<and>
     (\<forall>m\<in>set (conflicts d). mfrom (derivedPair dir rule m) \<in> mfrom ` set (dpairs d))"

lemma modelOf_pairOf [simp]: "modelOf dir (pairOf dir m n) = m"
  by (simp add: modelOf_def pairOf_def)

lemma deriveStep_ok:
  fixes raw :: units
  assumes "derivationOk dir rule (seen st) (dresult st)" "requestNames st = map mfrom (dpairs (dresult st))"
  defines "st' \<equiv> deriveStep dir rule raw st"
  shows "derivationOk dir rule (seen st') (dresult st') \<and> requestNames st' = map mfrom (dpairs (dresult st')) \<and>
    seen st' = (if trimUnits raw = [] \<or> trimUnits raw \<in> set (seen st) then seen st else seen st @ [trimUnits raw])"
  using assms(1,2)
  by (auto simp: st'_def deriveStep_def Let_def derivationOk_def derivedPair_def derivedName_def image_iff)

lemma derive_loop:
  "\<lbrakk>derivationOk dir rule (seen st) (dresult st); requestNames st = map mfrom (dpairs (dresult st))\<rbrakk> \<Longrightarrow>
   derivationOk dir rule (seen st @ uniqueFrom (seen st) (filter (\<lambda>m. m \<noteq> []) (map trimUnits models)))
     (dresult (fold (deriveStep dir rule) models st))"
proof (induction models arbitrary: st)
  case (Cons raw models)
  let ?st = "deriveStep dir rule raw st" and ?m = "trimUnits raw"
  let ?ms = "filter (\<lambda>m. m \<noteq> []) (map trimUnits models)"
  have same: "uniqueFrom (s @ [?m]) xs = uniqueFrom (?m # s) xs" for s xs
    by (rule uniqueFrom_cong) auto
  note step = deriveStep_ok [OF Cons.prems, of raw]
  have IH: "derivationOk dir rule (seen ?st @ uniqueFrom (seen ?st) ?ms) (dresult (fold (deriveStep dir rule) models ?st))"
    using Cons.IH [of ?st] step by blast
  show ?case
  proof (cases "?m = [] \<or> ?m \<in> set (seen st)")
    case True
    then have "seen ?st = seen st" using step by simp
    with IH True show ?thesis by auto
  next
    case False
    then have "seen ?st = seen st @ [?m]" using step by simp
    with IH False show ?thesis by (simp add: same)
  qed
qed simp

lemma derivation_ok:
  "derivationOk dir rule (unique (filter (\<lambda>m. m \<noteq> []) (map trimUnits models)))
     (deriveModelMappingPairs models dir rule)"
proof -
  have "derivationOk dir rule (seen deriveStart) (dresult deriveStart)"
    "requestNames deriveStart = map mfrom (dpairs (dresult deriveStart))" "seen deriveStart = []"
    by (simp_all add: deriveStart_def derivationOk_def)
  with derive_loop [OF this(1,2), of models] show ?thesis
    by (simp add: deriveModelMappingPairs_def unique_def)
qed

lemma merge_update:
  assumes "mergeModelMappingPairs current pairs = Some result"
  shows "valid (validateModelMappingJson result) \<and>
    documentMap result = (documentMap current ++ pairsMap pairs) |` (- {protoKey})"
proof -
  obtain m where m: "currentMapping current = Some m"
    using assms by (auto simp: mergeModelMappingPairs_def split: option.splits)
  let ?m = "fold (\<lambda>p. assignProp (mfrom p) (mto p)) pairs m"
  have dist: "distinct (map fst ?m)" using currentMapping_distinct [OF m] by (simp add: distinct_fold_assign)
  have mapped: "map_of ?m = (documentMap current ++ pairsMap pairs) |` (- {protoKey})"
    by (auto simp: pairsMap_assign documentMap_current [OF m] restrict_map_def map_add_def fun_eq_iff split: option.splits)
  have result: "result = (if ?m = [] then [] else stringifyMapping ?m)"
    using assms m by (simp add: mergeModelMappingPairs_def Let_def)
  have "valid (validateModelMappingJson (stringifyMapping ?m))"
    using printed_trimmed [of ?m]
    by (auto simp: validateModelMappingJson_def parse_stringify [OF dist] list_ex_iff jsonEntries_def)
  moreover have "valid (validateModelMappingJson [])" "documentMap [] = Map.empty"
    by (simp_all add: validateModelMappingJson_def documentMap_def trimUnits_def)
  ultimately show ?thesis
    using mapped documentMap_printed [OF dist] by (cases "?m = []") (simp_all add: result)
qed

section \<open>Properties\<close>

text \<open>
  C31. Merging pairs into a mapping document refines the update of a partial function: the
  merge fails exactly if the document is not valid, and otherwise the resulting document
  is valid, maps every request name of the pairs to its last upstream name and every other
  name as before; only the name \<open>__proto__\<close> is lost.
\<close>

theorem merge_refines_update:
  "case mergeModelMappingPairs current pairs of
     None \<Rightarrow> \<not> valid (validateModelMappingJson (trimUnits current))
   | Some result \<Rightarrow> valid (validateModelMappingJson (trimUnits current)) \<and> valid (validateModelMappingJson result) \<and>
       documentMap result = (documentMap current ++ pairsMap pairs) |` (- {protoKey})"
proof (cases "mergeModelMappingPairs current pairs")
  case None
  then show ?thesis
    by (auto simp: mergeModelMappingPairs_def Let_def currentMapping_None [symmetric] split: option.splits)
next
  case (Some result)
  then have "currentMapping current \<noteq> None" by (auto simp: mergeModelMappingPairs_def split: option.splits)
  with merge_update [OF Some] Some show ?thesis by (simp add: currentMapping_None)
qed

text \<open>
  C40. A derivation sorts every selected model, trimmed and without repetition, into exactly
  one of its three lists: the pairs have different request names and hold the name the rule
  derives, which is neither empty nor the model itself; the unchanged models are those for
  which it is one of these; a conflicting model is one whose request name a pair already has.
\<close>

theorem derivation_complete:
  "derivationOk dir rule (unique (filter (\<lambda>m. m \<noteq> []) (map trimUnits models)))
     (deriveModelMappingPairs models dir rule)"
  by (rule derivation_ok)

text \<open>
  Saving derived pairs takes effect: after the pairs of a derivation are merged into a
  document, every pair is in the document, except for the request name \<open>__proto__\<close>.
\<close>

theorem derived_pairs_saved:
  assumes "mergeModelMappingPairs current (dpairs (deriveModelMappingPairs models dir rule)) = Some result"
    and "p \<in> set (dpairs (deriveModelMappingPairs models dir rule))" "mfrom p \<noteq> protoKey"
  shows "documentMap result (mfrom p) = Some (mto p)"
proof -
  let ?ps = "dpairs (deriveModelMappingPairs models dir rule)"
  have "distinct (map mfrom ?ps)"
    using derivation_ok [of dir rule models] unfolding derivationOk_def by blast
  then have "distinct (map fst (rev (map (\<lambda>p. (mfrom p, mto p)) ?ps)))" by (simp add: rev_map [symmetric] o_def)
  then have "pairsMap ?ps (mfrom p) = Some (mto p)"
    using assms(2) by (auto simp: pairsMap_def intro!: map_of_is_SomeI)
  then show ?thesis using merge_update [OF assms(1)] assms(3) by (simp add: map_add_Some_iff)
qed

definition sampleDocument :: units where
  "sampleDocument = unitsOf ''{\"gpt\": \"a\", \"x\": \"b\"}''"

definition sampleDerivation :: derivation where
  "sampleDerivation = deriveModelMappingPairs [unitsOf ''v/gpt'', unitsOf '' v/m'', unitsOf ''gpt''] Upstream (StripPrefix (unitsOf ''w/, v/''))"

theorem derived_pairs_saved_witness:
  "\<exists>result. mergeModelMappingPairs sampleDocument (dpairs sampleDerivation) = Some result \<and>
     documentMap result (unitsOf ''gpt'') = Some (unitsOf ''v/gpt'')"
proof -
  let ?p = "\<lparr>mfrom = unitsOf ''gpt'', mto = unitsOf ''v/gpt''\<rparr>"
  have "mergeModelMappingPairs sampleDocument (dpairs sampleDerivation) \<noteq> None" by code_simp
  then obtain result where r: "mergeModelMappingPairs sampleDocument (dpairs sampleDerivation) = Some result" by blast
  have "?p \<in> set (dpairs sampleDerivation)" by code_simp
  moreover have "mfrom ?p \<noteq> protoKey" by (simp add: protoKey_def)
  ultimately show ?thesis
    using derived_pairs_saved [OF r [unfolded sampleDerivation_def], of ?p] r by (simp add: sampleDerivation_def)
qed

text \<open>
  The list of models survives its text form: formatting a list of trimmed, non-empty names
  without commas and parsing the text returns the list without repetitions.
\<close>

theorem models_roundtrip:
  assumes "\<forall>m\<in>set models. m \<noteq> [] \<and> trimUnits m = m \<and> 44 \<notin> set m"
  shows "parseModelsString (formatModelsArray models) = unique models"
proof (cases "unique models = []")
  case False
  have ms: "m \<in> set (unique models) \<Longrightarrow> m \<noteq> [] \<and> trimUnits m = m \<and> 44 \<notin> set m" for m
    using assms by simp
  have "joinWith [44] (unique models) \<noteq> []"
    using False ms [OF hd_in_set [OF False]] by (intro joinWith_nonempty) simp_all
  moreover have "map trimUnits (unique models) = unique models"
    using ms by (intro map_idI) simp
  ultimately show ?thesis
    using False ms by (simp add: parseModelsString_def formatModelsArray_def splitOn_joinWith filter_id_conv)
qed (simp add: parseModelsString_def formatModelsArray_def)

theorem models_roundtrip_witness:
  "parseModelsString (formatModelsArray [unitsOf ''gpt-4'', unitsOf ''m'', unitsOf ''gpt-4'']) = [unitsOf ''gpt-4'', unitsOf ''m'']"
proof -
  have "\<forall>m\<in>set [unitsOf ''gpt-4'', unitsOf ''m'', unitsOf ''gpt-4'']. m \<noteq> [] \<and> trimUnits m = m \<and> 44 \<notin> set m"
    by (simp add: trimUnits_def isSpaceUnit_def)
  from models_roundtrip [OF this] show ?thesis by (simp add: unique_def)
qed

text \<open>
  The editor's checks agree with the document: for a document that is an object, the
  missing models are exactly its trimmed non-empty request names that the list lacks, and
  after they are added nothing is missing any more; the exposed models are exactly the
  upstream names that the list has.
\<close>

theorem mapping_checks:
  assumes "mappingEntries text = Some es" "trimUnits text = text" "text \<noteq> []"
  shows "set (findMissingModelsInMapping text models) =
      set (extractMappingSourceModels text) - trimUnits ` set models \<and>
    findMissingModelsInMapping text (models @ findMissingModelsInMapping text models) = [] \<and>
    set (findExposedTargetModels text models) =
      set (extractRedirectModels text) \<inter> trimUnits ` set models"
proof -
  have missing: "set (findMissingModelsInMapping text ms) = set (extractMappingSourceModels text) - trimUnits ` set ms" for ms
    using assms by (auto simp: findMissingModelsInMapping_def extractMappingSourceModels_def normalizeModelName_def Let_def)
  have trimmed: "m \<in> set (extractMappingSourceModels text) \<Longrightarrow> trimUnits m = m" for m
    using assms by (auto simp: extractMappingSourceModels_def Let_def)
  have "m \<in> trimUnits ` set (models @ findMissingModelsInMapping text models)" if "m \<in> set (extractMappingSourceModels text)" for m
    using missing [of models] trimmed [OF that] that
    by (cases "m \<in> trimUnits ` set models") (simp_all add: image_Un image_iff [of m], metis DiffI image_iff)
  then have "set (findMissingModelsInMapping text (models @ findMissingModelsInMapping text models)) = {}"
    by (subst missing) blast
  then have "findMissingModelsInMapping text (models @ findMissingModelsInMapping text models) = []"
    by (rule set_empty [THEN iffD1])
  moreover have "r \<in> set (extractRedirectModels text) \<Longrightarrow> trimUnits r = r" for r
  proof -
    have "x \<in> set (redirectValue v) \<Longrightarrow> trimUnits x = x" for x v by (cases v) (auto split: if_splits)
    then show "r \<in> set (extractRedirectModels text) \<Longrightarrow> trimUnits r = r"
      using assms by (auto simp: extractRedirectModels_def Let_def)
  qed
  then have "set (findExposedTargetModels text models) = set (extractRedirectModels text) \<inter> trimUnits ` set models"
    by (auto simp: findExposedTargetModels_def normalizeModelName_def Let_def)
  ultimately show ?thesis using missing [of models] by blast
qed

theorem mapping_checks_witness:
  "findMissingModelsInMapping sampleDocument [unitsOf ''gpt'', unitsOf ''b''] = [unitsOf ''x''] \<and>
   findExposedTargetModels sampleDocument [unitsOf ''gpt'', unitsOf ''b''] = [unitsOf ''b''] \<and>
   findMissingModelsInMapping sampleDocument ([unitsOf ''gpt'', unitsOf ''b''] @
     findMissingModelsInMapping sampleDocument [unitsOf ''gpt'', unitsOf ''b'']) = []"
proof -
  have "mappingEntries sampleDocument \<noteq> None" by code_simp
  then obtain es where es: "mappingEntries sampleDocument = Some es" by blast
  have ok: "trimUnits sampleDocument = sampleDocument" "sampleDocument \<noteq> []" by code_simp+
  have "findMissingModelsInMapping sampleDocument [unitsOf ''gpt'', unitsOf ''b''] = [unitsOf ''x'']"
    "findExposedTargetModels sampleDocument [unitsOf ''gpt'', unitsOf ''b''] = [unitsOf ''b'']" by code_simp+
  with mapping_checks [OF es ok, of "[unitsOf ''gpt'', unitsOf ''b'']"] show ?thesis by blast
qed

end
