(* ===== verification/StatusGuard.thy ===== *)
theory StatusGuard
  imports ModelMapping
begin

text \<open>
  Model of \<open>features/channels/lib/status-code-risk-guard.ts\<close>: a channel may remap upstream
  status codes by a JSON object; the guard lists entries that are no status codes and
  entries that redirect a timeout, and of the latter those an edit has added.
\<close>

definition NON_REDIRECTABLE_STATUS_CODES :: "nat list" where
  "NON_REDIRECTABLE_STATUS_CODES = [504, 524]"

text \<open>\<open>/^[1-5]\d{2}$/\<close>.\<close>

definition isStatusText :: "units \<Rightarrow> bool" where
  "isStatusText s \<longleftrightarrow> (case s of [a, b, c] \<Rightarrow> 49 \<le> a \<and> a \<le> 53 \<and> isDigitUnit b \<and> isDigitUnit c | _ \<Rightarrow> False)"

definition parseStatusCodeKey :: "units \<Rightarrow> nat option" where
  "parseStatusCodeKey rawKey =
     (let normalized = trimUnits rawKey
      in if isStatusText normalized then Some (parseDigits normalized) else None)"

text \<open>An integer is a status code if it lies between 100 and 599.\<close>

definition codeOfNumber :: "jsnum \<Rightarrow> nat option" where
  "codeOfNumber x =
     (case x of
        Fin r \<Rightarrow> if r = of_int \<lfloor>r\<rfloor> \<and> 100 \<le> r \<and> r \<le> 599 then Some (nat \<lfloor>r\<rfloor>) else None
      | _ \<Rightarrow> None)"

definition parseStatusCodeMappingTarget :: "json \<Rightarrow> nat option" where
  "parseStatusCodeMappingTarget rawValue =
     (case rawValue of
        JsonNum x \<Rightarrow> codeOfNumber x
      | JsonStr s \<Rightarrow>
          (let normalized = trimUnits s
           in if \<not> isStatusText normalized then None
              else let n = parseDigits normalized in if 100 \<le> n \<and> n \<le> 599 then Some n else None)
      | _ \<Rightarrow> None)"

text \<open>The entries of a mapping; none for an empty, malformed or other document.\<close>

definition guardEntries :: "units option \<Rightarrow> (units \<times> json) list" where
  "guardEntries text =
     (case text of
        None \<Rightarrow> []
      | Some s \<Rightarrow>
          if trimUnits s = [] then [] else (case mappingEntries s of None \<Rightarrow> [] | Some es \<Rightarrow> es))"

definition isInvalidEntry :: "units \<times> json \<Rightarrow> bool" where
  "isInvalidEntry e \<longleftrightarrow> parseStatusCodeKey (fst e) = None \<or> parseStatusCodeMappingTarget (snd e) = None"

text \<open>The texts of the invalid entries; none if one of them throws.\<close>

definition collectInvalidStatusCodeEntries :: "units option \<Rightarrow> units list option" where
  "collectInvalidStatusCodeEntries text =
     those (map (\<lambda>e. map_option (\<lambda>v. fst e @ [32, 0x2192, 32] @ v) (jsonText (snd e)))
       (filter isInvalidEntry (guardEntries text)))"

definition redirectText :: "nat \<Rightarrow> nat \<Rightarrow> units" where
  "redirectText a b = codeText a @ unitsOf '' -> '' @ codeText b"

definition riskyMapping :: "units \<times> json \<Rightarrow> units list" where
  "riskyMapping e =
     (case (parseStatusCodeKey (fst e), parseStatusCodeMappingTarget (snd e)) of
        (Some a, Some b) \<Rightarrow>
          if a \<notin> set NON_REDIRECTABLE_STATUS_CODES then [] else if a = b then [] else [redirectText a b]
      | _ \<Rightarrow> [])"

definition collectDisallowedStatusCodeRedirects :: "units option \<Rightarrow> units list" where
  "collectDisallowedStatusCodeRedirects text = sort (unique (concat (map riskyMapping (guardEntries text))))"

definition collectNewDisallowedStatusCodeRedirects :: "units option \<Rightarrow> units option \<Rightarrow> units list" where
  "collectNewDisallowedStatusCodeRedirects original current =
     (let currentRisky = collectDisallowedStatusCodeRedirects current
      in if currentRisky = [] then []
         else let originalRisky = unique (collectDisallowedStatusCodeRedirects original)
              in filter (\<lambda>m. m \<notin> set originalRisky) currentRisky)"

section \<open>Properties\<close>

lemma statusText_code:
  assumes "isStatusText s"
  shows "100 \<le> parseDigits s \<and> parseDigits s \<le> 599"
  using assms by (auto simp: isStatusText_def isDigitUnit_def parseDigits_def split: list.splits)

lemma target_code: "parseStatusCodeMappingTarget v = Some n \<Longrightarrow> 100 \<le> n \<and> n \<le> 599"
  by (auto simp: parseStatusCodeMappingTarget_def codeOfNumber_def Let_def le_floor_iff floor_le_iff
      split: json.splits jsnum.splits if_splits)

text \<open>The redirects of a document from one code to another, as the guard reads them.\<close>

definition redirects :: "units option \<Rightarrow> (nat \<times> nat) set" where
  "redirects text = {(a, b). \<exists>k v. (k, v) \<in> set (guardEntries text) \<and>
     parseStatusCodeKey k = Some a \<and> parseStatusCodeMappingTarget v = Some b}"

lemma riskyMapping_iff:
  "x \<in> set (riskyMapping (k, v)) \<longleftrightarrow>
   (\<exists>a b. parseStatusCodeKey k = Some a \<and> parseStatusCodeMappingTarget v = Some b \<and>
      a \<in> {504, 524} \<and> a \<noteq> b \<and> x = redirectText a b)"
  by (cases "parseStatusCodeKey k"; cases "parseStatusCodeMappingTarget v")
    (auto simp: riskyMapping_def NON_REDIRECTABLE_STATUS_CODES_def)

lemma disallowed_set:
  "set (collectDisallowedStatusCodeRedirects text) =
   {redirectText a b | a b. (a, b) \<in> redirects text \<and> a \<in> {504, 524} \<and> a \<noteq> b}"
  by (auto simp: collectDisallowedStatusCodeRedirects_def redirects_def riskyMapping_iff) blast+

text \<open>
  The guard warns about exactly the new risky redirects: its warnings are sorted and
  without repetition, and a warning names a redirect of a timeout code to another code that
  the edited document has and the original one has not.
\<close>

theorem new_redirects_exact:
  "set (collectNewDisallowedStatusCodeRedirects original current) =
     {redirectText a b | a b. (a, b) \<in> redirects current \<and> a \<in> {504, 524} \<and> a \<noteq> b} -
     {redirectText a b | a b. (a, b) \<in> redirects original \<and> a \<in> {504, 524} \<and> a \<noteq> b} \<and>
   sorted (collectNewDisallowedStatusCodeRedirects original current) \<and>
   distinct (collectNewDisallowedStatusCodeRedirects original current)"
proof -
  have "sorted (collectDisallowedStatusCodeRedirects t) \<and> distinct (collectDisallowedStatusCodeRedirects t)" for t
    by (simp add: collectDisallowedStatusCodeRedirects_def)
  moreover have "collectNewDisallowedStatusCodeRedirects original current =
      filter (\<lambda>m. m \<notin> set (collectDisallowedStatusCodeRedirects original)) (collectDisallowedStatusCodeRedirects current)"
    by (simp add: collectNewDisallowedStatusCodeRedirects_def Let_def)
  ultimately show ?thesis unfolding disallowed_set [symmetric] by (auto simp: sorted_wrt_filter)
qed

text \<open>
  A document without invalid entries maps status codes to status codes: if the check
  reports nothing then every key and every target is a code between 100 and 599.
\<close>

theorem no_invalid_entries:
  assumes "collectInvalidStatusCodeEntries text = Some []" "(k, v) \<in> set (guardEntries text)"
  shows "\<exists>a b. parseStatusCodeKey k = Some a \<and> parseStatusCodeMappingTarget v = Some b \<and>
    a \<in> {100..599} \<and> b \<in> {100..599}"
proof -
  have "those (map f xs) = Some [] \<Longrightarrow> xs = []" for f :: "units \<times> json \<Rightarrow> units option" and xs
    by (cases xs) (auto split: option.splits)
  then have "filter isInvalidEntry (guardEntries text) = []"
    using assms(1) by (simp add: collectInvalidStatusCodeEntries_def)
  then have "\<not> isInvalidEntry (k, v)" using assms(2) by (auto simp: filter_empty_conv)
  then obtain a b where ab: "parseStatusCodeKey k = Some a" "parseStatusCodeMappingTarget v = Some b"
    by (auto simp: isInvalidEntry_def)
  moreover have "a \<in> {100..599}"
    using ab(1) statusText_code [of "trimUnits k"] by (auto simp: parseStatusCodeKey_def Let_def split: if_splits)
  ultimately show ?thesis using target_code [OF ab(2)] by auto
qed

definition guardDocument :: units where
  "guardDocument = unitsOf ''{\"504\": \"200\", \"429\": 503}''"

theorem no_invalid_entries_witness:
  "\<exists>k v. (k, v) \<in> set (guardEntries (Some guardDocument)) \<and>
     (\<exists>a b. parseStatusCodeKey k = Some a \<and> parseStatusCodeMappingTarget v = Some b \<and>
        a \<in> {100..599} \<and> b \<in> {100..599})"
proof -
  have "collectInvalidStatusCodeEntries (Some guardDocument) = Some []" by code_simp
  moreover have "guardEntries (Some guardDocument) \<noteq> []" by code_simp
  then obtain k v where kv: "(k, v) \<in> set (guardEntries (Some guardDocument))"
    by (cases "guardEntries (Some guardDocument)") auto
  ultimately show ?thesis using no_invalid_entries kv by blast
qed

end
