(* ===== verification/Spec2Isabelle.thy ===== *)
theory Spec2Isabelle
  imports BxPricing BxSound BxSimulation BxTaskDisplayFacts BxStructure
    BxVisualEdits BxConditionDisplay BxRulesRead BxTaskMatrix BxTierExprFacts StatusRules StatusGuard
begin

text \<open>
  The repository is an AI gateway with a Go back end and a web front end. Prices of models are
  written in a small expression language; the front end compiles and simulates these
  expressions, shows them as price tables and edits them, and the channel editor checks model
  mappings and status code rules. This development models that part of the front end,
  \<open>src/web/src\<close>, and proves it correct. All paths below are relative to \<open>src/web/src\<close>; the
  directory \<open>features/pricing/lib/billing-expression\<close> is abbreviated \<open>bx\<close>.

  \<^bold>\<open>The parts and how they interact.\<close> A source text is compiled (\<open>bx/parser.ts\<close>): a lexer and a
  precedence-climbing parser build a tree with source spans (\<open>bx/types.ts\<close>), a pass computes
  types, a traversal collects variables, functions and request rules, and a shape check guards
  fixed prices. Results are kept in a module-level cache of 128 entries. The interpreter
  (\<open>bx/runtime.ts\<close>) evaluates a compiled tree against a simulated request: token counts, request
  body and headers, usage facts and the clock. Three readers turn the tree back into something
  to look at: price tables (\<open>bx/display.ts\<close>), conditional task tables (\<open>bx/task-display.ts\<close>) and
  readable conditions (\<open>bx/condition-display.ts\<close>). The visual editor (\<open>bx/visual.ts\<close>) reads the
  tree into a document and writes it back by patching the source; \<open>bx/structure.ts\<close> splits
  sources without parsing them. On top of these, \<open>features/pricing/lib/billing-expr.ts\<close> turns
  the tables into rows and edits request rules: it splits an expression into base price and
  rules, reads the rules into groups of conditions and writes them back;
  \<open>features/pricing/lib/task-expr.ts\<close> edits and previews the prices of tasks,
  \<open>task-matrix-display.ts\<close> and \<open>breakdown-tier-match.ts\<close> beside it show them and mark the row that a
  request has hit, and \<open>tier-expr.ts\<close> writes and reads token tiers as text and estimates
  costs. Beside this stand the channel helpers
  \<open>lib/http-status-code-rules.ts\<close>, \<open>features/channels/lib/model-mapping-validation.ts\<close>,
  \<open>model-mapping-rules.ts\<close>, \<open>status-code-risk-guard.ts\<close> and the language codes of
  \<open>i18n/languages.ts\<close>.

  \<^bold>\<open>The theories.\<close>
  \<^item> \<open>Prelude\<close>: results \<open>'e + 'a\<close> for code that may throw, computations with state and
    exceptions, a small calculus for them (\<open>triple\<close> for invariants, \<open>inStep\<close> for simulations),
    list functions, powers of two.
  \<^item> \<open>JsNumber\<close>, \<open>JsString\<close>, \<open>JsDecimal\<close>, \<open>JsUnits\<close>, \<open>Json\<close>: what the source uses of the language.
    Numbers are IEEE doubles: a finite value is a rational, each operation rounds the exact
    result once. \<open>JsDecimal\<close> proves that the shortest decimal text of a double reads back.
    Strings of the expression language are lists of the code units U+0000 to U+00FF; the
    channel helpers use lists of UTF-16 code units. \<open>Json\<close> has \<open>JSON.parse\<close>, \<open>JSON.stringify\<close>
    and the property order of objects.
  \<^item> \<open>BxTypes\<close>: vocabulary, trees, diagnostics, \<open>visitExpression\<close> (proved to be the post-order
    fold), from \<open>bx/types.ts\<close>. \<open>BxLexer\<close>, \<open>BxParser\<close>, \<open>BxCheck\<close>, \<open>BxCompile\<close>: the class
    \<open>BillingParser\<close> (its fields are the record \<open>parser\<close>), \<open>checkExpressionTypes\<close>,
    \<open>compileBillingExpression\<close> and its cache, from \<open>bx/parser.ts\<close>. The declarative typing relation
    is \<open>hasType\<close>.
  \<^item> \<open>BxRequest\<close>, \<open>BxTime\<close>, \<open>BxRuntime\<close>: request paths, value texts, zone times and the class
    \<open>BillingRuntime\<close> (its fields are the record \<open>runtime\<close>) with both entry points, from
    \<open>bx/runtime.ts\<close>.
  \<^item> \<open>Memo\<close>, \<open>BxContract\<close>, \<open>BxSafety\<close>, \<open>BxSimulation\<close>: the interfaces. \<open>memo\<close> and \<open>bounded_memo\<close> say
    what a table must promise so that memoisation cannot be observed; the compiler cache and
    the cache of zone times are their instances. \<open>eval_contract\<close> says which obligations an
    invariant of the interpreter has, one per operation; its six interpretations give the
    nesting counter, the kinds of exception, the reported rules, the markers of fixed prices,
    the unit of a price and the zone cache. \<open>eval_simulation\<close> does the same for two evaluations
    that run in step.
  \<^item> \<open>BxPricing\<close>, \<open>BxSound\<close>: fixed prices stay non-negative; types are sound; integers are exact.
  \<^item> \<open>BxDisplay\<close>, \<open>BxDisplayFacts\<close>, \<open>BxTaskFacts\<close> (\<open>bx/display.ts\<close>), \<open>BxTaskDisplay\<close>,
    \<open>BxTaskDisplayFacts\<close> (\<open>bx/task-display.ts\<close>): the tables, and that the row shown is the row
    billed. The reference for conditional tables (\<open>priceWhen\<close>, \<open>timeFormula\<close>) computes the price on
    the tree and knows time conditions as formulas; the texts of the rows are texts of formulas
    under which exactly the right rows apply.
  \<^item> \<open>BxConditionDisplay\<close> (\<open>bx/condition-display.ts\<close>) and \<open>Languages\<close> (\<open>i18n/languages.ts\<close>): the
    texts of conditions, and that a displayed time range is exact.
  \<^item> \<open>BxVisual\<close>, \<open>BxVisualFacts\<close>, \<open>BxVisualEdits\<close> (\<open>bx/visual.ts\<close>): the document, that opening and
    saving is lossless, that what is saved compiles and that editing a price is local.
  \<^item> \<open>BxStructure\<close> (\<open>bx/structure.ts\<close>): splitting loses no text and ends.
  \<^item> \<open>BxRules\<close>, \<open>BxRulesText\<close>, \<open>BxRulesFacts\<close>, \<open>BxRulesExact\<close>, \<open>BxRulesRead\<close>
    (\<open>features/pricing/lib/billing-expr.ts\<close>): the adapters and the request rule editor. The regular expressions are matchers, functions
    from a text to the captured groups and the rest. The interface \<open>separator\<close> says what an
    operator must satisfy for splitting to take a join apart again; its instances are the product
    and the conjunction. For rules of every kind the editor offers it is stated exactly what is
    read back of the text written for them: guarded conditions and some texts with a disjunction
    are not read, adjacent bounds come back as one range, all else comes back as it was. An
    expression combined with rules that come back unchanged is split into the same parts, and what
    rewriting loses of rules that were read is stated exactly.
  \<^item> \<open>BxTaskExpr\<close>, \<open>BxTaskExprFacts\<close> (\<open>features/pricing/lib/task-expr.ts\<close>): the editors of task
    prices, as a list of tiers and as a matrix over the enumerated facts. The matrix has one row
    for each combination, survives its form as tiers, and the preview bills the row a sample
    belongs to; normalising a configuration gives usable tiers and is idempotent.
    \<open>BxTaskMatrix\<close> (\<open>task-matrix-display.ts\<close>, \<open>breakdown-tier-match.ts\<close>): the table shows the prices of
    the tiers, and a settled request hits at most one row of a matrix.
  \<^item> \<open>BxTierExpr\<close>, \<open>BxTierExprFacts\<close> (\<open>features/pricing/lib/tier-expr.ts\<close>): token tiers as text and the
    estimator. The patterns backtrack, so a matcher returns all its matches in order; the first
    match of what is written is what was written.
  \<^item> \<open>StatusRules\<close>, \<open>StatusGuard\<close>, \<open>ModelMapping\<close>: the channel helpers.
  \<^item> This theory: what one call of \<open>evaluateBillingExpression\<close> guarantees, across all of it, and on
    which counts an estimate depends.

  \<^bold>\<open>How code becomes definitions.\<close> A function that may throw returns \<open>bx\<close>, a sum of the exception
  and the value; a missing element that would be dereferenced is the exception \<open>TypeError\<close>.
  State that survives calls is passed along: the compiler cache, the fields of the parser and
  of the interpreter, the counter of the visual editor, the list of issues. Object identity of
  syntax nodes is equality, because spans identify the nodes of one tree (\<open>span_identity\<close>).
  Mutation of arrays and maps is a new list; insertion order is kept where the code iterates,
  and the order of keys that are array indices where the order of entries is used (\<open>entriesOrder\<close>).
  The unit prices of a displayed task row are the exception: they keep insertion order, and no
  property depends on their order.

  \<^bold>\<open>Fuel and bounds.\<close> The parser and \<open>JSON.parse\<close> recurse with fuel; the fuel is linear in the
  length of the text and is proved never to run out (\<open>parse_terminates\<close>, \<open>parseJson_fuel\<close>). The
  search for the shortest digits of a number tries up to seventeen, which is proved enough
  (\<open>seventeen\<close>). \<open>splitExpressionAtTopLevel\<close> does not return on an empty operator and is a
  partial function; it is proved to return on every other. All other functions are total.

  \<^bold>\<open>Parameters.\<close> The internationalisation API (zone names, zoned times, weekday names, number
  texts, canonical locales, the collation \<open>localeCompare\<close>), the clock and the translation
  function are arguments. Only
  \<open>toIntlLocale_tag\<close> assumes something about one: canonical tags are not the project's own codes.

  \<^bold>\<open>Not modelled.\<close> Code units above U+00FF in an expression; the helpers that
  format prices for a currency and filter lists of models; React components, hooks, stores and routes, which are input and output; the
  generated route tree and translations; the task plugins; the Go back end.
\<close>

section \<open>From a source to a cost\<close>

lemma evaluateCompiled_Success:
  "evaluateCompiled h k ctx = Success r \<longleftrightarrow> (\<exists>c. k = Ready c \<and> evaluationBody h c ctx = Inr r)"
  by (auto simp: evaluateCompiled_def split: compilationResult.splits sum.splits)

lemma evaluate_expression_compiled:
  "compiler_cache.reachable cache \<Longrightarrow>
   fst (evaluateBillingExpression h src ctx cache) = evaluateCompiled h (compileFresh src) ctx"
  using cache_call [of cache src]
  by (cases "compileBillingExpression src cache") (simp add: evaluateBillingExpression_def)

text \<open>What the rules of a result owe to the rules of the compiled expression.\<close>

definition rulesReported :: "requestRule list \<Rightarrow> billingRule list \<Rightarrow> bool" where
  "rulesReported rules reported \<longleftrightarrow>
     list_all2 (\<lambda>r b. bcond b = rcond r \<and> bmultiplier b = rmultiplier r) rules reported"

lemma rulesReported_run:
  assumes "compiledOk c" "newRuntime c ctx = Inr s"
    "evaluate E (cast c) s = Inr (r, s')"
  shows "rulesReported (crules c) (requestRules s')"
proof -
  have "rulesExtend (requestRules s) (requestRules s')"
    using rules.evaluate_returns [where d = 0 and lim = "Suc (height (cast c))", OF astOk_arityOk _ _ _ assms(3)]
      assms(1) by (simp add: compiledOk_def)
  moreover have "requestRules s = map (\<lambda>r. \<lparr>bcond = rcond r, bmultiplier = rmultiplier r, bmatched = False\<rparr>) (crules c)"
    using assms(2) by (auto simp: newRuntime_def rbind_eq_Inr_iff)
  ultimately show ?thesis
    by (auto simp: rulesExtend_def rulesReported_def list_all2_conv_all_nth)
qed

lemma unit_run:
  assumes "compiledOk c" "newRuntime c ctx = Inr s" "evaluate E (cast c) s = Inr (r, s')"
  shows "(billingUnit s' = URequest \<longleftrightarrow> fixedPrice s' \<noteq> None) \<and>
    (callsOf (cast c) \<inter> {''tier'', ''fixed''} = {} \<longrightarrow> matchedTier s' = [] \<and> fixedPrice s' = None)"
proof -
  have s: "unitAgrees s" "marksOf s = ([], UToken, None)"
    using assms(2) by (auto simp: newRuntime_def rbind_eq_Inr_iff unitAgrees_def marksOf_def)
  have ok: "arityOk (cast c)" using assms(1) astOk_arityOk by (simp add: compiledOk_def)
  have "unitAgrees s'"
    using unit_price.evaluate_returns [where d = 0 and lim = "Suc (height (cast c))", OF ok _ _ s(1) assms(3)]
    by simp
  with evaluate_marks [OF ok _ assms(3)] s(2) show ?thesis by (auto simp: unitAgrees_def marksOf_def)
qed

section \<open>Properties\<close>

text \<open>
  C1. A reported cost is sound: whatever was compiled before, if evaluating a source in a context
  succeeds then the source compiles, the cost is a finite non-negative number, the rules
  reported are those of the compiled expression with their conditions and multipliers in
  order, the billing unit is the request exactly when a fixed price is reported, and an
  expression without \<open>tier\<close> and \<open>fixed\<close> reports neither a tier nor a fixed price.
\<close>

theorem evaluation_success:
  assumes "compiler_cache.reachable cache"
    and "fst (evaluateBillingExpression h src ctx cache) = Success r"
  shows "\<exists>c. compileFresh src = Ready c \<and> isFinite (cost r) \<and> nonNeg (cost r) \<and>
    rulesReported (crules c) (eRules r) \<and>
    (eunit r = URequest \<longleftrightarrow> eFixedPrice r \<noteq> None) \<and>
    (callsOf (cast c) \<inter> {''tier'', ''fixed''} = {} \<longrightarrow> eTier r = [] \<and> eFixedPrice r = None)"
proof -
  obtain c where c: "compileFresh src = Ready c" "evaluationBody h c ctx = Inr r"
    using assms by (auto simp: evaluate_expression_compiled evaluateCompiled_Success)
  have ok: "compiledOk c" using c(1) compileBody_ok by (simp add: compileFresh_Ready)
  obtain s v i s' where run: "newRuntime c ctx = Inr s"
    "evaluate \<lparr>shost = h, scompiled = c, scontext = ctx\<rparr> (cast c) s = Inr ((v, i), s')"
    "resultCost v = Inr (cost r)" "eunit r = billingUnit s'" "eFixedPrice r = fixedPrice s'"
    "eTier r = matchedTier s'" "eRules r = requestRules s'"
    using c(2) by (rule evaluationBody_run)
  have "isFinite (cost r)" "nonNeg (cost r)"
    using run(3) by (auto simp: resultCost_def nonNeg_iff not_less split: jsval.splits if_splits
        elim: isFinite.elims)
  with c(1) run(4-7) rulesReported_run [OF ok run(1,2)] unit_run [OF ok run(1,2)] show ?thesis by simp
qed

theorem evaluation_success_witness:
  "\<exists>c. compileFresh sampleSource = Ready c \<and> isFinite (cost sampleResult) \<and> nonNeg (cost sampleResult) \<and>
    rulesReported (crules c) (eRules sampleResult) \<and>
    (eunit sampleResult = URequest \<longleftrightarrow> eFixedPrice sampleResult \<noteq> None) \<and>
    (callsOf (cast c) \<inter> {''tier'', ''fixed''} = {} \<longrightarrow>
      eTier sampleResult = [] \<and> eFixedPrice sampleResult = None)"
  by (rule evaluation_success [OF compiler_cache.reachable.start sample_evaluates])

lemma isDiagnostic_diag [simp]: "isDiagnostic (diag k d)" "isDiagnostic (diagAt k d i)"
  by (simp_all add: isDiagnostic_def diag_def diagAt_def)

lemma checkTokens_diagnostic: "foldBx checkToken ts () = Inl e \<Longrightarrow> isDiagnostic e"
  by (induction ts) (auto simp: checkToken_def rbind_eq_Inl_iff split: jsval.splits if_splits)

lemma storeHeader_diagnostic: "storeHeader h hs = Inl e \<Longrightarrow> isDiagnostic e"
  by (cases "(h, hs)" rule: storeHeader.cases) (auto simp: Let_def split: if_splits)

lemma storeHeaders_diagnostic: "foldBx storeHeader ts hs = Inl e \<Longrightarrow> isDiagnostic e"
  by (induction ts arbitrary: hs) (auto simp: rbind_eq_Inl_iff dest: storeHeader_diagnostic)

text \<open>
  C22. Evaluating a compiled expression fails only with the module's own diagnostics: no
  JavaScript error (a field of a missing argument, for instance) can reach the \<open>catch\<close> block,
  which would report it as a syntax error.
\<close>

theorem evaluation_diagnostics:
  assumes "compiledOk c" "evaluationBody h c ctx = Inl e"
  shows "isDiagnostic e"
proof -
  have ok: "arityOk (cast c)" using assms(1) astOk_arityOk by (simp add: compiledOk_def)
  have eval: "isDiagnostic e" if "evaluate E (cast c) s = Inl e" for E s
    using errors.evaluate_throws [where d = 0 and lim = "Suc (height (cast c))", OF ok _ _ _ that] by simp
  have "resultCost v = Inl e \<Longrightarrow> isDiagnostic e" for v
    by (auto simp: resultCost_def split: jsval.splits if_splits)
  with assms(2) show ?thesis
    by (auto simp: evaluationBody_def newRuntime_def rbind_eq_Inl_iff
        dest: checkTokens_diagnostic storeHeaders_diagnostic eval)
qed

theorem evaluation_diagnostics_witness:
  "\<exists>c e. compileFresh ''p'' = Ready c \<and> evaluationBody sampleHost c emptyContext = Inl e \<and> isDiagnostic e"
proof -
  have "case compileBody ''p'' of
      Inl _ \<Rightarrow> False | Inr c \<Rightarrow> \<not> isOk (evaluationBody sampleHost c emptyContext)" by code_simp
  then obtain c where c: "compileBody ''p'' = Inr c" "\<not> isOk (evaluationBody sampleHost c emptyContext)"
    by (auto split: sum.splits)
  then obtain e where "evaluationBody sampleHost c emptyContext = Inl e"
    by (cases "evaluationBody sampleHost c emptyContext") auto
  with evaluation_diagnostics [OF conjunct1 [OF compileBody_ok [OF c(1)]] this] c(1) show ?thesis
    by (auto simp: compileFresh_Ready)
qed

section \<open>The estimator\<close>

definition acceptedTokens :: "(string \<times> jsnum) list \<Rightarrow> bool" where
  "acceptedTokens ts \<longleftrightarrow> list_all (\<lambda>(_, x). isFinite x \<and> \<not> js_lt x (Fin 0)) ts"

lemma acceptedTokens_check:
  "acceptedTokens ts \<Longrightarrow> isOk (foldBx checkToken (map (\<lambda>(v, x). (v, JNum x)) ts) ())"
  by (induction ts) (auto simp: acceptedTokens_def checkToken_def)

abbreviation estimateContext :: "(string \<times> jsnum) list \<Rightarrow> simulationContext" where
  "estimateContext ts \<equiv> emptyContext\<lparr>xTokens := Some (map (\<lambda>(v, x). (v, JNum x)) ts)\<rparr>"

lemma estimate_agree:
  assumes "x \<notin> insert ''len'' (fst ` set ESTIMATOR_VARS)"
  shows "tokenOf (estimateContext (buildEstimatorTokens pt ct extra)) x =
    tokenOf (estimateContext (buildEstimatorTokens pt ct extra')) x"
  using assms by (auto simp: tokenOf_def buildEstimatorTokens_def ESTIMATOR_VARS_def)

lemma estimate_of_result:
  assumes "compiler_cache.reachable cache" "trim e \<noteq> []"
    "evaluateCompiled h (compileFresh e) (estimateContext (buildEstimatorTokens pt ct extra)) =
     evaluateCompiled h (compileFresh e) (estimateContext (buildEstimatorTokens pt ct extra'))"
  shows "fst (evalExprLocally h e pt ct extra None cache) = fst (evalExprLocally h e pt ct extra' None cache)"
proof -
  have eval: "fst (evaluateBillingExpression h e (estimateContext (buildEstimatorTokens pt ct extra)) cache) =
      fst (evaluateBillingExpression h e (estimateContext (buildEstimatorTokens pt ct extra')) cache)"
    using evaluate_expression_compiled [OF assms(1)] assms(3) by simp
  have *: "xTokens emptyContext = None" by (simp add: emptyContext_def)
  from eval show ?thesis using assms(2)
    by (auto simp: evalExprLocally_def Let_def * split: prod.splits evaluationResult.splits)
qed

text \<open>
  C38. An estimate depends only on the counts that are asked for: when \<open>exprUsesExtraVars\<close> reports no
  extra variable and the expression does not mention \<open>len\<close>, into which the extra counts are
  summed, all accepted extra counts give the same estimate.
\<close>

theorem estimate_ignores_unused:
  assumes "compiler_cache.reachable cache" "compileFresh e = Ready c" "\<not> fst (exprUsesExtraVars e cache)"
    "''len'' \<notin> set (cvariables c)"
    "acceptedTokens (buildEstimatorTokens pt ct extra)" "acceptedTokens (buildEstimatorTokens pt ct extra')"
  shows "fst (evalExprLocally h e pt ct extra None cache) = fst (evalExprLocally h e pt ct extra' None cache)"
proof (cases "trim e = []")
  case False
  let ?ctx = "\<lambda>extra. estimateContext (buildEstimatorTokens pt ct extra)"
  have body: "compileBody e = Inr c" using assms(2) by (simp add: compileFresh_Ready)
  have "e \<noteq> []" using False by (auto simp: trim_def trimEnd_def trimStart_def)
  then have "\<not> list_ex (\<lambda>(v, _). v \<in> set (cvariables c)) ESTIMATOR_VARS"
    using assms(2,3) cache_call [OF assms(1), of e]
    by (cases "compileBillingExpression e cache") (auto simp: exprUsesExtraVars_def)
  then have "x \<notin> insert ''len'' (fst ` set ESTIMATOR_VARS)" if "x \<in> varsOf (cast c)" for x
    using that assms(4) compileBody_ok [OF body] by (auto simp: list_ex_iff compiledOk_def)
  then have agree: "agreeOn (cast c) (?ctx extra) (?ctx extra')"
    using estimate_agree [of _ pt ct extra extra'] by (auto simp: agreeOn_def)
  have "evaluationBody h c (?ctx extra) = evaluationBody h c (?ctx extra')"
  proof (rule evaluationBody_agree [OF _ agree])
    show "compiledOk c" using compileBody_ok [OF body] by simp
    show "newRuntime c (?ctx extra) = Inr (newState c)" "newRuntime c (?ctx extra') = Inr (newState c)"
      by (simp_all add: newRuntime_def contextHeaders_def emptyContext_def newState_def)
  qed (use acceptedTokens_check assms(5,6) in simp_all)
  then show ?thesis using False assms(2)
    by (intro estimate_of_result [OF assms(1)]) (simp_all add: evaluateCompiled_def)
qed (simp add: evalExprLocally_def)

lemma estimate_sample:
  "case compileBody ''p * 2'' of Inl _ \<Rightarrow> False | Inr c \<Rightarrow> ''len'' \<notin> set (cvariables c)"
  "\<not> fst (exprUsesExtraVars ''p * 2'' [])"
  "acceptedTokens (buildEstimatorTokens (Fin 100) (Fin 7) (\<lambda>_. Fin 0))"
  "acceptedTokens (buildEstimatorTokens (Fin 100) (Fin 7) (\<lambda>_. Fin 30))"
  by code_simp+

theorem estimate_ignores_unused_witness:
  "fst (evalExprLocally sampleHost ''p * 2'' (Fin 100) (Fin 7) (\<lambda>_. Fin 0) None []) =
   fst (evalExprLocally sampleHost ''p * 2'' (Fin 100) (Fin 7) (\<lambda>_. Fin 30) None [])"
proof -
  obtain c where c: "compileFresh ''p * 2'' = Ready c" "''len'' \<notin> set (cvariables c)"
    using estimate_sample(1) by (auto simp: compileFresh_Ready split: sum.splits)
  show ?thesis
    by (rule estimate_ignores_unused [OF compiler_cache.reachable.start c(1) estimate_sample(2) c(2) estimate_sample(3,4)])
qed

end
